(* ===== verification/Prelude.thy ===== *)
theory Prelude imports Main "HOL-Library.Word" begin

text \<open>
  Shared vocabulary of the development: the faults of the C++ program (a failing assert, an
  unreachable branch, a bad cast, a null dereference), results that are either a fault or a value,
  the sequencing of such results, and the generic facts every component uses.

  The program is compiled with assertions; a violated assertion, \<open>llvm_unreachable\<close>, a failing
  \<open>llvm::cast\<close> and a dereferenced null pointer all end the compiler, and are values of
  \<open>fault\<close> here, so that every such branch is visible in the model.
\<close>

named_theorems res_simps \<open>equations of the result type\<close>

datatype fault =
    AssertFailed string
  | Unreachable string
  | BadCast
  | NullDeref
  | OutOfBounds
  | OutOfFuel

type_synonym 'a res = "fault + 'a"

definition bindE :: "'a res \<Rightarrow> ('a \<Rightarrow> 'b res) \<Rightarrow> 'b res" where
  "bindE m f = (case m of Inl e \<Rightarrow> Inl e | Inr x \<Rightarrow> f x)"

definition assertE :: "bool \<Rightarrow> string \<Rightarrow> unit res" where
  "assertE b msg = (if b then Inr () else Inl (AssertFailed msg))"

lemma bindE_Inl [simp, res_simps]: "bindE (Inl e) f = Inl e"
  by (simp add: bindE_def)

lemma bindE_Inr [simp, res_simps]: "bindE (Inr x) f = f x"
  by (simp add: bindE_def)

lemma bindE_eq_Inr: "bindE m f = Inr y \<longleftrightarrow> (\<exists>x. m = Inr x \<and> f x = Inr y)"
  by (cases m) simp_all

lemma bindE_eq_Inl: "bindE m f = Inl e \<longleftrightarrow> m = Inl e \<or> (\<exists>x. m = Inr x \<and> f x = Inl e)"
  by (cases m) simp_all

lemma bindE_InrE [elim]:
  assumes "bindE m f = Inr y"
  obtains x where "m = Inr x" and "f x = Inr y"
  using assms by (auto simp: bindE_eq_Inr)

lemma bindE_cong [fundef_cong]:
  assumes "m = m'" and "\<And>x. m' = Inr x \<Longrightarrow> f x = g x"
  shows "bindE m f = bindE m' g"
  using assms by (cases m') simp_all

lemma bindE_assoc: "bindE (bindE m f) g = bindE m (\<lambda>x. bindE (f x) g)"
  by (cases m) simp_all

lemma bindE_return: "bindE m Inr = m"
  by (cases m) simp_all

lemma assertE_True [simp, res_simps]: "assertE True msg = Inr ()"
  by (simp add: assertE_def)

lemma assertE_False [simp, res_simps]: "assertE False msg = Inl (AssertFailed msg)"
  by (simp add: assertE_def)

lemma assertE_eq_Inr [simp]: "assertE b msg = Inr u \<longleftrightarrow> b"
  by (simp add: assertE_def)

section \<open>Weakest preconditions of results\<close>

text \<open>
  \<open>wpE E m Q\<close>: if \<open>m\<close> is a value it satisfies \<open>Q\<close>, if it is a fault the fault satisfies \<open>E\<close>. With
  \<open>E = (\<lambda>_. False)\<close> this is total correctness, with \<open>E = (\<lambda>_. True)\<close> partial correctness.
\<close>

definition wpE :: "(fault \<Rightarrow> bool) \<Rightarrow> 'a res \<Rightarrow> ('a \<Rightarrow> bool) \<Rightarrow> bool" where
  "wpE E m Q \<longleftrightarrow> (case m of Inl e \<Rightarrow> E e | Inr x \<Rightarrow> Q x)"

lemma wpE_Inl [simp]: "wpE E (Inl e) Q \<longleftrightarrow> E e"
  by (simp add: wpE_def)

lemma wpE_Inr [simp]: "wpE E (Inr x) Q \<longleftrightarrow> Q x"
  by (simp add: wpE_def)

lemma wpE_bindE [simp]: "wpE E (bindE m f) Q \<longleftrightarrow> wpE E m (\<lambda>x. wpE E (f x) Q)"
  by (cases m) simp_all

lemma wpE_assertE [simp]: "wpE E (assertE b msg) Q \<longleftrightarrow> (if b then Q () else E (AssertFailed msg))"
  by simp

lemma wpE_if [simp]: "wpE E (if b then m else n) Q \<longleftrightarrow> (if b then wpE E m Q else wpE E n Q)"
  by simp

lemma wpE_conseq: "wpE E m P \<Longrightarrow> (\<And>x. P x \<Longrightarrow> Q x) \<Longrightarrow> (\<And>e. E e \<Longrightarrow> F e) \<Longrightarrow> wpE F m Q"
  by (cases m) simp_all

lemma wpE_post: "wpE E m P \<Longrightarrow> (\<And>x. P x \<Longrightarrow> Q x) \<Longrightarrow> wpE E m Q"
  by (erule wpE_conseq)

lemma wpE_total: "wpE (\<lambda>_. False) m Q \<longleftrightarrow> (\<exists>x. m = Inr x \<and> Q x)"
  by (cases m) simp_all

lemma wpE_partial: "wpE (\<lambda>_. True) m Q \<longleftrightarrow> (\<forall>x. m = Inr x \<longrightarrow> Q x)"
  by (cases m) simp_all

section \<open>Sequencing over lists\<close>

text \<open>Sequencing over a list, stopping at the first fault.\<close>

fun mapE :: "('a \<Rightarrow> 'b res) \<Rightarrow> 'a list \<Rightarrow> 'b list res" where
  "mapE f [] = Inr []"
| "mapE f (x # xs) = bindE (f x) (\<lambda>y. bindE (mapE f xs) (\<lambda>ys. Inr (y # ys)))"

lemma mapE_cong [fundef_cong]:
  assumes "xs = ys" and "\<And>x. x \<in> set ys \<Longrightarrow> f x = g x"
  shows "mapE f xs = mapE g ys"
proof -
  have "mapE f ys = mapE g ys" using assms(2) by (induction ys) simp_all
  with assms(1) show ?thesis by simp
qed

text \<open>A state threaded through a list of steps, stopping at the first fault.\<close>

fun foldE :: "('a \<Rightarrow> 's \<Rightarrow> 's res) \<Rightarrow> 'a list \<Rightarrow> 's \<Rightarrow> 's res" where
  "foldE f [] s = Inr s"
| "foldE f (x # xs) s = bindE (f x s) (foldE f xs)"

lemma foldE_cong [fundef_cong]:
  "xs = ys \<Longrightarrow> s = t \<Longrightarrow> (\<And>x s. x \<in> set ys \<Longrightarrow> f x s = g x s) \<Longrightarrow> foldE f xs s = foldE g ys t"
proof (induction xs arbitrary: ys s t)
  case Nil
  then show ?case by simp
next
  case (Cons x xs)
  then show ?case by (cases "g x t") auto
qed

lemma foldE_append: "foldE f (xs @ ys) s = bindE (foldE f xs s) (foldE f ys)"
proof (induction xs arbitrary: s)
  case Nil
  then show ?case by simp
next
  case (Cons x xs)
  then show ?case by (cases "f x s") simp_all
qed

lemma foldE_invariant:
  assumes "foldE f xs s = Inr t" and "P s"
    and "\<And>x u v. x \<in> set xs \<Longrightarrow> f x u = Inr v \<Longrightarrow> P u \<Longrightarrow> P v"
  shows "P t"
  using assms
proof (induction xs arbitrary: s)
  case Nil
  then show ?case by simp
next
  case (Cons x xs)
  from Cons.prems(1) obtain u where "f x s = Inr u" and rest: "foldE f xs u = Inr t"
    by auto
  with Cons.prems have "P u" by auto
  with rest Cons.IH Cons.prems(3) show ?case by auto
qed

text \<open>Suffixes of a list read through an index, as the layout reader does.\<close>

lemma drop_eq_ConsD:
  assumes "drop n xs = y # ys"
  shows "n < length xs" and "xs ! n = y" and "drop (Suc n) xs = ys"
proof -
  show n: "n < length xs"
    using assms by (cases "n < length xs") simp_all
  from n assms have "xs ! n # drop (Suc n) xs = y # ys"
    by (metis Cons_nth_drop_Suc)
  then show "xs ! n = y" and "drop (Suc n) xs = ys"
    by simp_all
qed

lemma map_of_None_iff: "map_of xs k = None \<longleftrightarrow> k \<notin> fst ` set xs"
  by (simp add: map_of_eq_None_iff)

end
