(* ===== verification/AST.thy ===== *)
theory AST imports Prelude begin

text \<open>
  The syntax tree of \<^verbatim>\<open>src/AST/AST.hpp\<close>, \<^verbatim>\<open>AST.inl\<close> and \<^verbatim>\<open>AST.cpp\<close>: one
  constructor of \<open>ast\<close> per node class, in the order of \<^verbatim>\<open>AST.inl\<close>, with the fields of the class.
  Every node carries the address the \<^verbatim>\<open>ASTContext\<close> allocated it at, because the code compares
  nodes by pointer. A pointer to a node that is not a child (the declaration a reference resolves
  to, the instantiation a unit results from) is such an address.

  \<open>obj\<close> is a node object as it is allocated, before its children are set: the contents of a layout.
  The static predicates of \<^verbatim>\<open>ASTPredicate.hpp\<close>, which select on the class of a node, are boolean
  functions on \<open>ast_kind\<close>.
\<close>

section \<open>Kinds, operators, annotations\<close>

datatype ast_kind =
    KindCompilationUnit | KindMetaUnit | KindFunctionDecl | KindMetaDecl | KindMetaContribution
  | KindArgumentDeclList | KindAnonymousArgumentDecl | KindNamedArgumentDecl
  | KindGlobalConstantDecl
  | KindUnscopedCompoundStmt | KindCompoundStmt | KindReturnStmt | KindExpressionStmt
  | KindDeclStmt | KindIfStmt | KindMetaIfStmt | KindMetaCalculationStmt
  | KindDeclRefExpr | KindIntegerLiteralExpr | KindBooleanLiteralExpr | KindErroneousExpr
  | KindBinaryOperatorExpr | KindCallOperatorExpr | KindMetaInstantiationExpr

datatype bin_op =
    OperatorMul | OperatorDiv | OperatorPlus | OperatorMinus | OperatorLessThan
  | OperatorGreaterThan | OperatorLessThanOrEq | OperatorGreaterThanOrEq | OperatorEqual
  | OperatorNotEqual | OperatorAssign

type_synonym addr = nat
type_synonym i32 = "32 word"

text \<open>Source locations are offsets into the buffer of the source file.\<close>

type_synonym source_location = nat

record source_range =
  getStart :: source_location
  getEnd :: source_location

text \<open>A value with its annotation; equality looks at the value only.\<close>

datatype ('t, 'a) annotated = Annotated (getType: 't) (getAnnotation: 'a)

type_synonym ident = "(string, source_range) annotated"

definition annotated_eq :: "('t, 'a) annotated \<Rightarrow> ('t, 'a) annotated \<Rightarrow> bool" where
  "annotated_eq x y \<longleftrightarrow> getType x = getType y"

definition concat_range :: "source_range \<Rightarrow> source_range \<Rightarrow> source_range" where
  "concat_range b e = \<lparr>getStart = getStart b, getEnd = getEnd e\<rparr>"

section \<open>Nodes\<close>

datatype ast =
    CompilationUnit addr "ast list"
  | MetaUnit addr addr "ast list" \<comment> \<open>its instantiation, its children\<close>
  | FunctionDecl addr ident ast "ast option" ast \<comment> \<open>arguments, return type, body\<close>
  | MetaDecl addr ident ast ast \<comment> \<open>arguments, contribution\<close>
  | MetaContribution addr source_range "ast list"
  | ArgumentDeclList addr "ast list"
  | AnonymousArgumentDecl addr
  | NamedArgumentDecl addr ident
  | GlobalConstantDecl addr ident ast
  | UnscopedCompoundStmt addr "ast list"
  | CompoundStmt addr "ast list"
  | ReturnStmt addr "ast option"
  | ExpressionStmt addr ast
  | DeclStmt addr ident ast
  | IfStmt addr ast ast "ast option"
  | MetaIfStmt addr ast ast "ast option"
  | MetaCalculationStmt addr ast "addr list" \<comment> \<open>its statement, the declarations it exports\<close>
  | DeclRefExpr addr ident "addr option" \<comment> \<open>the declaration it is resolved to\<close>
  | IntegerLiteralExpr addr "(i32, source_range) annotated"
  | BooleanLiteralExpr addr "(bool, source_range) annotated"
  | ErroneousExpr addr
  | BinaryOperatorExpr addr "(bin_op, source_range) annotated" ast ast
  | CallOperatorExpr addr ast "ast list" \<comment> \<open>callee, arguments\<close>
  | MetaInstantiationExpr addr source_range ast "ast list" \<comment> \<open>declaration reference, arguments\<close>

text \<open>A node as it is allocated: the arguments of its constructor, no children yet.\<close>

datatype payload =
    PCompilationUnit | PMetaUnit addr | PFunctionDecl ident | PMetaDecl ident
  | PMetaContribution source_range | PArgumentDeclList | PAnonymousArgumentDecl
  | PNamedArgumentDecl ident | PGlobalConstantDecl ident
  | PUnscopedCompoundStmt | PCompoundStmt | PReturnStmt | PExpressionStmt
  | PDeclStmt ident | PIfStmt | PMetaIfStmt | PMetaCalculationStmt
  | PDeclRefExpr ident | PIntegerLiteralExpr "(i32, source_range) annotated"
  | PBooleanLiteralExpr "(bool, source_range) annotated" | PErroneousExpr
  | PBinaryOperatorExpr "(bin_op, source_range) annotated" | PCallOperatorExpr
  | PMetaInstantiationExpr source_range

datatype obj = Obj (obj_addr: addr) (obj_payload: payload)

fun kind_of_payload :: "payload \<Rightarrow> ast_kind" where
  "kind_of_payload PCompilationUnit = KindCompilationUnit"
| "kind_of_payload (PMetaUnit i) = KindMetaUnit"
| "kind_of_payload (PFunctionDecl n) = KindFunctionDecl"
| "kind_of_payload (PMetaDecl n) = KindMetaDecl"
| "kind_of_payload (PMetaContribution r) = KindMetaContribution"
| "kind_of_payload PArgumentDeclList = KindArgumentDeclList"
| "kind_of_payload PAnonymousArgumentDecl = KindAnonymousArgumentDecl"
| "kind_of_payload (PNamedArgumentDecl n) = KindNamedArgumentDecl"
| "kind_of_payload (PGlobalConstantDecl n) = KindGlobalConstantDecl"
| "kind_of_payload PUnscopedCompoundStmt = KindUnscopedCompoundStmt"
| "kind_of_payload PCompoundStmt = KindCompoundStmt"
| "kind_of_payload PReturnStmt = KindReturnStmt"
| "kind_of_payload PExpressionStmt = KindExpressionStmt"
| "kind_of_payload (PDeclStmt n) = KindDeclStmt"
| "kind_of_payload PIfStmt = KindIfStmt"
| "kind_of_payload PMetaIfStmt = KindMetaIfStmt"
| "kind_of_payload PMetaCalculationStmt = KindMetaCalculationStmt"
| "kind_of_payload (PDeclRefExpr n) = KindDeclRefExpr"
| "kind_of_payload (PIntegerLiteralExpr l) = KindIntegerLiteralExpr"
| "kind_of_payload (PBooleanLiteralExpr l) = KindBooleanLiteralExpr"
| "kind_of_payload PErroneousExpr = KindErroneousExpr"
| "kind_of_payload (PBinaryOperatorExpr b) = KindBinaryOperatorExpr"
| "kind_of_payload PCallOperatorExpr = KindCallOperatorExpr"
| "kind_of_payload (PMetaInstantiationExpr r) = KindMetaInstantiationExpr"

definition obj_kind :: "obj \<Rightarrow> ast_kind" where
  "obj_kind n = kind_of_payload (obj_payload n)"

text \<open>The object behind a finished node.\<close>

fun obj_of :: "ast \<Rightarrow> obj" where
  "obj_of (CompilationUnit a cs) = Obj a PCompilationUnit"
| "obj_of (MetaUnit a i cs) = Obj a (PMetaUnit i)"
| "obj_of (FunctionDecl a n args r b) = Obj a (PFunctionDecl n)"
| "obj_of (MetaDecl a n args c) = Obj a (PMetaDecl n)"
| "obj_of (MetaContribution a rg cs) = Obj a (PMetaContribution rg)"
| "obj_of (ArgumentDeclList a cs) = Obj a PArgumentDeclList"
| "obj_of (AnonymousArgumentDecl a) = Obj a PAnonymousArgumentDecl"
| "obj_of (NamedArgumentDecl a n) = Obj a (PNamedArgumentDecl n)"
| "obj_of (GlobalConstantDecl a n e) = Obj a (PGlobalConstantDecl n)"
| "obj_of (UnscopedCompoundStmt a cs) = Obj a PUnscopedCompoundStmt"
| "obj_of (CompoundStmt a cs) = Obj a PCompoundStmt"
| "obj_of (ReturnStmt a e) = Obj a PReturnStmt"
| "obj_of (ExpressionStmt a e) = Obj a PExpressionStmt"
| "obj_of (DeclStmt a n e) = Obj a (PDeclStmt n)"
| "obj_of (IfStmt a c t f) = Obj a PIfStmt"
| "obj_of (MetaIfStmt a c t f) = Obj a PMetaIfStmt"
| "obj_of (MetaCalculationStmt a s ds) = Obj a PMetaCalculationStmt"
| "obj_of (DeclRefExpr a n d) = Obj a (PDeclRefExpr n)"
| "obj_of (IntegerLiteralExpr a l) = Obj a (PIntegerLiteralExpr l)"
| "obj_of (BooleanLiteralExpr a l) = Obj a (PBooleanLiteralExpr l)"
| "obj_of (ErroneousExpr a) = Obj a PErroneousExpr"
| "obj_of (BinaryOperatorExpr a b l r) = Obj a (PBinaryOperatorExpr b)"
| "obj_of (CallOperatorExpr a c es) = Obj a PCallOperatorExpr"
| "obj_of (MetaInstantiationExpr a rg d es) = Obj a (PMetaInstantiationExpr rg)"

definition getKind :: "ast \<Rightarrow> ast_kind" where
  "getKind t = obj_kind (obj_of t)"

lemma getKind_simps [simp]:
  "getKind (CompilationUnit a cs) = KindCompilationUnit"
  "getKind (MetaUnit a u cs) = KindMetaUnit"
  "getKind (FunctionDecl a n args r b) = KindFunctionDecl"
  "getKind (MetaDecl a n args c) = KindMetaDecl"
  "getKind (MetaContribution a rg cs) = KindMetaContribution"
  "getKind (ArgumentDeclList a cs) = KindArgumentDeclList"
  "getKind (AnonymousArgumentDecl a) = KindAnonymousArgumentDecl"
  "getKind (NamedArgumentDecl a n) = KindNamedArgumentDecl"
  "getKind (GlobalConstantDecl a n e) = KindGlobalConstantDecl"
  "getKind (UnscopedCompoundStmt a cs) = KindUnscopedCompoundStmt"
  "getKind (CompoundStmt a cs) = KindCompoundStmt"
  "getKind (ReturnStmt a x) = KindReturnStmt"
  "getKind (ExpressionStmt a e) = KindExpressionStmt"
  "getKind (DeclStmt a n e) = KindDeclStmt"
  "getKind (IfStmt a c t f) = KindIfStmt"
  "getKind (MetaIfStmt a c t f) = KindMetaIfStmt"
  "getKind (MetaCalculationStmt a s ds) = KindMetaCalculationStmt"
  "getKind (DeclRefExpr a n d) = KindDeclRefExpr"
  "getKind (IntegerLiteralExpr a i) = KindIntegerLiteralExpr"
  "getKind (BooleanLiteralExpr a o1) = KindBooleanLiteralExpr"
  "getKind (ErroneousExpr a) = KindErroneousExpr"
  "getKind (BinaryOperatorExpr a op l r1) = KindBinaryOperatorExpr"
  "getKind (CallOperatorExpr a c es) = KindCallOperatorExpr"
  "getKind (MetaInstantiationExpr a rg d1 es) = KindMetaInstantiationExpr"
  by (simp_all add: getKind_def obj_kind_def)

definition addr_of :: "ast \<Rightarrow> addr" where
  "addr_of t = obj_addr (obj_of t)"

lemma obj_kind_Obj [simp]: "obj_kind (Obj a p) = kind_of_payload p"
  by (simp add: obj_kind_def)

lemma obj_kind_obj_of [simp]: "obj_kind (obj_of t) = getKind t"
  by (simp add: getKind_def)

lemma obj_addr_obj_of [simp]: "obj_addr (obj_of t) = addr_of t"
  by (simp add: addr_of_def)

section \<open>Static predicates on the class of a node\<close>

text \<open>
  \<open>hasChildren\<close> holds of the classes with a \<open>children()\<close> member; the number of children is
  statically known where that member returns a \<^verbatim>\<open>std::array\<close>; every other such class needs a
  reduce marker in a layout.
\<close>

fun hasChildren :: "ast_kind \<Rightarrow> bool" where
  "hasChildren KindAnonymousArgumentDecl = False"
| "hasChildren KindNamedArgumentDecl = False"
| "hasChildren KindDeclRefExpr = False"
| "hasChildren KindIntegerLiteralExpr = False"
| "hasChildren KindBooleanLiteralExpr = False"
| "hasChildren KindErroneousExpr = False"
| "hasChildren _ = True"

fun getKnownAmountOfChildren :: "ast_kind \<Rightarrow> nat" where
  "getKnownAmountOfChildren KindMetaDecl = 2"
| "getKnownAmountOfChildren KindGlobalConstantDecl = 1"
| "getKnownAmountOfChildren KindExpressionStmt = 1"
| "getKnownAmountOfChildren KindDeclStmt = 1"
| "getKnownAmountOfChildren KindMetaCalculationStmt = 1"
| "getKnownAmountOfChildren KindBinaryOperatorExpr = 2"
| "getKnownAmountOfChildren _ = 0"

definition hasUnknownAmountOfChildren :: "ast_kind \<Rightarrow> bool" where
  "hasUnknownAmountOfChildren k \<longleftrightarrow> getKnownAmountOfChildren k = 0"

definition isRequiringReduceMarker :: "ast_kind \<Rightarrow> bool" where
  "isRequiringReduceMarker k \<longleftrightarrow> (if hasChildren k then hasUnknownAmountOfChildren k else False)"

fun isNamedDeclContext :: "ast_kind \<Rightarrow> bool" where
  "isNamedDeclContext KindFunctionDecl = True"
| "isNamedDeclContext KindNamedArgumentDecl = True"
| "isNamedDeclContext KindMetaDecl = True"
| "isNamedDeclContext KindGlobalConstantDecl = True"
| "isNamedDeclContext KindDeclStmt = True"
| "isNamedDeclContext _ = False"

fun isTopLevelNode :: "ast_kind \<Rightarrow> bool" where
  "isTopLevelNode KindMetaUnit = True"
| "isTopLevelNode KindFunctionDecl = True"
| "isTopLevelNode KindMetaDecl = True"
| "isTopLevelNode KindGlobalConstantDecl = True"
| "isTopLevelNode _ = False"

fun isUnitNode :: "ast_kind \<Rightarrow> bool" where
  "isUnitNode KindCompilationUnit = True"
| "isUnitNode KindMetaUnit = True"
| "isUnitNode _ = False"

fun isStmtNode :: "ast_kind \<Rightarrow> bool" where
  "isStmtNode KindUnscopedCompoundStmt = True"
| "isStmtNode KindCompoundStmt = True"
| "isStmtNode KindReturnStmt = True"
| "isStmtNode KindExpressionStmt = True"
| "isStmtNode KindDeclStmt = True"
| "isStmtNode KindIfStmt = True"
| "isStmtNode KindMetaIfStmt = True"
| "isStmtNode KindMetaCalculationStmt = True"
| "isStmtNode _ = False"

fun isExprNode :: "ast_kind \<Rightarrow> bool" where
  "isExprNode KindDeclRefExpr = True"
| "isExprNode KindIntegerLiteralExpr = True"
| "isExprNode KindBooleanLiteralExpr = True"
| "isExprNode KindErroneousExpr = True"
| "isExprNode KindBinaryOperatorExpr = True"
| "isExprNode KindCallOperatorExpr = True"
| "isExprNode KindMetaInstantiationExpr = True"
| "isExprNode _ = False"

definition isTopLevelDeclContextNode :: "ast_kind \<Rightarrow> bool" where
  "isTopLevelDeclContextNode k \<longleftrightarrow> isNamedDeclContext k \<and> isTopLevelNode k"

text \<open>The classes derived from \<open>ConstantExprASTNode\<close>, and those marked \<open>IntermediateNode\<close>.\<close>

definition isConstantExpr :: "ast_kind \<Rightarrow> bool" where
  "isConstantExpr k \<longleftrightarrow> k = KindIntegerLiteralExpr \<or> k = KindBooleanLiteralExpr"

fun isIntermediateNode :: "ast_kind \<Rightarrow> bool" where
  "isIntermediateNode KindMetaUnit = True"
| "isIntermediateNode KindMetaDecl = True"
| "isIntermediateNode KindMetaContribution = True"
| "isIntermediateNode KindMetaIfStmt = True"
| "isIntermediateNode KindMetaCalculationStmt = True"
| "isIntermediateNode _ = False"

text \<open>\<open>AnonymousArgumentDeclASTNode::classof\<close> also accepts its subclass.\<close>

definition isAnonymousArgumentDecl :: "ast_kind \<Rightarrow> bool" where
  "isAnonymousArgumentDecl k \<longleftrightarrow> k = KindAnonymousArgumentDecl \<or> k = KindNamedArgumentDecl"

lemmas kind_pred_defs = hasUnknownAmountOfChildren_def isRequiringReduceMarker_def
  isTopLevelDeclContextNode_def isConstantExpr_def isAnonymousArgumentDecl_def

lemma constant_is_expr: "isConstantExpr k \<Longrightarrow> isExprNode k"
  by (auto simp: isConstantExpr_def)

lemma requiring_marker_has_children: "isRequiringReduceMarker k \<Longrightarrow> hasChildren k"
  by (auto simp: isRequiringReduceMarker_def split: if_splits)

section \<open>Names of declarations\<close>

fun payload_name :: "payload \<Rightarrow> ident option" where
  "payload_name (PFunctionDecl n) = Some n"
| "payload_name (PMetaDecl n) = Some n"
| "payload_name (PNamedArgumentDecl n) = Some n"
| "payload_name (PGlobalConstantDecl n) = Some n"
| "payload_name (PDeclStmt n) = Some n"
| "payload_name _ = None"

text \<open>\<open>getName\<close> of a \<open>NamedDeclContext\<close>, given as the object of its declaring node.\<close>

definition getName :: "obj \<Rightarrow> ident" where
  "getName d = (case payload_name (obj_payload d) of Some n \<Rightarrow> n
     | None \<Rightarrow> Annotated [] \<lparr>getStart = 0, getEnd = 0\<rparr>)"

definition name_str :: "obj \<Rightarrow> string" where
  "name_str d = getType (getName d)"

definition isFunctionDecl :: "obj \<Rightarrow> bool" where
  "isFunctionDecl d \<longleftrightarrow> obj_kind d = KindFunctionDecl"

definition isVarDecl :: "obj \<Rightarrow> bool" where
  "isVarDecl d \<longleftrightarrow> obj_kind d = KindNamedArgumentDecl \<or> obj_kind d = KindDeclStmt"

definition isMetaDecl :: "obj \<Rightarrow> bool" where
  "isMetaDecl d \<longleftrightarrow> obj_kind d = KindMetaDecl"

definition isGlobalConstant :: "obj \<Rightarrow> bool" where
  "isGlobalConstant d \<longleftrightarrow> obj_kind d = KindGlobalConstantDecl"

lemma named_iff_payload_name: "isNamedDeclContext (kind_of_payload p) \<longleftrightarrow> payload_name p \<noteq> None"
  by (cases p) simp_all

text \<open>A named declaration is exactly one of function, variable, meta declaration and constant.\<close>

lemma named_decl_classification:
  assumes "isNamedDeclContext (obj_kind d)"
  shows "length (filter (\<lambda>p. p d) [isFunctionDecl, isVarDecl, isMetaDecl, isGlobalConstant]) = 1"
  using assms by (cases "obj_kind d")
    (simp_all add: isFunctionDecl_def isVarDecl_def isMetaDecl_def isGlobalConstant_def)

section \<open>Children\<close>

fun opt_list :: "'a option \<Rightarrow> 'a list" where
  "opt_list None = []"
| "opt_list (Some x) = [x]"

lemma set_opt_list [simp]: "set (opt_list x) = set_option x"
  by (cases x) simp_all

fun children :: "ast \<Rightarrow> ast list" where
  "children (CompilationUnit a cs) = cs"
| "children (MetaUnit a i cs) = cs"
| "children (FunctionDecl a n args r b) = args # opt_list r @ [b]"
| "children (MetaDecl a n args c) = [args, c]"
| "children (MetaContribution a rg cs) = cs"
| "children (ArgumentDeclList a cs) = cs"
| "children (AnonymousArgumentDecl a) = []"
| "children (NamedArgumentDecl a n) = []"
| "children (GlobalConstantDecl a n e) = [e]"
| "children (UnscopedCompoundStmt a cs) = cs"
| "children (CompoundStmt a cs) = cs"
| "children (ReturnStmt a e) = opt_list e"
| "children (ExpressionStmt a e) = [e]"
| "children (DeclStmt a n e) = [e]"
| "children (IfStmt a c t f) = c # t # opt_list f"
| "children (MetaIfStmt a c t f) = c # t # opt_list f"
| "children (MetaCalculationStmt a s ds) = [s]"
| "children (DeclRefExpr a n d) = []"
| "children (IntegerLiteralExpr a l) = []"
| "children (BooleanLiteralExpr a l) = []"
| "children (ErroneousExpr a) = []"
| "children (BinaryOperatorExpr a b l r) = [l, r]"
| "children (CallOperatorExpr a c es) = c # es"
| "children (MetaInstantiationExpr a rg d es) = d # es"

lemma children_leaf: "\<not> hasChildren (getKind t) \<Longrightarrow> children t = []"
  by (cases t) simp_all

lemma children_known_amount:
  "getKnownAmountOfChildren (getKind t) \<noteq> 0 \<Longrightarrow>
   length (children t) = getKnownAmountOfChildren (getKind t)"
  by (cases t) simp_all

lemma size_list_mem: "x \<in> set xs \<Longrightarrow> size x < Suc (size_list size xs)"
  by (induction xs) auto

lemma size_option_mem: "x = Some y \<Longrightarrow> size y < size_option size x"
  by simp

lemma size_child [termination_simp]: "c \<in> set (children t) \<Longrightarrow> size c < size t"
  by (cases t) (auto dest: size_list_mem split: option.splits)

section \<open>Whole trees\<close>

text \<open>All nodes of a tree, a node before its children, and their number.\<close>

fun nodes :: "ast \<Rightarrow> ast list" where
  "nodes t = t # concat (map nodes (children t))"

declare nodes.simps [simp del]

definition nodes_of :: "ast list \<Rightarrow> ast list" where
  "nodes_of ts = concat (map nodes ts)"

lemma nodes_of_simps [simp]:
  "nodes_of [] = []" "nodes_of (t # ts) = nodes t @ nodes_of ts"
  "nodes_of (ts @ us) = nodes_of ts @ nodes_of us"
  by (simp_all add: nodes_of_def)

lemma nodes_eq: "nodes t = t # nodes_of (children t)"
  by (simp add: nodes.simps [of t] nodes_of_def)

definition node_count :: "ast \<Rightarrow> nat" where
  "node_count t = length (nodes t)"

lemma node_count_pos [simp]: "0 < node_count t"
  by (simp add: node_count_def nodes_eq)

lemma node_count_children: "node_count t = Suc (sum_list (map node_count (children t)))"
proof -
  have "length (nodes_of cs) = sum_list (map node_count cs)" for cs
    by (induction cs) (simp_all add: node_count_def)
  then show ?thesis by (simp add: node_count_def nodes_eq)
qed

text \<open>Induction over the children of a node, whatever its class.\<close>

lemma ast_children_induct [case_names node]:
  assumes "\<And>t. (\<And>c. c \<in> set (children t) \<Longrightarrow> P c) \<Longrightarrow> P t"
  shows "P t"
  by (induction t rule: measure_induct_rule [of size]) (blast intro: assms size_child)

end
