(* ===== verification/Diagnostics.thy ===== *)
theory Diagnostics imports AST begin

text \<open>
  The diagnostics of \<^verbatim>\<open>src/Diag\<close>: the messages and their severities (\<^verbatim>\<open>Diagnostic.inl\<close>,
  \<^verbatim>\<open>Diagnostic.cpp\<close>), the builder that dispatches a message when it is destroyed and still owns it
  (\<^verbatim>\<open>DiagnosticBuilder\<close>, \<^verbatim>\<open>Support/Ownership.hpp\<close>), the engine that counts them
  (\<^verbatim>\<open>DiagnosticEngine\<close>) and the translation of ANTLR positions to offsets
  (\<^verbatim>\<open>SourceLocation::fromSource\<close>).

  The text a message is formatted to is left to the formatting library; a message keeps its kind and
  its arguments. Counters are natural numbers: \<^verbatim>\<open>size_t\<close> does not wrap before 2^64 messages.
\<close>

section \<open>Kinds and severities\<close>

datatype severity = Note | Warning | Error

datatype diagnostic =
    NotePreviousDeclarationHint | NotePreviousTypeDeclarationHint | NoteDeclarationHint
  | NoteDidYouMeanQuestion | NoteInstantiatingMetaDecl | NoteInstantiationExported
  | WarningDidYouMeanEquals
  | ErrorGenericParserFault | ErrorFunctionNameReserved | ErrorMetaNameReserved
  | ErrorNameDeclaredAlready | ErrorNameTypeDeclaredAlready | ErrorDeclarationUnknown
  | ErrorIntegralForMetaDecl | ErrorOnlyIntPermitted | ErrorArgumentTaken
  | ErrorConvertionFailure | ErrorFunctionCallReturnsVoid | ErrorFunctionCallArgCountMismatch
  | ErrorCanOnlyCallFunctions | ErrorInstantiatedNonMetaDecl
  | ErrorInstantiationArgCountMismatch | ErrorInstantiationNoExport

fun getDiagnosticSeverity :: "diagnostic \<Rightarrow> severity" where
  "getDiagnosticSeverity NotePreviousDeclarationHint = Note"
| "getDiagnosticSeverity NotePreviousTypeDeclarationHint = Note"
| "getDiagnosticSeverity NoteDeclarationHint = Note"
| "getDiagnosticSeverity NoteDidYouMeanQuestion = Note"
| "getDiagnosticSeverity NoteInstantiatingMetaDecl = Note"
| "getDiagnosticSeverity NoteInstantiationExported = Note"
| "getDiagnosticSeverity WarningDidYouMeanEquals = Warning"
| "getDiagnosticSeverity _ = Error"

text \<open>The kind LLVM's source manager prints a severity as.\<close>

datatype llvm_diag_kind = DK_Error | DK_Warning | DK_Note

fun mapSeverityToDiagKind :: "severity \<Rightarrow> llvm_diag_kind" where
  "mapSeverityToDiagKind Note = DK_Note"
| "mapSeverityToDiagKind Warning = DK_Warning"
| "mapSeverityToDiagKind Error = DK_Error"

section \<open>Ownership\<close>

text \<open>Moving an ownership takes it away from the source; copying duplicates it.\<close>

datatype ownership = Ownership (hasOwnership: bool)

definition ownership_new :: ownership where
  "ownership_new = Ownership True"

definition ownership_move :: "ownership \<Rightarrow> ownership \<times> ownership" where
  "ownership_move right = (Ownership (hasOwnership right), Ownership False)"

definition ownership_and :: "ownership \<Rightarrow> ownership \<Rightarrow> ownership" where
  "ownership_and l r = Ownership (hasOwnership l \<and> hasOwnership r)"

definition ownership_invalidate :: "ownership \<Rightarrow> ownership" where
  "ownership_invalidate w = Ownership False"

section \<open>Builders and the engine\<close>

datatype diag_arg = ArgStr string | ArgNat nat | ArgInt int | ArgKind ast_kind

datatype fixit = FixItInsert source_location string | FixItReplace source_range string

record message =
  msg_severity :: severity
  msg_location :: source_location
  msg_diag :: diagnostic
  msg_args :: "diag_arg list"
  msg_ranges :: "source_range list"
  msg_fixits :: "fixit list"

record builder =
  bld_message :: message
  bld_ownership :: ownership

record engine =
  occ_note :: nat
  occ_warning :: nat
  occ_error :: nat
  printed :: "(llvm_diag_kind \<times> message) list"

definition engine_new :: engine where
  "engine_new = \<lparr>occ_note = 0, occ_warning = 0, occ_error = 0, printed = []\<rparr>"

fun getOccurrenceCount :: "engine \<Rightarrow> severity \<Rightarrow> nat" where
  "getOccurrenceCount e Note = occ_note e"
| "getOccurrenceCount e Warning = occ_warning e"
| "getOccurrenceCount e Error = occ_error e"

definition hasErrors :: "engine \<Rightarrow> bool" where
  "hasErrors e \<longleftrightarrow> getOccurrenceCount e Error \<noteq> 0"

fun count_occurrence :: "severity \<Rightarrow> engine \<Rightarrow> engine" where
  "count_occurrence Note e = e\<lparr>occ_note := Suc (occ_note e)\<rparr>"
| "count_occurrence Warning e = e\<lparr>occ_warning := Suc (occ_warning e)\<rparr>"
| "count_occurrence Error e = e\<lparr>occ_error := Suc (occ_error e)\<rparr>"

definition consumeDiagnostic :: "message \<Rightarrow> engine \<Rightarrow> engine" where
  "consumeDiagnostic m e =
     e\<lparr>printed := printed e @ [(mapSeverityToDiagKind (msg_severity m), m)]\<rparr>"

text \<open>The destructor dispatches the message only while the builder owns it.\<close>

definition builder_destroy :: "builder \<Rightarrow> engine \<Rightarrow> engine" where
  "builder_destroy b e =
     (if \<not> hasOwnership (bld_ownership b) then e else consumeDiagnostic (bld_message b) e)"

text \<open>Move construction: the new builder and what is left of the old one.\<close>

definition builder_move :: "builder \<Rightarrow> builder \<times> builder" where
  "builder_move b = (let (new, old) = ownership_move (bld_ownership b)
     in (b\<lparr>bld_ownership := new\<rparr>,
         b\<lparr>bld_message := (bld_message b)\<lparr>msg_args := [], msg_ranges := [], msg_fixits := []\<rparr>,
           bld_ownership := old\<rparr>))"

definition builder_addRange :: "source_range \<Rightarrow> builder \<Rightarrow> builder" where
  "builder_addRange r b =
     b\<lparr>bld_message := (bld_message b)\<lparr>msg_ranges := msg_ranges (bld_message b) @ [r]\<rparr>\<rparr>"

definition builder_addFixItInsert :: "source_location \<Rightarrow> string \<Rightarrow> builder \<Rightarrow> builder" where
  "builder_addFixItInsert l t b =
     b\<lparr>bld_message := (bld_message b)\<lparr>msg_fixits := msg_fixits (bld_message b) @ [FixItInsert l t]\<rparr>\<rparr>"

definition builder_addFixItReplace :: "source_range \<Rightarrow> string \<Rightarrow> builder \<Rightarrow> builder" where
  "builder_addFixItReplace r t b =
     b\<lparr>bld_message := (bld_message b)\<lparr>msg_fixits := msg_fixits (bld_message b) @ [FixItReplace r t]\<rparr>\<rparr>"

definition createDiagnosticBuilder ::
    "diagnostic \<Rightarrow> diag_arg list \<Rightarrow> source_location \<Rightarrow> engine \<Rightarrow> builder \<times> engine" where
  "createDiagnosticBuilder d args loc e =
     (let sev = getDiagnosticSeverity d
      in (\<lparr>bld_message = \<lparr>msg_severity = sev, msg_location = loc, msg_diag = d, msg_args = args,
             msg_ranges = [], msg_fixits = []\<rparr>, bld_ownership = ownership_new\<rparr>,
          count_occurrence sev e))"

text \<open>
  The overload for ranges: a temporary builder gets the range, its value is moved into the result,
  and the temporary is destroyed.
\<close>

definition createDiagnosticBuilderRange ::
    "diagnostic \<Rightarrow> diag_arg list \<Rightarrow> source_range \<Rightarrow> engine \<Rightarrow> builder \<times> engine" where
  "createDiagnosticBuilderRange d args r e =
     (let (tmp, e) = createDiagnosticBuilder d args (getStart r) e;
          (result, tmp) = builder_move (builder_addRange r tmp)
      in (result, builder_destroy tmp e))"

text \<open>
  \<open>diagnose\<close> as a statement: the returned builder is destroyed at the end of the full expression.
\<close>

definition diagnose :: "diagnostic \<Rightarrow> source_location \<Rightarrow> diag_arg list \<Rightarrow> engine \<Rightarrow> engine" where
  "diagnose d loc args e =
     (let (b, e) = createDiagnosticBuilder d args loc e in builder_destroy b e)"

definition diagnoseRange :: "diagnostic \<Rightarrow> source_range \<Rightarrow> diag_arg list \<Rightarrow> engine \<Rightarrow> engine" where
  "diagnoseRange d r args e =
     (let (b, e) = createDiagnosticBuilderRange d args r e in builder_destroy b e)"

text \<open>\<open>diagnose\<close> on an annotated value forwards its annotation.\<close>

definition diagnoseAt ::
    "diagnostic \<Rightarrow> ('t, source_range) annotated \<Rightarrow> diag_arg list \<Rightarrow> engine \<Rightarrow> engine" where
  "diagnoseAt d x args e = diagnoseRange d (getAnnotation x) args e"

section \<open>Facts about the engine\<close>

text \<open>The number of messages of a severity among the printed ones.\<close>

definition printed_count :: "severity \<Rightarrow> engine \<Rightarrow> nat" where
  "printed_count sev e = length (filter (\<lambda>(k, m). msg_severity m = sev) (printed e))"

text \<open>What the engine keeps: its counters agree with what was printed.\<close>

definition engine_ok :: "engine \<Rightarrow> bool" where
  "engine_ok e \<longleftrightarrow> (\<forall>sev. getOccurrenceCount e sev = printed_count sev e)
     \<and> (\<forall>(k, m) \<in> set (printed e). k = mapSeverityToDiagKind (msg_severity m)
          \<and> msg_severity m = getDiagnosticSeverity (msg_diag m))"

lemmas diag_defs = diagnose_def diagnoseRange_def diagnoseAt_def createDiagnosticBuilder_def
  createDiagnosticBuilderRange_def builder_move_def builder_addRange_def builder_destroy_def
  ownership_move_def ownership_new_def consumeDiagnostic_def

lemma count_occurrence_count:
  "getOccurrenceCount (count_occurrence s e) t = getOccurrenceCount e t + (if s = t then 1 else 0)"
  by (cases s; cases t) simp_all

lemma printed_count_occurrence [simp]: "printed (count_occurrence s e) = printed e"
  by (cases s) simp_all

lemma getOccurrenceCount_printed_update [simp]:
  "getOccurrenceCount (e\<lparr>printed := ps\<rparr>) s = getOccurrenceCount e s"
  by (cases s) simp_all

lemma getOccurrenceCount_diagnose:
  "getOccurrenceCount (diagnose d loc args e) s
     = getOccurrenceCount e s + (if getDiagnosticSeverity d = s then 1 else 0)"
  by (simp add: diag_defs Let_def count_occurrence_count)

lemma getOccurrenceCount_diagnoseRange:
  "getOccurrenceCount (diagnoseRange d r args e) s
     = getOccurrenceCount e s + (if getDiagnosticSeverity d = s then 1 else 0)"
  by (simp add: diag_defs Let_def count_occurrence_count)

lemma hasErrors_diagnoseRange [simp]:
  "hasErrors (diagnoseRange d r args e) \<longleftrightarrow> hasErrors e \<or> getDiagnosticSeverity d = Error"
  by (simp add: hasErrors_def getOccurrenceCount_diagnoseRange del: getOccurrenceCount.simps)

lemma hasErrors_diagnose [simp]:
  "hasErrors (diagnose d loc args e) \<longleftrightarrow> hasErrors e \<or> getDiagnosticSeverity d = Error"
  by (simp add: hasErrors_def getOccurrenceCount_diagnose del: getOccurrenceCount.simps)

lemma hasErrors_diagnoseAt [simp]:
  "hasErrors (diagnoseAt d x args e) \<longleftrightarrow> hasErrors e \<or> getDiagnosticSeverity d = Error"
  by (simp add: diagnoseAt_def)

lemma printed_diagnoseRange:
  "printed (diagnoseRange d r args e) = printed e @
     [(mapSeverityToDiagKind (getDiagnosticSeverity d),
       \<lparr>msg_severity = getDiagnosticSeverity d, msg_location = getStart r, msg_diag = d,
        msg_args = args, msg_ranges = [r], msg_fixits = []\<rparr>)]"
  by (simp add: diag_defs Let_def)

lemma engine_ok_new: "engine_ok engine_new"
proof -
  have "getOccurrenceCount engine_new sev = 0" for sev
    by (cases sev) (simp_all add: engine_new_def)
  then show ?thesis
    by (simp add: engine_ok_def printed_count_def) (simp add: engine_new_def)
qed

lemma engine_ok_diagnoseRange: "engine_ok e \<Longrightarrow> engine_ok (diagnoseRange d r args e)"
  by (auto simp: engine_ok_def getOccurrenceCount_diagnoseRange printed_count_def
      printed_diagnoseRange)

section \<open>Source locations\<close>

text \<open>\<open>SourceLocation::extend\<close>.\<close>

definition extend :: "source_location \<Rightarrow> nat \<Rightarrow> source_range" where
  "extend loc extension = \<lparr>getStart = loc, getEnd = loc + extension\<rparr>"

text \<open>The first loop: advance until \<open>line\<close> has been counted down to 1 or the buffer ends.\<close>

function from_source_lines :: "string \<Rightarrow> nat \<Rightarrow> nat \<Rightarrow> nat" where
  "from_source_lines buf line current =
     (if current < length buf \<and> line \<noteq> 1
      then from_source_lines buf (if buf ! current = CHR 0x0A then line - 1 else line) (Suc current)
      else current)"
  by pat_completeness auto
termination
  by (relation "measure (\<lambda>(buf, line, current). length buf - current)") auto

text \<open>The second loop: advance \<open>charPositionInLine\<close> characters or to the end of the buffer.\<close>

function from_source_chars :: "string \<Rightarrow> nat \<Rightarrow> nat \<Rightarrow> source_location" where
  "from_source_chars buf charPositionInLine current =
     (if current < length buf
      then if charPositionInLine = 0 then current
           else from_source_chars buf (charPositionInLine - 1) (Suc current)
      else length buf)"
  by pat_completeness auto
termination
  by (relation "measure (\<lambda>(buf, c, current). length buf - current)") auto

declare from_source_lines.simps [simp del] from_source_chars.simps [simp del]

definition fromSource :: "string \<Rightarrow> nat \<Rightarrow> nat \<Rightarrow> source_location" where
  "fromSource buf line charPositionInLine =
     from_source_chars buf charPositionInLine (from_source_lines buf line 0)"

lemma from_source_chars_eq:
  "cur \<le> length buf \<Longrightarrow> from_source_chars buf c cur = min (cur + c) (length buf)"
proof (induction buf c cur rule: from_source_chars.induct)
  case (1 buf c cur)
  then show ?case
    by (subst from_source_chars.simps) auto
qed

lemma from_source_lines_le: "cur \<le> length buf \<Longrightarrow> from_source_lines buf l cur \<le> length buf"
proof (induction buf l cur rule: from_source_lines.induct)
  case (1 buf l cur)
  then show ?case
    by (cases "cur < length buf \<and> l \<noteq> 1") (simp_all add: from_source_lines.simps [of buf l cur])
qed

text \<open>
  A prefix that ends its last line and holds the newlines of the lines before is skipped exactly.
\<close>

lemma from_source_lines_skip:
  assumes "length (filter (\<lambda>c. c = CHR 0x0A) pre) = n" and "pre = [] \<or> last pre = CHR 0x0A"
  shows "from_source_lines (done @ pre @ rest) (Suc n) (length done) = length done + length pre"
  using assms
proof (induction pre arbitrary: n "done")
  case Nil
  then show ?case by (simp add: from_source_lines.simps)
next
  case (Cons c pre)
  let ?buf = "done @ (c # pre) @ rest"
  have n: "n \<noteq> 0"
  proof
    assume "n = 0"
    with Cons.prems(1) have "\<forall>d \<in> set (c # pre). d \<noteq> CHR 0x0A"
      by (auto simp: filter_empty_conv split: if_splits)
    with Cons.prems(2) show False
      by (metis last_in_set list.distinct(1))
  qed
  have step: "from_source_lines ?buf (Suc n) (length done)
      = from_source_lines ?buf (if c = CHR 0x0A then n else Suc n) (Suc (length done))"
    using n by (subst from_source_lines.simps) (simp add: nth_append)
  have buf: "?buf = (done @ [c]) @ pre @ rest" by simp
  show ?case
  proof (cases "c = CHR 0x0A")
    case True
    with Cons.prems n obtain m where m: "n = Suc m" "length (filter (\<lambda>c. c = CHR 0x0A) pre) = m"
      by (cases n) auto
    from Cons.prems(2) have "pre = [] \<or> last pre = CHR 0x0A" by (auto split: if_splits)
    from Cons.IH [OF m(2) this, of "done @ [c]"] True m(1) step show ?thesis by simp
  next
    case False
    with Cons.prems have "length (filter (\<lambda>c. c = CHR 0x0A) pre) = n"
      and "pre = [] \<or> last pre = CHR 0x0A"
      by (auto split: if_splits)
    from Cons.IH [OF this, of "done @ [c]"] False step show ?thesis by simp
  qed
qed

end
