(* ===== verification/Scope.thy ===== *)
theory Scope imports Diagnostics begin

text \<open>
  The scopes of \<^verbatim>\<open>src/AST/ASTScope\<close>. A scope is seen together with the scopes it inherits
  from: \<open>scope_chain\<close> lists the current scope, its parent, and so on. \<open>AllocatedScope\<close> is the class
  template of the same name, with its \<open>IsConsistent\<close> flag and its lookup map; \<open>InplaceScope\<close> is
  \<open>InplaceASTScopeImpl\<close>, which forwards everything to its parent and reports inserted declarations
  to a listener; the frame keeps the declarations reported so far.

  A declaration is given by the object of its declaring node. The lookup map is a hash map: the
  order its entries are iterated in is the parameter \<open>order\<close>, the edit distance of LLVM's string
  references the parameter \<open>edit_distance\<close>.
\<close>

datatype frame =
    AllocatedScope bool "(string \<times> obj) list"
  | InplaceScope "obj list"

type_synonym scope_chain = "frame list"

fun scope_parent :: "scope_chain \<Rightarrow> scope_chain option" where
  "scope_parent [] = None"
| "scope_parent [AllocatedScope c es] = None"
| "scope_parent (AllocatedScope c es # f # fs) = Some (f # fs)"
| "scope_parent (InplaceScope ds # fs) = scope_parent fs"

fun scope_insert :: "string \<Rightarrow> obj \<Rightarrow> scope_chain \<Rightarrow> scope_chain res" where
  "scope_insert str d [] = Inl NullDeref"
| "scope_insert str d (AllocatedScope c es # fs) =
     bindE (assertE (str \<notin> fst ` set es) ''The entry should never exists in the same scope'')
       (\<lambda>_. Inr (AllocatedScope c ((str, d) # es) # fs))"
| "scope_insert str d (InplaceScope ds # fs) =
     bindE (scope_insert str d fs) (\<lambda>fs. Inr (InplaceScope (ds @ [d]) # fs))"

fun lookupIdentifier :: "string \<Rightarrow> scope_chain \<Rightarrow> obj option" where
  "lookupIdentifier str [] = None"
| "lookupIdentifier str (AllocatedScope c es # fs) =
     (case map_of es str of Some d \<Rightarrow> Some d | None \<Rightarrow> lookupIdentifier str fs)"
| "lookupIdentifier str (InplaceScope ds # fs) = lookupIdentifier str fs"

fun scope_isConsistent :: "scope_chain \<Rightarrow> bool" where
  "scope_isConsistent [] = False"
| "scope_isConsistent (AllocatedScope c es # fs) = c"
| "scope_isConsistent (InplaceScope ds # fs) = scope_isConsistent fs"

definition createTemporary :: "scope_chain \<Rightarrow> scope_chain" where
  "createTemporary parent = AllocatedScope False [] # parent"

definition createConsistent :: "scope_chain \<Rightarrow> scope_chain" where
  "createConsistent parent = AllocatedScope True [] # parent"

definition createInplace :: "scope_chain \<Rightarrow> scope_chain" where
  "createInplace parent = InplaceScope [] # parent"

section \<open>Similar declarations\<close>

definition THRESHOLD :: nat where
  "THRESHOLD = 10"

text \<open>The best entry so far and its distance, over the entries of one map.\<close>

fun mostSimilar_step ::
    "(string \<Rightarrow> string \<Rightarrow> nat) \<Rightarrow> string \<Rightarrow> string \<times> obj \<Rightarrow> obj option \<times> nat \<Rightarrow> obj option \<times> nat" where
  "mostSimilar_step edit_distance str (k, d) (cur, value) =
     (let similarity = edit_distance str k
      in if similarity < value then (Some d, similarity) else (cur, value))"

definition myMostSimilarString ::
    "(string \<Rightarrow> string \<Rightarrow> nat) \<Rightarrow> ((string \<times> obj) list \<Rightarrow> (string \<times> obj) list) \<Rightarrow> string
       \<Rightarrow> (string \<times> obj) list \<Rightarrow> obj option \<times> nat" where
  "myMostSimilarString edit_distance order str es =
     fold (mostSimilar_step edit_distance str) (order es) (None, THRESHOLD)"

fun similarTo_from ::
    "(string \<Rightarrow> string \<Rightarrow> nat) \<Rightarrow> ((string \<times> obj) list \<Rightarrow> (string \<times> obj) list) \<Rightarrow> string
       \<Rightarrow> nat \<Rightarrow> obj option \<Rightarrow> scope_chain \<Rightarrow> obj option" where
  "similarTo_from edit_distance order str distance current [] = current"
| "similarTo_from edit_distance order str distance current (AllocatedScope c es # fs) =
     (let (myCurrent, myDistance) = myMostSimilarString edit_distance order str es
      in if myDistance < distance
         then similarTo_from edit_distance order str myDistance myCurrent fs
         else similarTo_from edit_distance order str distance current fs)"
| "similarTo_from edit_distance order str distance current (InplaceScope ds # fs) =
     similarTo_from edit_distance order str distance current fs"

definition similarTo ::
    "(string \<Rightarrow> string \<Rightarrow> nat) \<Rightarrow> ((string \<times> obj) list \<Rightarrow> (string \<times> obj) list) \<Rightarrow> string
       \<Rightarrow> scope_chain \<Rightarrow> obj option" where
  "similarTo edit_distance order str fs =
     similarTo_from edit_distance order str THRESHOLD None fs"

section \<open>The contract of a scope\<close>

text \<open>
  What the builder relies on: a successful insertion makes the name visible as that declaration,
  leaves every other name as it was, and an insertion succeeds for every name that is not visible.
\<close>

locale scope_contract =
  fixes valid :: "'s \<Rightarrow> bool"
    and look :: "string \<Rightarrow> 's \<Rightarrow> obj option"
    and ins :: "string \<Rightarrow> obj \<Rightarrow> 's \<Rightarrow> 's res"
  assumes ins_look: "ins k d s = Inr t \<Longrightarrow> look j t = (if j = k then Some d else look j s)"
    and ins_valid: "valid s \<Longrightarrow> ins k d s = Inr t \<Longrightarrow> valid t"
    and ins_fresh: "valid s \<Longrightarrow> look k s = None \<Longrightarrow> \<exists>t. ins k d s = Inr t"
begin

lemma ins_all_look:
  assumes "foldE (\<lambda>(k, d). ins k d) kds s = Inr t" and "distinct (map fst kds)"
  shows "look j t = (case map_of kds j of Some d \<Rightarrow> Some d | None \<Rightarrow> look j s)"
  using assms
proof (induction kds arbitrary: s)
  case Nil
  then show ?case by simp
next
  case (Cons kd kds)
  obtain k d where kd: "kd = (k, d)" by fastforce
  with Cons.prems obtain u where u: "ins k d s = Inr u"
    and rest: "foldE (\<lambda>(k, d). ins k d) kds u = Inr t" by auto
  have "map_of kds k = None"
    using Cons.prems(2) kd by (simp add: map_of_None_iff)
  with Cons.IH [OF rest] Cons.prems(2) kd ins_look [OF u]
  show ?case by (auto split: option.splits)
qed

lemma ins_all_fresh:
  assumes "valid s" and "distinct (map fst kds)" and "\<forall>k \<in> fst ` set kds. look k s = None"
  shows "\<exists>t. foldE (\<lambda>(k, d). ins k d) kds s = Inr t \<and> valid t"
  using assms
proof (induction kds arbitrary: s)
  case Nil
  then show ?case by simp
next
  case (Cons kd kds)
  obtain k d where kd: "kd = (k, d)" by fastforce
  from Cons.prems kd obtain u where u: "ins k d s = Inr u"
    using ins_fresh by fastforce
  have "\<forall>j \<in> fst ` set kds. look j u = None"
    using Cons.prems kd ins_look [OF u] by auto
  with Cons.IH [of u] Cons.prems u kd ins_valid [OF _ u]
  show ?case by auto
qed

end

section \<open>The chain meets the contract\<close>

text \<open>A chain with an allocated scope to insert into.\<close>

fun has_allocated :: "scope_chain \<Rightarrow> bool" where
  "has_allocated [] = False"
| "has_allocated (AllocatedScope c es # fs) = True"
| "has_allocated (InplaceScope ds # fs) = has_allocated fs"

lemma lookupIdentifier_insert:
  "scope_insert k d fs = Inr gs \<Longrightarrow>
   lookupIdentifier j gs = (if j = k then Some d else lookupIdentifier j fs)"
  by (induction k d fs arbitrary: gs rule: scope_insert.induct) (auto simp: bindE_eq_Inr)

lemma has_allocated_insert: "scope_insert k d fs = Inr gs \<Longrightarrow> has_allocated gs"
  by (induction k d fs arbitrary: gs rule: scope_insert.induct) (auto simp: bindE_eq_Inr)

lemma scope_insert_fresh:
  "has_allocated fs \<Longrightarrow> lookupIdentifier k fs = None \<Longrightarrow> \<exists>gs. scope_insert k d fs = Inr gs"
  by (induction k d fs rule: scope_insert.induct)
    (auto simp: map_of_None_iff split: option.splits)

interpretation chain: scope_contract has_allocated lookupIdentifier scope_insert
  by unfold_locales (blast intro: lookupIdentifier_insert has_allocated_insert scope_insert_fresh)+

text \<open>An insertion changes the scope it is made in and the inplace scopes above it, no other.\<close>

fun scope_below :: "scope_chain \<Rightarrow> scope_chain" where
  "scope_below [] = []"
| "scope_below (AllocatedScope c es # fs) = fs"
| "scope_below (InplaceScope ds # fs) = scope_below fs"

lemma scope_insert_below: "scope_insert k d fs = Inr gs \<Longrightarrow> scope_below gs = scope_below fs"
  by (induction k d fs arbitrary: gs rule: scope_insert.induct) (auto simp: bindE_eq_Inr)

lemma scope_insert_length: "scope_insert k d fs = Inr gs \<Longrightarrow> length gs = length fs"
  by (induction k d fs arbitrary: gs rule: scope_insert.induct) (auto simp: bindE_eq_Inr)

section \<open>The most similar declaration\<close>

fun scope_entries :: "scope_chain \<Rightarrow> (string \<times> obj) list" where
  "scope_entries [] = []"
| "scope_entries (AllocatedScope c es # fs) = es @ scope_entries fs"
| "scope_entries (InplaceScope ds # fs) = scope_entries fs"

lemma mostSimilar_fold:
  assumes "fold (mostSimilar_step ed str) es (cur, v) = (r, w)"
  shows "w \<le> v \<and> (\<forall>(k, d) \<in> set es. w \<le> ed str k)
    \<and> (r = cur \<and> w = v \<or> w < v \<and> (\<exists>(k, d) \<in> set es. r = Some d \<and> ed str k = w))"
  using assms
proof (induction es arbitrary: cur v)
  case Nil
  then show ?case by simp
next
  case (Cons e es)
  obtain k d where e: "e = (k, d)" by fastforce
  show ?case
  proof (cases "ed str k < v")
    case True
    with Cons.prems e have "fold (mostSimilar_step ed str) es (Some d, ed str k) = (r, w)"
      by simp
    from Cons.IH [OF this] True e show ?thesis by auto
  next
    case False
    with Cons.prems e have "fold (mostSimilar_step ed str) es (cur, v) = (r, w)"
      by simp
    from Cons.IH [OF this] False e show ?thesis by auto
  qed
qed

lemma myMostSimilarString_spec:
  assumes "myMostSimilarString ed order str es = (r, w)" and "set (order es) = set es"
  shows "(\<forall>(k, d) \<in> set es. w \<le> ed str k) \<and> w \<le> THRESHOLD
    \<and> (w < THRESHOLD \<longrightarrow> (\<exists>(k, d) \<in> set es. r = Some d \<and> ed str k = w))"
  using mostSimilar_fold [OF assms(1) [unfolded myMostSimilarString_def]] assms(2) by auto

text \<open>
  Invariant of the walk up the chain, \<open>searched\<close> being the scopes passed: \<open>current\<close> is a visible
  declaration at distance \<open>distance\<close> (or there is none below the threshold), and none searched is nearer.
  A shadowed declaration is not nearer than the one that shadows it, which has its name.
\<close>

lemma lookupIdentifier_append:
  "lookupIdentifier k (searched @ fs) = (case lookupIdentifier k searched of Some d \<Rightarrow> Some d | None \<Rightarrow> lookupIdentifier k fs)"
  by (induction k searched rule: lookupIdentifier.induct) (auto split: option.splits)

definition similar_at :: "(string \<Rightarrow> string \<Rightarrow> nat) \<Rightarrow> string \<Rightarrow> scope_chain \<Rightarrow> obj option \<Rightarrow> nat \<Rightarrow> bool" where
  "similar_at ed str fs found w \<longleftrightarrow> (case found of
     None \<Rightarrow> w = THRESHOLD
   | Some d \<Rightarrow> w < THRESHOLD \<and> (\<exists>k. lookupIdentifier k fs = Some d \<and> ed str k = w))"

lemma similarTo_from_spec:
  assumes "\<And>es. set (order es) = set es" and "\<forall>c es. AllocatedScope c es \<in> set fs \<longrightarrow> distinct (map fst es)"
    and "distance \<le> THRESHOLD" and "similar_at ed str (searched @ fs) current distance"
    and "\<forall>k. lookupIdentifier k searched \<noteq> None \<longrightarrow> distance \<le> ed str k"
  shows "\<exists>w. (\<forall>k. lookupIdentifier k (searched @ fs) \<noteq> None \<longrightarrow> w \<le> ed str k)
    \<and> similar_at ed str (searched @ fs) (similarTo_from ed order str distance current fs) w"
  using assms(2-5)
proof (induction fs arbitrary: searched distance current)
  case Nil
  then show ?case by (intro exI [of _ distance]) simp
next
  case (Cons f fs)
  show ?case
  proof (cases f)
    case (InplaceScope ds)
    with Cons.IH [of distance "searched @ [f]" current] Cons.prems show ?thesis
      by (simp add: lookupIdentifier_append split: option.splits)
  next
    case (AllocatedScope c es)
    obtain r v where rv: "myMostSimilarString ed order str es = (r, v)" by fastforce
    note spec = myMostSimilarString_spec [OF rv assms(1)]
    have dist: "distinct (map fst es)" using Cons.prems(1) AllocatedScope by auto
    have look: "lookupIdentifier k (searched @ [f]) = (case lookupIdentifier k searched of
        Some d \<Rightarrow> Some d | None \<Rightarrow> map_of es k)" for k
      by (auto simp: AllocatedScope lookupIdentifier_append split: option.splits)
    have near: "v \<le> ed str k" if "map_of es k = Some d" for k d
      using spec map_of_SomeD [OF that] by blast
    show ?thesis
    proof (cases "v < distance")
      case True
      with spec Cons.prems(2) obtain k d where kd: "(k, d) \<in> set es" "r = Some d" "ed str k = v"
        by auto
      have "lookupIdentifier k searched = None"
        using Cons.prems(4) kd(3) True by (meson leD)
      with kd dist have "lookupIdentifier k (searched @ f # fs) = Some d"
        by (simp add: lookupIdentifier_append AllocatedScope)
      with kd True Cons.prems(2) have "similar_at ed str (searched @ f # fs) r v"
        by (auto simp: similar_at_def)
      moreover have "\<forall>k. lookupIdentifier k (searched @ [f]) \<noteq> None \<longrightarrow> v \<le> ed str k"
        using Cons.prems(4) True near by (auto simp: look split: option.splits)
      ultimately show ?thesis
        using Cons.IH [of v "searched @ [f]" r] True rv AllocatedScope Cons.prems(1,2) by simp
    next
      case False
      then have "distance \<le> ed str k" if "map_of es k = Some d" for k d
        using near [OF that] by simp
      then have "\<forall>k. lookupIdentifier k (searched @ [f]) \<noteq> None \<longrightarrow> distance \<le> ed str k"
        using Cons.prems(4) by (auto simp: look split: option.splits)
      then show ?thesis
        using Cons.IH [of distance "searched @ [f]" current] False rv AllocatedScope Cons.prems(1-3) by simp
    qed
  qed
qed

lemma similarTo_spec:
  assumes "\<And>es. set (order es) = set es" and "\<forall>c es. AllocatedScope c es \<in> set fs \<longrightarrow> distinct (map fst es)"
  shows "\<exists>w. (\<forall>k. lookupIdentifier k fs \<noteq> None \<longrightarrow> w \<le> ed str k) \<and> similar_at ed str fs (similarTo ed order str fs) w"
  using similarTo_from_spec [OF assms, of THRESHOLD ed str "[]" None] by (simp add: similarTo_def similar_at_def)

end
