(* ===== verification/Cursor.thy ===== *)
theory Cursor imports AST begin

text \<open>
  The two depth trackers of the program. \<^verbatim>\<open>src/AST/ASTCursor\<close>: how far a traversal has
  descended into functions and into meta declarations. \<^verbatim>\<open>src/Parse/BasicParser\<close>: the stack of
  meta depths the generated parser consults in its semantic predicates.
\<close>

section \<open>Levels\<close>

datatype depth_level = TopLevel | InsideFunctionDecl

datatype meta_depth_level = Outside | InsideMetaDecl | InsideComputation

text \<open>The levels are compared by the order of their declaration.\<close>

fun depth_rank :: "depth_level \<Rightarrow> nat" where
  "depth_rank TopLevel = 0"
| "depth_rank InsideFunctionDecl = 1"

fun meta_depth_rank :: "meta_depth_level \<Rightarrow> nat" where
  "meta_depth_rank Outside = 0"
| "meta_depth_rank InsideMetaDecl = 1"
| "meta_depth_rank InsideComputation = 2"

lemma depth_rank_inject [simp]: "depth_rank a = depth_rank b \<longleftrightarrow> a = b"
  by (cases a; cases b) simp_all

lemma meta_depth_rank_inject [simp]: "meta_depth_rank a = meta_depth_rank b \<longleftrightarrow> a = b"
  by (cases a; cases b) simp_all

instantiation depth_level :: linorder
begin

definition less_eq_depth_level :: "depth_level \<Rightarrow> depth_level \<Rightarrow> bool" where
  "less_eq_depth_level a b \<longleftrightarrow> depth_rank a \<le> depth_rank b"

definition less_depth_level :: "depth_level \<Rightarrow> depth_level \<Rightarrow> bool" where
  "less_depth_level a b \<longleftrightarrow> depth_rank a < depth_rank b"

instance
  by standard (auto simp: less_eq_depth_level_def less_depth_level_def dest: le_antisym)

end

instantiation meta_depth_level :: linorder
begin

definition less_eq_meta_depth_level :: "meta_depth_level \<Rightarrow> meta_depth_level \<Rightarrow> bool" where
  "less_eq_meta_depth_level a b \<longleftrightarrow> meta_depth_rank a \<le> meta_depth_rank b"

definition less_meta_depth_level :: "meta_depth_level \<Rightarrow> meta_depth_level \<Rightarrow> bool" where
  "less_meta_depth_level a b \<longleftrightarrow> meta_depth_rank a < meta_depth_rank b"

instance
  by standard (auto simp: less_eq_meta_depth_level_def less_meta_depth_level_def dest: le_antisym)

end

section \<open>The cursor\<close>

record cursor =
  c_depth :: depth_level
  c_meta :: meta_depth_level

text \<open>The transition a node of the given kind makes, from the outer to the inner level.\<close>

fun transitionDepth :: "ast_kind \<Rightarrow> (depth_level \<times> depth_level) option" where
  "transitionDepth KindFunctionDecl = Some (TopLevel, InsideFunctionDecl)"
| "transitionDepth _ = None"

fun transitionMetaDepth :: "ast_kind \<Rightarrow> (meta_depth_level \<times> meta_depth_level) option" where
  "transitionMetaDepth KindMetaDecl = Some (Outside, InsideMetaDecl)"
| "transitionMetaDepth KindMetaCalculationStmt = Some (InsideMetaDecl, InsideComputation)"
| "transitionMetaDepth _ = None"

definition makeTransition :: "'d \<Rightarrow> 'd \<times> 'd \<Rightarrow> 'd res" where
  "makeTransition depth = (\<lambda>(from, to). bindE (assertE (depth = from) ''Unbalanced transitioning!'')
     (\<lambda>_. Inr to))"

definition reverse_transition :: "('d \<times> 'd \<Rightarrow> 'd res) \<Rightarrow> 'd \<times> 'd \<Rightarrow> 'd res" where
  "reverse_transition apply = (\<lambda>(left, right). apply (right, left))"

definition depth_descend :: "ast_kind \<Rightarrow> depth_level \<Rightarrow> depth_level res" where
  "depth_descend k d = (case transitionDepth k of None \<Rightarrow> Inr d | Some t \<Rightarrow> makeTransition d t)"

definition depth_ascend :: "ast_kind \<Rightarrow> depth_level \<Rightarrow> depth_level res" where
  "depth_ascend k d = (case transitionDepth k of None \<Rightarrow> Inr d
     | Some t \<Rightarrow> reverse_transition (makeTransition d) t)"

definition meta_descend :: "ast_kind \<Rightarrow> meta_depth_level \<Rightarrow> meta_depth_level res" where
  "meta_descend k d = (case transitionMetaDepth k of None \<Rightarrow> Inr d | Some t \<Rightarrow> makeTransition d t)"

definition meta_ascend :: "ast_kind \<Rightarrow> meta_depth_level \<Rightarrow> meta_depth_level res" where
  "meta_ascend k d = (case transitionMetaDepth k of None \<Rightarrow> Inr d
     | Some t \<Rightarrow> reverse_transition (makeTransition d) t)"

definition cursor_descend :: "ast_kind \<Rightarrow> cursor \<Rightarrow> cursor res" where
  "cursor_descend k c = bindE (depth_descend k (c_depth c)) (\<lambda>d.
     bindE (meta_descend k (c_meta c)) (\<lambda>m. Inr (c\<lparr>c_depth := d, c_meta := m\<rparr>)))"

definition cursor_ascend :: "ast_kind \<Rightarrow> cursor \<Rightarrow> cursor res" where
  "cursor_ascend k c = bindE (depth_ascend k (c_depth c)) (\<lambda>d.
     bindE (meta_ascend k (c_meta c)) (\<lambda>m. Inr (c\<lparr>c_depth := d, c_meta := m\<rparr>)))"

definition cursor_is :: "cursor \<Rightarrow> depth_level \<Rightarrow> meta_depth_level \<Rightarrow> bool" where
  "cursor_is c d m \<longleftrightarrow> c_depth c = d \<and> c_meta c = m"

definition isInsideFunctionDecl :: "cursor \<Rightarrow> bool" where
  "isInsideFunctionDecl c \<longleftrightarrow> c_depth c \<ge> InsideFunctionDecl"

definition isInsideMetaDecl :: "cursor \<Rightarrow> bool" where
  "isInsideMetaDecl c \<longleftrightarrow> c_meta c \<ge> InsideMetaDecl"

lemmas cursor_defs = cursor_descend_def cursor_ascend_def depth_descend_def depth_ascend_def
  meta_descend_def meta_ascend_def makeTransition_def reverse_transition_def

lemma isInsideFunctionDecl_iff: "isInsideFunctionDecl c \<longleftrightarrow> c_depth c = InsideFunctionDecl"
  by (cases "c_depth c") (simp_all add: isInsideFunctionDecl_def less_eq_depth_level_def)

lemma isInsideMetaDecl_iff: "isInsideMetaDecl c \<longleftrightarrow> c_meta c \<noteq> Outside"
  by (cases "c_meta c") (simp_all add: isInsideMetaDecl_def less_eq_meta_depth_level_def)

text \<open>Ascending undoes a descent, and only such an ascent is balanced.\<close>

lemma cursor_ascend_descend: "cursor_descend k c = Inr c' \<Longrightarrow> cursor_ascend k c' = Inr c"
  by (cases k) (auto simp: cursor_defs bindE_eq_Inr)

lemma cursor_descend_ascend: "cursor_ascend k c = Inr c' \<Longrightarrow> cursor_descend k c' = Inr c"
  by (cases k) (auto simp: cursor_defs bindE_eq_Inr)

text \<open>A function declaration nests in no function; a meta declaration in no meta declaration.\<close>

lemma cursor_descend_FunctionDecl:
  "(\<exists>c'. cursor_descend KindFunctionDecl c = Inr c') \<longleftrightarrow> \<not> isInsideFunctionDecl c"
  by (cases "c_depth c") (simp_all add: cursor_defs isInsideFunctionDecl_iff)

lemma cursor_descend_MetaDecl:
  "(\<exists>c'. cursor_descend KindMetaDecl c = Inr c') \<longleftrightarrow> \<not> isInsideMetaDecl c"
  by (cases "c_meta c") (simp_all add: cursor_defs isInsideMetaDecl_iff)

section \<open>The parser's stack of meta depths\<close>

datatype meta_depth = DepthGlobalScope | DepthLocalScope | DepthNone

type_synonym depth_stack = "meta_depth list" \<comment> \<open>the top is the head\<close>

definition isInMetaDecl_stack :: "depth_stack \<Rightarrow> bool" where
  "isInMetaDecl_stack st \<longleftrightarrow> st \<noteq> []"

definition isInMetaDepth :: "meta_depth \<Rightarrow> depth_stack \<Rightarrow> bool res" where
  "isInMetaDepth d st =
     bindE (assertE (isInMetaDecl_stack st)
       ''Tried to access the meta depth without being in a meta decl.'')
     (\<lambda>_. Inr (hd st = d))"

definition enterDepth :: "meta_depth \<Rightarrow> depth_stack \<Rightarrow> depth_stack" where
  "enterDepth d st = d # st"

definition leaveDepth :: "depth_stack \<Rightarrow> depth_stack res" where
  "leaveDepth st =
     bindE (assertE (st \<noteq> [])
       ''Tried to pop an unbalanced amount of depth states from the stack!'')
     (\<lambda>_. Inr (tl st))"

text \<open>The parser's destructor accepts an unbalanced stack only after a syntax error.\<close>

definition parser_destroy :: "nat \<Rightarrow> depth_stack \<Rightarrow> unit res" where
  "parser_destroy syntaxErrors st =
     assertE (syntaxErrors \<noteq> 0 \<or> st = []) ''Ended with an unbalanced depth stack''"

lemma leave_enterDepth [simp]: "leaveDepth (enterDepth d st) = Inr st"
  by (simp add: leaveDepth_def enterDepth_def)

lemma isInMetaDepth_enterDepth [simp]: "isInMetaDepth d (enterDepth d' st) = Inr (d' = d)"
  by (simp add: isInMetaDepth_def enterDepth_def isInMetaDecl_stack_def)

end
