(* ===== verification/Builder.thy ===== *)
theory Builder imports Scope Cursor begin

text \<open>
  \<^verbatim>\<open>src/Parse/BasicASTBuilder\<close>: the current scope, the stack of meta modes, and the introduction
  and lookup of declarations with their diagnostics. \<open>[]\<close> as the current scope is the null scope.

  What the code reads from nodes built earlier is kept in maps by address: the unit a top level
  node is contained in, the exported node and the scope of a unit. What it reads through the
  instantiation of a meta unit (a finished expression of another tree) is the parameter \<open>inst_view\<close>:
  the name of the instantiated reference and the declaration it is resolved to, if any.
\<close>

record params =
  edit_distance :: "string \<Rightarrow> string \<Rightarrow> nat"
  iteration :: "(string \<times> obj) list \<Rightarrow> (string \<times> obj) list"
  inst_view :: "addr \<Rightarrow> (ident \<times> obj option) option"

record builder_state =
  currentScope :: scope_chain
  modeStack :: "meta_depth_level list"
  containingUnit :: "addr \<Rightarrow> obj option"
  exportedNode :: "addr \<Rightarrow> addr option"
  unitScope :: "addr \<Rightarrow> scope_chain option"
  engine_of :: engine

definition builder_new :: "engine \<Rightarrow> builder_state" where
  "builder_new e = \<lparr>currentScope = [], modeStack = [], containingUnit = Map.empty,
     exportedNode = Map.empty, unitScope = Map.empty, engine_of = e\<rparr>"

section \<open>Modes\<close>

definition currentMode :: "'a builder_state_scheme \<Rightarrow> meta_depth_level" where
  "currentMode s = (if modeStack s = [] then Outside else hd (modeStack s))"

definition mode_is :: "meta_depth_level \<Rightarrow> 'a builder_state_scheme \<Rightarrow> bool" where
  "mode_is m s \<longleftrightarrow> m = currentMode s"

definition setMode :: "meta_depth_level \<Rightarrow> 'a builder_state_scheme \<Rightarrow> 'a builder_state_scheme" where
  "setMode m s = s\<lparr>modeStack := m # modeStack s\<rparr>"

text \<open>The action of leaving the scope of a mode.\<close>

definition leaveMode :: "'a builder_state_scheme \<Rightarrow> 'a builder_state_scheme res" where
  "leaveMode s = bindE (assertE (modeStack s \<noteq> []) ''!modeStack_.empty()'')
     (\<lambda>_. Inr (s\<lparr>modeStack := tl (modeStack s)\<rparr>))"

definition enterMetaDeclMode :: "'a builder_state_scheme \<Rightarrow> 'a builder_state_scheme res" where
  "enterMetaDeclMode s = bindE (assertE (mode_is Outside s) ''metaDeclMode_.is(Outside)'')
     (\<lambda>_. Inr (setMode InsideMetaDecl s))"

definition enterMetaComputationMode :: "'a builder_state_scheme \<Rightarrow> 'a builder_state_scheme res" where
  "enterMetaComputationMode s =
     bindE (assertE (mode_is InsideMetaDecl s) ''metaDeclMode_.is(InsideMetaDecl)'')
     (\<lambda>_. Inr (setMode InsideComputation s))"

definition isInMetaDeclMode :: "'a builder_state_scheme \<Rightarrow> bool" where
  "isInMetaDeclMode s \<longleftrightarrow> mode_is InsideMetaDecl s"

definition isAllowedToIntroduceDecls :: "'a builder_state_scheme \<Rightarrow> bool" where
  "isAllowedToIntroduceDecls s \<longleftrightarrow> \<not> isInMetaDeclMode s"

definition isAllowedToResolveDecls :: "'a builder_state_scheme \<Rightarrow> bool" where
  "isAllowedToResolveDecls s \<longleftrightarrow> \<not> isInMetaDeclMode s"

lemmas mode_defs = currentMode_def mode_is_def setMode_def leaveMode_def enterMetaDeclMode_def
  enterMetaComputationMode_def isInMetaDeclMode_def isAllowedToIntroduceDecls_def
  isAllowedToResolveDecls_def

section \<open>Scopes\<close>

definition isInAnyScope :: "'a builder_state_scheme \<Rightarrow> bool" where
  "isInAnyScope s \<longleftrightarrow> currentScope s \<noteq> []"

definition getCurrentScope :: "'a builder_state_scheme \<Rightarrow> scope_chain res" where
  "getCurrentScope s = bindE (assertE (isInAnyScope s) ''Tried to access an empty scope!'')
     (\<lambda>_. Inr (currentScope s))"

definition enterTemporaryScope :: "'a builder_state_scheme \<Rightarrow> 'a builder_state_scheme res" where
  "enterTemporaryScope s = bindE (getCurrentScope s) (\<lambda>cur.
     Inr (s\<lparr>currentScope := createTemporary cur\<rparr>))"

text \<open>A consistent scope starts from the given parent, not from the current scope.\<close>

definition enterConsistentScope ::
    "scope_chain option \<Rightarrow> 'a builder_state_scheme \<Rightarrow> 'a builder_state_scheme res" where
  "enterConsistentScope parent s =
     bindE (assertE (\<not> isInAnyScope s \<or> scope_isConsistent (currentScope s))
       ''Tried to initialize a consistent scope on top of a temporary one!'')
     (\<lambda>_. Inr (s\<lparr>currentScope := createConsistent (case parent of None \<Rightarrow> [] | Some p \<Rightarrow> p)\<rparr>))"

definition enterInplaceScope :: "'a builder_state_scheme \<Rightarrow> 'a builder_state_scheme res" where
  "enterInplaceScope s = bindE (getCurrentScope s) (\<lambda>cur.
     Inr (s\<lparr>currentScope := createInplace cur\<rparr>))"

text \<open>
  Leaving a temporary or an inplace scope: the current scope is the one entered, and the previous
  one, which is its parent, becomes current. A consistent scope gives way to the scope that was
  current before it.
\<close>

definition leaveScope :: "'a builder_state_scheme \<Rightarrow> 'a builder_state_scheme res" where
  "leaveScope s = bindE (assertE (isInAnyScope s) ''Wrong scope replacement order!'')
     (\<lambda>_. Inr (s\<lparr>currentScope := tl (currentScope s)\<rparr>))"

definition leaveConsistentScope ::
    "scope_chain \<Rightarrow> 'a builder_state_scheme \<Rightarrow> 'a builder_state_scheme res" where
  "leaveConsistentScope previous s =
     bindE (assertE (isInAnyScope s) ''Wrong scope replacement order!'')
     (\<lambda>_. Inr (s\<lparr>currentScope := previous\<rparr>))"

text \<open>The declarations the listener of the innermost inplace scope has been told of.\<close>

definition inplaceListened :: "'a builder_state_scheme \<Rightarrow> obj list" where
  "inplaceListened s = (case currentScope s of InplaceScope ds # fs \<Rightarrow> ds | _ \<Rightarrow> [])"

definition builder_destroy_check :: "'a builder_state_scheme \<Rightarrow> unit res" where
  "builder_destroy_check s = assertE (\<not> isInAnyScope s) ''Ended with imbalanced scopes!''"

section \<open>Lookup\<close>

definition directLookup :: "string \<Rightarrow> 'a builder_state_scheme \<Rightarrow> obj option res" where
  "directLookup str s = bindE (getCurrentScope s) (\<lambda>cur. Inr (lookupIdentifier str cur))"

definition similarDeclarationOf ::
    "params \<Rightarrow> string \<Rightarrow> 'a builder_state_scheme \<Rightarrow> obj option res" where
  "similarDeclarationOf p str s = bindE (getCurrentScope s) (\<lambda>cur.
     Inr (similarTo (edit_distance p) (iteration p) str cur))"

definition report ::
    "diagnostic \<Rightarrow> ident \<Rightarrow> diag_arg list \<Rightarrow> 'a builder_state_scheme \<Rightarrow> 'a builder_state_scheme" where
  "report d at args s = s\<lparr>engine_of := diagnoseAt d at args (engine_of s)\<rparr>"

text \<open>
  \<open>lookup\<close> reports an unknown name and the nearest visible declaration; it never repairs the name.
\<close>

definition lookup ::
    "params \<Rightarrow> ident \<Rightarrow> 'a builder_state_scheme \<Rightarrow> (obj option \<times> 'a builder_state_scheme) res" where
  "lookup p i s = bindE (directLookup (getType i) s) (\<lambda>decl.
     case decl of
       Some d \<Rightarrow> Inr (Some d, s)
     | None \<Rightarrow>
         bindE (similarDeclarationOf p (getType i) (report ErrorDeclarationUnknown i [ArgStr (getType i)] s))
         (\<lambda>similar. case similar of
            None \<Rightarrow> Inr (None, report ErrorDeclarationUnknown i [ArgStr (getType i)] s)
          | Some d \<Rightarrow> Inr (None, report NoteDidYouMeanQuestion (getName d)
              [ArgKind (obj_kind d), ArgStr (name_str d)]
              (report ErrorDeclarationUnknown i [ArgStr (getType i)] s))))"

section \<open>Introduction\<close>

text \<open>
  A declaration shadows a meta declaration if it is the exported node of the meta unit that
  results from instantiating that very meta declaration.
\<close>

definition isShadowingDeclFromExportedNode ::
    "params \<Rightarrow> obj \<Rightarrow> obj \<Rightarrow> 'a builder_state_scheme \<Rightarrow> bool res" where
  "isShadowingDeclFromExportedNode p current previous s =
     (if \<not> isMetaDecl previous then Inr False
      else if \<not> isTopLevelNode (obj_kind current) then Inr False
      else (case containingUnit s (obj_addr current) of
          None \<Rightarrow> Inl NullDeref
        | Some unit \<Rightarrow>
            (case obj_payload unit of
               PMetaUnit inst \<Rightarrow>
                 (case inst_view p inst of
                    Some (name, Some decl) \<Rightarrow>
                      if obj_addr decl \<noteq> obj_addr previous then Inr False
                      else Inr (exportedNode s (obj_addr unit) = Some (obj_addr current))
                  | _ \<Rightarrow> Inl NullDeref)
             | _ \<Rightarrow> Inr False)))"

definition isAllowedToShadowDecl ::
    "params \<Rightarrow> obj \<Rightarrow> obj \<Rightarrow> 'a builder_state_scheme \<Rightarrow> bool res" where
  "isAllowedToShadowDecl p current previous s =
     bindE (isShadowingDeclFromExportedNode p current previous s) (\<lambda>b. if b then Inr True else Inr False)"

definition insertDecl :: "obj \<Rightarrow> 'a builder_state_scheme \<Rightarrow> 'a builder_state_scheme res" where
  "insertDecl d s = bindE (getCurrentScope s) (\<lambda>cur.
     bindE (scope_insert (name_str d) d cur) (\<lambda>cur. Inr (s\<lparr>currentScope := cur\<rparr>)))"

definition rejectDecl :: "obj \<Rightarrow> obj \<Rightarrow> 'a builder_state_scheme \<Rightarrow> 'a builder_state_scheme res" where
  "rejectDecl d previous s =
     bindE (assertE (obj_addr previous \<noteq> obj_addr d) ''Tried to introduce a named decl twice!'')
     (\<lambda>_. Inr (report NotePreviousTypeDeclarationHint (getName previous) [ArgKind (obj_kind previous)]
        (report ErrorNameTypeDeclaredAlready (getName d) [ArgKind (obj_kind d), ArgStr (name_str d)] s)))"

definition introduce :: "params \<Rightarrow> obj \<Rightarrow> 'a builder_state_scheme \<Rightarrow> 'a builder_state_scheme res" where
  "introduce p d s =
     (if \<not> isAllowedToIntroduceDecls s then Inr s
      else bindE (directLookup (name_str d) s) (\<lambda>previous.
        case previous of
          None \<Rightarrow> insertDecl d s
        | Some prev \<Rightarrow> bindE (isAllowedToShadowDecl p d prev s) (\<lambda>allowed.
            if \<not> allowed then rejectDecl d prev s else insertDecl d s)))"

lemmas introduce_defs = introduce_def directLookup_def getCurrentScope_def isAllowedToShadowDecl_def
  isShadowingDeclFromExportedNode_def insertDecl_def rejectDecl_def report_def

section \<open>Facts about introduction and lookup\<close>

lemma report_simps [simp]:
  "currentScope (report d i args s) = currentScope s"
  "modeStack (report d i args s) = modeStack s"
  "containingUnit (report d i args s) = containingUnit s"
  "exportedNode (report d i args s) = exportedNode s"
  "unitScope (report d i args s) = unitScope s"
  by (simp_all add: report_def)

lemma report_errors [simp]:
  "hasErrors (engine_of (report d i args s)) \<longleftrightarrow>
     hasErrors (engine_of s) \<or> getDiagnosticSeverity d = Error"
  by (simp add: report_def)

lemma directLookup_in_scope [simp]:
  "currentScope s \<noteq> [] \<Longrightarrow> directLookup str s = Inr (lookupIdentifier str (currentScope s))"
  by (simp add: directLookup_def getCurrentScope_def isInAnyScope_def)

text \<open>Lookup touches nothing but the diagnostics, and reports exactly the unknown names.\<close>

lemma lookup_result:
  assumes "lookup p i s = Inr (r, t)"
  shows "r = lookupIdentifier (getType i) (currentScope s)"
    and "currentScope t = currentScope s" and "modeStack t = modeStack s"
    and "containingUnit t = containingUnit s" and "exportedNode t = exportedNode s"
    and "unitScope t = unitScope s"
    and "hasErrors (engine_of t) \<longleftrightarrow> hasErrors (engine_of s) \<or> r = None"
  using assms
  by (auto simp: lookup_def directLookup_def getCurrentScope_def similarDeclarationOf_def bindE_eq_Inr
      split: option.splits)

lemma lookup_total:
  "currentScope s \<noteq> [] \<Longrightarrow> \<exists>r t. lookup p i s = Inr (r, t)"
  by (auto simp: lookup_def similarDeclarationOf_def getCurrentScope_def isInAnyScope_def report_def
      split: option.splits)

end
