(* ===== verification/Layout.thy ===== *)
theory Layout imports Builder begin

text \<open>
  Layouts (\<^verbatim>\<open>src/Parse/ASTLayout.hpp\<close>, \<^verbatim>\<open>ASTLayout.cpp\<close>): a syntax tree as a flat sequence of
  node objects. A node is followed by its children; a node whose number of children is not known
  from its class is closed by a reduce marker, the null pointer. This theory holds the writer,
  the layout \<open>flatten t\<close> of a whole tree, and the reader's cursor operations: looking at, shifting
  and reducing the current element, and crawling over the nodes of the current scope.
\<close>

type_synonym layout = "obj option list"

section \<open>The writer\<close>

definition directWrite :: "obj \<Rightarrow> layout \<Rightarrow> layout" where
  "directWrite n l = l @ [Some n]"

definition markReduce :: "layout \<Rightarrow> layout" where
  "markReduce l = l @ [None]"

definition isNodeRequiringReduceMarker :: "obj \<Rightarrow> bool" where
  "isNodeRequiringReduceMarker n = isRequiringReduceMarker (obj_kind n)"

definition write_node :: "obj \<Rightarrow> layout \<Rightarrow> layout" where
  "write_node n l = (let l = directWrite n l in if isNodeRequiringReduceMarker n then markReduce l else l)"

text \<open>\<open>scopedWrite\<close> writes the node; its leave action closes the node after the given writes.\<close>

definition scopedWrite :: "obj \<Rightarrow> (layout \<Rightarrow> layout) \<Rightarrow> layout \<Rightarrow> layout" where
  "scopedWrite n inner l = (let l = inner (directWrite n l)
     in if isNodeRequiringReduceMarker n then markReduce l else l)"

lemmas writer_defs = directWrite_def markReduce_def write_node_def scopedWrite_def

section \<open>The layout of a tree\<close>

fun flatten :: "ast \<Rightarrow> layout" where
  "flatten t = Some (obj_of t) # concat (map flatten (children t))
     @ (if isRequiringReduceMarker (getKind t) then [None] else [])"

declare flatten.simps [simp del]

definition flattens :: "ast list \<Rightarrow> layout" where
  "flattens ts = concat (map flatten ts)"

lemma flattens_simps [simp]:
  "flattens [] = []" "flattens (t # ts) = flatten t @ flattens ts"
  "flattens (ts @ us) = flattens ts @ flattens us"
  by (simp_all add: flattens_def)

lemma flatten_eq: "flatten t = Some (obj_of t) # flattens (children t)
     @ (if isRequiringReduceMarker (getKind t) then [None] else [])"
  by (simp add: flatten.simps [of t] flattens_def)

lemma flatten_nonempty [simp]: "flatten t \<noteq> []"
  by (simp add: flatten_eq)

lemma node_count_measure: "Suc (2 * sum_list (map node_count (children t))) < 2 * node_count t"
  using node_count_children [of t] by simp

section \<open>The reader's cursor\<close>

record reader = builder_state +
  layout_of :: layout
  pos :: nat

definition reader_new :: "engine \<Rightarrow> layout \<Rightarrow> reader" where
  "reader_new e l = builder_state.extend (builder_new e) \<lparr>layout_of = l, pos = 0\<rparr>"

definition peek :: "reader \<Rightarrow> obj option res" where
  "peek s = bindE (assertE (pos s < length (layout_of s)) ''Didn't expected to be at the end!'')
     (\<lambda>_. Inr (layout_of s ! pos s))"

text \<open>\<open>*peek()\<close>: the element as a node, which must not be null.\<close>

definition peekNode :: "reader \<Rightarrow> obj res" where
  "peekNode s = bindE (peek s) (\<lambda>n. case n of None \<Rightarrow> Inl NullDeref | Some n \<Rightarrow> Inr n)"

text \<open>\<open>is<T>()\<close> and \<open>peekAs<T>()\<close>, with the class given by its predicate on kinds.\<close>

definition peekIs :: "(ast_kind \<Rightarrow> bool) \<Rightarrow> reader \<Rightarrow> bool res" where
  "peekIs P s = bindE (peekNode s) (\<lambda>n. Inr (P (obj_kind n)))"

definition peekAs :: "(ast_kind \<Rightarrow> bool) \<Rightarrow> reader \<Rightarrow> obj res" where
  "peekAs P s = bindE (peekNode s) (\<lambda>n. if P (obj_kind n) then Inr n else Inl BadCast)"

definition shift :: "reader \<Rightarrow> (obj option \<times> reader) res" where
  "shift s = bindE (peek s) (\<lambda>current. Inr (current, s\<lparr>pos := Suc (pos s)\<rparr>))"

definition shiftNode :: "reader \<Rightarrow> (obj \<times> reader) res" where
  "shiftNode s = bindE (shift s) (\<lambda>(n, s). case n of None \<Rightarrow> Inl NullDeref | Some n \<Rightarrow> Inr (n, s))"

text \<open>
  \<open>shiftAs<T>\<close> and \<open>scopedShiftAs<T>\<close>; the latter's leave action is \<open>leaveShift\<close>.
\<close>

definition shiftAs :: "(ast_kind \<Rightarrow> bool) \<Rightarrow> reader \<Rightarrow> (obj \<times> reader) res" where
  "shiftAs P s = bindE (shiftNode s) (\<lambda>(n, s). if P (obj_kind n) then Inr (n, s) else Inl BadCast)"

definition shouldReduce :: "reader \<Rightarrow> bool res" where
  "shouldReduce s = bindE (peek s) (\<lambda>n. Inr (n = None))"

definition reduce :: "reader \<Rightarrow> reader res" where
  "reduce s = bindE (shouldReduce s) (\<lambda>r.
     bindE (assertE r ''Expected a reduce mark at the current position!'') (\<lambda>_.
     bindE (shift s) (\<lambda>(_, s). Inr s)))"

definition leaveShift :: "obj \<Rightarrow> reader \<Rightarrow> reader res" where
  "leaveShift n s = (if isNodeRequiringReduceMarker n then reduce s else Inr s)"

lemmas reader_defs = peek_def peekNode_def peekIs_def peekAs_def shift_def shiftNode_def shiftAs_def
  shouldReduce_def reduce_def leaveShift_def

text \<open>What is left to read, and the equations that read it.\<close>

definition remaining :: "reader \<Rightarrow> layout" where
  "remaining s = drop (pos s) (layout_of s)"

lemma remaining_update [simp]:
  "remaining (s\<lparr>currentScope := x1\<rparr>) = remaining s"
  "remaining (s\<lparr>modeStack := x2\<rparr>) = remaining s"
  "remaining (s\<lparr>containingUnit := x3\<rparr>) = remaining s"
  "remaining (s\<lparr>exportedNode := x4\<rparr>) = remaining s"
  "remaining (s\<lparr>unitScope := x5\<rparr>) = remaining s"
  "remaining (s\<lparr>engine_of := x6\<rparr>) = remaining s"
  by (simp_all add: remaining_def)

lemma peek_remaining:
  "peek s = (case remaining s of [] \<Rightarrow> Inl (AssertFailed ''Didn't expected to be at the end!'')
     | x # xs \<Rightarrow> Inr x)"
proof (cases "remaining s")
  case Nil
  then show ?thesis by (simp add: peek_def remaining_def)
next
  case (Cons x xs)
  then show ?thesis
    using drop_eq_ConsD [of "pos s" "layout_of s" x xs] by (simp add: peek_def remaining_def)
qed

lemma shift_remaining:
  assumes "remaining s = x # xs"
  shows "shift s = Inr (x, s\<lparr>pos := Suc (pos s)\<rparr>)" and "remaining (s\<lparr>pos := Suc (pos s)\<rparr>) = xs"
proof -
  show "shift s = Inr (x, s\<lparr>pos := Suc (pos s)\<rparr>)"
    using assms by (simp add: shift_def peek_remaining)
  show "remaining (s\<lparr>pos := Suc (pos s)\<rparr>) = xs"
    using assms drop_eq_ConsD(3) by (simp add: remaining_def)
qed

section \<open>Crawling\<close>

text \<open>
  \<open>crawlExpand\<close> skips the rest of a node up to its reduce marker, going into the nodes that have
  markers of their own. Its fuel is spent once per element; the length of what remains is enough.
\<close>

fun crawlExpand :: "nat \<Rightarrow> reader \<Rightarrow> reader res" where
  "crawlExpand 0 s = Inl OutOfFuel"
| "crawlExpand (Suc n) s = bindE (shouldReduce s) (\<lambda>r.
     if r then reduce s
     else bindE (shiftNode s) (\<lambda>(current, s).
       if isNodeRequiringReduceMarker current
       then bindE (crawlExpand n s) (crawlExpand n)
       else crawlExpand n s))"

text \<open>The nodes the consumer is called with, in order; the position is restored afterwards.\<close>

fun crawl_loop :: "nat \<Rightarrow> reader \<Rightarrow> obj list res" where
  "crawl_loop 0 s = Inl OutOfFuel"
| "crawl_loop (Suc n) s = bindE (shouldReduce s) (\<lambda>r.
     if r then Inr []
     else bindE (shiftNode s) (\<lambda>(current, s).
       bindE (if isNodeRequiringReduceMarker current then crawlExpand n s else Inr s) (\<lambda>s.
       bindE (crawl_loop n s) (\<lambda>ns. Inr (current # ns)))))"

definition crawl_fuel :: "reader \<Rightarrow> nat" where
  "crawl_fuel s = Suc (length (layout_of s))"

definition crawlCurrentScope :: "(obj \<Rightarrow> reader \<Rightarrow> reader res) \<Rightarrow> reader \<Rightarrow> reader res" where
  "crawlCurrentScope consumer s = bindE (crawl_loop (crawl_fuel s) s) (\<lambda>ns. foldE consumer ns s)"

text \<open>
  The nodes a crawl over the layouts of trees visits: each tree's root, and below a root without
  reduce marker its children in the same way.
\<close>

fun crawl_nodes :: "ast \<Rightarrow> ast list" where
  "crawl_nodes t = t # (if isRequiringReduceMarker (getKind t) then []
     else concat (map crawl_nodes (children t)))"

declare crawl_nodes.simps [simp del]

lemma shouldReduce_Some [simp]: "remaining s = Some x # xs \<Longrightarrow> shouldReduce s = Inr False"
  by (simp add: shouldReduce_def peek_remaining)

lemma shouldReduce_None [simp]: "remaining s = None # xs \<Longrightarrow> shouldReduce s = Inr True"
  by (simp add: shouldReduce_def peek_remaining)

lemma shiftNode_Some:
  "remaining s = Some x # xs \<Longrightarrow> shiftNode s = Inr (x, s\<lparr>pos := Suc (pos s)\<rparr>)"
  by (simp add: shiftNode_def shift_remaining)

lemma reduce_None: "remaining s = None # xs \<Longrightarrow> reduce s = Inr (s\<lparr>pos := Suc (pos s)\<rparr>)"
  by (simp add: reduce_def shift_remaining)

text \<open>
  Skipping the layouts of trees within a production, and then its marker. \<open>pos\<close> moves by the
  elements skipped.
\<close>

lemma crawlExpand_flattens:
  assumes "remaining s = flattens ts @ None # rest" and "length (flattens ts) < n"
  shows "crawlExpand n s = Inr (s\<lparr>pos := pos s + Suc (length (flattens ts))\<rparr>)"
  using assms
proof (induction "length (flattens ts)" arbitrary: ts n s rest rule: less_induct)
  case less
  obtain m where n: "n = Suc m" using less.prems(2) by (cases n) auto
  show ?case
  proof (cases ts)
    case Nil
    with less.prems n show ?thesis by (simp add: reduce_None)
  next
    case (Cons t ts')
    let ?s = "s\<lparr>pos := Suc (pos s)\<rparr>"
    let ?cs = "children t"
    note f = flatten_eq [of t]
    have rem: "remaining s = Some (obj_of t) # flattens ?cs
        @ (if isRequiringReduceMarker (getKind t) then [None] else []) @ flattens ts' @ None # rest"
      using less.prems(1) Cons f by simp
    note step = shiftNode_Some [OF rem] shift_remaining(2) [OF rem]
    show ?thesis
    proof (cases "isRequiringReduceMarker (getKind t)")
      case True
      have 1: "crawlExpand m ?s = Inr (?s\<lparr>pos := pos ?s + Suc (length (flattens ?cs))\<rparr>)"
        using less.hyps [of ?cs ?s "flattens ts' @ None # rest" m] True Cons f n less.prems(2) step(2)
        by simp
      let ?u = "?s\<lparr>pos := pos ?s + Suc (length (flattens ?cs))\<rparr>"
      have "remaining ?u = drop (Suc (length (flattens ?cs))) (remaining ?s)"
        by (simp add: remaining_def add.commute)
      then have "remaining ?u = flattens ts' @ None # rest"
        using step(2) True by simp
      then have 2: "crawlExpand m ?u = Inr (?u\<lparr>pos := pos ?u + Suc (length (flattens ts'))\<rparr>)"
        using less.hyps [of ts' ?u rest m] Cons f n less.prems(2) by simp
      from 1 2 rem n step True Cons f show ?thesis
        by (simp add: isNodeRequiringReduceMarker_def)
    next
      case False
      have "crawlExpand m ?s = Inr (?s\<lparr>pos := pos ?s + Suc (length (flattens (?cs @ ts')))\<rparr>)"
        using less.hyps [of "?cs @ ts'" ?s rest m] False Cons f n less.prems(2) step(2) by simp
      with rem n step False Cons f show ?thesis
        by (simp add: isNodeRequiringReduceMarker_def)
    qed
  qed
qed

lemma crawl_loop_flattens:
  assumes "remaining s = flattens ts @ None # rest" and "length (flattens ts) < n"
  shows "crawl_loop n s = Inr (map obj_of (concat (map crawl_nodes ts)))"
  using assms
proof (induction "length (flattens ts)" arbitrary: ts n s rest rule: less_induct)
  case less
  obtain m where n: "n = Suc m" using less.prems(2) by (cases n) auto
  show ?case
  proof (cases ts)
    case Nil
    with less.prems n show ?thesis by simp
  next
    case (Cons t ts')
    let ?s = "s\<lparr>pos := Suc (pos s)\<rparr>"
    let ?cs = "children t"
    note f = flatten_eq [of t]
    have rem: "remaining s = Some (obj_of t) # flattens ?cs
        @ (if isRequiringReduceMarker (getKind t) then [None] else []) @ flattens ts' @ None # rest"
      using less.prems(1) Cons f by simp
    note step = shiftNode_Some [OF rem] shift_remaining(2) [OF rem]
    show ?thesis
    proof (cases "isRequiringReduceMarker (getKind t)")
      case True
      let ?u = "?s\<lparr>pos := pos ?s + Suc (length (flattens ?cs))\<rparr>"
      have 1: "crawlExpand m ?s = Inr ?u"
        using crawlExpand_flattens [of ?s ?cs "flattens ts' @ None # rest" m] True Cons f n
          less.prems(2) step(2)
        by simp
      have "remaining ?u = drop (Suc (length (flattens ?cs))) (remaining ?s)"
        by (simp add: remaining_def add.commute)
      then have "remaining ?u = flattens ts' @ None # rest"
        using step(2) True by simp
      then have 2: "crawl_loop m ?u = Inr (map obj_of (concat (map crawl_nodes ts')))"
        using less.hyps [of ts' ?u rest m] Cons f n less.prems(2) by simp
      from 1 2 rem n step True Cons f show ?thesis
        by (simp add: isNodeRequiringReduceMarker_def crawl_nodes.simps [of t])
    next
      case False
      have "crawl_loop m ?s = Inr (map obj_of (concat (map crawl_nodes (?cs @ ts'))))"
        using less.hyps [of "?cs @ ts'" ?s rest m] False Cons f n less.prems(2) step(2) by simp
      with rem n step False Cons f show ?thesis
        by (simp add: isNodeRequiringReduceMarker_def crawl_nodes.simps [of t])
    qed
  qed
qed

end
