(* ===== verification/Grammar.thy ===== *)
theory Grammar imports Layout begin

text \<open>
  The syntax trees the program can write into a layout, as a predicate: the classes of the children
  of each class, and where meta declarations, \<open>meta if\<close> and \<open>meta { }\<close> may stand. \<open>erase\<close> forgets what
  the reader adds to a tree (resolved declarations, exported declarations); \<open>locals\<close> lists the nodes
  that are introduced while a declaration is read.
\<close>

section \<open>What the reader adds\<close>

fun erase :: "ast \<Rightarrow> ast" where
  "erase (CompilationUnit a cs) = CompilationUnit a (map erase cs)"
| "erase (MetaUnit a i cs) = MetaUnit a i (map erase cs)"
| "erase (FunctionDecl a n args r b) = FunctionDecl a n (erase args) (map_option erase r) (erase b)"
| "erase (MetaDecl a n args c) = MetaDecl a n (erase args) (erase c)"
| "erase (MetaContribution a rg cs) = MetaContribution a rg (map erase cs)"
| "erase (ArgumentDeclList a cs) = ArgumentDeclList a (map erase cs)"
| "erase (AnonymousArgumentDecl a) = AnonymousArgumentDecl a"
| "erase (NamedArgumentDecl a n) = NamedArgumentDecl a n"
| "erase (GlobalConstantDecl a n e) = GlobalConstantDecl a n (erase e)"
| "erase (UnscopedCompoundStmt a cs) = UnscopedCompoundStmt a (map erase cs)"
| "erase (CompoundStmt a cs) = CompoundStmt a (map erase cs)"
| "erase (ReturnStmt a e) = ReturnStmt a (map_option erase e)"
| "erase (ExpressionStmt a e) = ExpressionStmt a (erase e)"
| "erase (DeclStmt a n e) = DeclStmt a n (erase e)"
| "erase (IfStmt a c t f) = IfStmt a (erase c) (erase t) (map_option erase f)"
| "erase (MetaIfStmt a c t f) = MetaIfStmt a (erase c) (erase t) (map_option erase f)"
| "erase (MetaCalculationStmt a s ds) = MetaCalculationStmt a (erase s) []"
| "erase (DeclRefExpr a n d) = DeclRefExpr a n None"
| "erase (IntegerLiteralExpr a l) = IntegerLiteralExpr a l"
| "erase (BooleanLiteralExpr a l) = BooleanLiteralExpr a l"
| "erase (ErroneousExpr a) = ErroneousExpr a"
| "erase (BinaryOperatorExpr a b l r) = BinaryOperatorExpr a b (erase l) (erase r)"
| "erase (CallOperatorExpr a c es) = CallOperatorExpr a (erase c) (map erase es)"
| "erase (MetaInstantiationExpr a rg d es) = MetaInstantiationExpr a rg (erase d) (map erase es)"

lemma obj_of_erase [simp]: "obj_of (erase t) = obj_of t"
  by (cases t) simp_all

lemma getKind_erase [simp]: "getKind (erase t) = getKind t"
  by (simp only: getKind_def obj_of_erase)

lemma map_opt_list: "opt_list (map_option f x) = map f (opt_list x)"
  by (cases x) simp_all

lemma children_erase [simp]: "children (erase t) = map erase (children t)"
  by (cases t) (simp_all add: map_opt_list)

text \<open>A layout does not hold what the reader adds.\<close>

lemma flatten_erase [simp]: "flatten (erase t) = flatten t"
proof (induction t rule: ast_children_induct)
  case (node t)
  then have "concat (map (flatten \<circ> erase) (children t)) = concat (map flatten (children t))"
    by (metis (mono_tags, lifting) comp_apply map_eq_conv)
  then show ?case
    by (simp only: flatten_eq [of t] flatten_eq [of "erase t"] flattens_def children_erase map_map
        obj_of_erase getKind_erase)
qed

section \<open>The grammar\<close>

fun grammatical :: "meta_depth_level \<Rightarrow> ast \<Rightarrow> bool" where
  "grammatical m (CompilationUnit a cs) \<longleftrightarrow> False"
| "grammatical m (MetaUnit a i cs) \<longleftrightarrow> False"
| "grammatical m (FunctionDecl a n args r b) \<longleftrightarrow>
     getKind args = KindArgumentDeclList \<and> grammatical m args
     \<and> (\<forall>x \<in> set_option r. isAnonymousArgumentDecl (getKind x) \<and> grammatical m x)
     \<and> isStmtNode (getKind b) \<and> grammatical m b"
| "grammatical m (MetaDecl a n args c) \<longleftrightarrow> m = Outside
     \<and> getKind args = KindArgumentDeclList \<and> grammatical m args
     \<and> getKind c = KindMetaContribution \<and> grammatical InsideMetaDecl c"
| "grammatical m (MetaContribution a rg cs) \<longleftrightarrow> (\<forall>c \<in> set cs. grammatical m c)"
| "grammatical m (ArgumentDeclList a cs) \<longleftrightarrow>
     (\<forall>c \<in> set cs. isAnonymousArgumentDecl (getKind c) \<and> grammatical m c)"
| "grammatical m (AnonymousArgumentDecl a) \<longleftrightarrow> True"
| "grammatical m (NamedArgumentDecl a n) \<longleftrightarrow> True"
| "grammatical m (GlobalConstantDecl a n e) \<longleftrightarrow> isConstantExpr (getKind e) \<and> grammatical m e"
| "grammatical m (UnscopedCompoundStmt a cs) \<longleftrightarrow>
     (\<forall>c \<in> set cs. isStmtNode (getKind c) \<and> grammatical m c)"
| "grammatical m (CompoundStmt a cs) \<longleftrightarrow>
     (\<forall>c \<in> set cs. isStmtNode (getKind c) \<and> grammatical m c)"
| "grammatical m (ReturnStmt a e) \<longleftrightarrow> (\<forall>x \<in> set_option e. isExprNode (getKind x) \<and> grammatical m x)"
| "grammatical m (ExpressionStmt a e) \<longleftrightarrow> isExprNode (getKind e) \<and> grammatical m e"
| "grammatical m (DeclStmt a n e) \<longleftrightarrow> isExprNode (getKind e) \<and> grammatical m e"
| "grammatical m (IfStmt a c t f) \<longleftrightarrow> isExprNode (getKind c) \<and> grammatical m c
     \<and> isStmtNode (getKind t) \<and> grammatical m t
     \<and> (\<forall>x \<in> set_option f. isStmtNode (getKind x) \<and> grammatical m x)"
| "grammatical m (MetaIfStmt a c t f) \<longleftrightarrow> m = InsideMetaDecl
     \<and> isExprNode (getKind c) \<and> grammatical InsideComputation c
     \<and> getKind t = KindMetaContribution \<and> grammatical m t
     \<and> (\<forall>x \<in> set_option f. getKind x = KindMetaContribution \<and> grammatical m x)"
| "grammatical m (MetaCalculationStmt a s ds) \<longleftrightarrow> m = InsideMetaDecl
     \<and> isStmtNode (getKind s) \<and> grammatical InsideComputation s"
| "grammatical m (DeclRefExpr a n d) \<longleftrightarrow> True"
| "grammatical m (IntegerLiteralExpr a l) \<longleftrightarrow> True"
| "grammatical m (BooleanLiteralExpr a l) \<longleftrightarrow> True"
| "grammatical m (ErroneousExpr a) \<longleftrightarrow> False"
| "grammatical m (BinaryOperatorExpr a b l r) \<longleftrightarrow>
     isExprNode (getKind l) \<and> grammatical m l \<and> isExprNode (getKind r) \<and> grammatical m r"
| "grammatical m (CallOperatorExpr a c es) \<longleftrightarrow> isExprNode (getKind c) \<and> grammatical m c
     \<and> (\<forall>e \<in> set es. isExprNode (getKind e) \<and> grammatical m e)"
| "grammatical m (MetaInstantiationExpr a rg d es) \<longleftrightarrow> getKind d = KindDeclRefExpr \<and> grammatical m d
     \<and> (\<forall>e \<in> set es. isExprNode (getKind e) \<and> grammatical m e)"

text \<open>The units: what a whole source file or an expanded meta declaration holds.\<close>

definition top_level_ok :: "ast \<Rightarrow> bool" where
  "top_level_ok t \<longleftrightarrow> isTopLevelNode (getKind t) \<and> grammatical Outside t"

definition unit_ok :: "ast \<Rightarrow> bool" where
  "unit_ok t \<longleftrightarrow> isUnitNode (getKind t) \<and> (\<forall>c \<in> set (children t). top_level_ok c)"

section \<open>Declarations introduced on the way\<close>

definition isLocalDecl :: "ast_kind \<Rightarrow> bool" where
  "isLocalDecl k \<longleftrightarrow> k = KindDeclStmt \<or> k = KindNamedArgumentDecl"

definition locals :: "ast \<Rightarrow> addr list" where
  "locals t = map addr_of (filter (\<lambda>n. isLocalDecl (getKind n)) (nodes t))"

definition locals_of :: "ast list \<Rightarrow> addr list" where
  "locals_of ts = concat (map locals ts)"

lemma locals_of_simps [simp]:
  "locals_of [] = []" "locals_of (t # ts) = locals t @ locals_of ts"
  "locals_of (ts @ us) = locals_of ts @ locals_of us"
  by (simp_all add: locals_of_def)

lemma locals_eq:
  "locals t = (if isLocalDecl (getKind t) then [addr_of t] else []) @ locals_of (children t)"
proof -
  have "map addr_of (filter (\<lambda>n. isLocalDecl (getKind n)) (nodes_of cs)) = locals_of cs" for cs
    by (induction cs) (simp_all add: locals_def)
  then show ?thesis by (simp add: locals_def nodes_eq)
qed

lemma distinct_locals: "distinct (map addr_of (nodes t)) \<Longrightarrow> distinct (locals t)"
  by (simp add: locals_def distinct_map_filter)

end
