(* ===== verification/Visitor.thy ===== *)
theory Visitor imports Grammar begin

text \<open>
  From parse trees to layouts: \<^verbatim>\<open>src/Parse/LocalScopeVisitor\<close>, \<^verbatim>\<open>BasicTreeVisitor\<close> and
  \<^verbatim>\<open>BasicTreeSupport\<close>. A parse tree is what ANTLR's runtime gives the visitor: contexts of the rules
  of \<^verbatim>\<open>GeneratedParser.g4\<close> over terminal nodes with their text, line and column. The visitor allocates
  one node per context of interest, in the order it enters them, and writes it to the layout.

  The text of the source file and LLVM's string to integer conversion are parameters.
\<close>

section \<open>Parse trees\<close>

datatype token_kind =
    T_Return | T_Meta | T_If | T_Else | T_OpenPar | T_ClosePar | T_OpenCurly | T_CloseCurly
  | T_Arrow | T_Comma | T_Semicolon | T_True | T_False | T_IntegerLiteral | T_Identifier
  | T_Operator bin_op | T_EOF

datatype rule =
    R_compilationUnit | R_runtimeGlobalScopeNode | R_functionDecl | R_metaDecl | R_metaContribution
  | R_metaScopeNode | R_metaStmt | R_metaCalculationStmt | R_metaIfStmt | R_metaElseStmt
  | R_returnDecl | R_argumentDeclList | R_argumentDecl | R_argumentType | R_argumentName
  | R_statement | R_compoundStmt | R_unscopedCompoundStmt | R_basicCompoundStmt | R_declStmt
  | R_varDecl | R_varDeclType | R_varDeclName | R_exprStmt | R_returnStmt | R_ifStmt | R_elseStmt
  | R_metaCalculationExpr | R_expr | R_unaryExpr | R_enclosingExpr | R_callOperatorExpr | R_exprList
  | R_integerLiteralExpr | R_booleanLiteralExpr | R_declRefExpr | R_metaInstantiationExpr
  | R_binaryOperator

datatype ptree =
    Terminal token_kind string nat nat \<comment> \<open>text, line, character position in line\<close>
  | Context rule "ptree list"

text \<open>The accessors of a context: the first child that is such a terminal or such a context.\<close>

definition is_token :: "token_kind \<Rightarrow> ptree \<Rightarrow> bool" where
  "is_token k c = (case c of Terminal k' t l p \<Rightarrow> k' = k | _ \<Rightarrow> False)"

definition is_context :: "rule \<Rightarrow> ptree \<Rightarrow> bool" where
  "is_context r c = (case c of Context r' cs \<Rightarrow> r' = r | _ \<Rightarrow> False)"

definition token_child :: "token_kind \<Rightarrow> ptree list \<Rightarrow> ptree option" where
  "token_child k cs = find (is_token k) cs"

definition rule_child :: "rule \<Rightarrow> ptree list \<Rightarrow> ptree list option" where
  "rule_child r cs = (case find (is_context r) cs of Some (Context _ ds) \<Rightarrow> Some ds | _ \<Rightarrow> None)"

section \<open>Source ranges and identifiers\<close>

record vparams =
  source_text :: string
  getAsInteger :: "string \<Rightarrow> i32 option"

definition deref :: "'a option \<Rightarrow> 'a res" where
  "deref x = (case x of None \<Rightarrow> Inl NullDeref | Some y \<Rightarrow> Inr y)"

lemma deref_Some [simp]: "deref (Some x) = Inr x"
  by (simp add: deref_def)

fun sourceRangeOf :: "vparams \<Rightarrow> ptree \<Rightarrow> source_range" where
  "sourceRangeOf vp (Terminal k text line col) =
     Diagnostics.extend (fromSource (source_text vp) line col) (length text)"
| "sourceRangeOf vp (Context r cs) = \<lparr>getStart = 0, getEnd = 0\<rparr>"

definition sourceRangeBetween :: "vparams \<Rightarrow> ptree \<Rightarrow> ptree \<Rightarrow> source_range" where
  "sourceRangeBetween vp b e = concat_range (sourceRangeOf vp b) (sourceRangeOf vp e)"

fun text_of :: "ptree \<Rightarrow> string" where
  "text_of (Terminal k text line col) = text"
| "text_of (Context r cs) = []"

definition identifierOf :: "vparams \<Rightarrow> ptree \<Rightarrow> ident" where
  "identifierOf vp node = Annotated (text_of node) (sourceRangeOf vp node)"

definition annotate :: "'t \<Rightarrow> source_range \<Rightarrow> ('t, source_range) annotated" where
  "annotate x r = Annotated x r"

section \<open>The node of each context\<close>

text \<open>
  What a \<open>visit\<close> method does before it contributes: the constructor arguments of its node and the
  diagnostics it reports. Methods that are not overridden contribute nothing.
\<close>

type_synonym visited = "(payload option \<times> (diagnostic \<times> ident) list) res"

definition contributes :: "payload \<Rightarrow> visited" where
  "contributes p = Inr (Some p, [])"

definition visitFunctionDecl :: "vparams \<Rightarrow> ptree list \<Rightarrow> visited" where
  "visitFunctionDecl vp cs = bindE (deref (token_child T_Identifier cs)) (\<lambda>n.
     contributes (PFunctionDecl (identifierOf vp n)))"

definition visitArgumentDecl :: "vparams \<Rightarrow> ptree list \<Rightarrow> visited" where
  "visitArgumentDecl vp cs = (case rule_child R_argumentName cs of
     Some ds \<Rightarrow> bindE (deref (token_child T_Identifier ds)) (\<lambda>n.
       contributes (PNamedArgumentDecl (identifierOf vp n)))
   | None \<Rightarrow> contributes PAnonymousArgumentDecl)"

definition visitMetaDecl :: "vparams \<Rightarrow> ptree list \<Rightarrow> visited" where
  "visitMetaDecl vp cs = bindE (deref (token_child T_Identifier cs)) (\<lambda>n.
     contributes (PMetaDecl (identifierOf vp n)))"

definition visitMetaInstantiationExpr :: "vparams \<Rightarrow> ptree list \<Rightarrow> visited" where
  "visitMetaInstantiationExpr vp cs =
     bindE (deref (token_child (T_Operator OperatorLessThan) cs)) (\<lambda>b.
     bindE (deref (token_child (T_Operator OperatorGreaterThan) cs)) (\<lambda>e.
       contributes (PMetaInstantiationExpr (sourceRangeBetween vp b e))))"

definition visitMetaContribution :: "vparams \<Rightarrow> ptree list \<Rightarrow> visited" where
  "visitMetaContribution vp cs =
     bindE (deref (token_child T_OpenCurly cs)) (\<lambda>b.
     bindE (deref (token_child T_CloseCurly cs)) (\<lambda>e.
       contributes (PMetaContribution (sourceRangeBetween vp b e))))"

definition visitDeclRefExpr :: "vparams \<Rightarrow> ptree list \<Rightarrow> visited" where
  "visitDeclRefExpr vp cs = bindE (deref (token_child T_Identifier cs)) (\<lambda>n.
     contributes (PDeclRefExpr (identifierOf vp n)))"

definition visitIntegerLiteralExpr :: "vparams \<Rightarrow> ptree list \<Rightarrow> visited" where
  "visitIntegerLiteralExpr vp cs = bindE (deref (token_child T_IntegerLiteral cs)) (\<lambda>n.
     let rep = identifierOf vp n in
     case getAsInteger vp (getType rep) of
       None \<Rightarrow> Inr (Some PErroneousExpr, [(ErrorConvertionFailure, rep)])
     | Some value \<Rightarrow> contributes (PIntegerLiteralExpr (annotate value (getAnnotation rep))))"

definition visitBooleanLiteralExpr :: "vparams \<Rightarrow> ptree list \<Rightarrow> visited" where
  "visitBooleanLiteralExpr vp cs = (case token_child T_True cs of
     Some n \<Rightarrow> contributes (PBooleanLiteralExpr (annotate True (getAnnotation (identifierOf vp n))))
   | None \<Rightarrow> bindE (deref (token_child T_False cs)) (\<lambda>n.
       contributes (PBooleanLiteralExpr (annotate False (getAnnotation (identifierOf vp n))))))"

text \<open>The operators in the order of \<^verbatim>\<open>AST.inl\<close>.\<close>

definition operators :: "bin_op list" where
  "operators = [OperatorMul, OperatorDiv, OperatorPlus, OperatorMinus, OperatorLessThan,
     OperatorGreaterThan, OperatorLessThanOrEq, OperatorGreaterThanOrEq, OperatorEqual,
     OperatorNotEqual, OperatorAssign]"

definition getBinaryOperatorOf ::
    "vparams \<Rightarrow> ptree list \<Rightarrow> (bin_op, source_range) annotated res" where
  "getBinaryOperatorOf vp cs = (case find (\<lambda>b. token_child (T_Operator b) cs \<noteq> None) operators of
     Some b \<Rightarrow> bindE (deref (token_child (T_Operator b) cs)) (\<lambda>n.
       Inr (annotate b (sourceRangeOf vp n)))
   | None \<Rightarrow> Inl (Unreachable ''The binaray operator is unknown!''))"

definition visitExpr :: "vparams \<Rightarrow> ptree list \<Rightarrow> visited" where
  "visitExpr vp cs = (case rule_child R_binaryOperator cs of
     Some ds \<Rightarrow> bindE (getBinaryOperatorOf vp ds) (\<lambda>b. contributes (PBinaryOperatorExpr b))
   | None \<Rightarrow> Inr (None, []))"

definition visitDeclStmt :: "vparams \<Rightarrow> ptree list \<Rightarrow> visited" where
  "visitDeclStmt vp cs =
     bindE (deref (rule_child R_varDecl cs)) (\<lambda>v.
     bindE (deref (rule_child R_varDeclType v)) (\<lambda>vt.
     bindE (deref (token_child T_Identifier vt)) (\<lambda>tn.
     bindE (deref (rule_child R_varDeclName v)) (\<lambda>vn.
     bindE (deref (token_child T_Identifier vn)) (\<lambda>nn.
     let type = identifierOf vp tn; name = identifierOf vp nn in
     Inr (Some (PDeclStmt name),
       if getType type \<noteq> ''int'' then [(ErrorOnlyIntPermitted, type)] else []))))))"

fun node_for :: "vparams \<Rightarrow> rule \<Rightarrow> ptree list \<Rightarrow> visited" where
  "node_for vp R_compilationUnit cs = contributes PCompilationUnit"
| "node_for vp R_functionDecl cs = visitFunctionDecl vp cs"
| "node_for vp R_argumentDeclList cs = contributes PArgumentDeclList"
| "node_for vp R_argumentDecl cs = visitArgumentDecl vp cs"
| "node_for vp R_metaDecl cs = visitMetaDecl vp cs"
| "node_for vp R_metaInstantiationExpr cs = visitMetaInstantiationExpr vp cs"
| "node_for vp R_metaContribution cs = visitMetaContribution vp cs"
| "node_for vp R_declRefExpr cs = visitDeclRefExpr vp cs"
| "node_for vp R_integerLiteralExpr cs = visitIntegerLiteralExpr vp cs"
| "node_for vp R_booleanLiteralExpr cs = visitBooleanLiteralExpr vp cs"
| "node_for vp R_returnStmt cs = contributes PReturnStmt"
| "node_for vp R_compoundStmt cs = contributes PCompoundStmt"
| "node_for vp R_unscopedCompoundStmt cs = contributes PUnscopedCompoundStmt"
| "node_for vp R_expr cs = visitExpr vp cs"
| "node_for vp R_exprStmt cs = contributes PExpressionStmt"
| "node_for vp R_declStmt cs = visitDeclStmt vp cs"
| "node_for vp R_ifStmt cs = contributes PIfStmt"
| "node_for vp R_metaIfStmt cs = contributes PMetaIfStmt"
| "node_for vp R_metaCalculationStmt cs = contributes PMetaCalculationStmt"
| "node_for vp R_callOperatorExpr cs = contributes PCallOperatorExpr"
| "node_for vp _ cs = Inr (None, [])"

section \<open>The visitor\<close>

record vstate =
  next_addr :: addr
  written :: layout
  v_engine :: engine

definition allocate :: "payload \<Rightarrow> vstate \<Rightarrow> obj \<times> vstate" where
  "allocate p st = (Obj (next_addr st) p, st\<lparr>next_addr := Suc (next_addr st)\<rparr>)"

definition v_report :: "(diagnostic \<times> ident) list \<Rightarrow> vstate \<Rightarrow> vstate" where
  "v_report ds st =
     st\<lparr>v_engine := fold (\<lambda>(d, i). diagnoseAt d i [ArgStr (getType i)]) ds (v_engine st)\<rparr>"

text \<open>\<open>contributeFrom\<close>: the node, then what its context holds, then its reduce marker.\<close>

definition contributeFrom :: "payload \<Rightarrow> (vstate \<Rightarrow> vstate res) \<Rightarrow> vstate \<Rightarrow> vstate res" where
  "contributeFrom p visitChildren st =
     (let (node, st) = allocate p st;
          st = st\<lparr>written := directWrite node (written st)\<rparr>
      in if hasChildren (obj_kind node)
         then bindE (visitChildren st) (\<lambda>st.
           Inr (if isRequiringReduceMarker (obj_kind node)
                then st\<lparr>written := markReduce (written st)\<rparr> else st))
         else Inr st)"

lemma contributeFrom_cong [fundef_cong]:
  "p = q \<Longrightarrow> st = st' \<Longrightarrow> (\<And>u. f u = g u) \<Longrightarrow> contributeFrom p f st = contributeFrom q g st'"
  by (metis ext)

fun visit :: "vparams \<Rightarrow> ptree \<Rightarrow> vstate \<Rightarrow> vstate res" where
  "visit vp (Terminal k text line col) st = Inr st"
| "visit vp (Context r cs) st = bindE (node_for vp r cs) (\<lambda>(node, ds).
     let st = v_report ds st in
     case node of
       None \<Rightarrow> foldE (visit vp) cs st
     | Some p \<Rightarrow> contributeFrom p (\<lambda>st. foldE (visit vp) cs st) st)"

declare visit.simps(2) [simp del]

end
