(* ===== verification/Reader.thy ===== *)
theory Reader imports Layout begin

text \<open>
  \<open>ASTLayoutReader\<close> (\<^verbatim>\<open>src/Parse/ASTLayout.cpp\<close>): one definition per \<open>consume\<close> method. The
  methods call each other; here each takes the table \<open>call\<close> of the methods it calls, by kind, and
  \<open>consumeKind\<close> ties the knot with a fuel that is spent once per nested call
  (\<open>consumeKind (Suc n)\<close> runs the method of a kind over the table \<open>consumeKind n\<close>). The loops
  \<open>while (!shouldReduce())\<close> are \<open>consume_loop\<close>, whose fuel is spent once per iteration.

  A consumed node is returned as a tree; what the methods store elsewhere (scopes, containing
  units, exported nodes, diagnostics) is in the reader's state.
\<close>

type_synonym 'b consumer = "reader \<Rightarrow> ('b \<times> reader) res"
type_synonym calls = "ast_kind \<Rightarrow> ast consumer"

section \<open>Dispatch\<close>

definition consume_any :: "calls \<Rightarrow> ast consumer" where
  "consume_any call s = bindE (peekNode s) (\<lambda>n. call (obj_kind n) s)"

text \<open>\<open>traverseNodeExpecting\<close>: the method of the node's class, which must satisfy the predicate.\<close>

definition consumeExpecting :: "(ast_kind \<Rightarrow> bool) \<Rightarrow> calls \<Rightarrow> ast consumer" where
  "consumeExpecting P call s = bindE (peekNode s) (\<lambda>n.
     if P (obj_kind n) then call (obj_kind n) s
     else Inl (Unreachable ''Expected the node to match the predicate!''))"

definition consumeStmt :: "calls \<Rightarrow> ast consumer" where
  "consumeStmt call s = bindE (peekAs isStmtNode s) (\<lambda>_. consumeExpecting isStmtNode call s)"

definition consumeExpr :: "calls \<Rightarrow> ast consumer" where
  "consumeExpr call s = bindE (peekAs isExprNode s) (\<lambda>_. consumeExpecting isExprNode call s)"

definition consumeTopLevelDecl :: "calls \<Rightarrow> ast consumer" where
  "consumeTopLevelDecl = consumeExpecting isTopLevelNode"

definition consumeConstantExpr :: "calls \<Rightarrow> ast consumer" where
  "consumeConstantExpr = consumeExpecting isConstantExpr"

fun consume_loop :: "nat \<Rightarrow> ast consumer \<Rightarrow> ast list consumer" where
  "consume_loop 0 one s = Inl OutOfFuel"
| "consume_loop (Suc n) one s = bindE (shouldReduce s) (\<lambda>r.
     if r then Inr ([], s)
     else bindE (one s) (\<lambda>(t, s). bindE (consume_loop n one s) (\<lambda>(ts, s). Inr (t # ts, s))))"

text \<open>The loop's fuel: one more than the elements left.\<close>

definition consumeWhile :: "ast consumer \<Rightarrow> ast list consumer" where
  "consumeWhile one s = consume_loop (Suc (length (remaining s))) one s"

text \<open>\<open>if (!shouldReduce())\<close> around a single call.\<close>

definition consumeUnlessReduce :: "ast consumer \<Rightarrow> ast option consumer" where
  "consumeUnlessReduce one s = bindE (shouldReduce s) (\<lambda>r.
     if r then Inr (None, s) else bindE (one s) (\<lambda>(t, s). Inr (Some t, s)))"

section \<open>Units\<close>

text \<open>\<open>introduceScope\<close>: what its crawl does with each node it visits.\<close>

definition introduceScope_visit :: "params \<Rightarrow> obj \<Rightarrow> obj \<Rightarrow> reader \<Rightarrow> reader res" where
  "introduceScope_visit p parent child s =
     (let s = (if isTopLevelNode (obj_kind child)
               then s\<lparr>containingUnit := (containingUnit s)(obj_addr child \<mapsto> parent)\<rparr> else s)
      in if isNamedDeclContext (obj_kind child)
         then bindE (case obj_payload parent of
                PMetaUnit inst \<Rightarrow>
                  (case inst_view p inst of None \<Rightarrow> Inl NullDeref
                   | Some (name, decl) \<Rightarrow>
                       Inr (if name_str child = getType name
                            then s\<lparr>exportedNode := (exportedNode s)(obj_addr parent \<mapsto> obj_addr child)\<rparr>
                            else s))
              | _ \<Rightarrow> Inr s)
              (introduce p child)
         else Inr s)"

definition introduceScope :: "params \<Rightarrow> obj \<Rightarrow> reader \<Rightarrow> reader res" where
  "introduceScope p parent = crawlCurrentScope (introduceScope_visit p parent)"

text \<open>\<open>setScope\<close> stores a pointer; its target is complete when the unit is left.\<close>

definition consumeUnitBody ::
    "params \<Rightarrow> calls \<Rightarrow> scope_chain option \<Rightarrow> obj \<Rightarrow> ast list consumer" where
  "consumeUnitBody p call parent n s =
     (let previous = currentScope s in
      bindE (enterConsistentScope parent s) (\<lambda>s.
      bindE (introduceScope p n s) (\<lambda>s.
      bindE (consumeWhile (consumeTopLevelDecl call) s) (\<lambda>(cs, s).
      let s = s\<lparr>unitScope := (unitScope s)(obj_addr n \<mapsto> currentScope s)\<rparr> in
      bindE (leaveConsistentScope previous s) (\<lambda>s.
      bindE (leaveShift n s) (\<lambda>s. Inr (cs, s)))))))"

definition consumeCompilationUnit :: "params \<Rightarrow> calls \<Rightarrow> ast consumer" where
  "consumeCompilationUnit p call s =
     bindE (shiftAs ((=) KindCompilationUnit) s) (\<lambda>(n, s).
     bindE (consumeUnitBody p call None n s) (\<lambda>(cs, s).
       Inr (CompilationUnit (obj_addr n) cs, s)))"

definition meta_instantiation_of :: "obj \<Rightarrow> addr" where
  "meta_instantiation_of n = (case obj_payload n of PMetaUnit i \<Rightarrow> i | _ \<Rightarrow> 0)"

text \<open>The meta unit takes over the containing unit of the declaration it instantiates.\<close>

definition consumeMetaUnit :: "params \<Rightarrow> calls \<Rightarrow> ast consumer" where
  "consumeMetaUnit p call s =
     bindE (shiftAs ((=) KindMetaUnit) s) (\<lambda>(n, s).
     bindE (case inst_view p (meta_instantiation_of n) of Some (name, Some d) \<Rightarrow> Inr d | _ \<Rightarrow> Inl NullDeref)
     (\<lambda>decl.
     bindE (if isMetaDecl decl then Inr () else Inl BadCast) (\<lambda>_.
     bindE (case containingUnit s (obj_addr decl) of Some u \<Rightarrow> Inr u | None \<Rightarrow> Inl NullDeref) (\<lambda>unit.
     let s = s\<lparr>containingUnit := (containingUnit s)(obj_addr n \<mapsto> unit)\<rparr> in
     bindE (if isUnitNode (obj_kind unit) then Inr ()
            else Inl (Unreachable ''Expected the node to match the predicate!'')) (\<lambda>_.
     bindE (case unitScope s (obj_addr unit) of Some sc \<Rightarrow> Inr sc | None \<Rightarrow> Inl NullDeref) (\<lambda>sc.
     bindE (consumeUnitBody p call (Some sc) n s) (\<lambda>(cs, s).
       Inr (MetaUnit (obj_addr n) (meta_instantiation_of n) cs, s))))))))"

section \<open>Declarations\<close>

definition payload_ident :: "obj \<Rightarrow> ident" where
  "payload_ident n = (case obj_payload n of PDeclRefExpr i \<Rightarrow> i | _ \<Rightarrow> getName n)"

definition consumeNamedArgumentDecl :: "params \<Rightarrow> ast consumer" where
  "consumeNamedArgumentDecl p s =
     bindE (shiftAs ((=) KindNamedArgumentDecl) s) (\<lambda>(n, s).
     bindE (introduce p n s) (\<lambda>s. Inr (NamedArgumentDecl (obj_addr n) (getName n), s)))"

definition consumeAnonymousArgumentDecl :: "calls \<Rightarrow> ast consumer" where
  "consumeAnonymousArgumentDecl call s =
     bindE (peekIs ((=) KindNamedArgumentDecl) s) (\<lambda>named.
       if named then call KindNamedArgumentDecl s
       else bindE (shiftAs isAnonymousArgumentDecl s) (\<lambda>(n, s).
         Inr (AnonymousArgumentDecl (obj_addr n), s)))"

definition consumeArgumentDeclList :: "calls \<Rightarrow> ast consumer" where
  "consumeArgumentDeclList call s =
     bindE (shiftAs ((=) KindArgumentDeclList) s) (\<lambda>(n, s).
     bindE (consumeWhile (call KindAnonymousArgumentDecl) s) (\<lambda>(cs, s).
     bindE (leaveShift n s) (\<lambda>s. Inr (ArgumentDeclList (obj_addr n) cs, s))))"

definition consumeFunctionDecl :: "calls \<Rightarrow> ast consumer" where
  "consumeFunctionDecl call s =
     bindE (shiftAs ((=) KindFunctionDecl) s) (\<lambda>(n, s).
     bindE (enterTemporaryScope s) (\<lambda>s.
     bindE (call KindArgumentDeclList s) (\<lambda>(args, s).
     bindE (peekIs isAnonymousArgumentDecl s) (\<lambda>hasReturn.
     bindE (if hasReturn
            then bindE (call KindAnonymousArgumentDecl s) (\<lambda>(r, s). Inr (Some r, s))
            else Inr (None, s)) (\<lambda>(ret, s).
     bindE (consumeStmt call s) (\<lambda>(body, s).
     bindE (leaveScope s) (\<lambda>s.
     bindE (leaveShift n s) (\<lambda>s.
       Inr (FunctionDecl (obj_addr n) (getName n) args ret body, s)))))))))"

definition consumeMetaDecl :: "calls \<Rightarrow> ast consumer" where
  "consumeMetaDecl call s =
     bindE (shiftAs ((=) KindMetaDecl) s) (\<lambda>(n, s).
     bindE (enterTemporaryScope s) (\<lambda>s.
     bindE (call KindArgumentDeclList s) (\<lambda>(args, s).
     bindE (enterMetaDeclMode s) (\<lambda>s.
     bindE (call KindMetaContribution s) (\<lambda>(c, s).
     bindE (leaveMode s) (\<lambda>s.
     bindE (leaveScope s) (\<lambda>s.
       Inr (MetaDecl (obj_addr n) (getName n) args c, s))))))))"

definition consumeGlobalConstantDecl :: "calls \<Rightarrow> ast consumer" where
  "consumeGlobalConstantDecl call s =
     bindE (shiftAs ((=) KindGlobalConstantDecl) s) (\<lambda>(n, s).
     bindE (consumeConstantExpr call s) (\<lambda>(e, s).
       Inr (GlobalConstantDecl (obj_addr n) (getName n) e, s)))"

definition payload_range :: "obj \<Rightarrow> source_range" where
  "payload_range n = (case obj_payload n of PMetaContribution r \<Rightarrow> r | PMetaInstantiationExpr r \<Rightarrow> r
     | _ \<Rightarrow> \<lparr>getStart = 0, getEnd = 0\<rparr>)"

definition consumeMetaContribution :: "calls \<Rightarrow> ast consumer" where
  "consumeMetaContribution call s =
     bindE (shiftAs ((=) KindMetaContribution) s) (\<lambda>(n, s).
     bindE (consumeWhile (consume_any call) s) (\<lambda>(cs, s).
     bindE (leaveShift n s) (\<lambda>s. Inr (MetaContribution (obj_addr n) (payload_range n) cs, s))))"

section \<open>Statements\<close>

definition consumeUnscopedCompoundStmt :: "calls \<Rightarrow> ast consumer" where
  "consumeUnscopedCompoundStmt call s =
     bindE (shiftAs ((=) KindUnscopedCompoundStmt) s) (\<lambda>(n, s).
     bindE (consumeWhile (consumeStmt call) s) (\<lambda>(cs, s).
     bindE (leaveShift n s) (\<lambda>s. Inr (UnscopedCompoundStmt (obj_addr n) cs, s))))"

definition consumeCompoundStmt :: "calls \<Rightarrow> ast consumer" where
  "consumeCompoundStmt call s =
     bindE (shiftAs ((=) KindCompoundStmt) s) (\<lambda>(n, s).
     bindE (enterTemporaryScope s) (\<lambda>s.
     bindE (consumeWhile (consumeStmt call) s) (\<lambda>(cs, s).
     bindE (leaveScope s) (\<lambda>s.
     bindE (leaveShift n s) (\<lambda>s. Inr (CompoundStmt (obj_addr n) cs, s))))))"

definition consumeReturnStmt :: "calls \<Rightarrow> ast consumer" where
  "consumeReturnStmt call s =
     bindE (shiftAs ((=) KindReturnStmt) s) (\<lambda>(n, s).
     bindE (consumeUnlessReduce (consumeExpr call) s) (\<lambda>(e, s).
     bindE (leaveShift n s) (\<lambda>s. Inr (ReturnStmt (obj_addr n) e, s))))"

definition consumeExpressionStmt :: "calls \<Rightarrow> ast consumer" where
  "consumeExpressionStmt call s =
     bindE (shiftAs ((=) KindExpressionStmt) s) (\<lambda>(n, s).
     bindE (consumeExpr call s) (\<lambda>(e, s). Inr (ExpressionStmt (obj_addr n) e, s)))"

text \<open>The initialiser is consumed before the name is introduced.\<close>

definition consumeDeclStmt :: "params \<Rightarrow> calls \<Rightarrow> ast consumer" where
  "consumeDeclStmt p call s =
     bindE (shiftAs ((=) KindDeclStmt) s) (\<lambda>(n, s).
     bindE (consumeExpr call s) (\<lambda>(e, s).
     bindE (introduce p n s) (\<lambda>s. Inr (DeclStmt (obj_addr n) (getName n) e, s))))"

definition consumeIfStmt :: "calls \<Rightarrow> ast consumer" where
  "consumeIfStmt call s =
     bindE (shiftAs ((=) KindIfStmt) s) (\<lambda>(n, s).
     bindE (consumeExpr call s) (\<lambda>(c, s).
     bindE (consumeStmt call s) (\<lambda>(t, s).
     bindE (consumeUnlessReduce (consumeStmt call) s) (\<lambda>(f, s).
     bindE (leaveShift n s) (\<lambda>s. Inr (IfStmt (obj_addr n) c t f, s))))))"

definition consumeMetaIfStmt :: "calls \<Rightarrow> ast consumer" where
  "consumeMetaIfStmt call s =
     bindE (shiftAs ((=) KindMetaIfStmt) s) (\<lambda>(n, s).
     bindE (enterMetaComputationMode s) (\<lambda>s.
     bindE (consumeExpr call s) (\<lambda>(c, s).
     bindE (leaveMode s) (\<lambda>s.
     bindE (call KindMetaContribution s) (\<lambda>(t, s).
     bindE (consumeUnlessReduce (call KindMetaContribution) s) (\<lambda>(f, s).
     bindE (leaveShift n s) (\<lambda>s. Inr (MetaIfStmt (obj_addr n) c t f, s))))))))"

definition consumeMetaCalculationStmt :: "calls \<Rightarrow> ast consumer" where
  "consumeMetaCalculationStmt call s =
     bindE (shiftAs ((=) KindMetaCalculationStmt) s) (\<lambda>(n, s).
     bindE (enterInplaceScope s) (\<lambda>s.
     bindE (enterMetaComputationMode s) (\<lambda>s.
     bindE (consumeStmt call s) (\<lambda>(st, s).
     let exported = inplaceListened s in
     bindE (leaveMode s) (\<lambda>s.
     bindE (leaveScope s) (\<lambda>s.
       Inr (MetaCalculationStmt (obj_addr n) st (map obj_addr exported), s)))))))"

section \<open>Expressions\<close>

definition consumeDeclRefExpr :: "params \<Rightarrow> ast consumer" where
  "consumeDeclRefExpr p s =
     bindE (shiftAs ((=) KindDeclRefExpr) s) (\<lambda>(n, s).
     if isAllowedToResolveDecls s
     then bindE (lookup p (payload_ident n) s) (\<lambda>(decl, s).
       Inr (DeclRefExpr (obj_addr n) (payload_ident n) (map_option obj_addr decl), s))
     else Inr (DeclRefExpr (obj_addr n) (payload_ident n) None, s))"

definition consumeIntegerLiteralExpr :: "ast consumer" where
  "consumeIntegerLiteralExpr s =
     bindE (shiftAs ((=) KindIntegerLiteralExpr) s) (\<lambda>(n, s).
       case obj_payload n of PIntegerLiteralExpr l \<Rightarrow> Inr (IntegerLiteralExpr (obj_addr n) l, s)
       | _ \<Rightarrow> Inl BadCast)"

definition consumeBooleanLiteralExpr :: "ast consumer" where
  "consumeBooleanLiteralExpr s =
     bindE (shiftAs ((=) KindBooleanLiteralExpr) s) (\<lambda>(n, s).
       case obj_payload n of PBooleanLiteralExpr l \<Rightarrow> Inr (BooleanLiteralExpr (obj_addr n) l, s)
       | _ \<Rightarrow> Inl BadCast)"

definition consumeErroneousExpr :: "ast consumer" where
  "consumeErroneousExpr s = Inl (Unreachable ''You are joking :-)'')"

definition consumeBinaryOperatorExpr :: "calls \<Rightarrow> ast consumer" where
  "consumeBinaryOperatorExpr call s =
     bindE (shiftAs ((=) KindBinaryOperatorExpr) s) (\<lambda>(n, s).
     bindE (consumeExpr call s) (\<lambda>(l, s).
     bindE (consumeExpr call s) (\<lambda>(r, s).
       case obj_payload n of PBinaryOperatorExpr b \<Rightarrow> Inr (BinaryOperatorExpr (obj_addr n) b l r, s)
       | _ \<Rightarrow> Inl BadCast)))"

definition consumeCallOperatorExpr :: "calls \<Rightarrow> ast consumer" where
  "consumeCallOperatorExpr call s =
     bindE (shiftAs ((=) KindCallOperatorExpr) s) (\<lambda>(n, s).
     bindE (consumeExpr call s) (\<lambda>(c, s).
     bindE (consumeWhile (consumeExpr call) s) (\<lambda>(es, s).
     bindE (leaveShift n s) (\<lambda>s. Inr (CallOperatorExpr (obj_addr n) c es, s)))))"

definition consumeMetaInstantiationExpr :: "calls \<Rightarrow> ast consumer" where
  "consumeMetaInstantiationExpr call s =
     bindE (shiftAs ((=) KindMetaInstantiationExpr) s) (\<lambda>(n, s).
     bindE (call KindDeclRefExpr s) (\<lambda>(d, s).
     bindE (consumeWhile (consumeExpr call) s) (\<lambda>(es, s).
     bindE (leaveShift n s) (\<lambda>s.
       Inr (MetaInstantiationExpr (obj_addr n) (payload_range n) d es, s)))))"

section \<open>The method of each kind\<close>

fun consumeMethod :: "params \<Rightarrow> calls \<Rightarrow> ast_kind \<Rightarrow> ast consumer" where
  "consumeMethod p call KindCompilationUnit = consumeCompilationUnit p call"
| "consumeMethod p call KindMetaUnit = consumeMetaUnit p call"
| "consumeMethod p call KindFunctionDecl = consumeFunctionDecl call"
| "consumeMethod p call KindMetaDecl = consumeMetaDecl call"
| "consumeMethod p call KindMetaContribution = consumeMetaContribution call"
| "consumeMethod p call KindArgumentDeclList = consumeArgumentDeclList call"
| "consumeMethod p call KindAnonymousArgumentDecl = consumeAnonymousArgumentDecl call"
| "consumeMethod p call KindNamedArgumentDecl = consumeNamedArgumentDecl p"
| "consumeMethod p call KindGlobalConstantDecl = consumeGlobalConstantDecl call"
| "consumeMethod p call KindUnscopedCompoundStmt = consumeUnscopedCompoundStmt call"
| "consumeMethod p call KindCompoundStmt = consumeCompoundStmt call"
| "consumeMethod p call KindReturnStmt = consumeReturnStmt call"
| "consumeMethod p call KindExpressionStmt = consumeExpressionStmt call"
| "consumeMethod p call KindDeclStmt = consumeDeclStmt p call"
| "consumeMethod p call KindIfStmt = consumeIfStmt call"
| "consumeMethod p call KindMetaIfStmt = consumeMetaIfStmt call"
| "consumeMethod p call KindMetaCalculationStmt = consumeMetaCalculationStmt call"
| "consumeMethod p call KindDeclRefExpr = consumeDeclRefExpr p"
| "consumeMethod p call KindIntegerLiteralExpr = consumeIntegerLiteralExpr"
| "consumeMethod p call KindBooleanLiteralExpr = consumeBooleanLiteralExpr"
| "consumeMethod p call KindErroneousExpr = consumeErroneousExpr"
| "consumeMethod p call KindBinaryOperatorExpr = consumeBinaryOperatorExpr call"
| "consumeMethod p call KindCallOperatorExpr = consumeCallOperatorExpr call"
| "consumeMethod p call KindMetaInstantiationExpr = consumeMetaInstantiationExpr call"

fun consumeKind :: "params \<Rightarrow> nat \<Rightarrow> calls" where
  "consumeKind p 0 k s = Inl OutOfFuel"
| "consumeKind p (Suc n) k s = consumeMethod p (consumeKind p n) k s"

text \<open>\<open>consume\<close> of any node, with fuel for every element that is left.\<close>

definition reader_fuel :: "reader \<Rightarrow> nat" where
  "reader_fuel s = Suc (Suc (length (remaining s)))"

definition consume :: "params \<Rightarrow> ast consumer" where
  "consume p s = consume_any (consumeKind p (reader_fuel s)) s"

text \<open>Reading a whole source file's layout, as the parser does.\<close>

definition readCompilationUnit :: "params \<Rightarrow> engine \<Rightarrow> layout \<Rightarrow> (ast \<times> reader) res" where
  "readCompilationUnit p e l =
     (let s = reader_new e l in consumeKind p (reader_fuel s) KindCompilationUnit s)"

end
