(* ===== verification/Reader_Frame.thy ===== *)
theory Reader_Frame imports Reader begin

text \<open>
  What every \<open>consume\<close> method keeps, on any layout, well formed or not: the layout itself, the stack
  of modes and the chain of scopes below the current one; and that a method which returns has moved
  the position forward, so that the fuel of \<open>consume\<close> never runs out.
\<close>

section \<open>Scopes grow by insertion only\<close>

fun chain_ext :: "scope_chain \<Rightarrow> scope_chain \<Rightarrow> bool" where
  "chain_ext [] c \<longleftrightarrow> c = []"
| "chain_ext (AllocatedScope b es # fs) c \<longleftrightarrow> (\<exists>es'. c = AllocatedScope b (es' @ es) # fs)"
| "chain_ext (InplaceScope ds # fs) c \<longleftrightarrow>
     (\<exists>ds' fs'. c = InplaceScope (ds @ ds') # fs' \<and> chain_ext fs fs')"

lemma chain_ext_refl [simp]: "chain_ext c c"
proof (induction c)
  case Nil
  then show ?case by simp
next
  case (Cons f fs)
  then show ?case by (cases f) simp_all
qed

lemma chain_ext_trans: "chain_ext c d \<Longrightarrow> chain_ext d e \<Longrightarrow> chain_ext c e"
  by (induction c d arbitrary: e rule: chain_ext.induct) fastforce+

lemma chain_ext_insert: "scope_insert k d c = Inr c' \<Longrightarrow> chain_ext c c'"
  by (induction k d c arbitrary: c' rule: scope_insert.induct) (auto simp: bindE_eq_Inr)

lemma chain_ext_createTemporary: "chain_ext (createTemporary c) d \<Longrightarrow> d \<noteq> [] \<and> tl d = c"
  by (auto simp: createTemporary_def)

lemma chain_ext_createInplace: "chain_ext (createInplace c) d \<Longrightarrow> d \<noteq> [] \<and> chain_ext c (tl d)"
  by (auto simp: createInplace_def)

lemma chain_ext_nonempty: "chain_ext c d \<Longrightarrow> c \<noteq> [] \<Longrightarrow> d \<noteq> []"
  by (cases c rule: scope_below.cases) auto

section \<open>Frames\<close>

definition frame :: "reader \<Rightarrow> reader \<Rightarrow> bool" where
  "frame s t \<longleftrightarrow> layout_of t = layout_of s \<and> pos s \<le> pos t \<and> modeStack t = modeStack s
     \<and> chain_ext (currentScope s) (currentScope t)"

text \<open>A frame that has moved forward within the layout.\<close>

definition moves :: "reader \<Rightarrow> reader \<Rightarrow> bool" where
  "moves s t \<longleftrightarrow> frame s t \<and> pos s < pos t \<and> pos t \<le> length (layout_of s)"

lemma frame_refl [simp]: "frame s s"
  by (simp add: frame_def)

lemma frame_trans: "frame s t \<Longrightarrow> frame t u \<Longrightarrow> frame s u"
  by (auto simp: frame_def intro: chain_ext_trans)

lemma moves_frame: "moves s t \<Longrightarrow> frame s t"
  by (simp add: moves_def)

lemma moves_trans: "moves s t \<Longrightarrow> moves t u \<Longrightarrow> moves s u"
  by (auto simp: moves_def frame_def intro: chain_ext_trans)

lemma moves_frame_trans: "moves s t \<Longrightarrow> frame t u \<Longrightarrow> pos u = pos t \<Longrightarrow> moves s u"
  by (auto simp: moves_def frame_def intro: chain_ext_trans)

lemma moves_remaining: "moves s t \<Longrightarrow> length (remaining t) < length (remaining s)"
  by (auto simp: moves_def frame_def remaining_def)

text \<open>Faults are tolerated, but for running out of fuel where \<open>b\<close> promises enough of it.\<close>

definition tol :: "bool \<Rightarrow> fault \<Rightarrow> bool" where
  "tol b e \<longleftrightarrow> (b \<longrightarrow> e \<noteq> OutOfFuel)"

lemma tol_simps [simp]:
  "tol b (AssertFailed m)" "tol b (Unreachable m)" "tol b BadCast" "tol b NullDeref"
  "tol b OutOfFuel \<longleftrightarrow> \<not> b"
  by (simp_all add: tol_def)

section \<open>The cursor operations\<close>

named_theorems wp_intro \<open>weakest precondition rules for the operations of the reader\<close>

lemma wp_peek: "(pos s < length (layout_of s) \<Longrightarrow> Q (layout_of s ! pos s)) \<Longrightarrow> wpE (tol b) (peek s) Q"
  by (simp add: peek_def)

lemma wp_peekNode [wp_intro]:
  "(\<And>n. Q n) \<Longrightarrow> wpE (tol b) (peekNode s) Q"
  by (auto simp: peekNode_def peek_def split: option.split)

lemma wp_peekIs [wp_intro]: "(\<And>r. Q r) \<Longrightarrow> wpE (tol b) (peekIs P s) Q"
  by (auto simp: peekIs_def intro!: wp_intro)

lemma wp_peekAs [wp_intro]: "(\<And>n. P (obj_kind n) \<Longrightarrow> Q n) \<Longrightarrow> wpE (tol b) (peekAs P s) Q"
  by (auto simp: peekAs_def intro!: wp_intro)

lemma moves_pos: "pos s < length (layout_of s) \<Longrightarrow> moves s (s\<lparr>pos := Suc (pos s)\<rparr>)"
  by (simp add: moves_def frame_def)

lemma wp_shift: "(\<And>n t. moves s t \<Longrightarrow> Q (n, t)) \<Longrightarrow> wpE (tol b) (shift s) Q"
  by (simp add: shift_def peek_def moves_pos)

lemma wp_shiftNode [wp_intro]: "(\<And>n t. moves s t \<Longrightarrow> Q (n, t)) \<Longrightarrow> wpE (tol b) (shiftNode s) Q"
  by (auto simp: shiftNode_def intro!: wp_shift split: option.split)

lemma wp_shiftAs [wp_intro]:
  "(\<And>n t. moves s t \<Longrightarrow> P (obj_kind n) \<Longrightarrow> Q (n, t)) \<Longrightarrow> wpE (tol b) (shiftAs P s) Q"
  by (auto simp: shiftAs_def intro!: wp_intro)

lemma wp_shouldReduce [wp_intro]:
  "(\<And>r. pos s < length (layout_of s) \<Longrightarrow> Q r) \<Longrightarrow> wpE (tol b) (shouldReduce s) Q"
  by (simp add: shouldReduce_def peek_def)

lemma wp_reduce [wp_intro]: "(\<And>t. moves s t \<Longrightarrow> Q t) \<Longrightarrow> wpE (tol b) (reduce s) Q"
  by (auto simp: reduce_def intro!: wp_intro wp_shift)

lemma wp_leaveShift [wp_intro]:
  "(\<And>t. moves s t \<or> t = s \<Longrightarrow> Q t) \<Longrightarrow> wpE (tol b) (leaveShift n s) Q"
  by (auto simp: leaveShift_def intro!: wp_intro)

section \<open>The builder's operations\<close>

text \<open>An update that leaves position, layout, modes and scopes alone.\<close>

definition same_place :: "reader \<Rightarrow> reader \<Rightarrow> bool" where
  "same_place s t \<longleftrightarrow> layout_of t = layout_of s \<and> pos t = pos s \<and> modeStack t = modeStack s
     \<and> currentScope t = currentScope s"

lemma same_place_frame: "same_place s t \<Longrightarrow> frame s t \<and> pos t = pos s"
  by (simp add: same_place_def frame_def)

lemma same_place_report [simp]: "same_place s (report d i a s)"
  by (simp add: same_place_def report_def)

lemma same_place_report2 [simp]: "same_place s (report d i a (report d' i' a' s))"
  by (simp add: same_place_def report_def)

lemma wp_getCurrentScope [wp_intro]:
  "(currentScope s \<noteq> [] \<Longrightarrow> Q (currentScope s)) \<Longrightarrow> wpE (tol b) (getCurrentScope s) Q"
  by (simp add: getCurrentScope_def isInAnyScope_def)

lemma wp_lookup [wp_intro]:
  "(\<And>r t. same_place s t \<Longrightarrow> Q (r, t)) \<Longrightarrow> wpE (tol b) (lookup p i s) Q"
  by (auto simp: lookup_def directLookup_def similarDeclarationOf_def intro!: wp_intro
      split: option.split) (simp add: same_place_def)

lemma scope_insert_fault: "scope_insert k d c = Inl e \<Longrightarrow> tol b e"
  by (induction k d c rule: scope_insert.induct)
    (auto simp: bindE_eq_Inl assertE_def split: if_splits)

lemma wp_scope_insert:
  "(\<And>c'. chain_ext c c' \<Longrightarrow> Q c') \<Longrightarrow> wpE (tol b) (scope_insert k d c) Q"
  by (auto simp: wpE_def intro: chain_ext_insert scope_insert_fault split: sum.split)

lemma wp_insertDecl:
  "(\<And>t. frame s t \<Longrightarrow> pos t = pos s \<Longrightarrow> Q t) \<Longrightarrow> wpE (tol b) (insertDecl d s) Q"
  by (auto simp: insertDecl_def frame_def intro!: wp_intro wp_scope_insert)

lemma wp_isAllowedToShadowDecl:
  "(\<And>r. Q r) \<Longrightarrow> wpE (tol b) (isAllowedToShadowDecl p d prev s) Q"
  by (auto simp: isAllowedToShadowDecl_def isShadowingDeclFromExportedNode_def
      split: option.split payload.split)

lemma wp_introduce [wp_intro]:
  "(\<And>t. frame s t \<Longrightarrow> pos t = pos s \<Longrightarrow> Q t) \<Longrightarrow> wpE (tol b) (introduce p d s) Q"
  by (auto simp: introduce_def directLookup_def rejectDecl_def same_place_frame
      intro!: wp_intro wp_insertDecl wp_isAllowedToShadowDecl split: option.split)

lemma wp_enterTemporaryScope [wp_intro]:
  "(\<And>t. t = s\<lparr>currentScope := createTemporary (currentScope s)\<rparr> \<Longrightarrow> Q t) \<Longrightarrow>
   wpE (tol b) (enterTemporaryScope s) Q"
  by (auto simp: enterTemporaryScope_def intro!: wp_intro)

lemma wp_enterInplaceScope [wp_intro]:
  "(\<And>t. t = s\<lparr>currentScope := createInplace (currentScope s)\<rparr> \<Longrightarrow> Q t) \<Longrightarrow>
   wpE (tol b) (enterInplaceScope s) Q"
  by (auto simp: enterInplaceScope_def intro!: wp_intro)

lemma wp_enterConsistentScope [wp_intro]:
  "(\<And>t c. t = s\<lparr>currentScope := createConsistent c\<rparr> \<Longrightarrow> Q t) \<Longrightarrow>
   wpE (tol b) (enterConsistentScope parent s) Q"
  by (simp add: enterConsistentScope_def)

lemma wp_leaveScope [wp_intro]:
  "(\<And>t. t = s\<lparr>currentScope := tl (currentScope s)\<rparr> \<Longrightarrow> Q t) \<Longrightarrow> wpE (tol b) (leaveScope s) Q"
  by (simp add: leaveScope_def)

lemma wp_leaveConsistentScope [wp_intro]:
  "(\<And>t. t = s\<lparr>currentScope := c\<rparr> \<Longrightarrow> Q t) \<Longrightarrow> wpE (tol b) (leaveConsistentScope c s) Q"
  by (simp add: leaveConsistentScope_def)

lemma wp_enterMetaDeclMode [wp_intro]:
  "(\<And>t. t = s\<lparr>modeStack := InsideMetaDecl # modeStack s\<rparr> \<Longrightarrow> Q t) \<Longrightarrow>
   wpE (tol b) (enterMetaDeclMode s) Q"
  by (simp add: enterMetaDeclMode_def setMode_def)

lemma wp_enterMetaComputationMode [wp_intro]:
  "(\<And>t. t = s\<lparr>modeStack := InsideComputation # modeStack s\<rparr> \<Longrightarrow> Q t) \<Longrightarrow>
   wpE (tol b) (enterMetaComputationMode s) Q"
  by (simp add: enterMetaComputationMode_def setMode_def)

lemma wp_leaveMode [wp_intro]:
  "(\<And>t. t = s\<lparr>modeStack := tl (modeStack s)\<rparr> \<Longrightarrow> Q t) \<Longrightarrow> wpE (tol b) (leaveMode s) Q"
  by (simp add: leaveMode_def)

section \<open>Inside a method\<close>

text \<open>
  What holds between the first shift of a method and its end: \<open>L\<close>, \<open>p\<close> are the layout and the position
  it started with, \<open>ms\<close> and \<open>cs\<close> the modes and the scopes of the part being read; \<open>n\<close> is the fuel of
  the calls it makes, enough for all that is left if \<open>b\<close> promises so.
\<close>

definition within ::
    "bool \<Rightarrow> nat \<Rightarrow> layout \<Rightarrow> nat \<Rightarrow> meta_depth_level list \<Rightarrow> scope_chain \<Rightarrow> reader \<Rightarrow> bool" where
  "within b n L p ms cs s \<longleftrightarrow> layout_of s = L \<and> p < pos s \<and> pos s \<le> length L \<and> modeStack s = ms
     \<and> chain_ext cs (currentScope s) \<and> (b \<longrightarrow> Suc (length L) \<le> n + p)"

lemma within_start:
  "moves s t \<Longrightarrow> (b \<longrightarrow> length (remaining s) < n) \<Longrightarrow>
   within b n (layout_of s) (pos s) (modeStack s) (currentScope s) t"
  by (auto simp: within_def moves_def frame_def remaining_def)

lemma within_moves:
  "within b n (layout_of s) (pos s) (modeStack s) (currentScope s) t \<Longrightarrow> moves s t"
  by (simp add: within_def moves_def frame_def)

lemma within_frame:
  "within b n L p ms cs s \<Longrightarrow> frame s t \<Longrightarrow> pos t \<le> length L \<Longrightarrow> within b n L p ms cs t"
  by (auto simp: within_def frame_def intro: chain_ext_trans)

lemma within_step: "within b n L p ms cs s \<Longrightarrow> moves s t \<Longrightarrow> within b n L p ms cs t"
  by (rule within_frame) (auto simp: moves_def within_def)

lemma within_fuel: "within b n L p ms cs s \<Longrightarrow> b \<longrightarrow> length (remaining s) + 2 \<le> n"
  by (auto simp: within_def remaining_def)

lemma within_bound: "within b n L p ms cs s \<Longrightarrow> pos s \<le> length L"
  by (simp add: within_def)

lemma within_set_scope:
  "within b n L p ms cs s \<Longrightarrow> chain_ext ds c \<Longrightarrow> within b n L p ms ds (s\<lparr>currentScope := c\<rparr>)"
  by (simp add: within_def)

lemma within_chain: "within b n L p ms cs s \<Longrightarrow> chain_ext cs (currentScope s)"
  by (simp add: within_def)

lemma within_leave_temporary:
  "within b n L p ms (createTemporary c) s \<Longrightarrow> tl (currentScope s) = c"
  by (auto dest!: within_chain chain_ext_createTemporary)

lemma within_leave_inplace:
  "within b n L p ms (createInplace c) s \<Longrightarrow> chain_ext c (tl (currentScope s))"
  by (auto dest!: within_chain chain_ext_createInplace)

named_theorems inside \<open>rules for the operations of a method after its first shift\<close>

lemma inside_start [inside]:
  "(b \<longrightarrow> length (remaining s) < n) \<Longrightarrow>
   (\<And>m t. within b n (layout_of s) (pos s) (modeStack s) (currentScope s) t \<Longrightarrow> Q (m, t)) \<Longrightarrow>
   wpE (tol b) (shiftAs P s) Q"
  by (rule wp_shiftAs) (blast intro: within_start)

lemma inside_peekIs [inside]: "(\<And>r. Q r) \<Longrightarrow> wpE (tol b) (peekIs P s) Q"
  by (rule wp_peekIs)

lemma inside_leaveShift [inside]:
  "within b n L p ms cs s \<Longrightarrow> (\<And>t. within b n L p ms cs t \<Longrightarrow> Q t) \<Longrightarrow>
   wpE (tol b) (leaveShift m s) Q"
  by (rule wp_leaveShift) (blast intro: within_step)

lemma inside_introduce [inside]:
  "within b n L p ms cs s \<Longrightarrow> (\<And>t. within b n L p ms cs t \<Longrightarrow> Q t) \<Longrightarrow>
   wpE (tol b) (introduce q d s) Q"
  by (rule wp_introduce) (metis within_frame within_bound)

lemma inside_lookup [inside]:
  "within b n L p ms cs s \<Longrightarrow> (\<And>r t. within b n L p ms cs t \<Longrightarrow> Q (r, t)) \<Longrightarrow>
   wpE (tol b) (lookup q i s) Q"
  by (rule wp_lookup) (auto simp: within_def same_place_def)

lemma inside_enterTemporaryScope [inside]:
  "within b n L p ms cs s \<Longrightarrow>
   (\<And>t c. chain_ext cs c \<Longrightarrow> within b n L p ms (createTemporary c) t \<Longrightarrow> Q t) \<Longrightarrow>
   wpE (tol b) (enterTemporaryScope s) Q"
  by (rule wp_enterTemporaryScope) (blast intro: within_set_scope within_chain chain_ext_refl)

lemma inside_leaveTemporaryScope:
  "within b n L p ms (createTemporary c) s \<Longrightarrow> chain_ext cs c \<Longrightarrow>
   (\<And>t. within b n L p ms cs t \<Longrightarrow> Q t) \<Longrightarrow> wpE (tol b) (leaveScope s) Q"
  by (rule wp_leaveScope) (blast intro: within_set_scope dest: within_leave_temporary)

lemma inside_enterInplaceScope [inside]:
  "within b n L p ms cs s \<Longrightarrow>
   (\<And>t c. chain_ext cs c \<Longrightarrow> within b n L p ms (createInplace c) t \<Longrightarrow> Q t) \<Longrightarrow>
   wpE (tol b) (enterInplaceScope s) Q"
  by (rule wp_enterInplaceScope) (blast intro: within_set_scope within_chain chain_ext_refl)

lemma inside_leaveInplaceScope:
  "within b n L p ms (createInplace c) s \<Longrightarrow> chain_ext cs c \<Longrightarrow>
   (\<And>t. within b n L p ms cs t \<Longrightarrow> Q t) \<Longrightarrow> wpE (tol b) (leaveScope s) Q"
  by (rule wp_leaveScope)
    (blast intro: within_set_scope chain_ext_trans dest: within_leave_inplace)

lemma inside_enterConsistentScope [inside]:
  "within b n L p ms cs s \<Longrightarrow> (\<And>t c. within b n L p ms (createConsistent c) t \<Longrightarrow> Q t) \<Longrightarrow>
   wpE (tol b) (enterConsistentScope parent s) Q"
  by (rule wp_enterConsistentScope) (blast intro: within_set_scope chain_ext_refl)

lemma inside_leaveConsistentScope:
  "within b n L p ms d s \<Longrightarrow> within b n L p ms cs u \<Longrightarrow>
   (\<And>t. within b n L p ms cs t \<Longrightarrow> Q t) \<Longrightarrow> wpE (tol b) (leaveConsistentScope (currentScope u) s) Q"
  by (rule wp_leaveConsistentScope) (blast intro: within_set_scope within_chain)

lemmas inside_leave = inside_leaveTemporaryScope inside_leaveInplaceScope
  inside_leaveConsistentScope

lemma inside_enterMetaDeclMode [inside]:
  "within b n L p ms cs s \<Longrightarrow> (\<And>t. within b n L p (InsideMetaDecl # ms) cs t \<Longrightarrow> Q t) \<Longrightarrow>
   wpE (tol b) (enterMetaDeclMode s) Q"
  by (rule wp_enterMetaDeclMode) (simp add: within_def)

lemma inside_enterMetaComputationMode [inside]:
  "within b n L p ms cs s \<Longrightarrow> (\<And>t. within b n L p (InsideComputation # ms) cs t \<Longrightarrow> Q t) \<Longrightarrow>
   wpE (tol b) (enterMetaComputationMode s) Q"
  by (rule wp_enterMetaComputationMode) (simp add: within_def)

lemma inside_leaveMode [inside]:
  "within b n L p (m # ms) cs s \<Longrightarrow> (\<And>t. within b n L p ms cs t \<Longrightarrow> Q t) \<Longrightarrow>
   wpE (tol b) (leaveMode s) Q"
  by (rule wp_leaveMode) (simp add: within_def)

section \<open>Calls\<close>

definition call_cost :: "ast_kind \<Rightarrow> reader \<Rightarrow> nat" where
  "call_cost k s = length (remaining s) + (if k = KindNamedArgumentDecl then 1 else 2)"

definition calls_ok :: "bool \<Rightarrow> nat \<Rightarrow> calls \<Rightarrow> bool" where
  "calls_ok b n call \<longleftrightarrow> (\<forall>k s. (b \<longrightarrow> call_cost k s \<le> n) \<longrightarrow>
     wpE (tol b) (call k s) (\<lambda>(t, s'). moves s s'))"

definition one_ok :: "bool \<Rightarrow> nat \<Rightarrow> 'a consumer \<Rightarrow> bool" where
  "one_ok b n one \<longleftrightarrow> (\<forall>s. (b \<longrightarrow> length (remaining s) + 2 \<le> n) \<longrightarrow>
     wpE (tol b) (one s) (\<lambda>(t, s'). moves s s'))"

named_theorems one_ok_intro \<open>the consumers a method calls\<close>

lemma one_ok_call [one_ok_intro]: "calls_ok b n call \<Longrightarrow> one_ok b n (call k)"
  by (auto simp: calls_ok_def one_ok_def call_cost_def)

lemma one_okD: "one_ok b n one \<Longrightarrow> (b \<longrightarrow> length (remaining s) + 2 \<le> n) \<Longrightarrow>
    (\<And>t s'. moves s s' \<Longrightarrow> Q (t, s')) \<Longrightarrow> wpE (tol b) (one s) Q"
  by (rule wpE_post [where P = "\<lambda>(t, s'). moves s s'"]) (auto simp: one_ok_def)

lemma one_ok_any [one_ok_intro]: "calls_ok b n call \<Longrightarrow> one_ok b n (consume_any call)"
  by (auto simp: one_ok_def consume_any_def intro!: wp_intro one_okD [OF one_ok_call])

lemma one_ok_expecting [one_ok_intro]:
  "calls_ok b n call \<Longrightarrow> one_ok b n (consumeExpecting P call)"
  by (auto simp: one_ok_def consumeExpecting_def intro!: wp_intro one_okD [OF one_ok_call])

lemma one_ok_defs [one_ok_intro]:
  "calls_ok b n call \<Longrightarrow> one_ok b n (consumeStmt call)"
  "calls_ok b n call \<Longrightarrow> one_ok b n (consumeExpr call)"
  "calls_ok b n call \<Longrightarrow> one_ok b n (consumeTopLevelDecl call)"
  "calls_ok b n call \<Longrightarrow> one_ok b n (consumeConstantExpr call)"
  by (auto simp: one_ok_def consumeStmt_def consumeExpr_def consumeTopLevelDecl_def
      consumeConstantExpr_def intro!: wp_intro one_okD [OF one_ok_expecting])

lemma inside_one:
  "one_ok b n one \<Longrightarrow> within b n L p ms cs s \<Longrightarrow> (\<And>r t. within b n L p ms cs t \<Longrightarrow> Q (r, t)) \<Longrightarrow>
   wpE (tol b) (one s) Q"
  by (rule one_okD) (auto intro: within_step dest: within_fuel)

lemma inside_unless [inside]:
  "one_ok b n one \<Longrightarrow> within b n L p ms cs s \<Longrightarrow> (\<And>r t. within b n L p ms cs t \<Longrightarrow> Q (r, t)) \<Longrightarrow>
   wpE (tol b) (consumeUnlessReduce one s) Q"
  by (auto simp: consumeUnlessReduce_def intro!: wp_intro intro: inside_one)

lemma consume_loop_ok:
  assumes "one_ok b n one"
  shows "within b n L p ms cs s \<Longrightarrow> length (remaining s) < m \<Longrightarrow>
    wpE (tol b) (consume_loop m one s) (\<lambda>(ts, t). within b n L p ms cs t)"
proof (induction m arbitrary: s)
  case 0
  then show ?case by simp
next
  case (Suc m)
  have "wpE (tol b) (consume_loop m one u) (\<lambda>(ts, t). within b n L p ms cs t)"
    if "moves s u" for u
    using Suc.IH [of u] Suc.prems within_step [OF Suc.prems(1) that] moves_remaining [OF that]
    by simp
  then have "wpE (tol b) (one s) (\<lambda>(t, u). wpE (tol b) (consume_loop m one u)
      (\<lambda>(ts, t). within b n L p ms cs t))"
    using within_fuel [OF Suc.prems(1)] by (auto intro!: one_okD [OF assms])
  with Suc.prems show ?case
    by (auto simp: case_prod_beta intro!: wp_intro elim!: wpE_post)
qed

lemma inside_while [inside]:
  "one_ok b n one \<Longrightarrow> within b n L p ms cs s \<Longrightarrow> (\<And>r t. within b n L p ms cs t \<Longrightarrow> Q (r, t)) \<Longrightarrow>
   wpE (tol b) (consumeWhile one s) Q"
  unfolding consumeWhile_def
  by (rule wpE_post [OF consume_loop_ok]) auto

end
