(* ===== verification/Reader_Progress.thy ===== *)
theory Reader_Progress imports Reader_Frame begin

text \<open>
  The frame theorem, method by method: over a table of methods that make progress, each method makes
  progress, restores the modes and the scopes, and does not run out of fuel. From it: reading any
  layout ends, and the builder's stacks are balanced after it.
\<close>

section \<open>Crawling is bounded\<close>

lemma crawlExpand_ok:
  "(b \<longrightarrow> length (remaining s) < n) \<Longrightarrow> wpE (tol b) (crawlExpand n s) (moves s)"
proof (induction n arbitrary: s)
  case 0
  then show ?case by simp
next
  case (Suc n)
  have step: "wpE (tol b) (crawlExpand n t) (moves s)" if "moves s t" for t
    by (rule wpE_post [OF Suc.IH]) (use Suc.prems moves_remaining [OF that] in \<open>auto intro: moves_trans [OF that]\<close>)
  have "wpE (tol b) (crawlExpand n t) (\<lambda>u. wpE (tol b) (crawlExpand n u) (moves s))"
    if "moves s t" for t
    using step [OF that] by (auto elim: wpE_post intro: step)
  with step show ?case
    by (auto intro!: wp_intro)
qed

lemma crawl_loop_ok:
  "(b \<longrightarrow> length (remaining s) < n) \<Longrightarrow> wpE (tol b) (crawl_loop n s) (\<lambda>_. True)"
proof (induction n arbitrary: s)
  case 0
  then show ?case by simp
next
  case (Suc n)
  have loop: "wpE (tol b) (crawl_loop n t) (\<lambda>_. True)" if "moves s t" for t
    using Suc.IH [of t] Suc.prems moves_remaining [OF that] by auto
  have "wpE (tol b) (crawlExpand n t) (\<lambda>u. wpE (tol b) (crawl_loop n u) (\<lambda>_. True))"
    if "moves s t" for t
    by (rule wpE_post [OF crawlExpand_ok])
      (use Suc.prems moves_remaining [OF that] in \<open>auto intro: loop moves_trans [OF that]\<close>)
  with loop show ?case
    by (auto intro!: wp_intro)
qed

lemma foldE_inside:
  assumes "\<And>x u. within b n L p ms cs u \<Longrightarrow> wpE (tol b) (f x u) (within b n L p ms cs)"
  shows "within b n L p ms cs s \<Longrightarrow> wpE (tol b) (foldE f xs s) (within b n L p ms cs)"
proof (induction xs arbitrary: s)
  case Nil
  then show ?case by simp
next
  case (Cons x xs)
  with assms [OF Cons.prems, of x] show ?case by (auto elim!: wpE_post)
qed

lemma within_registers [simp]:
  "within b n L p ms cs (s\<lparr>containingUnit := x\<rparr>) = within b n L p ms cs s"
  "within b n L p ms cs (s\<lparr>exportedNode := y\<rparr>) = within b n L p ms cs s"
  "within b n L p ms cs (s\<lparr>unitScope := z\<rparr>) = within b n L p ms cs s"
  by (simp_all add: within_def)

lemma visit_inside:
  "within b n L p ms cs s \<Longrightarrow>
   wpE (tol b) (introduceScope_visit q parent child s) (within b n L p ms cs)"
  by (auto simp: introduceScope_visit_def Let_def split: payload.split option.split
      intro!: inside_introduce [where L = L and p = p and ms = ms and cs = cs])

lemma inside_introduceScope [inside]:
  assumes "within b n L p ms cs s" and "\<And>t. within b n L p ms cs t \<Longrightarrow> Q t"
  shows "wpE (tol b) (introduceScope q parent s) Q"
proof -
  have "wpE (tol b) (crawl_loop (crawl_fuel s) s) (\<lambda>_. True)"
    by (rule crawl_loop_ok) (auto simp: crawl_fuel_def remaining_def)
  then show ?thesis
    unfolding introduceScope_def crawlCurrentScope_def wpE_bindE
    by (rule wpE_post) (blast intro: wpE_post [OF foldE_inside] visit_inside assms)
qed

section \<open>The methods\<close>

lemma inside_return [inside]:
  "within b n (layout_of s) (pos s) (modeStack s) (currentScope s) t \<Longrightarrow>
   wpE (tol b) (Inr (r, t)) (\<lambda>(r, t). moves s t)"
  by (simp add: within_moves)

lemma inside_if [inside]:
  "(c \<Longrightarrow> wpE E m Q) \<Longrightarrow> (\<not> c \<Longrightarrow> wpE E m' Q) \<Longrightarrow> wpE E (if c then m else m') Q"
  by simp

lemma inside_Inr [inside]: "Q r \<Longrightarrow> wpE E (Inr r) Q"
  by simp

lemma inside_fault [inside]: "wpE (tol b) (Inl (Unreachable m)) Q" "wpE (tol b) (Inl BadCast) Q"
  "wpE (tol b) (Inl NullDeref) Q"
  by simp_all

text \<open>A method over a table of methods that make progress makes progress.\<close>

definition method_ok :: "(calls \<Rightarrow> ast consumer) \<Rightarrow> bool" where
  "method_ok m \<longleftrightarrow> (\<forall>b n call s. calls_ok b n call \<longrightarrow> (b \<longrightarrow> length (remaining s) < n) \<longrightarrow>
     wpE (tol b) (m call s) (\<lambda>(t, s'). moves s s'))"

lemma method_okI:
  "(\<And>b n call s. calls_ok b n call \<Longrightarrow> (b \<longrightarrow> length (remaining s) < n) \<Longrightarrow>
     wpE (tol b) (m call s) (\<lambda>(t, s'). moves s s')) \<Longrightarrow> method_ok m"
  by (simp add: method_ok_def)

lemma method_okD:
  "method_ok m \<Longrightarrow> calls_ok b n call \<Longrightarrow> (b \<longrightarrow> length (remaining s) < n) \<Longrightarrow>
   wpE (tol b) (m call s) (\<lambda>(t, s'). moves s s')"
  by (simp add: method_ok_def)

lemmas inside_call = inside_one [OF one_ok_call] one_ok_defs [THEN inside_one]
lemmas one_ok_rules = one_ok_any one_ok_defs one_ok_call

lemma inside_payload [inside]:
  "(\<And>x. wpE E (f x) Q) \<Longrightarrow> wpE E g Q \<Longrightarrow>
   wpE E (case pl of PBinaryOperatorExpr x \<Rightarrow> f x | _ \<Rightarrow> g) Q"
  "(\<And>x. wpE E (f2 x) Q) \<Longrightarrow> wpE E g Q \<Longrightarrow>
   wpE E (case pl of PIntegerLiteralExpr x \<Rightarrow> f2 x | _ \<Rightarrow> g) Q"
  "(\<And>x. wpE E (f3 x) Q) \<Longrightarrow> wpE E g Q \<Longrightarrow>
   wpE E (case pl of PBooleanLiteralExpr x \<Rightarrow> f3 x | _ \<Rightarrow> g) Q"
  by (cases pl; simp)+

lemma inside_option [inside]:
  "(\<And>x. wpE E (f x) Q) \<Longrightarrow> wpE E m Q \<Longrightarrow>
   wpE E (case o1 of None \<Rightarrow> m | Some x \<Rightarrow> f x) Q"
  by (cases o1; simp)

lemma inside_pair [inside]: "(\<And>x y. wpE E (f x y) Q) \<Longrightarrow> wpE E (case p of (x, y) \<Rightarrow> f x y) Q"
  by (cases p) simp

lemma inside_unitBody [inside]:
  assumes call: "calls_ok b n call" and s: "within b n L p ms cs s"
    and Q: "\<And>r t. within b n L p ms cs t \<Longrightarrow> Q (r, t)"
  shows "wpE (tol b) (consumeUnitBody q call parent m s) Q"
  using s
  apply (unfold consumeUnitBody_def wpE_bindE Let_def)
  apply (simp only: prod.case wpE_bindE within_registers | rule inside Q
    | (rule inside_leave, simp only: within_registers, assumption)
    | (rule one_ok_rules, rule call) | assumption)+
  done

lemmas method_defs =
  consumeFunctionDecl_def consumeMetaDecl_def consumeMetaContribution_def
  consumeArgumentDeclList_def consumeGlobalConstantDecl_def
  consumeUnscopedCompoundStmt_def consumeCompoundStmt_def consumeReturnStmt_def
  consumeExpressionStmt_def consumeDeclStmt_def consumeIfStmt_def consumeMetaIfStmt_def
  consumeMetaCalculationStmt_def consumeBinaryOperatorExpr_def consumeCallOperatorExpr_def
  consumeMetaInstantiationExpr_def consumeDeclRefExpr_def consumeIntegerLiteralExpr_def
  consumeBooleanLiteralExpr_def consumeNamedArgumentDecl_def consumeCompilationUnit_def
  consumeMetaUnit_def

lemma methods_ok:
  "method_ok consumeFunctionDecl" "method_ok consumeMetaDecl" "method_ok consumeMetaContribution"
  "method_ok consumeArgumentDeclList" "method_ok consumeGlobalConstantDecl"
  "method_ok consumeUnscopedCompoundStmt" "method_ok consumeCompoundStmt"
  "method_ok consumeReturnStmt" "method_ok consumeExpressionStmt" "method_ok (consumeDeclStmt q)"
  "method_ok consumeIfStmt" "method_ok consumeMetaIfStmt" "method_ok consumeMetaCalculationStmt"
  "method_ok consumeBinaryOperatorExpr" "method_ok consumeCallOperatorExpr"
  "method_ok consumeMetaInstantiationExpr" "method_ok (\<lambda>_. consumeDeclRefExpr q)"
  "method_ok (\<lambda>_. consumeIntegerLiteralExpr)" "method_ok (\<lambda>_. consumeBooleanLiteralExpr)"
  "method_ok (\<lambda>_. consumeNamedArgumentDecl q)"
  "method_ok (consumeCompilationUnit q)" "method_ok (consumeMetaUnit q)"
  apply (rule method_okI, unfold method_defs wpE_bindE Let_def, rule inside_start, assumption,
    (simp only: prod.case wpE_bindE within_registers | rule inside
    | (rule inside_call, assumption, assumption) | (rule inside_leave, assumption, assumption)
    | (rule one_ok_rules, assumption) | assumption)+)+
  done

lemma AnonymousArgumentDecl_ok:
  assumes call: "calls_ok b n call" and fuel: "b \<longrightarrow> length (remaining s) < n"
  shows "wpE (tol b) (consumeAnonymousArgumentDecl call s) (\<lambda>(t, s'). moves s s')"
proof -
  have "wpE (tol b) (call KindNamedArgumentDecl s) (\<lambda>(t, s'). moves s s')"
    using call fuel by (auto simp: calls_ok_def call_cost_def)
  then show ?thesis
    by (auto simp: consumeAnonymousArgumentDecl_def intro!: wp_intro)
qed

lemma consumeMethod_ok:
  assumes "calls_ok b n call" and "b \<longrightarrow> length (remaining s) < n"
  shows "wpE (tol b) (consumeMethod p call k s) (\<lambda>(t, s'). moves s s')"
proof (cases k)
  case KindErroneousExpr
  then show ?thesis by (simp add: consumeErroneousExpr_def)
qed (simp_all only: consumeMethod.simps methods_ok [THEN method_okD, OF assms]
    AnonymousArgumentDecl_ok [OF assms])

section \<open>The frame theorem\<close>

theorem consumeKind_ok: "calls_ok b n (consumeKind p n)"
proof (induction n)
  case 0
  then show ?case by (auto simp: calls_ok_def call_cost_def)
next
  case (Suc n)
  have "wpE (tol b) (consumeMethod p (consumeKind p n) k s) (\<lambda>(t, s'). moves s s')"
    if "b \<longrightarrow> call_cost k s \<le> Suc n" for k s
  proof (cases "k = KindNamedArgumentDecl")
    case True
    have "calls_ok b (Suc n) (\<lambda>_ _. Inl BadCast)" by (simp add: calls_ok_def)
    from method_okD [OF methods_ok(20) this] True that show ?thesis
      by (simp add: call_cost_def less_Suc_eq_le)
  next
    case False
    then show ?thesis
      using consumeMethod_ok [OF Suc.IH] that by (auto simp: call_cost_def)
  qed
  then show ?case by (simp add: calls_ok_def)
qed

end
