(* ===== verification/Resolve.thy ===== *)
theory Resolve imports Grammar begin

text \<open>
  Lexical scoping as a specification, independent of scopes, layouts and readers: over an
  environment of visible declarations, \<open>res_decls\<close> are the declarations a tree adds to the scope it
  stands in, \<open>res_tree\<close> is the tree with its references resolved and its exported declarations
  listed, \<open>res_err\<close> says whether a name is unknown or declared twice. Siblings are visited in order,
  each in the environment its predecessors leave.
\<close>

type_synonym env = "string \<Rightarrow> obj option"

definition bind_all :: "obj list \<Rightarrow> env \<Rightarrow> env" where
  "bind_all ds env = fold (\<lambda>d e. e(name_str d \<mapsto> d)) ds env"

lemma bind_all_simps [simp]:
  "bind_all [] env = env" "bind_all (d # ds) env = bind_all ds (env(name_str d \<mapsto> d))"
  "bind_all (ds @ es) env = bind_all es (bind_all ds env)"
  by (simp_all add: bind_all_def)

text \<open>A declaration outside of the uncomputed part of a meta declaration, if the name is free.\<close>

definition declares :: "meta_depth_level \<Rightarrow> env \<Rightarrow> obj \<Rightarrow> bool" where
  "declares m env d \<longleftrightarrow> m \<noteq> InsideMetaDecl \<and> env (name_str d) = None"

definition clashes :: "meta_depth_level \<Rightarrow> env \<Rightarrow> obj \<Rightarrow> bool" where
  "clashes m env d \<longleftrightarrow> m \<noteq> InsideMetaDecl \<and> env (name_str d) \<noteq> None"

definition opens_scope :: "ast_kind \<Rightarrow> bool" where
  "opens_scope k \<longleftrightarrow> k = KindFunctionDecl \<or> k = KindMetaDecl \<or> k = KindCompoundStmt"

text \<open>The mode the children of a node are in, given the mode of the node.\<close>

fun child_modes :: "meta_depth_level \<Rightarrow> ast_kind \<Rightarrow> meta_depth_level list" where
  "child_modes m KindMetaDecl = [m, InsideMetaDecl]"
| "child_modes m KindMetaIfStmt = [InsideComputation, m, m]"
| "child_modes m KindMetaCalculationStmt = [InsideComputation]"
| "child_modes m _ = []"

definition mode_of_child :: "meta_depth_level \<Rightarrow> ast_kind \<Rightarrow> nat \<Rightarrow> meta_depth_level" where
  "mode_of_child m k i = (if i < length (child_modes m k) then child_modes m k ! i else m)"

definition moded_children :: "meta_depth_level \<Rightarrow> ast \<Rightarrow> (meta_depth_level \<times> ast) list" where
  "moded_children m t = map (\<lambda>(i, c). (mode_of_child m (getKind t) i, c)) (enumerate 0 (children t))"

section \<open>Declarations added to the scope around a tree\<close>

lemma moded_children_measure:
  "Suc (sum_list (map (\<lambda>x. 2 * node_count (snd x)) (moded_children m t))) < 2 * node_count t"
proof -
  have "map (\<lambda>x. 2 * node_count (snd x)) (moded_children m t)
      = map (\<lambda>c. 2 * node_count c) (children t)"
    by (rule nth_equalityI) (simp_all add: moded_children_def nth_enumerate_eq case_prod_beta)
  then show ?thesis using node_count_measure [of t] by (simp add: sum_list_const_mult)
qed

function res_decls :: "meta_depth_level \<Rightarrow> env \<Rightarrow> ast \<Rightarrow> obj list"
  and res_decls_list :: "env \<Rightarrow> (meta_depth_level \<times> ast) list \<Rightarrow> obj list" where
  "res_decls m env t =
     (let ds = res_decls_list env (moded_children m t) in
      if opens_scope (getKind t) then []
      else if isLocalDecl (getKind t) \<and> declares m (bind_all ds env) (obj_of t) then ds @ [obj_of t]
      else ds)"
| "res_decls_list env [] = []"
| "res_decls_list env ((m, t) # ts) =
     (let ds = res_decls m env t in ds @ res_decls_list (bind_all ds env) ts)"
  by pat_completeness auto
termination
  by (relation "measure (case_sum (\<lambda>(m, env, t). 2 * node_count t)
        (\<lambda>(env, ts). Suc (sum_list (map (\<lambda>x. 2 * node_count (snd x)) ts))))")
     (auto simp: moded_children_measure)

declare res_decls.simps [simp del]

section \<open>Errors\<close>

function res_err :: "meta_depth_level \<Rightarrow> env \<Rightarrow> ast \<Rightarrow> bool"
  and res_err_list :: "env \<Rightarrow> (meta_depth_level \<times> ast) list \<Rightarrow> bool" where
  "res_err m env t \<longleftrightarrow>
     res_err_list env (moded_children m t)
     \<or> isLocalDecl (getKind t)
       \<and> clashes m (bind_all (res_decls_list env (moded_children m t)) env) (obj_of t)
     \<or> (case t of DeclRefExpr a n d \<Rightarrow> m \<noteq> InsideMetaDecl \<and> env (getType n) = None | _ \<Rightarrow> False)"
| "res_err_list env [] \<longleftrightarrow> False"
| "res_err_list env ((m, t) # ts) \<longleftrightarrow>
     res_err m env t \<or> res_err_list (bind_all (res_decls m env t) env) ts"
  by pat_completeness auto
termination
  by (relation "measure (case_sum (\<lambda>(m, env, t). 2 * node_count t)
        (\<lambda>(env, ts). Suc (sum_list (map (\<lambda>x. 2 * node_count (snd x)) ts))))")
     (auto simp: moded_children_measure)

declare res_err.simps [simp del]

section \<open>The resolved tree\<close>

text \<open>A node over other children, of the same number and order.\<close>

fun with_children :: "ast \<Rightarrow> ast list \<Rightarrow> ast" where
  "with_children (CompilationUnit a _) cs = CompilationUnit a cs"
| "with_children (MetaUnit a i _) cs = MetaUnit a i cs"
| "with_children (FunctionDecl a n _ r _) cs =
     (case cs of [args, b] \<Rightarrow> FunctionDecl a n args None b
      | [args, x, b] \<Rightarrow> FunctionDecl a n args (Some x) b | _ \<Rightarrow> ErroneousExpr a)"
| "with_children (MetaDecl a n _ _) cs = MetaDecl a n (cs ! 0) (cs ! 1)"
| "with_children (MetaContribution a rg _) cs = MetaContribution a rg cs"
| "with_children (ArgumentDeclList a _) cs = ArgumentDeclList a cs"
| "with_children (GlobalConstantDecl a n _) cs = GlobalConstantDecl a n (cs ! 0)"
| "with_children (UnscopedCompoundStmt a _) cs = UnscopedCompoundStmt a cs"
| "with_children (CompoundStmt a _) cs = CompoundStmt a cs"
| "with_children (ReturnStmt a _) cs = ReturnStmt a (case cs of [] \<Rightarrow> None | e # _ \<Rightarrow> Some e)"
| "with_children (ExpressionStmt a _) cs = ExpressionStmt a (cs ! 0)"
| "with_children (DeclStmt a n _) cs = DeclStmt a n (cs ! 0)"
| "with_children (IfStmt a _ _ f) cs =
     IfStmt a (cs ! 0) (cs ! 1) (if length cs = 3 then Some (cs ! 2) else None)"
| "with_children (MetaIfStmt a _ _ f) cs =
     MetaIfStmt a (cs ! 0) (cs ! 1) (if length cs = 3 then Some (cs ! 2) else None)"
| "with_children (MetaCalculationStmt a _ ds) cs = MetaCalculationStmt a (cs ! 0) ds"
| "with_children (BinaryOperatorExpr a b _ _) cs = BinaryOperatorExpr a b (cs ! 0) (cs ! 1)"
| "with_children (CallOperatorExpr a _ _) cs = CallOperatorExpr a (hd cs) (tl cs)"
| "with_children (MetaInstantiationExpr a rg _ _) cs = MetaInstantiationExpr a rg (hd cs) (tl cs)"
| "with_children t cs = t"

text \<open>What a node itself gets: its declaration, or the declarations it exports.\<close>

fun annotate_node :: "meta_depth_level \<Rightarrow> env \<Rightarrow> obj list \<Rightarrow> ast \<Rightarrow> ast" where
  "annotate_node m env ds (DeclRefExpr a n d) =
     DeclRefExpr a n (if m = InsideMetaDecl then None else map_option obj_addr (env (getType n)))"
| "annotate_node m env ds (MetaCalculationStmt a s es) = MetaCalculationStmt a s (map obj_addr ds)"
| "annotate_node m env ds t = t"

function res_tree :: "meta_depth_level \<Rightarrow> env \<Rightarrow> ast \<Rightarrow> ast"
  and res_tree_list :: "env \<Rightarrow> (meta_depth_level \<times> ast) list \<Rightarrow> ast list" where
  "res_tree m env t = annotate_node m env (res_decls_list env (moded_children m t))
     (with_children t (res_tree_list env (moded_children m t)))"
| "res_tree_list env [] = []"
| "res_tree_list env ((m, t) # ts) =
     res_tree m env t # res_tree_list (bind_all (res_decls m env t) env) ts"
  by pat_completeness auto
termination
  by (relation "measure (case_sum (\<lambda>(m, env, t). 2 * node_count t)
        (\<lambda>(env, ts). Suc (sum_list (map (\<lambda>x. 2 * node_count (snd x)) ts))))")
     (auto simp: moded_children_measure)

declare res_tree.simps [simp del]

section \<open>Class by class\<close>

lemma moded_replicate:
  "child_modes m (getKind t) = [] \<Longrightarrow> moded_children m t = map (Pair m) (children t)"
  unfolding moded_children_def mode_of_child_def
  by (rule nth_equalityI) (simp_all add: nth_enumerate_eq case_prod_beta)

lemma moded_simps [simp]:
  "moded_children m (FunctionDecl a n args r b) =
     (m, args) # map (Pair m) (opt_list r) @ [(m, b)]"
  "moded_children m (MetaDecl a n args c) = [(m, args), (InsideMetaDecl, c)]"
  "moded_children m (MetaContribution a rg cs) = map (Pair m) cs"
  "moded_children m (ArgumentDeclList a cs) = map (Pair m) cs"
  "moded_children m (AnonymousArgumentDecl a) = []"
  "moded_children m (NamedArgumentDecl a n) = []"
  "moded_children m (GlobalConstantDecl a n e) = [(m, e)]"
  "moded_children m (UnscopedCompoundStmt a cs) = map (Pair m) cs"
  "moded_children m (CompoundStmt a cs) = map (Pair m) cs"
  "moded_children m (ReturnStmt a x) = map (Pair m) (opt_list x)"
  "moded_children m (ExpressionStmt a e) = [(m, e)]"
  "moded_children m (DeclStmt a n e) = [(m, e)]"
  "moded_children m (IfStmt a c t f) = (m, c) # (m, t) # map (Pair m) (opt_list f)"
  "moded_children m (MetaIfStmt a c t f) =
     (InsideComputation, c) # (m, t) # map (Pair m) (opt_list f)"
  "moded_children m (MetaCalculationStmt a st ds) = [(InsideComputation, st)]"
  "moded_children m (DeclRefExpr a n d) = []"
  "moded_children m (IntegerLiteralExpr a i) = []"
  "moded_children m (BooleanLiteralExpr a t1) = []"
  "moded_children m (ErroneousExpr a) = []"
  "moded_children m (BinaryOperatorExpr a op l r1) = [(m, l), (m, r1)]"
  "moded_children m (CallOperatorExpr a c es) = (m, c) # map (Pair m) es"
  "moded_children m (MetaInstantiationExpr a rg d1 es) = (m, d1) # map (Pair m) es"
  by (simp_all add: moded_replicate)
    (simp_all add: moded_children_def mode_of_child_def, (cases f, simp_all)?)

lemma res_tree_simps:
  "res_tree m env (FunctionDecl a n args r b) = (let e1 = bind_all (res_decls m env args) env in
     FunctionDecl a n (res_tree m env args) (map_option (res_tree m e1) r)
       (res_tree m (bind_all (res_decls_list e1 (map (Pair m) (opt_list r))) e1) b))"
  "res_tree m env (MetaDecl a n args c) = MetaDecl a n (res_tree m env args)
     (res_tree InsideMetaDecl (bind_all (res_decls m env args) env) c)"
  "res_tree m env (MetaContribution a rg cs) = MetaContribution a rg (res_tree_list env (map (Pair m) cs))"
  "res_tree m env (ArgumentDeclList a cs) = ArgumentDeclList a (res_tree_list env (map (Pair m) cs))"
  "res_tree m env (AnonymousArgumentDecl a) = AnonymousArgumentDecl a"
  "res_tree m env (NamedArgumentDecl a n) = NamedArgumentDecl a n"
  "res_tree m env (GlobalConstantDecl a n e) = GlobalConstantDecl a n (res_tree m env e)"
  "res_tree m env (UnscopedCompoundStmt a cs) = UnscopedCompoundStmt a (res_tree_list env (map (Pair m) cs))"
  "res_tree m env (CompoundStmt a cs) = CompoundStmt a (res_tree_list env (map (Pair m) cs))"
  "res_tree m env (ReturnStmt a x) = ReturnStmt a (map_option (res_tree m env) x)"
  "res_tree m env (ExpressionStmt a e) = ExpressionStmt a (res_tree m env e)"
  "res_tree m env (DeclStmt a n e) = DeclStmt a n (res_tree m env e)"
  "res_tree m env (IfStmt a c t f) = (let e1 = bind_all (res_decls m env c) env in
     IfStmt a (res_tree m env c) (res_tree m e1 t)
       (map_option (res_tree m (bind_all (res_decls m e1 t) e1)) f))"
  "res_tree m env (MetaIfStmt a c t f) = (let e1 = bind_all (res_decls InsideComputation env c) env in
     MetaIfStmt a (res_tree InsideComputation env c) (res_tree m e1 t)
       (map_option (res_tree m (bind_all (res_decls m e1 t) e1)) f))"
  "res_tree m env (MetaCalculationStmt a st ds) = MetaCalculationStmt a
     (res_tree InsideComputation env st) (map obj_addr (res_decls InsideComputation env st))"
  "res_tree m env (DeclRefExpr a n d) = DeclRefExpr a n
     (if m = InsideMetaDecl then None else map_option obj_addr (env (getType n)))"
  "res_tree m env (IntegerLiteralExpr a i) = IntegerLiteralExpr a i"
  "res_tree m env (BooleanLiteralExpr a t1) = BooleanLiteralExpr a t1"
  "res_tree m env (BinaryOperatorExpr a op l r1) = BinaryOperatorExpr a op (res_tree m env l)
     (res_tree m (bind_all (res_decls m env l) env) r1)"
  "res_tree m env (CallOperatorExpr a c es) = CallOperatorExpr a (res_tree m env c)
     (res_tree_list (bind_all (res_decls m env c) env) (map (Pair m) es))"
  "res_tree m env (MetaInstantiationExpr a rg d1 es) = MetaInstantiationExpr a rg (res_tree m env d1)
     (res_tree_list (bind_all (res_decls m env d1) env) (map (Pair m) es))"
  by (subst res_tree.simps; cases r; cases x; cases f; simp add: Let_def)+

lemma res_decls_simps:
  "res_decls m env (FunctionDecl a n args r b) = []"
  "res_decls m env (MetaDecl a n args c) = []"
  "res_decls m env (MetaContribution a rg cs) = res_decls_list env (map (Pair m) cs)"
  "res_decls m env (ArgumentDeclList a cs) = res_decls_list env (map (Pair m) cs)"
  "res_decls m env (AnonymousArgumentDecl a) = []"
  "res_decls m env (NamedArgumentDecl a n) = (let d = Obj a (PNamedArgumentDecl n) in
     if declares m env d then [d] else [])"
  "res_decls m env (GlobalConstantDecl a n e) = res_decls m env e"
  "res_decls m env (UnscopedCompoundStmt a cs) = res_decls_list env (map (Pair m) cs)"
  "res_decls m env (CompoundStmt a cs) = []"
  "res_decls m env (ReturnStmt a x) = res_decls_list env (map (Pair m) (opt_list x))"
  "res_decls m env (ExpressionStmt a e) = res_decls m env e"
  "res_decls m env (DeclStmt a n e) = (let d = Obj a (PDeclStmt n); ds = res_decls m env e in
     if declares m (bind_all ds env) d then ds @ [d] else ds)"
  "res_decls m env (IfStmt a c t f) =
     res_decls_list env ((m, c) # (m, t) # map (Pair m) (opt_list f))"
  "res_decls m env (MetaIfStmt a c t f) =
     res_decls_list env ((InsideComputation, c) # (m, t) # map (Pair m) (opt_list f))"
  "res_decls m env (MetaCalculationStmt a st ds) = res_decls InsideComputation env st"
  "res_decls m env (DeclRefExpr a n d) = []"
  "res_decls m env (IntegerLiteralExpr a i) = []"
  "res_decls m env (BooleanLiteralExpr a t1) = []"
  "res_decls m env (BinaryOperatorExpr a op l r1) = res_decls_list env [(m, l), (m, r1)]"
  "res_decls m env (CallOperatorExpr a c es) = res_decls_list env ((m, c) # map (Pair m) es)"
  "res_decls m env (MetaInstantiationExpr a rg d1 es) = res_decls_list env ((m, d1) # map (Pair m) es)"
  by (subst res_decls.simps, simp add: Let_def opens_scope_def isLocalDecl_def)+

lemma res_err_simps:
  "res_err m env (FunctionDecl a n args r b) \<longleftrightarrow>
     res_err_list env ((m, args) # map (Pair m) (opt_list r) @ [(m, b)])"
  "res_err m env (MetaDecl a n args c) \<longleftrightarrow> res_err_list env [(m, args), (InsideMetaDecl, c)]"
  "res_err m env (MetaContribution a rg cs) \<longleftrightarrow> res_err_list env (map (Pair m) cs)"
  "res_err m env (ArgumentDeclList a cs) \<longleftrightarrow> res_err_list env (map (Pair m) cs)"
  "res_err m env (AnonymousArgumentDecl a) \<longleftrightarrow> False"
  "res_err m env (NamedArgumentDecl a n) \<longleftrightarrow> clashes m env (Obj a (PNamedArgumentDecl n))"
  "res_err m env (GlobalConstantDecl a n e) \<longleftrightarrow> res_err m env e"
  "res_err m env (UnscopedCompoundStmt a cs) \<longleftrightarrow> res_err_list env (map (Pair m) cs)"
  "res_err m env (CompoundStmt a cs) \<longleftrightarrow> res_err_list env (map (Pair m) cs)"
  "res_err m env (ReturnStmt a x) \<longleftrightarrow> res_err_list env (map (Pair m) (opt_list x))"
  "res_err m env (ExpressionStmt a e) \<longleftrightarrow> res_err m env e"
  "res_err m env (DeclStmt a n e) \<longleftrightarrow> res_err m env e
     \<or> clashes m (bind_all (res_decls m env e) env) (Obj a (PDeclStmt n))"
  "res_err m env (IfStmt a c t f) \<longleftrightarrow>
     res_err_list env ((m, c) # (m, t) # map (Pair m) (opt_list f))"
  "res_err m env (MetaIfStmt a c t f) \<longleftrightarrow>
     res_err_list env ((InsideComputation, c) # (m, t) # map (Pair m) (opt_list f))"
  "res_err m env (MetaCalculationStmt a st ds) \<longleftrightarrow> res_err InsideComputation env st"
  "res_err m env (DeclRefExpr a n d) \<longleftrightarrow> m \<noteq> InsideMetaDecl \<and> env (getType n) = None"
  "res_err m env (IntegerLiteralExpr a i) \<longleftrightarrow> False"
  "res_err m env (BooleanLiteralExpr a t1) \<longleftrightarrow> False"
  "res_err m env (BinaryOperatorExpr a op l r1) \<longleftrightarrow> res_err_list env [(m, l), (m, r1)]"
  "res_err m env (CallOperatorExpr a c es) \<longleftrightarrow> res_err_list env ((m, c) # map (Pair m) es)"
  "res_err m env (MetaInstantiationExpr a rg d1 es) \<longleftrightarrow>
     res_err_list env ((m, d1) # map (Pair m) es)"
  by (subst res_err.simps, simp add: isLocalDecl_def)+

lemma res_list_append:
  "res_decls_list env (xs @ ys) =
     res_decls_list env xs @ res_decls_list (bind_all (res_decls_list env xs) env) ys"
  "res_tree_list env (xs @ ys) =
     res_tree_list env xs @ res_tree_list (bind_all (res_decls_list env xs) env) ys"
  "res_err_list env (xs @ ys) \<longleftrightarrow>
     res_err_list env xs \<or> res_err_list (bind_all (res_decls_list env xs) env) ys"
  by (induction xs arbitrary: env) (auto simp: Let_def)

section \<open>Resolution changes nothing else\<close>

lemma length_res_tree_list [simp]: "length (res_tree_list env ts) = length ts"
  by (induction ts arbitrary: env) (auto simp: Let_def)

lemma opt_list_case: "opt_list x = (case x of None \<Rightarrow> [] | Some y \<Rightarrow> [y])"
  by (cases x) simp_all

lemma erase_with_children:
  "map erase cs = map erase (children t) \<Longrightarrow> erase (with_children t cs) = erase t"
  by (cases t) (auto simp: Cons_eq_map_conv map_eq_Cons_conv opt_list_case
      split: list.splits option.splits)

lemma map_snd_moded [simp]: "map snd (moded_children m t) = children t"
  unfolding moded_children_def
  by (rule nth_equalityI) (simp_all add: nth_enumerate_eq case_prod_beta)

lemma erase_annotate [simp]: "erase (annotate_node m env ds t) = erase t"
  by (cases t) simp_all

theorem erase_res_tree: "erase (res_tree m env t) = erase t"
  and erase_res_tree_list: "map erase (res_tree_list env ts) = map (erase \<circ> snd) ts"
proof (induction m env t and env ts rule: res_tree_res_tree_list.induct)
  case (1 m env t)
  then have "map erase (res_tree_list env (moded_children m t)) = map erase (children t)"
    by (metis map_map map_snd_moded)
  then show ?case
    by (simp add: res_tree.simps [of m env t] erase_with_children)
qed simp_all

section \<open>Units\<close>

text \<open>
  The top level declarations of a unit are all declared before any of them is visited. A name that
  is taken is an error, unless the declaration is allowed to shadow the previous one.
\<close>

definition may_declare :: "(obj \<Rightarrow> obj \<Rightarrow> bool) \<Rightarrow> env \<Rightarrow> obj \<Rightarrow> bool" where
  "may_declare allow env d \<longleftrightarrow>
     (case env (name_str d) of None \<Rightarrow> True | Some prev \<Rightarrow> allow d prev)"

fun top_decls :: "(obj \<Rightarrow> obj \<Rightarrow> bool) \<Rightarrow> env \<Rightarrow> obj list \<Rightarrow> obj list" where
  "top_decls allow env [] = []"
| "top_decls allow env (d # ds) =
     (if may_declare allow env d then d # top_decls allow (env(name_str d \<mapsto> d)) ds
      else top_decls allow env ds)"

fun top_err :: "(obj \<Rightarrow> obj \<Rightarrow> bool) \<Rightarrow> env \<Rightarrow> obj list \<Rightarrow> bool" where
  "top_err allow env [] \<longleftrightarrow> False"
| "top_err allow env (d # ds) \<longleftrightarrow>
     (if may_declare allow env d then top_err allow (env(name_str d \<mapsto> d)) ds else True)"

text \<open>
  A unit: the declarations of its scope, its resolved tree and whether it has errors. In a
  compilation unit nothing may be shadowed; in a meta unit, which results from instantiating the
  meta declaration \<open>decl\<close> as \<open>name\<close>, the nodes of that name may shadow that declaration.
\<close>

definition unit_decls :: "(obj \<Rightarrow> obj \<Rightarrow> bool) \<Rightarrow> env \<Rightarrow> ast \<Rightarrow> obj list" where
  "unit_decls allow env t = top_decls allow env (map obj_of (children t))"

definition unit_tree :: "(obj \<Rightarrow> obj \<Rightarrow> bool) \<Rightarrow> env \<Rightarrow> ast \<Rightarrow> ast" where
  "unit_tree allow env t = with_children t
     (res_tree_list (bind_all (unit_decls allow env t) env) (map (Pair Outside) (children t)))"

definition unit_err :: "(obj \<Rightarrow> obj \<Rightarrow> bool) \<Rightarrow> env \<Rightarrow> ast \<Rightarrow> bool" where
  "unit_err allow env t \<longleftrightarrow> top_err allow env (map obj_of (children t))
     \<or> res_err_list (bind_all (unit_decls allow env t) env) (map (Pair Outside) (children t))"

definition shadows_nothing :: "obj \<Rightarrow> obj \<Rightarrow> bool" where
  "shadows_nothing d prev \<longleftrightarrow> False"

definition shadows_instantiated :: "ident \<Rightarrow> obj \<Rightarrow> obj \<Rightarrow> obj \<Rightarrow> bool" where
  "shadows_instantiated name decl d prev \<longleftrightarrow>
     isMetaDecl prev \<and> obj_addr prev = obj_addr decl \<and> name_str d = getType name"

theorem erase_unit_tree: "erase (unit_tree allow env t) = erase t"
  by (simp add: unit_tree_def erase_with_children erase_res_tree_list comp_def)

lemma res_decls_top: "top_level_ok t \<Longrightarrow> res_decls m env t = []"
proof (cases t)
  case (GlobalConstantDecl a n e)
  moreover assume "top_level_ok t"
  ultimately show ?thesis
    by (cases e) (auto simp: top_level_ok_def isConstantExpr_def res_decls_simps)
qed (auto simp: top_level_ok_def res_decls_simps)

lemma res_decls_list_top:
  "\<forall>t \<in> set ts. top_level_ok t \<Longrightarrow> res_decls_list env (map (Pair m) ts) = []"
  by (induction ts) (simp_all add: res_decls_top)

end
