(* ===== verification/Reader_RoundTrip.thy ===== *)
theory Reader_RoundTrip imports Reader_Progress Resolve begin

text \<open>
  Reading back what was written, operation by operation: how each operation of the reader changes
  the rest of the layout, the modes, the chain of scopes and the presence of errors. Running out of
  fuel is tolerated in this theory; the frame theorem rules it out afterwards.
\<close>

section \<open>Scopes as environments\<close>

definition env_of :: "scope_chain \<Rightarrow> env" where
  "env_of c = (\<lambda>k. lookupIdentifier k c)"

text \<open>A successful insertion of a declaration under its own name.\<close>

fun push :: "obj \<Rightarrow> scope_chain \<Rightarrow> scope_chain" where
  "push d [] = []"
| "push d (AllocatedScope c es # fs) = AllocatedScope c ((name_str d, d) # es) # fs"
| "push d (InplaceScope ds # fs) = InplaceScope (ds @ [d]) # push d fs"

definition push_all :: "obj list \<Rightarrow> scope_chain \<Rightarrow> scope_chain" where
  "push_all ds c = fold push ds c"

lemma push_all_simps [simp]:
  "push_all [] c = c" "push_all (d # ds) c = push_all ds (push d c)"
  by (simp_all add: push_all_def)

lemma push_all_append [simp]: "push_all (ds @ es) c = push_all es (push_all ds c)"
  by (simp add: push_all_def)

lemma push_eq_insert: "scope_insert (name_str d) d c = Inr c' \<Longrightarrow> c' = push d c"
  by (induction "name_str d" d c arbitrary: c' rule: scope_insert.induct)
    (auto simp: bindE_eq_Inr)

lemma has_allocated_push [simp]: "has_allocated (push d c) = has_allocated c"
  by (induction d c rule: push.induct) auto

lemma has_allocated_push_all [simp]: "has_allocated (push_all ds c) = has_allocated c"
  by (induction ds arbitrary: c) simp_all

lemma has_allocated_create [simp]:
  "has_allocated (createTemporary c)" "has_allocated (createConsistent c)"
  "has_allocated (createInplace c) = has_allocated c"
  by (simp_all add: createTemporary_def createConsistent_def createInplace_def)

lemma env_of_push: "has_allocated c \<Longrightarrow> env_of (push d c) = (env_of c)(name_str d \<mapsto> d)"
  unfolding env_of_def by (induction d c rule: push.induct) (auto simp: fun_eq_iff)

lemma env_of_push_all [simp]:
  "has_allocated c \<Longrightarrow> env_of (push_all ds c) = bind_all ds (env_of c)"
  by (induction ds arbitrary: c) (simp_all add: env_of_push)

lemma env_of_create [simp]:
  "env_of (createTemporary c) = env_of c" "env_of (createConsistent c) = env_of c"
  "env_of (createInplace c) = env_of c"
  by (simp_all add: env_of_def createTemporary_def createConsistent_def createInplace_def)

lemma env_of_Nil [simp]: "env_of [] = Map.empty"
  by (simp add: env_of_def)

lemma push_all_temporary: "\<exists>es. push_all ds (AllocatedScope b es0 # c) = AllocatedScope b es # c"
  by (induction ds arbitrary: es0) simp_all

lemma push_all_inplace: "push_all ds (InplaceScope es # c) = InplaceScope (es @ ds) # push_all ds c"
  by (induction ds arbitrary: es c) simp_all

lemma tl_push_all [simp]:
  "tl (push_all ds (createTemporary c)) = c" "tl (push_all ds (createConsistent c)) = c"
  "tl (push_all ds (createInplace c)) = push_all ds c"
  using push_all_temporary [of ds False "[]" c] push_all_temporary [of ds True "[]" c]
  by (auto simp: createTemporary_def createConsistent_def createInplace_def push_all_inplace)

lemmas tl_push_alls = push_all_append [symmetric] tl_push_all

definition scope_addrs :: "scope_chain \<Rightarrow> addr set" where
  "scope_addrs c = obj_addr ` snd ` set (scope_entries c)"

lemma scope_addrs_simps [simp]:
  "scope_addrs [] = {}"
  "scope_addrs (AllocatedScope b es # fs) = obj_addr ` snd ` set es \<union> scope_addrs fs"
  "scope_addrs (InplaceScope ds # fs) = scope_addrs fs"
  "scope_addrs (createTemporary d) = scope_addrs d"
  "scope_addrs (createConsistent d) = scope_addrs d"
  "scope_addrs (createInplace d) = scope_addrs d"
  by (auto simp: scope_addrs_def createTemporary_def createConsistent_def createInplace_def)

lemma scope_addrs_push: "scope_addrs (push d c) \<subseteq> insert (obj_addr d) (scope_addrs c)"
  by (induction d c rule: push.induct) auto

lemma scope_addrs_tl: "scope_addrs (tl c) \<subseteq> scope_addrs c"
  by (cases c rule: scope_below.cases) auto

lemma lookup_scope_addrs: "lookupIdentifier k c = Some d \<Longrightarrow> obj_addr d \<in> scope_addrs c"
  by (induction k c rule: lookupIdentifier.induct)
    (auto split: option.splits dest!: map_of_SomeD intro: rev_image_eqI)

section \<open>A part of a layout to be read\<close>

definition top_mode :: "meta_depth_level list \<Rightarrow> meta_depth_level" where
  "top_mode ms = (if ms = [] then Outside else hd ms)"

lemma currentMode_top: "currentMode s = top_mode (modeStack s)"
  by (simp add: currentMode_def top_mode_def)

lemma top_mode_simps [simp]: "top_mode [] = Outside" "top_mode (m # ms) = m"
  by (simp_all add: top_mode_def)

text \<open>
  \<open>reading ms c A H rem s\<close>: \<open>rem\<close> is left to read, in the modes \<open>ms\<close> and the scopes \<open>c\<close>, whose
  declarations are at addresses in \<open>A\<close>; errors have been reported if and only if \<open>H\<close>.
\<close>

definition reading ::
    "meta_depth_level list \<Rightarrow> scope_chain \<Rightarrow> addr set \<Rightarrow> bool \<Rightarrow> layout \<Rightarrow> reader \<Rightarrow> bool" where
  "reading ms c A H rem s \<longleftrightarrow> remaining s = rem \<and> modeStack s = ms \<and> currentScope s = c
     \<and> has_allocated c \<and> scope_addrs c \<subseteq> A \<and> hasErrors (engine_of s) = H"

lemma reading_allocated: "reading ms c A H rem s \<Longrightarrow> has_allocated c"
  by (simp add: reading_def)

lemma reading_nonempty: "reading ms c A H rem s \<Longrightarrow> currentScope s \<noteq> []"
  by (auto simp: reading_def)

lemma reading_mono: "reading ms c A H rem s \<Longrightarrow> A \<subseteq> B \<Longrightarrow> reading ms c B H rem s"
  by (auto simp: reading_def)

lemma reading_report:
  "reading ms c A H rem s \<Longrightarrow>
   reading ms c A (H \<or> getDiagnosticSeverity d = Error) rem (report d i as s)"
  using report_errors [of d i as s] by (simp add: reading_def) (simp add: report_def)

definition out_of_fuel :: "fault \<Rightarrow> bool" where
  "out_of_fuel e \<longleftrightarrow> e = OutOfFuel"

lemma out_of_fuel_OutOfFuel [simp]: "out_of_fuel OutOfFuel"
  by (simp add: out_of_fuel_def)

section \<open>The cursor\<close>

named_theorems rd \<open>rules of the operations over a part to be read\<close>

lemma rd_shiftAs [rd]:
  "reading ms c A H (Some x # rem) s \<Longrightarrow> P (obj_kind x) \<Longrightarrow>
   (\<And>t. reading ms c A H rem t \<Longrightarrow> Q (x, t)) \<Longrightarrow> wpE out_of_fuel (shiftAs P s) Q"
  using shiftNode_Some [of s x rem] shift_remaining [of s "Some x" rem]
  by (simp add: shiftAs_def reading_def)

lemma rd_peekIs [rd]:
  "reading ms c A H (Some x # rem) s \<Longrightarrow> Q (P (obj_kind x)) \<Longrightarrow> wpE out_of_fuel (peekIs P s) Q"
  by (simp add: peekIs_def peekNode_def peek_remaining reading_def)

lemma rd_leaveShift [rd]:
  "reading ms c A H (None # rem) s \<Longrightarrow> isRequiringReduceMarker (obj_kind x) \<Longrightarrow>
   (\<And>t. reading ms c A H rem t \<Longrightarrow> Q t) \<Longrightarrow> wpE out_of_fuel (leaveShift x s) Q"
  using reduce_None [of s rem] shift_remaining [of s None rem]
  by (simp add: leaveShift_def isNodeRequiringReduceMarker_def reading_def)

section \<open>Modes and scopes\<close>

lemma rd_enterTemporaryScope [rd]:
  assumes s: "reading ms c A H rem s" and Q: "\<And>t. reading ms (createTemporary c) A H rem t \<Longrightarrow> Q t"
  shows "wpE out_of_fuel (enterTemporaryScope s) Q"
  using s Q [of "s\<lparr>currentScope := createTemporary c\<rparr>"] reading_nonempty [OF s]
  by (simp add: enterTemporaryScope_def getCurrentScope_def isInAnyScope_def reading_def)

lemma rd_enterInplaceScope [rd]:
  assumes s: "reading ms c A H rem s" and Q: "\<And>t. reading ms (createInplace c) A H rem t \<Longrightarrow> Q t"
  shows "wpE out_of_fuel (enterInplaceScope s) Q"
  using s Q [of "s\<lparr>currentScope := createInplace c\<rparr>"] reading_nonempty [OF s]
  by (simp add: enterInplaceScope_def getCurrentScope_def isInAnyScope_def reading_def)

lemma rd_leaveScope:
  assumes s: "reading ms d A H rem s" and "tl d = c" and "has_allocated c"
    and Q: "\<And>t. reading ms c A H rem t \<Longrightarrow> Q t"
  shows "wpE out_of_fuel (leaveScope s) Q"
  using assms(2,3) s Q [of "s\<lparr>currentScope := c\<rparr>"] reading_nonempty [OF s] scope_addrs_tl [of d]
  by (auto simp: leaveScope_def isInAnyScope_def reading_def)

lemma inplaceListened_push:
  "reading ms (push_all ds (createInplace c)) A H rem s \<Longrightarrow> inplaceListened s = ds"
  by (simp add: reading_def inplaceListened_def createInplace_def push_all_inplace)

lemma rd_enterMetaDeclMode [rd]:
  "reading ms c A H rem s \<Longrightarrow> top_mode ms = Outside \<Longrightarrow>
   (\<And>t. reading (InsideMetaDecl # ms) c A H rem t \<Longrightarrow> Q t) \<Longrightarrow>
   wpE out_of_fuel (enterMetaDeclMode s) Q"
  by (simp add: enterMetaDeclMode_def setMode_def mode_is_def currentMode_top reading_def)

lemma rd_enterMetaComputationMode [rd]:
  "reading ms c A H rem s \<Longrightarrow> top_mode ms = InsideMetaDecl \<Longrightarrow>
   (\<And>t. reading (InsideComputation # ms) c A H rem t \<Longrightarrow> Q t) \<Longrightarrow>
   wpE out_of_fuel (enterMetaComputationMode s) Q"
  by (simp add: enterMetaComputationMode_def setMode_def mode_is_def currentMode_top reading_def)

lemma rd_leaveMode [rd]:
  "reading (m # ms) c A H rem s \<Longrightarrow> (\<And>t. reading ms c A H rem t \<Longrightarrow> Q t) \<Longrightarrow>
   wpE out_of_fuel (leaveMode s) Q"
  by (simp add: leaveMode_def reading_def)

section \<open>Lookup and introduction\<close>

lemma rd_resolve:
  assumes s: "reading ms c A H rem s"
    and Q: "\<And>t. reading ms c A (H \<or> env_of c (getType i) = None) rem t \<Longrightarrow> Q (env_of c (getType i), t)"
  shows "wpE out_of_fuel (lookup p i s) Q"
proof -
  obtain r t where l: "lookup p i s = Inr (r, t)"
    using lookup_total [OF reading_nonempty [OF s]] by blast
  moreover from wp_lookup [of s "\<lambda>(r, t). same_place s t" True p i] this have "same_place s t"
    by simp
  then have "remaining t = remaining s"
    by (simp add: same_place_def remaining_def)
  with lookup_result [OF l] s have "reading ms c A (H \<or> env_of c (getType i) = None) rem t"
    and "r = env_of c (getType i)"
    by (auto simp: reading_def env_of_def)
  with l show ?thesis using Q [of t] by simp
qed

lemma rd_insertDecl:
  assumes s: "reading ms c A H rem s" and "scope_insert (name_str d) d c = Inr c'"
    and Q: "\<And>t. reading ms (push d c) (insert (obj_addr d) A) H rem t \<Longrightarrow> Q t"
  shows "wpE out_of_fuel (insertDecl d s) Q"
  using s Q [of "s\<lparr>currentScope := push d c\<rparr>"] reading_nonempty [OF s] scope_addrs_push [of d c]
    push_eq_insert [OF assms(2)] assms(2)
  by (auto simp: insertDecl_def getCurrentScope_def isInAnyScope_def reading_def)

lemma rd_rejectDecl:
  assumes s: "reading ms c A H rem s" and "obj_addr prev \<noteq> obj_addr d"
    and Q: "\<And>t. reading ms c A True rem t \<Longrightarrow> Q t"
  shows "wpE out_of_fuel (rejectDecl d prev s) Q"
proof -
  have "reading ms c A True rem (report e i as (report ErrorNameTypeDeclaredAlready j bs s))"
    for e i as j bs
    using reading_report [OF reading_report [OF s, of ErrorNameTypeDeclaredAlready], of e]
    by (simp add: getDiagnosticSeverity.simps)
  with assms(2) Q show ?thesis by (simp add: rejectDecl_def)
qed

text \<open>A local declaration at an address of its own is introduced, or rejected with a diagnostic.\<close>

definition declared :: "meta_depth_level \<Rightarrow> env \<Rightarrow> obj \<Rightarrow> obj list" where
  "declared m env d = (if declares m env d then [d] else [])"

lemma rd_introduce [rd]:
  assumes s: "reading ms c A H rem s" and new: "obj_addr d \<notin> A" and loc: "\<not> isTopLevelNode (obj_kind d)"
    and Q: "\<And>t. reading ms (push_all (declared (top_mode ms) (env_of c) d) c)
      (insert (obj_addr d) A) (H \<or> clashes (top_mode ms) (env_of c) d) rem t \<Longrightarrow> Q t"
  shows "wpE out_of_fuel (introduce p d s) Q"
proof (cases "isAllowedToIntroduceDecls s")
  case False
  then have "top_mode ms = InsideMetaDecl"
    using s by (simp add: reading_def isAllowedToIntroduceDecls_def isInMetaDeclMode_def mode_is_def
        currentMode_top)
  with False reading_mono [OF s, of "insert (obj_addr d) A"] Q [of s] show ?thesis
    by (auto simp: introduce_def declared_def declares_def clashes_def)
next
  case True
  then have mode: "top_mode ms \<noteq> InsideMetaDecl"
    using s by (simp add: reading_def isAllowedToIntroduceDecls_def isInMetaDeclMode_def mode_is_def
        currentMode_top)
  have c: "currentScope s = c" "has_allocated c" "c \<noteq> []"
    using s reading_nonempty [OF s] by (auto simp: reading_def)
  show ?thesis
  proof (cases "lookupIdentifier (name_str d) c")
    case None
    then obtain c' where c': "scope_insert (name_str d) d c = Inr c'"
      using scope_insert_fresh c(2) by blast
    have "wpE out_of_fuel (insertDecl d s) Q"
      by (rule rd_insertDecl [OF s c'])
        (use None mode Q in \<open>simp add: declared_def declares_def clashes_def env_of_def\<close>)
    with None True c show ?thesis by (simp add: introduce_def)
  next
    case (Some prev)
    have prev: "obj_addr prev \<noteq> obj_addr d"
      using new lookup_scope_addrs [OF Some] s by (auto simp: reading_def)
    have "wpE out_of_fuel (rejectDecl d prev s) Q"
      by (rule rd_rejectDecl [OF reading_mono [OF s, of "insert (obj_addr d) A"] prev])
        (use Some mode Q in \<open>auto simp: declared_def declares_def clashes_def env_of_def\<close>)
    with True Some c loc show ?thesis
      by (simp add: introduce_def isAllowedToShadowDecl_def isShadowingDeclFromExportedNode_def)
  qed
qed

end
