(* ===== verification/Reader_Inverse.thy ===== *)
theory Reader_Inverse imports Reader_RoundTrip begin

text \<open>
  The reader inverts the writer and resolves names as specified: method by method over a table of
  methods that read back the trees of their kind.
\<close>

section \<open>Layouts and locals of each class\<close>

lemma flatten_simps:
  "flatten (FunctionDecl a n args r b) =
     Some (Obj a (PFunctionDecl n)) # flatten args @ flattens (opt_list r) @ flatten b @ [None]"
  "flatten (MetaDecl a n args c) = Some (Obj a (PMetaDecl n)) # flatten args @ flatten c"
  "flatten (MetaContribution a rg cs) = Some (Obj a (PMetaContribution rg)) # flattens cs @ [None]"
  "flatten (ArgumentDeclList a cs) = Some (Obj a PArgumentDeclList) # flattens cs @ [None]"
  "flatten (AnonymousArgumentDecl a) = [Some (Obj a PAnonymousArgumentDecl)]"
  "flatten (NamedArgumentDecl a n) = [Some (Obj a (PNamedArgumentDecl n))]"
  "flatten (GlobalConstantDecl a n e) = Some (Obj a (PGlobalConstantDecl n)) # flatten e"
  "flatten (UnscopedCompoundStmt a cs) = Some (Obj a PUnscopedCompoundStmt) # flattens cs @ [None]"
  "flatten (CompoundStmt a cs) = Some (Obj a PCompoundStmt) # flattens cs @ [None]"
  "flatten (ReturnStmt a x) = Some (Obj a PReturnStmt) # flattens (opt_list x) @ [None]"
  "flatten (ExpressionStmt a e) = Some (Obj a PExpressionStmt) # flatten e"
  "flatten (DeclStmt a n e) = Some (Obj a (PDeclStmt n)) # flatten e"
  "flatten (IfStmt a c t f) =
     Some (Obj a PIfStmt) # flatten c @ flatten t @ flattens (opt_list f) @ [None]"
  "flatten (MetaIfStmt a c t f) =
     Some (Obj a PMetaIfStmt) # flatten c @ flatten t @ flattens (opt_list f) @ [None]"
  "flatten (MetaCalculationStmt a st ds) = Some (Obj a PMetaCalculationStmt) # flatten st"
  "flatten (DeclRefExpr a n d) = [Some (Obj a (PDeclRefExpr n))]"
  "flatten (IntegerLiteralExpr a i) = [Some (Obj a (PIntegerLiteralExpr i))]"
  "flatten (BooleanLiteralExpr a t1) = [Some (Obj a (PBooleanLiteralExpr t1))]"
  "flatten (BinaryOperatorExpr a op l r1) =
     Some (Obj a (PBinaryOperatorExpr op)) # flatten l @ flatten r1"
  "flatten (CallOperatorExpr a c es) = Some (Obj a PCallOperatorExpr) # flatten c @ flattens es @ [None]"
  "flatten (MetaInstantiationExpr a rg d1 es) =
     Some (Obj a (PMetaInstantiationExpr rg)) # flatten d1 @ flattens es @ [None]"
  by (simp_all add: flatten_eq [of "FunctionDecl a n args r b" for a n args r b]
      flatten_eq [of "MetaDecl a n args c" for a n args c]
      flatten_eq [of "MetaContribution a rg cs" for a rg cs]
      flatten_eq [of "ArgumentDeclList a cs" for a cs]
      flatten_eq [of "AnonymousArgumentDecl a" for a] flatten_eq [of "NamedArgumentDecl a n" for a n]
      flatten_eq [of "GlobalConstantDecl a n e" for a n e]
      flatten_eq [of "UnscopedCompoundStmt a cs" for a cs] flatten_eq [of "CompoundStmt a cs" for a cs]
      flatten_eq [of "ReturnStmt a x" for a x] flatten_eq [of "ExpressionStmt a e" for a e]
      flatten_eq [of "DeclStmt a n e" for a n e] flatten_eq [of "IfStmt a c t f" for a c t f]
      flatten_eq [of "MetaIfStmt a c t f" for a c t f]
      flatten_eq [of "MetaCalculationStmt a st ds" for a st ds]
      flatten_eq [of "DeclRefExpr a n d" for a n d] flatten_eq [of "IntegerLiteralExpr a i" for a i]
      flatten_eq [of "BooleanLiteralExpr a i" for a i]
      flatten_eq [of "BinaryOperatorExpr a op l r1" for a op l r1]
      flatten_eq [of "CallOperatorExpr a c es" for a c es]
      flatten_eq [of "MetaInstantiationExpr a rg d1 es" for a rg d1 es] kind_pred_defs)

text \<open>Addresses not used so far, and distinct.\<close>

definition fresh :: "addr set \<Rightarrow> addr list \<Rightarrow> bool" where
  "fresh A xs \<longleftrightarrow> distinct xs \<and> set xs \<inter> A = {}"

lemma fresh_simps [simp]:
  "fresh A []"
  "fresh A (x # xs) \<longleftrightarrow> x \<notin> A \<and> fresh A xs \<and> x \<notin> set xs"
  "fresh A (xs @ ys) \<longleftrightarrow> fresh A xs \<and> fresh (A \<union> set xs) ys"
  by (auto simp: fresh_def)

lemma locals_simps:
  "locals (FunctionDecl a n args r b) = locals args @ locals_of (opt_list r) @ locals b"
  "locals (MetaDecl a n args c) = locals args @ locals c"
  "locals (MetaContribution a rg cs) = locals_of cs"
  "locals (ArgumentDeclList a cs) = locals_of cs"
  "locals (AnonymousArgumentDecl a) = []"
  "locals (NamedArgumentDecl a n) = [a]"
  "locals (GlobalConstantDecl a n e) = locals e"
  "locals (UnscopedCompoundStmt a cs) = locals_of cs"
  "locals (CompoundStmt a cs) = locals_of cs"
  "locals (ReturnStmt a x) = locals_of (opt_list x)"
  "locals (ExpressionStmt a e) = locals e"
  "locals (DeclStmt a n e) = a # locals e"
  "locals (IfStmt a c t f) = locals c @ locals t @ locals_of (opt_list f)"
  "locals (MetaIfStmt a c t f) = locals c @ locals t @ locals_of (opt_list f)"
  "locals (MetaCalculationStmt a st ds) = locals st"
  "locals (DeclRefExpr a n d) = []"
  "locals (IntegerLiteralExpr a i) = []"
  "locals (BooleanLiteralExpr a t1) = []"
  "locals (BinaryOperatorExpr a op l r1) = locals l @ locals r1"
  "locals (CallOperatorExpr a c es) = locals c @ locals_of es"
  "locals (MetaInstantiationExpr a rg d1 es) = locals d1 @ locals_of es"
  by (subst locals_eq, simp add: isLocalDecl_def addr_of_def)+

section \<open>Reading one tree\<close>

text \<open>
  \<open>one\<close> reads each tree in \<open>P\<close> from its layout: it returns the resolved tree, adds the declarations
  of the tree to the scopes, and reports an error exactly if the specification does.
\<close>

definition one_reads :: "(ast \<Rightarrow> bool) \<Rightarrow> ast consumer \<Rightarrow> bool" where
  "one_reads P one \<longleftrightarrow> (\<forall>x ms c A H rem s. P x \<longrightarrow> grammatical (top_mode ms) x \<longrightarrow>
     fresh A (locals x) \<longrightarrow> reading ms c A H (flatten x @ rem) s \<longrightarrow>
     wpE out_of_fuel (one s) (\<lambda>(t, s'). t = res_tree (top_mode ms) (env_of c) x \<and>
       reading ms (push_all (res_decls (top_mode ms) (env_of c) x) c) (A \<union> set (locals x))
         (H \<or> res_err (top_mode ms) (env_of c) x) rem s'))"

lemma one_readsI:
  "(\<And>x ms c A H rem s. P x \<Longrightarrow> grammatical (top_mode ms) x \<Longrightarrow> fresh A (locals x) \<Longrightarrow>
     reading ms c A H (flatten x @ rem) s \<Longrightarrow> has_allocated c \<Longrightarrow>
     wpE out_of_fuel (one s) (\<lambda>(t, s'). t = res_tree (top_mode ms) (env_of c) x \<and>
       reading ms (push_all (res_decls (top_mode ms) (env_of c) x) c) (A \<union> set (locals x))
         (H \<or> res_err (top_mode ms) (env_of c) x) rem s')) \<Longrightarrow>
   one_reads P one"
  unfolding one_reads_def by (metis reading_allocated)

lemma rd_one:
  assumes "one_reads P one" and "reading ms c A H (flatten x @ rem) s" and "P x"
    and "grammatical (top_mode ms) x" and "fresh A (locals x)"
    and "\<And>s'. reading ms (push_all (res_decls (top_mode ms) (env_of c) x) c) (A \<union> set (locals x))
      (H \<or> res_err (top_mode ms) (env_of c) x) rem s' \<Longrightarrow>
      Q (res_tree (top_mode ms) (env_of c) x, s')"
  shows "wpE out_of_fuel (one s) Q"
  by (rule wpE_post [where P = "\<lambda>(t, s'). t = res_tree (top_mode ms) (env_of c) x \<and>
       reading ms (push_all (res_decls (top_mode ms) (env_of c) x) c) (A \<union> set (locals x))
         (H \<or> res_err (top_mode ms) (env_of c) x) rem s'"])
    (use assms in \<open>auto simp: one_reads_def\<close>)

lemma one_reads_mono: "one_reads P one \<Longrightarrow> (\<And>x. R x \<Longrightarrow> P x) \<Longrightarrow> one_reads R one"
  by (simp add: one_reads_def)

definition kindmatch :: "ast_kind \<Rightarrow> ast \<Rightarrow> bool" where
  "kindmatch k x \<longleftrightarrow> getKind x = k
     \<or> k = KindAnonymousArgumentDecl \<and> isAnonymousArgumentDecl (getKind x)"

lemma kindmatch_simps [simp]:
  "kindmatch (getKind x) x"
  "kindmatch KindAnonymousArgumentDecl x \<longleftrightarrow> isAnonymousArgumentDecl (getKind x)"
  "k \<noteq> KindAnonymousArgumentDecl \<Longrightarrow> kindmatch k x \<longleftrightarrow> getKind x = k"
  by (auto simp: kindmatch_def isAnonymousArgumentDecl_def)

definition reads_ok :: "calls \<Rightarrow> bool" where
  "reads_ok call \<longleftrightarrow> (\<forall>k. one_reads (kindmatch k) (call k))"

lemma reads_okD: "reads_ok call \<Longrightarrow> one_reads (kindmatch k) (call k)"
  by (simp add: reads_ok_def)

section \<open>The consumers the methods use\<close>

lemma peekNode_flatten: "reading ms c A H (flatten x @ rem) s \<Longrightarrow> peekNode s = Inr (obj_of x)"
  by (simp add: peekNode_def peek_remaining reading_def flatten_eq [of x])

lemma shouldReduce_flatten: "reading ms c A H (flatten x @ rem) s \<Longrightarrow> shouldReduce s = Inr False"
  by (simp add: reading_def flatten_eq [of x])

lemma shouldReduce_marker: "reading ms c A H (None # rem) s \<Longrightarrow> shouldReduce s = Inr True"
  by (simp add: reading_def)

lemma reads_any: "reads_ok call \<Longrightarrow> one_reads (\<lambda>_. True) (consume_any call)"
  by (rule one_readsI) (auto simp: consume_any_def peekNode_flatten intro: rd_one dest: reads_okD)

lemma reads_expecting:
  "reads_ok call \<Longrightarrow> one_reads (\<lambda>x. P (getKind x)) (consumeExpecting P call)"
  by (rule one_readsI) (auto simp: consumeExpecting_def peekNode_flatten intro: rd_one dest: reads_okD)

lemma reads_typed:
  assumes "reads_ok call"
  shows "one_reads (\<lambda>x. isStmtNode (getKind x)) (consumeStmt call)"
    and "one_reads (\<lambda>x. isExprNode (getKind x)) (consumeExpr call)"
    and "one_reads (\<lambda>x. isConstantExpr (getKind x)) (consumeConstantExpr call)"
    and "one_reads (\<lambda>x. isTopLevelNode (getKind x)) (consumeTopLevelDecl call)"
  using reads_expecting [OF assms]
  by (auto simp: one_reads_def consumeStmt_def consumeExpr_def peekAs_def peekNode_flatten
      consumeConstantExpr_def consumeTopLevelDecl_def)

lemma rd_loop:
  assumes "one_reads P one"
  shows "reading ms c A H (flattens ts @ None # rem) s \<Longrightarrow>
    \<forall>t \<in> set ts. P t \<and> grammatical (top_mode ms) t \<Longrightarrow> fresh A (locals_of ts) \<Longrightarrow>
    wpE out_of_fuel (consume_loop n one s) (\<lambda>(us, s').
      us = res_tree_list (env_of c) (map (Pair (top_mode ms)) ts) \<and>
      reading ms (push_all (res_decls_list (env_of c) (map (Pair (top_mode ms)) ts)) c)
        (A \<union> set (locals_of ts)) (H \<or> res_err_list (env_of c) (map (Pair (top_mode ms)) ts))
        (None # rem) s')"
proof (induction n arbitrary: ts c A H s)
  case 0
  then show ?case by simp
next
  case (Suc n)
  note alloc = reading_allocated [OF Suc.prems(1)]
  show ?case
  proof (cases ts)
    case Nil
    with Suc.prems show ?thesis by (simp add: shouldReduce_marker)
  next
    case (Cons t ts')
    let ?m = "top_mode ms" and ?e = "env_of c"
    from Cons Suc.prems(1) have r: "reading ms c A H (flatten t @ flattens ts' @ None # rem) s" by simp
    have "wpE out_of_fuel (one s) (\<lambda>(u, s). wpE out_of_fuel (consume_loop n one s) (\<lambda>(us, s').
        u # us = res_tree_list ?e (map (Pair ?m) ts) \<and>
        reading ms (push_all (res_decls_list ?e (map (Pair ?m) ts)) c)
          (A \<union> set (locals_of ts)) (H \<or> res_err_list ?e (map (Pair ?m) ts)) (None # rem) s'))"
    proof (rule rd_one [OF assms r], goal_cases)
      case (4 s')
      from Suc.IH [OF 4(1)] Suc.prems(2,3) Cons alloc show ?case
        by (auto elim!: wpE_post simp: Un_assoc Let_def disj_assoc)
    qed (use Suc.prems(2,3) Cons in auto)
    with r show ?thesis
      by (auto simp: shouldReduce_flatten case_prod_beta elim!: wpE_post)
  qed
qed

lemma rd_while [rd]:
  assumes "one_reads P one" and "reading ms c A H (flattens ts @ None # rem) s"
    and "\<forall>t \<in> set ts. P t \<and> grammatical (top_mode ms) t" and "fresh A (locals_of ts)"
    and "\<And>s'. reading ms (push_all (res_decls_list (env_of c) (map (Pair (top_mode ms)) ts)) c)
        (A \<union> set (locals_of ts)) (H \<or> res_err_list (env_of c) (map (Pair (top_mode ms)) ts))
        (None # rem) s' \<Longrightarrow> Q (res_tree_list (env_of c) (map (Pair (top_mode ms)) ts), s')"
  shows "wpE out_of_fuel (consumeWhile one s) Q"
  unfolding consumeWhile_def
  by (rule wpE_post [OF rd_loop [OF assms(1-4)]]) (auto intro: assms(5))

lemma rd_unless [rd]:
  assumes "one_reads P one" and "reading ms c A H (flattens (opt_list x) @ None # rem) s"
    and "\<forall>t \<in> set_option x. P t \<and> grammatical (top_mode ms) t" and "fresh A (locals_of (opt_list x))"
    and "\<And>s'. reading ms (push_all (res_decls_list (env_of c) (map (Pair (top_mode ms)) (opt_list x))) c)
        (A \<union> set (locals_of (opt_list x)))
        (H \<or> res_err_list (env_of c) (map (Pair (top_mode ms)) (opt_list x)))
        (None # rem) s' \<Longrightarrow> Q (map_option (res_tree (top_mode ms) (env_of c)) x, s')"
  shows "wpE out_of_fuel (consumeUnlessReduce one s) Q"
proof (cases x)
  case None
  with assms(2) assms(5) [of s] show ?thesis
    by (simp add: consumeUnlessReduce_def shouldReduce_marker)
next
  case (Some t)
  with assms(2) have r: "reading ms c A H (flatten t @ None # rem) s" by simp
  have "wpE out_of_fuel (one s) (\<lambda>(u, s). Q (Some u, s))"
    by (rule rd_one [OF assms(1) r]) (use assms(3-5) Some in auto)
  with r show ?thesis
    by (auto simp: consumeUnlessReduce_def shouldReduce_flatten case_prod_beta elim!: wpE_post)
qed

section \<open>The methods\<close>

lemmas rd_calls = rd_one [OF reads_okD] rd_one [OF reads_typed(1)] rd_one [OF reads_typed(2)]
  rd_one [OF reads_typed(3)]
lemmas one_reads_rules = reads_any reads_typed reads_okD
lemmas tree_simps = flatten_simps locals_simps res_tree_simps res_decls_simps res_err_simps

lemma rd_if [rd]:
  "(b \<Longrightarrow> wpE E m Q) \<Longrightarrow> (\<not> b \<Longrightarrow> wpE E m' Q) \<Longrightarrow> wpE E (if b then m else m') Q"
  by simp

lemma stmt_no_argument: "isStmtNode k \<Longrightarrow> \<not> isAnonymousArgumentDecl k"
  by (cases k) (simp_all add: isAnonymousArgumentDecl_def)

text \<open>The optional return type: an argument declaration or, if there is none, the body.\<close>

lemma rd_returnType:
  assumes call: "reads_ok call" and "reading ms c A H (flattens (opt_list x) @ flatten b @ rem) s"
    and "\<forall>t \<in> set_option x. isAnonymousArgumentDecl (getKind t) \<and> grammatical (top_mode ms) t"
    and "fresh A (locals_of (opt_list x))" and "isStmtNode (getKind b)"
    and Q: "\<And>s'. reading ms (push_all (res_decls_list (env_of c) (map (Pair (top_mode ms)) (opt_list x))) c)
        (A \<union> set (locals_of (opt_list x)))
        (H \<or> res_err_list (env_of c) (map (Pair (top_mode ms)) (opt_list x)))
        (flatten b @ rem) s' \<Longrightarrow> Q (map_option (res_tree (top_mode ms) (env_of c)) x, s')"
  shows "wpE out_of_fuel (peekIs isAnonymousArgumentDecl s) (\<lambda>h. wpE out_of_fuel (if h
     then bindE (call KindAnonymousArgumentDecl s) (\<lambda>(r, s). Inr (Some r, s)) else Inr (None, s)) Q)"
proof (cases x)
  case None
  with assms(2,5) Q [of s] show ?thesis
    by (simp add: peekIs_def peekNode_flatten stmt_no_argument)
next
  case (Some t)
  with assms(2) have r: "reading ms c A H (flatten t @ flatten b @ rem) s" by simp
  have "wpE out_of_fuel (call KindAnonymousArgumentDecl s) (\<lambda>(u, s). Q (Some u, s))"
    by (rule rd_one [OF reads_okD [OF call] r]) (use assms(3-5) Q Some in auto)
  with r assms(3) Some show ?thesis
    by (auto simp: peekIs_def peekNode_flatten case_prod_beta elim!: wpE_post)
qed

lemma AnonymousArgumentDecl_reads:
  assumes "reads_ok call"
  shows "one_reads (kindmatch KindAnonymousArgumentDecl) (consumeAnonymousArgumentDecl call)"
proof (rule one_readsI, goal_cases)
  case (1 x ms c A H rem s)
  show ?case
  proof (cases "getKind x = KindNamedArgumentDecl")
    case True
    with 1 show ?thesis
      by (auto simp: consumeAnonymousArgumentDecl_def peekIs_def peekNode_flatten
          intro!: rd_one [OF reads_okD [OF assms]])
  next
    case False
    with 1 obtain a where x: "x = AnonymousArgumentDecl a"
      by (cases x) (auto simp: isAnonymousArgumentDecl_def)
    with 1 have "reading ms c A H (Some (Obj a PAnonymousArgumentDecl) # rem) s"
      by (simp add: tree_simps)
    then show ?thesis
      using x by (auto simp: consumeAnonymousArgumentDecl_def tree_simps
          isAnonymousArgumentDecl_def intro!: rd)
  qed
qed

lemmas rd_side = kind_pred_defs payload_ident_def payload_range_def getName_def res_list_append

lemma methods_read:
  assumes "reads_ok call"
  shows
    "one_reads (\<lambda>x. getKind x = KindFunctionDecl) (consumeFunctionDecl call)"
    "one_reads (\<lambda>x. getKind x = KindMetaDecl) (consumeMetaDecl call)"
    "one_reads (\<lambda>x. getKind x = KindMetaContribution) (consumeMetaContribution call)"
    "one_reads (\<lambda>x. getKind x = KindArgumentDeclList) (consumeArgumentDeclList call)"
    "one_reads (\<lambda>x. getKind x = KindGlobalConstantDecl) (consumeGlobalConstantDecl call)"
    "one_reads (\<lambda>x. getKind x = KindUnscopedCompoundStmt) (consumeUnscopedCompoundStmt call)"
    "one_reads (\<lambda>x. getKind x = KindCompoundStmt) (consumeCompoundStmt call)"
    "one_reads (\<lambda>x. getKind x = KindReturnStmt) (consumeReturnStmt call)"
    "one_reads (\<lambda>x. getKind x = KindExpressionStmt) (consumeExpressionStmt call)"
    "one_reads (\<lambda>x. getKind x = KindIfStmt) (consumeIfStmt call)"
    "one_reads (\<lambda>x. getKind x = KindMetaIfStmt) (consumeMetaIfStmt call)"
    "one_reads (\<lambda>x. getKind x = KindIntegerLiteralExpr) (consumeIntegerLiteralExpr)"
    "one_reads (\<lambda>x. getKind x = KindBooleanLiteralExpr) (consumeBooleanLiteralExpr)"
    "one_reads (\<lambda>x. getKind x = KindBinaryOperatorExpr) (consumeBinaryOperatorExpr call)"
    "one_reads (\<lambda>x. getKind x = KindCallOperatorExpr) (consumeCallOperatorExpr call)"
    "one_reads (\<lambda>x. getKind x = KindMetaInstantiationExpr) (consumeMetaInstantiationExpr call)"
  unfolding method_defs Let_def
  apply ((rule one_readsI, rename_tac x ms c A H rem s, (case_tac x; simp add: tree_simps Let_def)),
    (elim conjE)?,
    (simp only: prod.case wpE_bindE obj.sel payload.case
    | (rule rd, assumption, (simp add: rd_side; fail)?, (simp add: rd_side; fail)?)
    | (rule rd_calls, rule assms, assumption, (simp add: rd_side; fail), (simp; fail), (simp; fail))
    | (rule rd_leaveScope, assumption, (simp only: tl_push_alls list.sel; fail), (simp; fail))
    | (rule rd, rule one_reads_rules, rule assms, assumption, (simp add: rd_side; fail), (simp; fail))
    | (rule rd_returnType, rule assms, assumption, assumption, assumption, assumption)
    | (simp add: Un_assoc rd_side disj_assoc; fail) | (rule rd_if))+)+
  done

lemma NamedArgumentDecl_reads:
  "one_reads (\<lambda>x. getKind x = KindNamedArgumentDecl) (consumeNamedArgumentDecl p)"
  unfolding consumeNamedArgumentDecl_def
  by (rule one_readsI, rename_tac x ms c A H rem s, (case_tac x; simp add: tree_simps))
    (auto intro!: rd simp: declared_def Let_def getName_def)

lemma DeclStmt_reads:
  assumes call: "reads_ok call"
  shows "one_reads (\<lambda>x. getKind x = KindDeclStmt) (consumeDeclStmt p call)"
proof (rule one_readsI)
  fix x ms c A H rem s
  assume "getKind x = KindDeclStmt" and "grammatical (top_mode ms) x" and "fresh A (locals x)"
    and "reading ms c A H (flatten x @ rem) s" and alloc: "has_allocated c"
  then obtain a n e where x: "x = DeclStmt a n e" and e: "isExprNode (getKind e)"
    "grammatical (top_mode ms) e" "fresh A (locals e)" "a \<notin> A \<union> set (locals e)"
    and r: "reading ms c A H (Some (Obj a (PDeclStmt n)) # flatten e @ rem) s"
    by (cases x) (auto simp: tree_simps)
  have "wpE out_of_fuel (consumeExpr call t) (\<lambda>(v, s'). wpE out_of_fuel
      (introduce p (Obj a (PDeclStmt n)) s') (\<lambda>u. v = res_tree (top_mode ms) (env_of c) e \<and>
        reading ms (push_all (res_decls (top_mode ms) (env_of c) x) c) (A \<union> set (locals x))
          (H \<or> res_err (top_mode ms) (env_of c) x) rem u))"
    if "reading ms c A H (flatten e @ rem) t" for t
    by (rule rd_calls(3) [OF call that e(1-3)], simp, rule rd_introduce, assumption)
      (use e(4) alloc in \<open>auto simp: x tree_simps Let_def declared_def\<close>)
  with r show "wpE out_of_fuel (consumeDeclStmt p call s) (\<lambda>(t, s').
      t = res_tree (top_mode ms) (env_of c) x \<and>
      reading ms (push_all (res_decls (top_mode ms) (env_of c) x) c) (A \<union> set (locals x))
        (H \<or> res_err (top_mode ms) (env_of c) x) rem s')"
    by (auto simp: consumeDeclStmt_def x res_tree_simps getName_def split_def
        intro!: rd_shiftAs [OF r] elim!: wpE_post)
qed

lemma isAllowedToResolveDecls_reading:
  "reading ms c A H rem s \<Longrightarrow> isAllowedToResolveDecls s \<longleftrightarrow> top_mode ms \<noteq> InsideMetaDecl"
  by (auto simp: reading_def isAllowedToResolveDecls_def isInMetaDeclMode_def mode_is_def
      currentMode_top)

lemma DeclRefExpr_reads: "one_reads (\<lambda>x. getKind x = KindDeclRefExpr) (consumeDeclRefExpr p)"
  unfolding consumeDeclRefExpr_def
  by (rule one_readsI, rename_tac x ms c A H rem s, (case_tac x; simp add: tree_simps))
    (auto intro!: rd_shiftAs rd_resolve simp: isAllowedToResolveDecls_reading payload_ident_def)

lemma MetaCalculationStmt_reads:
  assumes call: "reads_ok call"
  shows "one_reads (\<lambda>x. getKind x = KindMetaCalculationStmt) (consumeMetaCalculationStmt call)"
proof (rule one_readsI)
  fix x ms c A H rem s
  assume "getKind x = KindMetaCalculationStmt" and "grammatical (top_mode ms) x" and "fresh A (locals x)"
    and "reading ms c A H (flatten x @ rem) s" and alloc: "has_allocated c"
  then obtain a e ds where x: "x = MetaCalculationStmt a e ds" and e: "isStmtNode (getKind e)"
    "grammatical InsideComputation e" "fresh A (locals e)" and mode: "top_mode ms = InsideMetaDecl"
    and r: "reading ms c A H (Some (Obj a PMetaCalculationStmt) # flatten e @ rem) s"
    by (cases x) (auto simp: tree_simps)
  let ?ds = "res_decls InsideComputation (env_of c) e"
  show "wpE out_of_fuel (consumeMetaCalculationStmt call s) (\<lambda>(t, s').
      t = res_tree (top_mode ms) (env_of c) x \<and>
      reading ms (push_all (res_decls (top_mode ms) (env_of c) x) c) (A \<union> set (locals x))
        (H \<or> res_err (top_mode ms) (env_of c) x) rem s')"
    unfolding consumeMetaCalculationStmt_def Let_def wpE_bindE
    apply (rule rd_shiftAs [OF r], simp)
    apply (simp only: prod.case wpE_bindE)
    apply (rule rd_enterInplaceScope, assumption)
    apply (rule rd_enterMetaComputationMode, assumption, rule mode)
    apply (rule rd_calls(2) [OF call], assumption, simp_all add: e)
    apply (rule rd_leaveMode, assumption)
    apply (rule rd_leaveScope, assumption, rule tl_push_all, simp add: alloc)
    apply (simp add: x tree_simps inplaceListened_push)
    done
qed

lemma consumeMethod_reads:
  assumes "reads_ok call"
  shows "one_reads (kindmatch k) (consumeMethod p call k)"
proof (cases "k \<in> {KindCompilationUnit, KindMetaUnit, KindErroneousExpr}")
  case True
  then have "\<not> grammatical m x" if "kindmatch k x" for m x
    using that by (cases x) auto
  then show ?thesis by (simp add: one_reads_def)
next
  case False
  note rules = methods_read [OF assms] NamedArgumentDecl_reads DeclStmt_reads [OF assms]
    DeclRefExpr_reads MetaCalculationStmt_reads [OF assms]
  show ?thesis
  proof (cases "k = KindAnonymousArgumentDecl")
    case True
    then show ?thesis by (simp add: AnonymousArgumentDecl_reads [OF assms])
  next
    case anon: False
    have "one_reads (\<lambda>x. getKind x = k) (consumeMethod p call k)"
      using False anon by (cases k) (simp_all add: rules)
    then show ?thesis
      by (rule one_reads_mono) (use anon in simp)
  qed
qed

theorem consumeKind_reads: "reads_ok (consumeKind p n)"
proof (induction n)
  case 0
  then show ?case by (simp add: reads_ok_def one_reads_def)
next
  case (Suc n)
  have "consumeKind p (Suc n) k = consumeMethod p (consumeKind p n) k" for k
    by (rule ext) simp
  with consumeMethod_reads [OF Suc.IH] show ?case by (simp add: reads_ok_def)
qed

end
