(* ===== verification/Reader_Units.thy ===== *)
theory Reader_Units imports Reader_Inverse begin

text \<open>
  Units: the crawl that introduces the top level declarations of a unit before any of them is read,
  and the round trip for whole compilation units and meta units.
\<close>

section \<open>The nodes a unit's crawl visits\<close>

lemma crawl_nodes_marker: "isRequiringReduceMarker (getKind t) \<Longrightarrow> crawl_nodes t = [t]"
  by (simp add: crawl_nodes.simps [of t])

lemma crawl_nodes_leaf: "children t = [] \<Longrightarrow> crawl_nodes t = [t]"
  by (simp add: crawl_nodes.simps [of t])

definition unnamed :: "ast \<Rightarrow> bool" where
  "unnamed n \<longleftrightarrow> \<not> isNamedDeclContext (getKind n) \<and> \<not> isTopLevelNode (getKind n)"

lemma crawl_nodes_top:
  assumes "top_level_ok t"
  shows "\<exists>ns. crawl_nodes t = t # ns \<and> (\<forall>n \<in> set ns. unnamed n)"
  using assms
proof (cases t)
  case (MetaDecl a n args c)
  with assms have "crawl_nodes args = [args]" "crawl_nodes c = [c]" "unnamed args" "unnamed c"
    by (auto simp: top_level_ok_def unnamed_def kind_pred_defs intro!: crawl_nodes_marker)
  with MetaDecl show ?thesis
    by (simp add: crawl_nodes.simps [of "MetaDecl a n args c"] kind_pred_defs)
next
  case (GlobalConstantDecl a n e)
  with assms have "children e = []" "unnamed e"
    by (auto simp: top_level_ok_def unnamed_def isConstantExpr_def intro!: children_leaf)
  with GlobalConstantDecl show ?thesis
    by (simp add: crawl_nodes.simps [of "GlobalConstantDecl a n e"] crawl_nodes_leaf kind_pred_defs)
qed (auto simp: top_level_ok_def crawl_nodes_marker kind_pred_defs)

lemma top_is_named: "top_level_ok t \<Longrightarrow> isNamedDeclContext (getKind t) \<and> isTopLevelNode (getKind t)"
  by (cases t) (auto simp: top_level_ok_def)

section \<open>Introducing the top level declarations\<close>

text \<open>
  While the crawl of the unit \<open>u\<close> introduces its declarations: \<open>B\<close> are the addresses of the
  declarations visited so far.
\<close>

definition visiting :: "meta_depth_level list \<Rightarrow> scope_chain \<Rightarrow> addr set \<Rightarrow> bool \<Rightarrow> addr set \<Rightarrow> addr \<Rightarrow>
    layout \<Rightarrow> reader \<Rightarrow> bool" where
  "visiting ms c A H B u rem s \<longleftrightarrow> reading ms c A H rem s
     \<and> (\<exists>b es fs. c = AllocatedScope b es # fs \<and> obj_addr ` snd ` set es \<subseteq> B)
     \<and> (\<forall>x. exportedNode s u = Some x \<longrightarrow> x \<in> B)"

text \<open>
  Which declarations the nodes below a unit may shadow; what a meta unit was instantiated from has
  to be resolved, to a declaration outside of the unit.
\<close>

fun parent_allows :: "params \<Rightarrow> payload \<Rightarrow> obj \<Rightarrow> obj \<Rightarrow> bool" where
  "parent_allows p (PMetaUnit i) =
     (case inst_view p i of Some (name, Some decl) \<Rightarrow> shadows_instantiated name decl | _ \<Rightarrow> shadows_nothing)"
| "parent_allows p _ = shadows_nothing"

definition parent_ok :: "params \<Rightarrow> addr set \<Rightarrow> obj \<Rightarrow> bool" where
  "parent_ok p N parent \<longleftrightarrow> (case obj_payload parent of
     PMetaUnit i \<Rightarrow> \<exists>name d. inst_view p i = Some (name, Some d) \<and> obj_addr d \<notin> N
   | _ \<Rightarrow> True)"

lemma parent_allows_new:
  "parent_allows p (obj_payload parent) d prev \<Longrightarrow> parent_ok p N parent \<Longrightarrow> obj_addr prev \<notin> N"
  by (cases "obj_payload parent")
    (auto simp: parent_ok_def shadows_nothing_def shadows_instantiated_def)

text \<open>One top level declaration, given what decides on shadowing.\<close>

definition top_declared :: "(obj \<Rightarrow> obj \<Rightarrow> bool) \<Rightarrow> scope_chain \<Rightarrow> obj \<Rightarrow> scope_chain" where
  "top_declared allow c d = (if may_declare allow (env_of c) d then push d c else c)"

lemma introduce_top:
  assumes v: "visiting ms c A H B u rem s" and mode: "top_mode ms \<noteq> InsideMetaDecl"
    and new: "obj_addr d \<notin> A"
    and shadow: "\<And>prev. isShadowingDeclFromExportedNode p d prev s = Inr (allow d prev)"
    and old: "\<And>prev. allow d prev \<Longrightarrow> obj_addr prev \<notin> B"
    and Q: "\<And>t. visiting ms (top_declared allow c d) (insert (obj_addr d) A)
      (H \<or> \<not> may_declare allow (env_of c) d) (insert (obj_addr d) B) u rem t \<Longrightarrow> Q t"
  shows "wpE out_of_fuel (introduce p d s) Q"
proof -
  from v obtain b es fs where c: "c = AllocatedScope b es # fs" "obj_addr ` snd ` set es \<subseteq> B"
    and r: "reading ms c A H rem s" and x: "\<forall>x. exportedNode s u = Some x \<longrightarrow> x \<in> B"
    by (auto simp: visiting_def)
  have cs: "currentScope s = c" "c \<noteq> []" and allowed: "isAllowedToIntroduceDecls s"
    using r c mode by (auto simp: reading_def isAllowedToIntroduceDecls_def isInMetaDeclMode_def
        mode_is_def currentMode_top)
  have insert: "wpE out_of_fuel (insertDecl d s) Q"
    if fresh: "name_str d \<notin> fst ` set es" and may: "may_declare allow (env_of c) d"
  proof -
    have "visiting ms (push d c) (insert (obj_addr d) A) H (insert (obj_addr d) B) u rem
        (s\<lparr>currentScope := push d c\<rparr>)"
      using r c x by (simp add: visiting_def reading_def subset_insertI2)
    with Q [of "s\<lparr>currentScope := push d c\<rparr>"] may fresh cs c(1) show ?thesis
      by (simp add: insertDecl_def getCurrentScope_def isInAnyScope_def top_declared_def)
  qed
  show ?thesis
  proof (cases "lookupIdentifier (name_str d) c")
    case None
    then have "name_str d \<notin> fst ` set es" and "may_declare allow (env_of c) d"
      using c by (auto simp: may_declare_def env_of_def map_of_None_iff split: option.splits)
    with insert None allowed cs show ?thesis by (simp add: introduce_def)
  next
    case (Some prev)
    show ?thesis
    proof (cases "allow d prev")
      case True
      have "name_str d \<in> fst ` set es \<Longrightarrow> obj_addr prev \<in> B"
        using Some c by (cases "map_of es (name_str d)")
          (auto simp: map_of_None_iff dest!: map_of_SomeD intro!: subsetD [OF c(2)] intro: rev_image_eqI)
      with old True insert Some allowed cs shadow show ?thesis
        by (auto simp: introduce_def isAllowedToShadowDecl_def may_declare_def env_of_def)
    next
      case False
      have "obj_addr prev \<noteq> obj_addr d"
        using new lookup_scope_addrs [OF Some] r by (auto simp: reading_def)
      moreover have "visiting ms c (insert (obj_addr d) A) True (insert (obj_addr d) B) u rem
          (report e i as (report ErrorNameTypeDeclaredAlready j bs s))" for e i as j bs
        using reading_mono [OF reading_report [OF reading_report [OF r, of ErrorNameTypeDeclaredAlready],
            of e], of "insert (obj_addr d) A"] c x
        by (simp add: visiting_def subset_insertI2 subset_insertI getDiagnosticSeverity.simps)
      ultimately show ?thesis
        using False Some allowed cs shadow Q
        by (simp add: introduce_def isAllowedToShadowDecl_def rejectDecl_def may_declare_def
            env_of_def top_declared_def)
    qed
  qed
qed

lemma visit_unnamed:
  "unnamed n \<Longrightarrow> introduceScope_visit p parent (obj_of n) s = Inr s"
  by (simp add: introduceScope_visit_def unnamed_def)

lemma visiting_registers:
  "visiting ms c A H B u rem s \<Longrightarrow> visiting ms c A H B u rem (s\<lparr>containingUnit := x\<rparr>)"
  by (simp add: visiting_def reading_def)

lemma visiting_export:
  assumes "visiting ms c A H B u rem s"
  shows "visiting ms c A H (insert x B) u rem (if b then s\<lparr>exportedNode := (exportedNode s)(u \<mapsto> x)\<rparr> else s)"
proof -
  from assms obtain b es fs where "c = AllocatedScope b es # fs" "obj_addr ` snd ` set es \<subseteq> B"
    by (auto simp: visiting_def)
  with assms show ?thesis by (simp add: visiting_def reading_def subset_insertI2)
qed

lemma visit_top:
  assumes v: "visiting ms c A H B (obj_addr parent) rem s" and t: "top_level_ok t"
    and mode: "top_mode ms \<noteq> InsideMetaDecl" and new: "addr_of t \<notin> A" and B: "B \<subseteq> A" "B \<subseteq> N"
    and par: "parent_ok p N parent" and tN: "addr_of t \<in> N"
  defines "allow \<equiv> parent_allows p (obj_payload parent)"
  shows "wpE out_of_fuel (introduceScope_visit p parent (obj_of t) s)
    (visiting ms (top_declared allow c (obj_of t)) (insert (addr_of t) A)
      (H \<or> \<not> may_declare allow (env_of c) (obj_of t)) (insert (addr_of t) B) (obj_addr parent) rem)"
proof -
  let ?d = "obj_of t" and ?u = "obj_addr parent"
  let ?s = "s\<lparr>containingUnit := (containingUnit s)(addr_of t \<mapsto> parent)\<rparr>"
  note top = top_is_named [OF t]
  have v': "visiting ms c A H B ?u rem ?s" by (rule visiting_registers [OF v])
  have old: "allow ?d prev \<Longrightarrow> obj_addr prev \<notin> insert (addr_of t) B" for prev
    using parent_allows_new [OF _ par, of ?d prev] B(2) tN by (auto simp: allow_def)
  show ?thesis
  proof (cases "\<exists>i. obj_payload parent = PMetaUnit i")
    case False
    then have "isShadowingDeclFromExportedNode p ?d prev ?s = Inr (allow ?d prev)" for prev
      using top by (cases "obj_payload parent")
        (auto simp: isShadowingDeclFromExportedNode_def allow_def shadows_nothing_def)
    then have "wpE out_of_fuel (introduce p ?d ?s)
      (visiting ms (top_declared allow c ?d) (insert (addr_of t) A)
        (H \<or> \<not> may_declare allow (env_of c) ?d) (insert (addr_of t) B) ?u rem)"
      by (intro introduce_top [OF v' mode]) (use new old in auto)
    with False top show ?thesis
      by (auto simp: introduceScope_visit_def Let_def split: payload.split)
  next
    case True
    then obtain i name decl where i: "obj_payload parent = PMetaUnit i"
      "inst_view p i = Some (name, Some decl)"
      using par by (auto simp: parent_ok_def)
    let ?t = "if name_str ?d = getType name
      then ?s\<lparr>exportedNode := (exportedNode s)(?u \<mapsto> addr_of t)\<rparr> else ?s"
    have vt: "visiting ms c A H (insert (addr_of t) B) ?u rem ?t"
      using visiting_export [OF v', of "addr_of t" "name_str ?d = getType name"]
      by (simp split: if_splits)
    have "exportedNode s ?u \<noteq> Some (addr_of t)"
      using v new B(1) by (auto simp: visiting_def)
    then have "isShadowingDeclFromExportedNode p ?d prev ?t = Inr (allow ?d prev)" for prev
      using top i by (auto simp: isShadowingDeclFromExportedNode_def allow_def
          shadows_instantiated_def)
    then have "wpE out_of_fuel (introduce p ?d ?t)
      (visiting ms (top_declared allow c ?d) (insert (addr_of t) A)
        (H \<or> \<not> may_declare allow (env_of c) ?d) (insert (addr_of t) B) ?u rem)"
      by (intro introduce_top [OF vt mode]) (use new old in auto)
    with i top show ?thesis
      by (simp add: introduceScope_visit_def Let_def split: if_splits)
  qed
qed

lemma fold_unnamed:
  "\<forall>n \<in> set ns. unnamed n \<Longrightarrow>
   foldE (introduceScope_visit p parent) (map obj_of ns @ ms) s = foldE (introduceScope_visit p parent) ms s"
  by (induction ns) (simp_all add: visit_unnamed)

lemma top_decls_push:
  "has_allocated c \<Longrightarrow> push_all (top_decls allow (env_of c) (d # ds)) c =
     push_all (top_decls allow (env_of (top_declared allow c d)) ds) (top_declared allow c d)"
  "has_allocated c \<Longrightarrow> top_err allow (env_of c) (d # ds) \<longleftrightarrow>
     \<not> may_declare allow (env_of c) d \<or> top_err allow (env_of (top_declared allow c d)) ds"
  by (auto simp: top_declared_def env_of_push)

lemma visit_all:
  assumes "top_mode ms \<noteq> InsideMetaDecl" and "parent_ok p N parent"
  defines "allow \<equiv> parent_allows p (obj_payload parent)"
  shows "visiting ms c A H B (obj_addr parent) rem s \<Longrightarrow> \<forall>t \<in> set cs. top_level_ok t \<Longrightarrow>
    fresh A (map addr_of cs) \<Longrightarrow> B \<subseteq> A \<Longrightarrow> B \<union> addr_of ` set cs \<subseteq> N \<Longrightarrow>
    wpE out_of_fuel (foldE (introduceScope_visit p parent) (map obj_of (concat (map crawl_nodes cs))) s)
      (reading ms (push_all (top_decls allow (env_of c) (map obj_of cs)) c) (A \<union> addr_of ` set cs)
        (H \<or> top_err allow (env_of c) (map obj_of cs)) rem)"
proof (induction cs arbitrary: s A B H c)
  case Nil
  then show ?case by (simp add: visiting_def)
next
  case (Cons t cs)
  from crawl_nodes_top Cons.prems(2) obtain ns
    where ns: "crawl_nodes t = t # ns" "\<forall>n \<in> set ns. unnamed n" by fastforce
  let ?c = "top_declared allow c (obj_of t)"
  let ?H = "H \<or> \<not> may_declare allow (env_of c) (obj_of t)"
  have alloc: "has_allocated c"
    using Cons.prems(1) by (auto simp: visiting_def dest: reading_allocated)
  have "wpE out_of_fuel (introduceScope_visit p parent (obj_of t) s)
      (visiting ms ?c (insert (addr_of t) A) ?H (insert (addr_of t) B) (obj_addr parent) rem)"
    unfolding allow_def by (rule visit_top [where N = N]) (use assms Cons.prems in auto)
  moreover have "wpE out_of_fuel
      (foldE (introduceScope_visit p parent) (map obj_of (concat (map crawl_nodes cs))) u)
      (reading ms (push_all (top_decls allow (env_of c) (map obj_of (t # cs))) c)
        (A \<union> addr_of ` set (t # cs)) (H \<or> top_err allow (env_of c) (map obj_of (t # cs))) rem)"
    if "visiting ms ?c (insert (addr_of t) A) ?H (insert (addr_of t) B) (obj_addr parent) rem u" for u
    using Cons.IH [OF that] Cons.prems(2-5)
    by (simp only: list.map top_decls_push [OF alloc]) (auto simp: fresh_def disj_assoc)
  ultimately show ?case
    using ns by (auto simp: fold_unnamed elim!: wpE_post)
qed

lemma rd_introduceScope:
  assumes r: "reading ms (createConsistent sc) A H (flattens cs @ None # rem) s"
    and exp: "exportedNode s (obj_addr parent) = None"
    and "\<forall>t \<in> set cs. top_level_ok t" and "fresh A (map addr_of cs)"
    and "top_mode ms \<noteq> InsideMetaDecl" and "parent_ok p (addr_of ` set cs) parent"
  defines "allow \<equiv> parent_allows p (obj_payload parent)"
  shows "wpE out_of_fuel (introduceScope p parent s)
    (reading ms (push_all (top_decls allow (env_of sc) (map obj_of cs)) (createConsistent sc))
      (A \<union> addr_of ` set cs) (H \<or> top_err allow (env_of sc) (map obj_of cs)) (flattens cs @ None # rem))"
proof -
  have rem: "remaining s = flattens cs @ None # rem"
    using r by (simp add: reading_def)
  have "length (flattens cs) < crawl_fuel s"
    using arg_cong [OF rem, of length] by (simp add: crawl_fuel_def remaining_def)
  with crawl_loop_flattens [OF rem]
  have "crawl_loop (crawl_fuel s) s = Inr (map obj_of (concat (map crawl_nodes cs)))" by simp
  moreover have "visiting ms (createConsistent sc) A H {} (obj_addr parent) (flattens cs @ None # rem) s"
    using r exp by (auto simp: visiting_def createConsistent_def)
  from visit_all [OF assms(5,6) this]
  have "wpE out_of_fuel
      (foldE (introduceScope_visit p parent) (map obj_of (concat (map crawl_nodes cs))) s)
      (reading ms (push_all (top_decls allow (env_of sc) (map obj_of cs)) (createConsistent sc))
      (A \<union> addr_of ` set cs) (H \<or> top_err allow (env_of sc) (map obj_of cs)) (flattens cs @ None # rem))"
    using assms by simp
  ultimately show ?thesis
    by (simp add: introduceScope_def crawlCurrentScope_def)
qed

section \<open>The body of a unit\<close>

lemma remaining_step:
  "remaining s = x # xs \<Longrightarrow> pos t = Suc (pos s) \<Longrightarrow> layout_of t = layout_of s \<Longrightarrow> remaining t = xs"
  using drop_eq_ConsD(3) by (simp add: remaining_def)

text \<open>The scope a unit leaves behind, and what reading its body does.\<close>

definition unit_scope_of :: "params \<Rightarrow> obj \<Rightarrow> scope_chain \<Rightarrow> ast list \<Rightarrow> scope_chain" where
  "unit_scope_of p n sc cs = push_all
     (top_decls (parent_allows p (obj_payload n)) (env_of sc) (map obj_of cs)) (createConsistent sc)"

definition body_read ::
    "params \<Rightarrow> obj \<Rightarrow> scope_chain \<Rightarrow> ast list \<Rightarrow> layout \<Rightarrow> reader \<Rightarrow> ast list \<times> reader \<Rightarrow> bool" where
  "body_read p n sc cs rem s = (\<lambda>(us, t).
     (let allow = parent_allows p (obj_payload n);
          env = bind_all (top_decls allow (env_of sc) (map obj_of cs)) (env_of sc);
          ts = map (Pair Outside) cs
      in us = res_tree_list env ts
         \<and> (hasErrors (engine_of t) \<longleftrightarrow> hasErrors (engine_of s)
              \<or> top_err allow (env_of sc) (map obj_of cs) \<or> res_err_list env ts)
         \<and> remaining t = rem \<and> modeStack t = modeStack s \<and> currentScope t = currentScope s
         \<and> unitScope t (obj_addr n) = Some (unit_scope_of p n sc cs)))"

lemma rd_finishUnit:
  assumes r: "reading ms (unit_scope_of p n sc cs) A H (None # rem) u"
    and marker: "isRequiringReduceMarker (obj_kind n)"
    and Q: "\<And>v. remaining v = rem \<Longrightarrow> modeStack v = ms \<Longrightarrow> currentScope v = previous \<Longrightarrow>
      hasErrors (engine_of v) = H \<Longrightarrow> unitScope v (obj_addr n) = Some (unit_scope_of p n sc cs) \<Longrightarrow> Q v"
  shows "wpE out_of_fuel (leaveConsistentScope previous
      (u\<lparr>unitScope := (unitScope u)(obj_addr n \<mapsto> currentScope u)\<rparr>)) (\<lambda>v. wpE out_of_fuel (leaveShift n v) Q)"
proof -
  let ?u = "u\<lparr>unitScope := (unitScope u)(obj_addr n \<mapsto> currentScope u), currentScope := previous\<rparr>"
  have rem: "remaining ?u = None # rem" and ne: "currentScope u \<noteq> []"
    using r reading_nonempty [OF r] by (simp_all add: reading_def)
  have "Q (?u\<lparr>pos := Suc (pos ?u)\<rparr>)"
    by (rule Q) (use r shift_remaining(2) [OF rem] in \<open>simp_all add: reading_def\<close>)
  with ne marker reduce_None [OF rem] show ?thesis
    by (simp add: leaveConsistentScope_def isInAnyScope_def leaveShift_def
        isNodeRequiringReduceMarker_def)
qed

lemma rd_unitBody:
  assumes call: "reads_ok call" and rem: "remaining s = flattens cs @ None # rem"
    and mode: "top_mode (modeStack s) = Outside" and exp: "exportedNode s (obj_addr n) = None"
    and scope: "\<not> isInAnyScope s \<or> scope_isConsistent (currentScope s)"
    and sc: "sc = (case parent of None \<Rightarrow> [] | Some c \<Rightarrow> c)"
    and top: "\<forall>t \<in> set cs. top_level_ok t"
    and fr: "fresh (scope_addrs sc) (map addr_of cs @ locals_of cs)"
    and par: "parent_ok p (addr_of ` set cs) n" and marker: "isRequiringReduceMarker (obj_kind n)"
  shows "wpE out_of_fuel (consumeUnitBody p call parent n s) (body_read p n sc cs rem s)"
proof -
  let ?ms = "modeStack s" and ?A = "scope_addrs sc" and ?H = "hasErrors (engine_of s)"
  let ?s = "s\<lparr>currentScope := createConsistent sc\<rparr>"
  let ?allow = "parent_allows p (obj_payload n)"
  let ?e = "env_of sc" and ?u = "unit_scope_of p n sc cs"
  let ?H1 = "?H \<or> top_err ?allow ?e (map obj_of cs)"
  have alloc: "has_allocated ?u" and env: "env_of ?u = bind_all (top_decls ?allow ?e (map obj_of cs)) ?e"
    by (simp_all add: unit_scope_of_def)
  have r: "reading ?ms (createConsistent sc) ?A ?H (flattens cs @ None # rem) ?s"
    using rem by (simp add: reading_def)
  have "wpE out_of_fuel (consumeWhile (consumeTopLevelDecl call) t) (\<lambda>(us, v). wpE out_of_fuel
      (leaveConsistentScope (currentScope s) (v\<lparr>unitScope := (unitScope v)(obj_addr n \<mapsto> currentScope v)\<rparr>))
        (\<lambda>w. wpE out_of_fuel (leaveShift n w) (\<lambda>w. body_read p n sc cs rem s (us, w))))"
    if t: "reading ?ms ?u (?A \<union> addr_of ` set cs) ?H1 (flattens cs @ None # rem) t" for t
    by (rule rd_while [OF reads_typed(4) [OF call] t])
      (use top mode fr alloc env marker in \<open>auto simp: top_level_ok_def body_read_def Let_def
        res_decls_list_top [OF top] intro!: rd_finishUnit\<close>)
  note whole = this
  have "wpE out_of_fuel (introduceScope p n ?s)
      (reading ?ms ?u (?A \<union> addr_of ` set cs) ?H1 (flattens cs @ None # rem))"
    unfolding unit_scope_of_def
    by (rule rd_introduceScope [OF r _ top _ _ par]) (use fr mode exp in auto)
  then have "wpE out_of_fuel (introduceScope p n ?s) (\<lambda>t. wpE out_of_fuel
      (consumeWhile (consumeTopLevelDecl call) t) (\<lambda>(us, v). wpE out_of_fuel
      (leaveConsistentScope (currentScope s) (v\<lparr>unitScope := (unitScope v)(obj_addr n \<mapsto> currentScope v)\<rparr>))
        (\<lambda>w. wpE out_of_fuel (leaveShift n w) (\<lambda>w. body_read p n sc cs rem s (us, w)))))"
    by (rule wpE_post) (rule whole)
  then show ?thesis
    using scope sc
    by (auto simp: consumeUnitBody_def Let_def enterConsistentScope_def split_def)
qed

section \<open>Whole units\<close>

text \<open>Reading with enough fuel does not run out of it, so what it tolerated so far is excluded.\<close>

lemma consumeKind_total:
  assumes "wpE out_of_fuel (consumeKind p (reader_fuel s) k s) Q"
  shows "\<exists>t s'. consumeKind p (reader_fuel s) k s = Inr (t, s') \<and> Q (t, s') \<and> moves s s'"
proof -
  have "wpE (tol True) (consumeKind p (reader_fuel s) k s) (\<lambda>(t, s'). moves s s')"
    using consumeKind_ok [of True "reader_fuel s" p, unfolded calls_ok_def]
    by (auto simp: call_cost_def reader_fuel_def)
  with assms show ?thesis
    by (cases "consumeKind p (reader_fuel s) k s") (auto simp: out_of_fuel_def tol_def)
qed

text \<open>The nodes of a unit are at addresses of their own.\<close>

lemma addr_of_CompilationUnit [simp]: "addr_of (CompilationUnit a cs) = a"
  and addr_of_MetaUnit [simp]: "addr_of (MetaUnit a i cs) = a"
  by (simp_all add: addr_of_def)

lemma subset_nodes_of: "c \<in> set cs \<Longrightarrow> addr_of c \<in> addr_of ` set (nodes_of cs)"
  by (induction cs) (auto simp: nodes_eq)

lemma fresh_unit:
  assumes "distinct (map addr_of (nodes_of cs))" and "addr_of ` set (nodes_of cs) \<inter> A = {}"
    and top: "\<forall>c \<in> set cs. top_level_ok c"
  shows "fresh A (map addr_of cs @ locals_of cs)"
proof -
  have sub: "set cs \<subseteq> set (nodes_of cs)"
    by (induction cs) (auto simp: nodes_eq)
  have loc: "locals_of cs = map addr_of (filter (\<lambda>n. isLocalDecl (getKind n)) (nodes_of cs))"
    by (induction cs) (simp_all add: locals_def)
  have "distinct (map addr_of cs)"
    using assms(1) by (induction cs) (use subset_nodes_of in \<open>auto simp: nodes_eq\<close>)
  moreover have "distinct (locals_of cs)"
    using assms(1) by (simp add: loc distinct_map_filter)
  moreover have "addr_of c \<noteq> addr_of n"
    if "c \<in> set cs" "n \<in> set (nodes_of cs)" "isLocalDecl (getKind n)" for c n
  proof -
    have "c \<noteq> n" using that top by (auto simp: top_level_ok_def isLocalDecl_def)
    with that sub assms(1) show ?thesis by (auto simp: distinct_map inj_on_def)
  qed
  ultimately show ?thesis
    using assms(2) sub unfolding fresh_def loc by fastforce
qed

theorem readCompilationUnit_unit:
  fixes a cs
  defines "t \<equiv> CompilationUnit a cs"
  assumes ok: "unit_ok t" and dist: "distinct (map addr_of (nodes t))"
  shows "\<exists>s. readCompilationUnit p e (flatten t @ rest) = Inr (unit_tree shadows_nothing Map.empty t, s)
    \<and> (hasErrors (engine_of s) \<longleftrightarrow> hasErrors e \<or> unit_err shadows_nothing Map.empty t)
    \<and> unitScope s a = Some (push_all (unit_decls shadows_nothing Map.empty t) (createConsistent []))
    \<and> remaining s = rest \<and> currentScope s = [] \<and> modeStack s = []"
proof -
  let ?s = "reader_new e (flatten t @ rest)" and ?n = "Obj a PCompilationUnit"
  have s: "remaining ?s = Some ?n # flattens cs @ None # rest"
    by (simp add: reader_new_def builder_new_def remaining_def t_def builder_state.defs
        flatten_eq [of "CompilationUnit a cs"] kind_pred_defs)
  let ?t = "?s\<lparr>pos := Suc (pos ?s)\<rparr>"
  have t: "modeStack ?t = []" "currentScope ?t = []" "exportedNode ?t a = None" "engine_of ?t = e"
    by (simp_all add: reader_new_def builder_new_def builder_state.defs)
  have top: "\<forall>c \<in> set cs. top_level_ok c"
    using ok by (simp add: unit_ok_def t_def)
  have fr: "fresh (scope_addrs []) (map addr_of cs @ locals_of cs)"
    using fresh_unit [OF _ _ top, of "{}"] dist by (simp add: t_def nodes_eq [of "CompilationUnit a cs"])
  have "wpE out_of_fuel (consumeUnitBody p (consumeKind p n) None ?n ?t) (body_read p ?n [] cs rest ?t)" for n
    by (rule rd_unitBody [OF consumeKind_reads shift_remaining(2) [OF s]])
      (use t top fr in \<open>simp_all add: isInAnyScope_def parent_ok_def kind_pred_defs\<close>)
  then have "wpE out_of_fuel (consumeKind p (reader_fuel ?s) KindCompilationUnit ?s)
    (\<lambda>(u, v). \<exists>us. u = CompilationUnit a us \<and> body_read p ?n [] cs rest ?t (us, v))"
    by (auto simp: reader_fuel_def consumeCompilationUnit_def shiftAs_def shiftNode_Some [OF s]
        split_def elim!: wpE_post)
  from consumeKind_total [OF this] obtain us v
    where r: "readCompilationUnit p e (flatten t @ rest) = Inr (CompilationUnit a us, v)"
      and b: "body_read p ?n [] cs rest ?t (us, v)"
    by (auto simp: readCompilationUnit_def Let_def)
  show ?thesis
    by (rule exI [of _ v], unfold r)
      (use b t in \<open>simp add: body_read_def Let_def unit_tree_def unit_err_def unit_decls_def
        unit_scope_of_def t_def\<close>)
qed

text \<open>
  A meta unit is read over the scope of the unit its meta declaration is in; none of its nodes may
  be a declaration of that scope, as they are created by the instantiation.
\<close>

theorem consumeMetaUnit_unit:
  fixes a i cs
  defines "t \<equiv> MetaUnit a i cs"
  assumes ok: "unit_ok t" and dist: "distinct (map addr_of (nodes t))"
    and rem: "remaining s = flatten t @ rest" and mode: "top_mode (modeStack s) = Outside"
    and scope: "\<not> isInAnyScope s \<or> scope_isConsistent (currentScope s)"
    and exp: "exportedNode s a = None"
    and inst: "inst_view p i = Some (name, Some decl)" "isMetaDecl decl"
    and unit: "containingUnit s (obj_addr decl) = Some u" "isUnitNode (obj_kind u)"
    and sc: "unitScope s (obj_addr u) = Some sc"
    and new: "addr_of ` set (nodes t) \<inter> insert (obj_addr decl) (scope_addrs sc) = {}"
  defines "allow \<equiv> shadows_instantiated name decl"
  shows "\<exists>s'. consumeKind p (reader_fuel s) KindMetaUnit s = Inr (unit_tree allow (env_of sc) t, s')
    \<and> (hasErrors (engine_of s') \<longleftrightarrow> hasErrors (engine_of s) \<or> unit_err allow (env_of sc) t)
    \<and> unitScope s' a = Some (push_all (unit_decls allow (env_of sc) t) (createConsistent sc))
    \<and> remaining s' = rest \<and> currentScope s' = currentScope s \<and> modeStack s' = modeStack s"
proof -
  let ?n = "Obj a (PMetaUnit i)"
  have s: "remaining s = Some ?n # flattens cs @ None # rest"
    by (simp add: rem t_def flatten_eq [of "MetaUnit a i cs"] kind_pred_defs)
  have top: "\<forall>c \<in> set cs. top_level_ok c"
    using ok by (simp add: unit_ok_def t_def)
  have sub: "set (nodes_of cs) \<subseteq> set (nodes t)"
    by (auto simp: t_def nodes_eq [of "MetaUnit a i cs"])
  then have fr: "fresh (scope_addrs sc) (map addr_of cs @ locals_of cs)"
    using fresh_unit [OF _ _ top, of "scope_addrs sc"] dist new
    by (auto simp: t_def nodes_eq [of "MetaUnit a i cs"])
  have par: "parent_ok p (addr_of ` set cs) ?n"
    using inst new sub subset_nodes_of [of _ cs] by (force simp: parent_ok_def)
  let ?s = "s\<lparr>pos := Suc (pos s), containingUnit := (containingUnit s)(a \<mapsto> u)\<rparr>"
  have rem': "remaining ?s = flattens cs @ None # rest"
    using shift_remaining(2) [OF s] by simp
  have "wpE out_of_fuel (consumeUnitBody p (consumeKind p n) (Some sc) ?n ?s)
      (body_read p ?n sc cs rest ?s)" for n
    by (rule rd_unitBody [OF consumeKind_reads rem'])
      (use mode exp scope top fr par in \<open>simp_all add: isInAnyScope_def kind_pred_defs\<close>)
  then have "wpE out_of_fuel (consumeKind p (reader_fuel s) KindMetaUnit s)
    (\<lambda>(u, v). \<exists>us. u = MetaUnit a i us \<and> body_read p ?n sc cs rest ?s (us, v))"
    using inst unit sc
    by (auto simp: reader_fuel_def consumeMetaUnit_def shiftAs_def shiftNode_Some [OF s] Let_def
        meta_instantiation_of_def split_def elim!: wpE_post)
  from consumeKind_total [OF this] obtain us v
    where r: "consumeKind p (reader_fuel s) KindMetaUnit s = Inr (MetaUnit a i us, v)"
      and b: "body_read p ?n sc cs rest ?s (us, v)"
    by auto
  show ?thesis
    by (rule exI [of _ v], unfold r)
      (use b inst in \<open>simp add: body_read_def Let_def unit_tree_def unit_err_def unit_decls_def
        unit_scope_of_def t_def allow_def\<close>)
qed

end
