(* ===== verification/Visitor_Layout.thy ===== *)
theory Visitor_Layout imports Visitor Reader_Units begin

text \<open>
  What the visitor writes for a parse tree of the grammar (\<^verbatim>\<open>lang/GeneratedParser.g4\<close>): the layout of
  the tree that the parse tree denotes, with one address per node in preorder. \<open>conforms\<close> is the
  grammar with its semantic predicates; \<open>build\<close> is the denotation.
\<close>

section \<open>The grammar\<close>

datatype sym = T token_kind | N rule

fun sym_of :: "ptree \<Rightarrow> sym" where
  "sym_of (Terminal k text line col) = T k"
| "sym_of (Context r cs) = N r"

definition enclosed_in :: "sym set \<Rightarrow> sym list \<Rightarrow> bool" where
  "enclosed_in X ss \<longleftrightarrow> 2 \<le> length ss \<and> hd ss = T T_OpenCurly \<and> last ss = T T_CloseCurly
     \<and> set (butlast (tl ss)) \<subseteq> X"

fun comma_separated :: "sym \<Rightarrow> sym list \<Rightarrow> bool" where
  "comma_separated x [] \<longleftrightarrow> True"
| "comma_separated x [y] \<longleftrightarrow> y = x"
| "comma_separated x (y # z # ss) \<longleftrightarrow> y = x \<and> z = T T_Comma \<and> ss \<noteq> [] \<and> comma_separated x ss"

fun shape :: "meta_depth option \<Rightarrow> rule \<Rightarrow> sym list \<Rightarrow> bool" where
  "shape d R_compilationUnit ss \<longleftrightarrow> ss \<noteq> [] \<and> last ss = T T_EOF
     \<and> set (butlast ss) \<subseteq> {N R_runtimeGlobalScopeNode, N R_metaDecl}"
| "shape d R_runtimeGlobalScopeNode ss \<longleftrightarrow>
     ss = [N R_functionDecl] \<or> d \<noteq> None \<and> ss = [N R_metaStmt]"
| "shape d R_functionDecl ss \<longleftrightarrow> ss = [T T_Identifier, T T_OpenPar, N R_argumentDeclList,
     T T_ClosePar, N R_returnDecl, T T_Arrow, N R_statement]"
| "shape d R_metaDecl ss \<longleftrightarrow> ss = [T T_Identifier, T (T_Operator OperatorLessThan),
     N R_argumentDeclList, T (T_Operator OperatorGreaterThan), T T_Arrow, N R_metaContribution]"
| "shape d R_metaContribution ss \<longleftrightarrow> enclosed_in {N R_metaScopeNode} ss"
| "shape d R_metaScopeNode ss \<longleftrightarrow> d = Some DepthGlobalScope \<and> ss = [N R_runtimeGlobalScopeNode]
     \<or> d = Some DepthLocalScope \<and> ss = [N R_statement]"
| "shape d R_metaStmt ss \<longleftrightarrow> ss = [N R_metaCalculationStmt] \<or> ss = [N R_metaIfStmt]"
| "shape d R_metaCalculationStmt ss \<longleftrightarrow> ss = [T T_Meta, N R_unscopedCompoundStmt]"
| "shape d R_metaIfStmt ss \<longleftrightarrow>
     ss = [T T_Meta, T T_If, N R_metaCalculationExpr, N R_metaContribution]
     \<or> ss = [T T_Meta, T T_If, N R_metaCalculationExpr, N R_metaContribution, N R_metaElseStmt]"
| "shape d R_metaElseStmt ss \<longleftrightarrow> ss = [T T_Else, N R_metaContribution]"
| "shape d R_returnDecl ss \<longleftrightarrow> ss = [] \<or> ss = [N R_argumentDecl]"
| "shape d R_argumentDeclList ss \<longleftrightarrow> comma_separated (N R_argumentDecl) ss"
| "shape d R_argumentDecl ss \<longleftrightarrow> ss = [N R_argumentType] \<or> ss = [N R_argumentType, N R_argumentName]"
| "shape d R_argumentType ss \<longleftrightarrow> ss = [T T_Identifier]"
| "shape d R_argumentName ss \<longleftrightarrow> ss = [T T_Identifier]"
| "shape d R_statement ss \<longleftrightarrow> ss = [N R_declStmt] \<or> ss = [N R_exprStmt] \<or> ss = [N R_returnStmt]
     \<or> ss = [N R_ifStmt] \<or> ss = [N R_compoundStmt]
     \<or> d \<noteq> None \<and> d \<noteq> Some DepthNone \<and> ss = [N R_metaStmt]"
| "shape d R_compoundStmt ss \<longleftrightarrow> ss = [N R_basicCompoundStmt]"
| "shape d R_unscopedCompoundStmt ss \<longleftrightarrow> ss = [N R_basicCompoundStmt]"
| "shape d R_basicCompoundStmt ss \<longleftrightarrow> enclosed_in {N R_statement} ss"
| "shape d R_declStmt ss \<longleftrightarrow>
     ss = [N R_varDecl, T (T_Operator OperatorAssign), N R_expr, T T_Semicolon]"
| "shape d R_varDecl ss \<longleftrightarrow> ss = [N R_varDeclType, N R_varDeclName]"
| "shape d R_varDeclType ss \<longleftrightarrow> ss = [T T_Identifier]"
| "shape d R_varDeclName ss \<longleftrightarrow> ss = [T T_Identifier]"
| "shape d R_exprStmt ss \<longleftrightarrow> ss = [N R_expr, T T_Semicolon]"
| "shape d R_returnStmt ss \<longleftrightarrow>
     ss = [T T_Return, T T_Semicolon] \<or> ss = [T T_Return, N R_expr, T T_Semicolon]"
| "shape d R_ifStmt ss \<longleftrightarrow> ss = [T T_If, N R_expr, N R_compoundStmt]
     \<or> ss = [T T_If, N R_expr, N R_compoundStmt, N R_elseStmt]"
| "shape d R_elseStmt ss \<longleftrightarrow> ss = [T T_Else, N R_compoundStmt]"
| "shape d R_metaCalculationExpr ss \<longleftrightarrow> ss = [N R_expr]"
| "shape d R_expr ss \<longleftrightarrow> ss = [N R_unaryExpr] \<or> ss = [N R_metaInstantiationExpr]
     \<or> ss = [N R_declRefExpr] \<or> ss = [T T_OpenPar, N R_expr, T T_ClosePar]
     \<or> ss = [N R_integerLiteralExpr] \<or> ss = [N R_booleanLiteralExpr]
     \<or> ss = [N R_expr, N R_binaryOperator, N R_expr]"
| "shape d R_unaryExpr ss \<longleftrightarrow> ss = [N R_enclosingExpr]"
| "shape d R_enclosingExpr ss \<longleftrightarrow> ss = [N R_callOperatorExpr]"
| "shape d R_callOperatorExpr ss \<longleftrightarrow>
     ss = [N R_declRefExpr, T T_OpenPar, N R_exprList, T T_ClosePar]
     \<or> ss = [N R_metaInstantiationExpr, T T_OpenPar, N R_exprList, T T_ClosePar]"
| "shape d R_exprList ss \<longleftrightarrow> comma_separated (N R_expr) ss"
| "shape d R_integerLiteralExpr ss \<longleftrightarrow> ss = [T T_IntegerLiteral]"
| "shape d R_booleanLiteralExpr ss \<longleftrightarrow> ss = [T T_True] \<or> ss = [T T_False]"
| "shape d R_declRefExpr ss \<longleftrightarrow> ss = [T T_Identifier]"
| "shape d R_metaInstantiationExpr ss \<longleftrightarrow> ss = [N R_declRefExpr, T (T_Operator OperatorLessThan),
     N R_exprList, T (T_Operator OperatorGreaterThan)]"
| "shape d R_binaryOperator ss \<longleftrightarrow> (\<exists>b. ss = [T (T_Operator b)])"

text \<open>The depth the parser's actions enter for a child.\<close>

definition depth_of_child :: "meta_depth option \<Rightarrow> rule \<Rightarrow> sym \<Rightarrow> meta_depth option" where
  "depth_of_child d r s =
     (if r = R_functionDecl \<and> s = N R_statement \<and> d \<noteq> None then Some DepthLocalScope
      else if r = R_metaDecl \<and> s = N R_metaContribution then Some DepthGlobalScope
      else if r = R_metaCalculationStmt \<or> r = R_metaCalculationExpr then Some DepthNone
      else d)"

fun conforms :: "meta_depth option \<Rightarrow> ptree \<Rightarrow> bool" where
  "conforms d (Terminal k text line col) \<longleftrightarrow> True"
| "conforms d (Context r cs) \<longleftrightarrow> shape d r (map sym_of cs)
     \<and> (\<forall>c \<in> set cs. conforms (depth_of_child d r (sym_of c)) c)"

section \<open>The tree a parse tree denotes\<close>

text \<open>A finished node from its object and its children, if they are of the right number.\<close>

primrec assemble_payload :: "payload \<Rightarrow> addr \<Rightarrow> ast list \<Rightarrow> ast option" where
  "assemble_payload PCompilationUnit a cs = Some (CompilationUnit a cs)"
| "assemble_payload (PMetaUnit i) a cs = Some (MetaUnit a i cs)"
| "assemble_payload (PFunctionDecl n) a cs = (case cs of
     [args, b] \<Rightarrow> Some (FunctionDecl a n args None b)
   | [args, r, b] \<Rightarrow> Some (FunctionDecl a n args (Some r) b) | _ \<Rightarrow> None)"
| "assemble_payload (PMetaDecl n) a cs = (case cs of [args, c] \<Rightarrow> Some (MetaDecl a n args c) | _ \<Rightarrow> None)"
| "assemble_payload (PMetaContribution rg) a cs = Some (MetaContribution a rg cs)"
| "assemble_payload PArgumentDeclList a cs = Some (ArgumentDeclList a cs)"
| "assemble_payload PAnonymousArgumentDecl a cs =
     (case cs of [] \<Rightarrow> Some (AnonymousArgumentDecl a) | _ \<Rightarrow> None)"
| "assemble_payload (PNamedArgumentDecl n) a cs =
     (case cs of [] \<Rightarrow> Some (NamedArgumentDecl a n) | _ \<Rightarrow> None)"
| "assemble_payload (PGlobalConstantDecl n) a cs =
     (case cs of [e] \<Rightarrow> Some (GlobalConstantDecl a n e) | _ \<Rightarrow> None)"
| "assemble_payload PUnscopedCompoundStmt a cs = Some (UnscopedCompoundStmt a cs)"
| "assemble_payload PCompoundStmt a cs = Some (CompoundStmt a cs)"
| "assemble_payload PReturnStmt a cs = (case cs of
     [] \<Rightarrow> Some (ReturnStmt a None) | [e] \<Rightarrow> Some (ReturnStmt a (Some e)) | _ \<Rightarrow> None)"
| "assemble_payload PExpressionStmt a cs = (case cs of [e] \<Rightarrow> Some (ExpressionStmt a e) | _ \<Rightarrow> None)"
| "assemble_payload (PDeclStmt n) a cs = (case cs of [e] \<Rightarrow> Some (DeclStmt a n e) | _ \<Rightarrow> None)"
| "assemble_payload PIfStmt a cs = (case cs of
     [c, t] \<Rightarrow> Some (IfStmt a c t None) | [c, t, f] \<Rightarrow> Some (IfStmt a c t (Some f)) | _ \<Rightarrow> None)"
| "assemble_payload PMetaIfStmt a cs = (case cs of
     [c, t] \<Rightarrow> Some (MetaIfStmt a c t None) | [c, t, f] \<Rightarrow> Some (MetaIfStmt a c t (Some f)) | _ \<Rightarrow> None)"
| "assemble_payload PMetaCalculationStmt a cs =
     (case cs of [s] \<Rightarrow> Some (MetaCalculationStmt a s []) | _ \<Rightarrow> None)"
| "assemble_payload (PDeclRefExpr n) a cs = (case cs of [] \<Rightarrow> Some (DeclRefExpr a n None) | _ \<Rightarrow> None)"
| "assemble_payload (PIntegerLiteralExpr i) a cs =
     (case cs of [] \<Rightarrow> Some (IntegerLiteralExpr a i) | _ \<Rightarrow> None)"
| "assemble_payload (PBooleanLiteralExpr i) a cs =
     (case cs of [] \<Rightarrow> Some (BooleanLiteralExpr a i) | _ \<Rightarrow> None)"
| "assemble_payload PErroneousExpr a cs = (case cs of [] \<Rightarrow> Some (ErroneousExpr a) | _ \<Rightarrow> None)"
| "assemble_payload (PBinaryOperatorExpr b) a cs =
     (case cs of [l, r] \<Rightarrow> Some (BinaryOperatorExpr a b l r) | _ \<Rightarrow> None)"
| "assemble_payload PCallOperatorExpr a cs =
     (case cs of c # es \<Rightarrow> Some (CallOperatorExpr a c es) | _ \<Rightarrow> None)"
| "assemble_payload (PMetaInstantiationExpr rg) a cs =
     (case cs of c # es \<Rightarrow> Some (MetaInstantiationExpr a rg c es) | _ \<Rightarrow> None)"

definition assemble :: "obj \<Rightarrow> ast list \<Rightarrow> ast option" where
  "assemble n cs = assemble_payload (obj_payload n) (obj_addr n) cs"

lemma assemble_Some: "assemble n cs = Some t \<Longrightarrow> obj_of t = n \<and> children t = cs"
  by (cases n; cases "obj_payload n") (auto simp: assemble_def split: list.splits)

text \<open>
  The trees denoted by a parse tree whose first node gets the address \<open>n\<close>: none, one, or those of
  the children of a context the visitor passes through.
\<close>

fun payload_for :: "vparams \<Rightarrow> rule \<Rightarrow> ptree list \<Rightarrow> payload option" where
  "payload_for vp r cs = (case node_for vp r cs of Inr (p, ds) \<Rightarrow> p | Inl e \<Rightarrow> None)"

function build :: "vparams \<Rightarrow> ptree \<Rightarrow> addr \<Rightarrow> ast list"
  and build_all :: "vparams \<Rightarrow> ptree list \<Rightarrow> addr \<Rightarrow> ast list" where
  "build vp (Terminal k text line col) n = []"
| "build vp (Context r cs) n = (case payload_for vp r cs of
     None \<Rightarrow> build_all vp cs n
   | Some p \<Rightarrow> opt_list (assemble (Obj n p)
       (if hasChildren (kind_of_payload p) then build_all vp cs (Suc n) else [])))"
| "build_all vp [] n = []"
| "build_all vp (c # cs) n =
     (let ts = build vp c n in ts @ build_all vp cs (n + length (nodes_of ts)))"
  by pat_completeness auto
termination
  by (relation "measure (case_sum (\<lambda>(vp, c, n). 2 * size c) (\<lambda>(vp, cs, n). Suc (2 * size_list size cs)))")
    auto

declare build.simps(2) [simp del]

section \<open>What each rule denotes\<close>

fun mode_at :: "meta_depth option \<Rightarrow> meta_depth_level" where
  "mode_at None = Outside"
| "mode_at (Some DepthNone) = InsideComputation"
| "mode_at (Some DepthGlobalScope) = InsideMetaDecl"
| "mode_at (Some DepthLocalScope) = InsideMetaDecl"

text \<open>Every integer literal fits.\<close>

fun lits_ok :: "vparams \<Rightarrow> ptree \<Rightarrow> bool" where
  "lits_ok vp (Terminal k text line col) \<longleftrightarrow> (k = T_IntegerLiteral \<longrightarrow> getAsInteger vp text \<noteq> None)"
| "lits_ok vp (Context r cs) \<longleftrightarrow> (\<forall>c \<in> set cs. lits_ok vp c)"

text \<open>Where the rules of meta code can occur.\<close>

definition occurs_at :: "meta_depth option \<Rightarrow> rule \<Rightarrow> bool" where
  "occurs_at d r \<longleftrightarrow>
     (r \<in> {R_runtimeGlobalScopeNode, R_functionDecl} \<longrightarrow> d = None \<or> d = Some DepthGlobalScope)
   \<and> (r = R_metaDecl \<longrightarrow> d = None)
   \<and> (r \<in> {R_metaStmt, R_metaCalculationStmt, R_metaIfStmt, R_metaElseStmt, R_metaContribution,
          R_metaScopeNode} \<longrightarrow> d = Some DepthGlobalScope \<or> d = Some DepthLocalScope)"

text \<open>The classes of the trees a rule denotes.\<close>

fun yields :: "rule \<Rightarrow> ast list \<Rightarrow> bool" where
  "yields R_runtimeGlobalScopeNode ts \<longleftrightarrow> (\<exists>t. ts = [t] \<and> getKind t \<in> {KindFunctionDecl,
     KindMetaCalculationStmt, KindMetaIfStmt})"
| "yields R_functionDecl ts \<longleftrightarrow> (\<exists>t. ts = [t] \<and> getKind t = KindFunctionDecl)"
| "yields R_metaDecl ts \<longleftrightarrow> (\<exists>t. ts = [t] \<and> getKind t = KindMetaDecl)"
| "yields R_metaContribution ts \<longleftrightarrow> (\<exists>t. ts = [t] \<and> getKind t = KindMetaContribution)"
| "yields R_metaStmt ts \<longleftrightarrow>
     (\<exists>t. ts = [t] \<and> getKind t \<in> {KindMetaCalculationStmt, KindMetaIfStmt})"
| "yields R_metaCalculationStmt ts \<longleftrightarrow> (\<exists>t. ts = [t] \<and> getKind t = KindMetaCalculationStmt)"
| "yields R_metaIfStmt ts \<longleftrightarrow> (\<exists>t. ts = [t] \<and> getKind t = KindMetaIfStmt)"
| "yields R_metaElseStmt ts \<longleftrightarrow> (\<exists>t. ts = [t] \<and> getKind t = KindMetaContribution)"
| "yields R_returnDecl ts \<longleftrightarrow> ts = [] \<or> (\<exists>t. ts = [t] \<and> isAnonymousArgumentDecl (getKind t))"
| "yields R_argumentDeclList ts \<longleftrightarrow> (\<exists>t. ts = [t] \<and> getKind t = KindArgumentDeclList)"
| "yields R_argumentDecl ts \<longleftrightarrow> (\<exists>t. ts = [t] \<and> isAnonymousArgumentDecl (getKind t))"
| "yields R_statement ts \<longleftrightarrow> (\<exists>t. ts = [t] \<and> isStmtNode (getKind t))"
| "yields R_compoundStmt ts \<longleftrightarrow> (\<exists>t. ts = [t] \<and> getKind t = KindCompoundStmt)"
| "yields R_unscopedCompoundStmt ts \<longleftrightarrow> (\<exists>t. ts = [t] \<and> getKind t = KindUnscopedCompoundStmt)"
| "yields R_basicCompoundStmt ts \<longleftrightarrow> (\<forall>t \<in> set ts. isStmtNode (getKind t))"
| "yields R_declStmt ts \<longleftrightarrow> (\<exists>t. ts = [t] \<and> getKind t = KindDeclStmt)"
| "yields R_exprStmt ts \<longleftrightarrow> (\<exists>t. ts = [t] \<and> getKind t = KindExpressionStmt)"
| "yields R_returnStmt ts \<longleftrightarrow> (\<exists>t. ts = [t] \<and> getKind t = KindReturnStmt)"
| "yields R_ifStmt ts \<longleftrightarrow> (\<exists>t. ts = [t] \<and> getKind t = KindIfStmt)"
| "yields R_elseStmt ts \<longleftrightarrow> (\<exists>t. ts = [t] \<and> getKind t = KindCompoundStmt)"
| "yields R_metaCalculationExpr ts \<longleftrightarrow> (\<exists>t. ts = [t] \<and> isExprNode (getKind t))"
| "yields R_expr ts \<longleftrightarrow> (\<exists>t. ts = [t] \<and> isExprNode (getKind t))"
| "yields R_unaryExpr ts \<longleftrightarrow> (\<exists>t. ts = [t] \<and> isExprNode (getKind t))"
| "yields R_enclosingExpr ts \<longleftrightarrow> (\<exists>t. ts = [t] \<and> isExprNode (getKind t))"
| "yields R_callOperatorExpr ts \<longleftrightarrow> (\<exists>t. ts = [t] \<and> isExprNode (getKind t))"
| "yields R_exprList ts \<longleftrightarrow> (\<forall>t \<in> set ts. isExprNode (getKind t))"
| "yields R_integerLiteralExpr ts \<longleftrightarrow> (\<exists>t. ts = [t] \<and> isExprNode (getKind t))"
| "yields R_booleanLiteralExpr ts \<longleftrightarrow> (\<exists>t. ts = [t] \<and> isExprNode (getKind t))"
| "yields R_declRefExpr ts \<longleftrightarrow> (\<exists>t. ts = [t] \<and> getKind t = KindDeclRefExpr)"
| "yields R_metaInstantiationExpr ts \<longleftrightarrow> (\<exists>t. ts = [t] \<and> isExprNode (getKind t))"
| "yields R_metaScopeNode ts \<longleftrightarrow> (\<exists>t. ts = [t])"
| "yields R_compilationUnit ts \<longleftrightarrow> True"
| "yields _ ts \<longleftrightarrow> ts = []"

lemma sym_of_iff [simp]:
  "sym_of c = T k \<longleftrightarrow> (\<exists>text line col. c = Terminal k text line col)"
  "sym_of c = N r \<longleftrightarrow> (\<exists>cs. c = Context r cs)"
  by (cases c; auto)+

text \<open>
  Trees that a rule may denote at a depth; they obey the grammar of syntax trees if \<open>G\<close>, that is, if
  the integer literals fit. \<open>seq_ok\<close> puts together what the children of a context denote.
\<close>

definition yields_at :: "bool \<Rightarrow> meta_depth option \<Rightarrow> rule \<Rightarrow> ast list \<Rightarrow> bool" where
  "yields_at G d r ts \<longleftrightarrow> yields r ts \<and> (G \<longrightarrow> (\<forall>t \<in> set ts. grammatical
     (if r = R_metaCalculationExpr then InsideComputation else mode_at d) t))"

fun seq_ok :: "bool \<Rightarrow> meta_depth option \<Rightarrow> rule \<Rightarrow> sym list \<Rightarrow> ast list \<Rightarrow> bool" where
  "seq_ok G d r [] ts \<longleftrightarrow> ts = []"
| "seq_ok G d r (T k # ss) ts \<longleftrightarrow> seq_ok G d r ss ts"
| "seq_ok G d r (N r' # ss) ts \<longleftrightarrow>
     (\<exists>us vs. ts = us @ vs \<and> yields_at G (depth_of_child d r (N r')) r' us \<and> seq_ok G d r ss vs)"

lemma seq_ok_members:
  assumes "\<And>r' us u. N r' \<in> set ss \<Longrightarrow> yields_at G (depth_of_child d r (N r')) r' us \<Longrightarrow> u \<in> set us \<Longrightarrow> P u"
  shows "seq_ok G d r ss ts \<Longrightarrow> t \<in> set ts \<Longrightarrow> P t"
  using assms
proof (induction G d r ss ts rule: seq_ok.induct)
  case (3 G d r r' ss ts)
  then obtain us vs where "ts = us @ vs" "yields_at G (depth_of_child d r (N r')) r' us"
    "seq_ok G d r ss vs" by auto
  with 3 show ?case by (metis UnE list.set_intros set_append)
qed auto

section \<open>The payload of each rule\<close>

lemma token_child_simps:
  "token_child k [] = None"
  "token_child k (Terminal k' t l p # cs) = (if k' = k then Some (Terminal k' t l p) else token_child k cs)"
  "token_child k (Context r ds # cs) = token_child k cs"
  by (simp_all add: token_child_def is_token_def)

lemma rule_child_simps:
  "rule_child r [] = None"
  "rule_child r (Terminal k' t l p # cs) = rule_child r cs"
  "rule_child r (Context r' ds # cs) = (if r' = r then Some ds else rule_child r cs)"
  by (simp_all add: rule_child_def is_context_def)

lemmas child_simps = token_child_simps rule_child_simps
lemmas visit_defs = visitFunctionDecl_def visitArgumentDecl_def visitMetaDecl_def
  visitMetaInstantiationExpr_def visitMetaContribution_def visitDeclRefExpr_def
  visitIntegerLiteralExpr_def visitBooleanLiteralExpr_def visitExpr_def visitDeclStmt_def
  contributes_def

fun payload_ok :: "bool \<Rightarrow> rule \<Rightarrow> sym list \<Rightarrow> payload option \<Rightarrow> bool" where
  "payload_ok G R_compilationUnit ss p \<longleftrightarrow> p = Some PCompilationUnit"
| "payload_ok G R_functionDecl ss p \<longleftrightarrow> (\<exists>i. p = Some (PFunctionDecl i))"
| "payload_ok G R_argumentDeclList ss p \<longleftrightarrow> p = Some PArgumentDeclList"
| "payload_ok G R_argumentDecl ss p \<longleftrightarrow> (\<exists>i. p = Some (PNamedArgumentDecl i)) \<or> p = Some PAnonymousArgumentDecl"
| "payload_ok G R_metaDecl ss p \<longleftrightarrow> (\<exists>i. p = Some (PMetaDecl i))"
| "payload_ok G R_metaInstantiationExpr ss p \<longleftrightarrow> (\<exists>i. p = Some (PMetaInstantiationExpr i))"
| "payload_ok G R_metaContribution ss p \<longleftrightarrow> (\<exists>i. p = Some (PMetaContribution i))"
| "payload_ok G R_declRefExpr ss p \<longleftrightarrow> (\<exists>i. p = Some (PDeclRefExpr i))"
| "payload_ok G R_integerLiteralExpr ss p \<longleftrightarrow>
     (\<exists>i. p = Some (PIntegerLiteralExpr i)) \<or> \<not> G \<and> p = Some PErroneousExpr"
| "payload_ok G R_booleanLiteralExpr ss p \<longleftrightarrow> (\<exists>i. p = Some (PBooleanLiteralExpr i))"
| "payload_ok G R_returnStmt ss p \<longleftrightarrow> p = Some PReturnStmt"
| "payload_ok G R_compoundStmt ss p \<longleftrightarrow> p = Some PCompoundStmt"
| "payload_ok G R_unscopedCompoundStmt ss p \<longleftrightarrow> p = Some PUnscopedCompoundStmt"
| "payload_ok G R_expr ss p \<longleftrightarrow> (if N R_binaryOperator \<in> set ss
     then \<exists>b. p = Some (PBinaryOperatorExpr b) else p = None)"
| "payload_ok G R_exprStmt ss p \<longleftrightarrow> p = Some PExpressionStmt"
| "payload_ok G R_declStmt ss p \<longleftrightarrow> (\<exists>i. p = Some (PDeclStmt i))"
| "payload_ok G R_ifStmt ss p \<longleftrightarrow> p = Some PIfStmt"
| "payload_ok G R_metaIfStmt ss p \<longleftrightarrow> p = Some PMetaIfStmt"
| "payload_ok G R_metaCalculationStmt ss p \<longleftrightarrow> p = Some PMetaCalculationStmt"
| "payload_ok G R_callOperatorExpr ss p \<longleftrightarrow> p = Some PCallOperatorExpr"
| "payload_ok G _ ss p \<longleftrightarrow> p = None"

lemma token_child_ex: "T k \<in> sym_of ` set cs \<Longrightarrow> \<exists>b. token_child k cs = Some b"
  by (induction cs) (auto simp: token_child_def is_token_def split: ptree.splits)

lemma enclosed_tokens:
  assumes "enclosed_in X (map sym_of cs)"
  shows "T T_OpenCurly \<in> sym_of ` set cs" and "T T_CloseCurly \<in> sym_of ` set cs"
proof -
  from assms have "map sym_of cs \<noteq> []" and "hd (map sym_of cs) = T T_OpenCurly"
    and "last (map sym_of cs) = T T_CloseCurly"
    by (auto simp: enclosed_in_def)
  then show "T T_OpenCurly \<in> sym_of ` set cs" "T T_CloseCurly \<in> sym_of ` set cs"
    by (metis hd_in_set set_map, metis last_in_set set_map)
qed

lemma getBinaryOperatorOf_single:
  "getBinaryOperatorOf vp [Terminal (T_Operator b) t l p] =
     Inr (annotate b (sourceRangeOf vp (Terminal (T_Operator b) t l p)))"
  by (cases b) (simp_all add: getBinaryOperatorOf_def operators_def child_simps)

lemma conforms_operator:
  "conforms d (Context R_binaryOperator ds) \<Longrightarrow> \<exists>b t l p. ds = [Terminal (T_Operator b) t l p]"
  by (auto simp: Cons_eq_map_conv)

lemma node_for_ok:
  assumes "conforms d (Context r cs)"
  shows "\<exists>p ds. node_for vp r cs = Inr (p, ds)
    \<and> payload_ok (lits_ok vp (Context r cs)) r (map sym_of cs) p"
proof (cases "r \<in> {R_metaContribution, R_expr, R_declStmt}")
  case False
  with assms show ?thesis
    by (cases r) (auto simp: map_eq_Cons_conv child_simps visit_defs identifierOf_def Let_def
        split: option.split)
next
  case True
  then consider "r = R_metaContribution" | "r = R_expr" | "r = R_declStmt" by blast
  then show ?thesis
  proof cases
    case 1
    with assms show ?thesis
      using enclosed_tokens [of _ cs] token_child_ex [of T_OpenCurly cs] token_child_ex [of T_CloseCurly cs]
      by (auto simp: visit_defs)
  next
    case 2
    with assms show ?thesis
      by (auto simp: map_eq_Cons_conv child_simps visit_defs
          getBinaryOperatorOf_single dest!: conforms_operator)
  next
    case 3
    with assms show ?thesis
      by (auto simp: map_eq_Cons_conv child_simps visit_defs Let_def)
  qed
qed

section \<open>What a context denotes\<close>

lemma build_all_seq:
  assumes "\<And>r' ds n. Context r' ds \<in> set cs \<Longrightarrow>
    yields_at G (depth_of_child d r (N r')) r' (build vp (Context r' ds) n)"
  shows "seq_ok G d r (map sym_of cs) (build_all vp cs n)"
  using assms
proof (induction cs arbitrary: n)
  case Nil
  then show ?case by simp
next
  case (Cons c cs)
  show ?case
  proof (cases c)
    case (Context r' ds)
    with Cons.prems [of r' ds n] Cons.IH Cons.prems show ?thesis
      by (simp add: Let_def) (metis list.set_intros)
  qed (use Cons in \<open>simp add: Let_def\<close>)
qed

lemma enclosed_members: "enclosed_in X ss \<Longrightarrow> set ss \<subseteq> X \<union> {T T_OpenCurly, T T_CloseCurly}"
proof -
  assume e: "enclosed_in X ss"
  then obtain b us where ss: "ss = b # us" "us \<noteq> []" "b = T T_OpenCurly" "last us = T T_CloseCurly"
    "set (butlast us) \<subseteq> X"
    by (cases ss) (auto simp: enclosed_in_def split: if_splits)
  then have "set us = insert (T T_CloseCurly) (set (butlast us))"
    by (metis append_butlast_last_id list.set(2) list.simps(15) rotate1.simps(2) set_rotate1)
  with ss show ?thesis by auto
qed

lemma comma_members: "comma_separated x ss \<Longrightarrow> set ss \<subseteq> {x, T T_Comma}"
  by (induction x ss rule: comma_separated.induct) auto

lemma seq_ok_list:
  assumes "seq_ok G d r ss ts" and "set ss \<inter> range N \<subseteq> {N r'}"
    and "\<And>us u. yields_at G (depth_of_child d r (N r')) r' us \<Longrightarrow> u \<in> set us \<Longrightarrow> P u"
  shows "\<forall>t \<in> set ts. P t"
proof
  fix t assume "t \<in> set ts"
  then show "P t"
    by (intro seq_ok_members [OF _ assms(1), of P t]) (use assms(2,3) in auto)
qed

definition denoted :: "addr \<Rightarrow> payload option \<Rightarrow> ast list \<Rightarrow> ast list" where
  "denoted n p kids = (case p of None \<Rightarrow> kids
     | Some q \<Rightarrow> opt_list (assemble (Obj n q) (if hasChildren (kind_of_payload q) then kids else [])))"

lemma yields_single:
  "yields_at G d r us \<Longrightarrow> u \<in> set us \<Longrightarrow>
   r \<in> {R_metaScopeNode, R_statement, R_argumentDecl, R_expr} \<Longrightarrow> yields_at G d r [u]"
  by (auto simp: yields_at_def)

lemma yields_many:
  assumes "seq_ok G d r ss kids" and "shape d r ss"
    and "(r, r') \<in> {(R_metaContribution, R_metaScopeNode), (R_basicCompoundStmt, R_statement),
      (R_argumentDeclList, R_argumentDecl), (R_exprList, R_expr)}"
  shows "\<forall>t \<in> set kids. yields_at G d r' [t]"
proof (rule seq_ok_list [OF assms(1)])
  show "set ss \<inter> range N \<subseteq> {N r'}"
    using assms(2,3) by (auto dest!: enclosed_members comma_members)
  show "yields_at G (depth_of_child d r (N r')) r' us \<Longrightarrow> u \<in> set us \<Longrightarrow> yields_at G d r' [u]" for us u
    using assms(3) yields_single by (fastforce simp: depth_of_child_def)
qed

lemma yields_result_many:
  assumes "shape d r ss" and "seq_ok G d r ss kids" and "payload_ok G r ss p"
    and "r \<in> {R_metaContribution, R_basicCompoundStmt, R_argumentDeclList, R_exprList}"
  shows "yields_at G d r (denoted n p kids)"
  using yields_many [OF assms(2,1)] assms(3,4)
  by (auto simp: yields_at_def denoted_def assemble_def)

lemma yields_result:
  assumes "shape d r ss" and "occurs_at d r" and "r \<noteq> R_compilationUnit"
    and "seq_ok G d r ss kids" and "payload_ok G r ss p"
  shows "yields_at G d r (denoted n p kids)"
proof (cases "r \<in> {R_metaContribution, R_basicCompoundStmt, R_argumentDeclList, R_exprList}")
  case True
  then show ?thesis using yields_result_many assms by blast
next
  case False
  with assms show ?thesis
    by (cases r; simp; simp only: denoted_def)
      (auto simp: depth_of_child_def yields_at_def assemble_def occurs_at_def kind_pred_defs)
qed

end
