(* ===== verification/Visitor_Trees.thy ===== *)
theory Visitor_Trees imports Visitor_Layout begin

text \<open>
  The visitor of a conforming parse tree: the trees it denotes obey the grammar of syntax trees, and
  the layout the visitor writes is theirs, with the addresses in the order of allocation.
\<close>

lemma butlast_members: "last ss = x \<Longrightarrow> set (butlast ss) \<subseteq> X \<Longrightarrow> set ss \<subseteq> insert x X"
  by (cases ss rule: rev_cases) auto

lemma list_members:
  assumes "shape d r ss" and "N r' \<in> set ss"
    and "r \<in> {R_compilationUnit, R_metaContribution, R_basicCompoundStmt, R_argumentDeclList, R_exprList}"
  shows "(r, r') \<in> {(R_compilationUnit, R_runtimeGlobalScopeNode), (R_compilationUnit, R_metaDecl),
    (R_metaContribution, R_metaScopeNode), (R_basicCompoundStmt, R_statement),
    (R_argumentDeclList, R_argumentDecl), (R_exprList, R_expr)}"
proof -
  consider "r = R_compilationUnit" | "r = R_metaContribution" | "r = R_basicCompoundStmt"
    | "r = R_argumentDeclList" | "r = R_exprList" using assms(3) by blast
  then show ?thesis
  proof cases
    case 1
    with assms butlast_members [of ss "T T_EOF" "{N R_runtimeGlobalScopeNode, N R_metaDecl}"]
    show ?thesis by auto
  next
    case 2
    with assms enclosed_members [of "{N R_metaScopeNode}" ss] show ?thesis by auto
  next
    case 3
    with assms enclosed_members [of "{N R_statement}" ss] show ?thesis by auto
  next
    case 4
    with assms comma_members [of "N R_argumentDecl" ss] show ?thesis by auto
  next
    case 5
    with assms comma_members [of "N R_expr" ss] show ?thesis by auto
  qed
qed

lemma occurs_child:
  assumes "shape d r ss" and "occurs_at d r" and "N r' \<in> set ss" and "r = R_compilationUnit \<Longrightarrow> d = None"
  shows "occurs_at (depth_of_child d r (N r')) r' \<and> r' \<noteq> R_compilationUnit"
proof (cases "r \<in> {R_compilationUnit, R_metaContribution, R_basicCompoundStmt, R_argumentDeclList, R_exprList}")
  case True
  from list_members [OF assms(1,3) True] assms(2,4) show ?thesis
    by (auto simp: occurs_at_def depth_of_child_def)
next
  case False
  with assms show ?thesis
    by (cases r) (auto simp: occurs_at_def depth_of_child_def, metis meta_depth.exhaust)
qed

lemma payload_ok_mono: "payload_ok G' r ss p \<Longrightarrow> (G \<Longrightarrow> G') \<Longrightarrow> payload_ok G r ss p"
  by (cases r) auto

lemma build_Context:
  assumes "conforms d (Context r cs)"
  obtains p ds where "node_for vp r cs = Inr (p, ds)"
    and "payload_ok (lits_ok vp (Context r cs)) r (map sym_of cs) p"
    and "\<And>n. build vp (Context r cs) n = denoted n p (build_all vp cs (if p = None then n else Suc n))"
proof -
  obtain p ds where "node_for vp r cs = Inr (p, ds)"
    and "payload_ok (lits_ok vp (Context r cs)) r (map sym_of cs) p"
    using node_for_ok [OF assms, of vp] by blast
  then show thesis by (intro that) (auto simp: build.simps(2) denoted_def split: option.split)
qed

theorem build_yields:
  assumes "conforms d pt" and "pt = Context r cs" and "occurs_at d r" and "r \<noteq> R_compilationUnit"
    and "G \<Longrightarrow> lits_ok vp pt"
  shows "yields_at G d r (build vp pt n)"
  using assms
proof (induction pt arbitrary: d r cs n)
  case (Context r0 cs0)
  then have eq: "r0 = r" "cs0 = cs" by auto
  have sh: "shape d r (map sym_of cs)" using Context.prems(1) eq by simp
  have kids: "seq_ok G d r (map sym_of cs) (build_all vp cs m)" for m
  proof (rule build_all_seq)
    fix r' ds n assume mem: "Context r' ds \<in> set cs"
    then have "N r' \<in> set (map sym_of cs)" by force
    with occurs_child [OF sh Context.prems(3)] Context.prems(4) have o: "occurs_at (depth_of_child d r (N r')) r'"
      and r': "r' \<noteq> R_compilationUnit" by auto
    show "yields_at G (depth_of_child d r (N r')) r' (build vp (Context r' ds) n)"
      by (rule Context.IH [OF _ _ refl o r']) (use mem Context.prems eq in auto)
  qed
  obtain p where p: "payload_ok (lits_ok vp (Context r cs)) r (map sym_of cs) p"
    and b: "build vp (Context r cs) n = denoted n p (build_all vp cs (if p = None then n else Suc n))"
    using build_Context [of d r cs vp] Context.prems(1) unfolding eq by metis
  show ?case
    unfolding eq b
    using yields_result [OF sh Context.prems(3,4) kids payload_ok_mono [OF p]] Context.prems(5)
    by (simp only: eq)
qed simp

section \<open>What the visitor does\<close>

text \<open>The diagnostics of a parse tree, in the order of the visit.\<close>

fun complaints :: "vparams \<Rightarrow> ptree \<Rightarrow> (diagnostic \<times> ident) list" where
  "complaints vp (Terminal k text line col) = []"
| "complaints vp (Context r cs) = (case node_for vp r cs of
     Inr (p, ds) \<Rightarrow> ds @ (case p of
         Some q \<Rightarrow> if hasChildren (kind_of_payload q) then concat (map (complaints vp) cs) else []
       | None \<Rightarrow> concat (map (complaints vp) cs))
   | Inl e \<Rightarrow> [])"

declare complaints.simps(2) [simp del]

definition visited_as :: "(diagnostic \<times> ident) list \<Rightarrow> ast list \<Rightarrow> vstate \<Rightarrow> vstate \<Rightarrow> bool" where
  "visited_as ds ts st st' \<longleftrightarrow> v_engine st' = v_engine (v_report ds st)
     \<and> written st' = written st @ flattens ts
     \<and> next_addr st' = next_addr st + length (nodes_of ts)
     \<and> map addr_of (nodes_of ts) = [next_addr st ..< next_addr st']"

lemma visited_as_Nil [simp]: "visited_as [] [] st st"
  by (simp add: visited_as_def v_report_def)

lemma visited_report: "visited_as ds [] st (v_report ds st)"
  by (simp add: visited_as_def v_report_def)

lemma visited_as_append:
  assumes "visited_as ds ts st st'" and "visited_as es us st' st''"
  shows "visited_as (ds @ es) (ts @ us) st st''"
proof -
  have "next_addr st' \<le> next_addr st''" "next_addr st \<le> next_addr st'"
    using assms by (auto simp: visited_as_def)
  then show ?thesis
    using assms by (simp add: visited_as_def v_report_def upt_add_eq_append [symmetric])
qed

lemma v_report_simps [simp]:
  "next_addr (v_report ds st) = next_addr st" "written (v_report ds st) = written st"
  by (simp_all add: v_report_def)

lemma visited_after_report:
  "visited_as es ts (v_report ds st) st' \<Longrightarrow> visited_as (ds @ es) ts st st'"
  using visited_as_append [OF visited_report, of es ts ds st st'] by simp

lemma visit_members:
  assumes "\<And>c st. c \<in> set cs \<Longrightarrow>
    \<exists>st'. visit vp c st = Inr st' \<and> visited_as (complaints vp c) (build vp c (next_addr st)) st st'"
  shows "\<exists>st'. foldE (visit vp) cs st = Inr st'
    \<and> visited_as (concat (map (complaints vp) cs)) (build_all vp cs (next_addr st)) st st'"
  using assms
proof (induction cs arbitrary: st)
  case Nil
  then show ?case by simp
next
  case (Cons c cs)
  obtain st1 where 1: "visit vp c st = Inr st1"
    "visited_as (complaints vp c) (build vp c (next_addr st)) st st1"
    using Cons.prems by force
  obtain st2 where 2: "foldE (visit vp) cs st1 = Inr st2"
    "visited_as (concat (map (complaints vp) cs)) (build_all vp cs (next_addr st1)) st1 st2"
    using Cons.IH [of st1] Cons.prems by auto
  have "next_addr st1 = next_addr st + length (nodes_of (build vp c (next_addr st)))"
    using 1 by (simp add: visited_as_def)
  with 1 2 visited_as_append [OF 1(2) 2(2)] show ?case by (simp add: Let_def)
qed

lemma denoted_node:
  assumes "payload_ok G r ss (Some q)" and "r \<noteq> R_compilationUnit \<Longrightarrow> yields r (denoted n (Some q) kids)"
  shows "\<exists>t. denoted n (Some q) kids = [t] \<and> obj_of t = Obj n q
    \<and> children t = (if hasChildren (kind_of_payload q) then kids else [])"
proof -
  obtain t where t: "assemble (Obj n q) (if hasChildren (kind_of_payload q) then kids else []) = Some t"
  proof (cases "assemble (Obj n q) (if hasChildren (kind_of_payload q) then kids else [])")
    case None
    then have "denoted n (Some q) kids = []" by (simp add: denoted_def)
    moreover from None assms(1) have "r \<noteq> R_compilationUnit" by (auto simp: assemble_def)
    ultimately have "yields r []" using assms(2) by simp
    with assms(1) \<open>r \<noteq> R_compilationUnit\<close> have False by (cases r) auto
    then show thesis ..
  qed
  with assemble_Some [OF t] show ?thesis by (simp add: denoted_def)
qed

lemma visited_node:
  assumes "visited_as es (if hasChildren (getKind t) then children t else []) 
      (st\<lparr>next_addr := Suc (next_addr st), written := written st @ [Some (obj_of t)]\<rparr>) st'"
    and "addr_of t = next_addr st" and "\<not> hasChildren (getKind t) \<Longrightarrow> children t = []"
  shows "visited_as es [t] st
    (if isRequiringReduceMarker (getKind t) then st'\<lparr>written := markReduce (written st')\<rparr> else st')"
  using assms
  by (auto simp: visited_as_def flatten_eq [of t] nodes_eq [of t] v_report_def markReduce_def
      upt_conv_Cons split: if_splits)

theorem visit_ok:
  assumes "conforms d pt" and "\<And>r cs. pt = Context r cs \<Longrightarrow>
    occurs_at d r \<and> (r = R_compilationUnit \<longrightarrow> d = None)"
  shows "\<exists>st'. visit vp pt st = Inr st'
    \<and> visited_as (complaints vp pt) (build vp pt (next_addr st)) st st'"
  using assms
proof (induction pt arbitrary: d st)
  case (Context r cs)
  have sh: "shape d r (map sym_of cs)" and o: "occurs_at d r" and u: "r = R_compilationUnit \<Longrightarrow> d = None"
    using Context.prems by auto
  have kids: "\<exists>st'. foldE (visit vp) cs st = Inr st'
    \<and> visited_as (concat (map (complaints vp) cs)) (build_all vp cs (next_addr st)) st st'" for st
  proof (rule visit_members)
    fix c st assume c: "c \<in> set cs"
    show "\<exists>st'. visit vp c st = Inr st'
      \<and> visited_as (complaints vp c) (build vp c (next_addr st)) st st'"
    proof (rule Context.IH [OF c])
      show "conforms (depth_of_child d r (sym_of c)) c" using Context.prems(1) c by simp
      fix r' ds assume "c = Context r' ds"
      moreover from this c have "N r' \<in> set (map sym_of cs)" by force
      ultimately show "occurs_at (depth_of_child d r (sym_of c)) r'
        \<and> (r' = R_compilationUnit \<longrightarrow> depth_of_child d r (sym_of c) = None)"
        using occurs_child [OF sh o _ u] by simp
    qed
  qed
  obtain p ds where p: "node_for vp r cs = Inr (p, ds)"
    "payload_ok (lits_ok vp (Context r cs)) r (map sym_of cs) p"
    "build vp (Context r cs) n = denoted n p (build_all vp cs (if p = None then n else Suc n))" for n
    by (rule build_Context [OF Context.prems(1), of vp]) (rule that; simp)
  show ?case
  proof (cases p)
    case None
    with kids [of "v_report ds st"] p show ?thesis
      by (auto simp: visit.simps(2) complaints.simps(2) denoted_def Let_def
          dest: visited_after_report)
  next
    case (Some q)
    obtain t where t: "build vp (Context r cs) (next_addr st) = [t]" "obj_of t = Obj (next_addr st) q"
      "children t = (if hasChildren (kind_of_payload q) then build_all vp cs (Suc (next_addr st)) else [])"
    proof -
      have "yields r (denoted (next_addr st) (Some q) (build_all vp cs (Suc (next_addr st))))"
        if "r \<noteq> R_compilationUnit"
        using build_yields [OF Context.prems(1) refl o that, where G = False and n = "next_addr st" and vp = vp]
        unfolding p(3) Some yields_at_def by simp
      from denoted_node [OF _ this] p(2,3) Some that show thesis by fastforce
    qed
    then have k: "getKind t = kind_of_payload q" "addr_of t = next_addr st"
      using obj_kind_obj_of [of t] by (simp_all add: addr_of_def)
    let ?st = "(v_report ds st)\<lparr>next_addr := Suc (next_addr st), written := written st @ [Some (Obj (next_addr st) q)]\<rparr>"
    obtain st' where st': "(if hasChildren (kind_of_payload q) then foldE (visit vp) cs ?st else Inr ?st) = Inr st'"
      "visited_as (if hasChildren (kind_of_payload q) then concat (map (complaints vp) cs) else [])
         (children t) ?st st'"
      using kids [of ?st] t(3) by (cases "hasChildren (kind_of_payload q)") auto
    have "visited_as (if hasChildren (kind_of_payload q) then concat (map (complaints vp) cs) else [])
        [t] (v_report ds st) (if isRequiringReduceMarker (getKind t) then st'\<lparr>written := markReduce (written st')\<rparr> else st')"
      by (rule visited_node) (use st' t k in \<open>simp_all add: v_report_def split: if_splits\<close>)
    from visited_after_report [OF this] st'(1) show ?thesis
      using p t(1) k Some
      by (auto simp: visit.simps(2) complaints.simps(2) contributeFrom_def allocate_def Let_def
          directWrite_def isRequiringReduceMarker_def split: if_splits)
  qed
qed simp

section \<open>Compilation units\<close>

lemma literal_rule: "shape d r ss \<Longrightarrow> T T_IntegerLiteral \<in> set ss \<Longrightarrow> r = R_integerLiteralExpr"
proof (cases "r \<in> {R_compilationUnit, R_metaContribution, R_basicCompoundStmt, R_argumentDeclList, R_exprList}")
  case True
  assume "shape d r ss" "T T_IntegerLiteral \<in> set ss"
  with True show ?thesis
    using butlast_members [of ss "T T_EOF" "{N R_runtimeGlobalScopeNode, N R_metaDecl}"]
    by (auto dest!: enclosed_members comma_members)
next
  case False
  assume "shape d r ss" "T T_IntegerLiteral \<in> set ss"
  with False show ?thesis by (cases r) auto
qed

text \<open>A visit that reports nothing has met no integer literal out of range.\<close>

lemma lits_ok_leaf:
  assumes "conforms d (Context r cs)" and "r \<in> {R_argumentDecl, R_declRefExpr, R_booleanLiteralExpr}"
  shows "lits_ok vp (Context r cs)"
  using assms by (auto simp: map_eq_Cons_conv)

lemma quiet_literal:
  assumes "conforms d (Context R_integerLiteralExpr cs)"
    and "complaints vp (Context R_integerLiteralExpr cs) = []"
  shows "lits_ok vp (Context R_integerLiteralExpr cs)"
  using assms
  by (auto simp: map_eq_Cons_conv complaints.simps(2) visit_defs identifierOf_def child_simps Let_def
      split: option.splits)

lemma visited_below:
  assumes "payload_ok G r ss p" and "r \<notin> {R_argumentDecl, R_declRefExpr, R_booleanLiteralExpr,
    R_integerLiteralExpr}"
  shows "p = Some q \<Longrightarrow> hasChildren (kind_of_payload q)"
  using assms by (cases r) (auto split: if_splits)

theorem quiet_lits_ok:
  "conforms d pt \<Longrightarrow> pt = Context r cs \<Longrightarrow> complaints vp pt = [] \<Longrightarrow> lits_ok vp pt"
proof (induction pt arbitrary: d r cs)
  case (Context r0 cs0)
  then have eq: "r0 = r" "cs0 = cs" by auto
  show ?case unfolding eq
  proof (cases "r \<in> {R_argumentDecl, R_declRefExpr, R_booleanLiteralExpr, R_integerLiteralExpr}")
    case True
    then show "lits_ok vp (Context r cs)"
      using lits_ok_leaf [of d r cs] quiet_literal [of d cs vp] Context.prems eq by auto
  next
    case False
    have c: "conforms d (Context r cs)" using Context.prems eq by simp
    obtain p ds where "node_for vp r cs = Inr (p, ds)"
      "payload_ok (lits_ok vp (Context r cs)) r (map sym_of cs) p"
      using node_for_ok [OF c, of vp] by blast
    with visited_below [OF this(2) False] Context.prems(3)
    have quiet: "\<forall>c \<in> set cs. complaints vp c = []"
      by (auto simp: eq complaints.simps(2) split: option.splits)
    note IH = Context.IH
    have "lits_ok vp c'" if c': "c' \<in> set cs" for c'
    proof (cases c')
      case (Terminal k x line col)
      then have "T k \<in> set (map sym_of cs)" using c' by force
      moreover have "shape d r (map sym_of cs)" using c by simp
      ultimately have "k \<noteq> T_IntegerLiteral" using literal_rule False by blast
      then show ?thesis by (simp add: Terminal)
    next
      case (Context r' ds')
      show ?thesis
        using IH [OF _ _ Context] c c' quiet eq by auto
    qed
    then show "lits_ok vp (Context r cs)" by simp
  qed
qed simp

text \<open>A conforming compilation unit denotes one tree that obeys the grammar of syntax trees.\<close>

lemma top_level_yields:
  assumes c: "conforms None (Context r cs)" and r: "r \<in> {R_runtimeGlobalScopeNode, R_metaDecl}"
    and lits: "lits_ok vp (Context r cs)"
  shows "\<forall>t \<in> set (build vp (Context r cs) n). top_level_ok t"
proof (cases "r = R_metaDecl")
  case True
  have "yields_at True None r (build vp (Context r cs) n)"
    by (rule build_yields [OF c refl]) (use True lits in \<open>auto simp: occurs_at_def\<close>)
  with True show ?thesis
    by (auto simp: yields_at_def top_level_ok_def kind_pred_defs)
next
  case False
  with c r obtain ds where cs: "cs = [Context R_functionDecl ds]" by (auto simp: map_eq_Cons_conv)
  have "yields_at True None R_functionDecl (build vp (Context R_functionDecl ds) n)"
    by (rule build_yields [OF _ refl])
      (use c r False lits cs in \<open>auto simp: occurs_at_def depth_of_child_def\<close>)
  moreover have "build vp (Context r cs) n = build vp (Context R_functionDecl ds) n"
    using False r cs by (simp add: build.simps(2))
  ultimately show ?thesis
    by (auto simp: yields_at_def top_level_ok_def kind_pred_defs)
qed

lemma build_all_members:
  "t \<in> set (build_all vp cs n) \<Longrightarrow> \<exists>c m. c \<in> set cs \<and> t \<in> set (build vp c m)"
  by (induction cs arbitrary: n) (auto simp: Let_def, blast+)

theorem build_unit:
  assumes c: "conforms None (Context R_compilationUnit cs)"
  shows "build vp (Context R_compilationUnit cs) n = [CompilationUnit n (build_all vp cs (Suc n))]"
    and "lits_ok vp (Context R_compilationUnit cs) \<Longrightarrow>
      unit_ok (CompilationUnit n (build_all vp cs (Suc n)))"
proof -
  show "build vp (Context R_compilationUnit cs) n = [CompilationUnit n (build_all vp cs (Suc n))]"
    by (simp add: build.simps(2) contributes_def assemble_def)
  assume lits: "lits_ok vp (Context R_compilationUnit cs)"
  have "top_level_ok t" if t: "t \<in> set (build_all vp cs (Suc n))" for t
  proof -
    obtain c' m where c': "c' \<in> set cs" "t \<in> set (build vp c' m)"
      using build_all_members [OF t] by blast
    obtain r ds where ctx: "c' = Context r ds" using c'(2) by (cases c') auto
    then have "N r \<in> set (map sym_of cs)" using c' by force
    with c have "r \<in> {R_runtimeGlobalScopeNode, R_metaDecl}"
      using list_members [of None R_compilationUnit "map sym_of cs" r] by auto
    moreover from c c'(1) have "conforms (depth_of_child None R_compilationUnit (sym_of c')) c'"
      by (simp only: conforms.simps(2))
    moreover have "depth_of_child None R_compilationUnit (sym_of c') = None"
      by (simp add: depth_of_child_def)
    moreover have "lits_ok vp (Context r ds)" using lits c' ctx by auto
    ultimately show ?thesis using top_level_yields c' ctx by metis
  qed
  then show "unit_ok (CompilationUnit n (build_all vp cs (Suc n)))"
    by (simp add: unit_ok_def kind_pred_defs)
qed

end
