(* ===== verification/Reader_Footprint.thy ===== *)
theory Reader_Footprint imports Reader_Units begin

text \<open>
  Which nodes know their unit after a compilation unit is read: its top level declarations, and no
  others. The crawl of the unit registers them, and nothing that is read below them is a unit, so
  that the containing units, exported nodes and scopes are not touched any more.
\<close>

section \<open>Reading without units\<close>

definition has_unit :: "layout \<Rightarrow> nat \<Rightarrow> bool" where
  "has_unit L i \<longleftrightarrow> (\<exists>n. Some n \<in> set (drop i L) \<and> isUnitNode (obj_kind n))"

definition same_maps :: "reader \<Rightarrow> reader \<Rightarrow> bool" where
  "same_maps s t \<longleftrightarrow> containingUnit t = containingUnit s \<and> exportedNode t = exportedNode s
     \<and> unitScope t = unitScope s \<and> layout_of t = layout_of s \<and> pos s \<le> pos t"

text \<open>A state reached from \<open>s\<close> while reading the layout \<open>L\<close> from position \<open>i\<close> on.\<close>

definition foot :: "layout \<Rightarrow> nat \<Rightarrow> reader \<Rightarrow> reader \<Rightarrow> bool" where
  "foot L i s t \<longleftrightarrow> layout_of s = L \<and> i \<le> pos s \<and> same_maps s t"

abbreviation anyhow :: "fault \<Rightarrow> bool" where
  "anyhow \<equiv> \<lambda>_. True"

definition one_foot :: "layout \<Rightarrow> nat \<Rightarrow> 'b consumer \<Rightarrow> bool" where
  "one_foot L i one \<longleftrightarrow> (\<forall>s. layout_of s = L \<longrightarrow> i \<le> pos s \<longrightarrow> wpE anyhow (one s) (\<lambda>(t, s'). foot L i s s'))"

lemma same_maps_trans: "same_maps s t \<Longrightarrow> same_maps t u \<Longrightarrow> same_maps s u"
  by (simp add: same_maps_def)

lemma same_maps_simps [simp]:
  "same_maps s s" "same_maps s (s\<lparr>pos := Suc (pos s)\<rparr>)" "same_maps s (s\<lparr>currentScope := c\<rparr>)"
  "same_maps s (s\<lparr>modeStack := m\<rparr>)" "same_maps s (report d i a s)" "same_maps s (report d i a (report d' i' a' s))"
  by (simp_all add: same_maps_def report_def)

lemma foot_same: "foot L i s t \<Longrightarrow> same_maps t u \<Longrightarrow> foot L i s u"
  by (auto simp: foot_def intro: same_maps_trans)

lemma foot_step: "foot L i s t \<Longrightarrow> foot L i t u \<Longrightarrow> foot L i s u"
  by (auto simp: foot_def intro: same_maps_trans)

lemma foot_at: "foot L i s t \<Longrightarrow> layout_of t = L \<and> i \<le> pos t"
  by (auto simp: foot_def same_maps_def)

named_theorems footprint \<open>rules for the operations of a method\<close>

section \<open>Operations\<close>

lemma foot_start:
  assumes "layout_of s = L" and "i \<le> pos s"
    and "\<And>n t. foot L i s t \<Longrightarrow> Q (n, t)"
  shows "wpE anyhow (shiftAs P s) Q"
  using assms(3) [of "s\<lparr>pos := Suc (pos s)\<rparr>"] assms(1,2)
  by (auto simp: foot_def shiftAs_def shiftNode_def shift_def peek_def split: option.split)

text \<open>No node of a unit is found.\<close>

lemma foot_unit:
  assumes "layout_of s = L" and "i \<le> pos s" and "\<not> has_unit L i" and "\<And>k. P k \<Longrightarrow> isUnitNode k"
  shows "wpE anyhow (shiftAs P s) Q"
proof -
  have "\<not> P (obj_kind n)" if n: "layout_of s ! pos s = Some n" "pos s < length (layout_of s)" for n
  proof -
    have "drop i L ! (pos s - i) = Some n" "pos s - i < length (drop i L)" using n assms(1,2) by auto
    then have "isUnitNode (obj_kind n) \<Longrightarrow> has_unit L i" unfolding has_unit_def by (metis nth_mem)
    with assms(3,4) show ?thesis by blast
  qed
  then show ?thesis
    by (auto simp: shiftAs_def shiftNode_def shift_def peek_def split: option.split)
qed

lemma foot_peekNode: "(\<And>n. Q n) \<Longrightarrow> wpE anyhow (peekNode s) Q"
  by (auto simp: peekNode_def peek_def split: option.split)

lemma foot_peekIs [footprint]: "(\<And>r. Q r) \<Longrightarrow> wpE anyhow (peekIs P s) Q"
  by (auto simp: peekIs_def peekNode_def peek_def split: option.split)

lemma foot_peekAs: "(\<And>n. Q n) \<Longrightarrow> wpE anyhow (peekAs P s) Q"
  by (auto simp: peekAs_def intro!: foot_peekNode)

lemma foot_shouldReduce: "(\<And>r. Q r) \<Longrightarrow> wpE anyhow (shouldReduce s) Q"
  by (simp add: shouldReduce_def peek_def)

lemma foot_leaveShift [footprint]:
  assumes "foot L i s0 s" and "\<And>t. foot L i s0 t \<Longrightarrow> Q t"
  shows "wpE anyhow (leaveShift m s) Q"
  using assms(2) [OF foot_same [OF assms(1)], of "s\<lparr>pos := Suc (pos s)\<rparr>"] assms
  by (auto simp: leaveShift_def reduce_def shouldReduce_def shift_def peek_def)

lemma foot_lookup [footprint]:
  assumes "foot L i s0 s" and "\<And>r t. foot L i s0 t \<Longrightarrow> Q (r, t)"
  shows "wpE anyhow (lookup p ident s) Q"
proof -
  have Q: "Q (r, t)" if "same_maps s t" for r t by (rule assms(2)) (rule foot_same [OF assms(1) that])
  show ?thesis
    by (auto simp: lookup_def directLookup_def similarDeclarationOf_def getCurrentScope_def
        intro!: Q split: option.split)
qed

lemma introduce_maps: "introduce p d s = Inr t \<Longrightarrow> same_maps s t"
  by (auto simp: introduce_def directLookup_def insertDecl_def rejectDecl_def getCurrentScope_def bindE_eq_Inr
      split: if_splits option.splits)

lemma foot_introduce [footprint]:
  assumes "foot L i s0 s" and "\<And>t. foot L i s0 t \<Longrightarrow> Q t"
  shows "wpE anyhow (introduce p d s) Q"
  using assms(2) [OF foot_same [OF assms(1) introduce_maps [of p d s]]] by (auto simp: wpE_def split: sum.split)

lemma foot_scopes [footprint]:
  assumes "foot L i s0 s" and "\<And>t. foot L i s0 t \<Longrightarrow> Q t"
  shows "wpE anyhow (enterTemporaryScope s) Q" "wpE anyhow (enterInplaceScope s) Q"
    "wpE anyhow (leaveScope s) Q" "wpE anyhow (enterMetaDeclMode s) Q"
    "wpE anyhow (enterMetaComputationMode s) Q" "wpE anyhow (leaveMode s) Q"
  using assms(2) [OF foot_same [OF assms(1)]]
  by (auto simp: enterTemporaryScope_def enterInplaceScope_def leaveScope_def
      enterMetaDeclMode_def enterMetaComputationMode_def leaveMode_def setMode_def getCurrentScope_def)

lemma foot_return [footprint]: "foot L i s t \<Longrightarrow> wpE anyhow (Inr (r, t)) (\<lambda>(r, t). foot L i s t)"
  by simp

lemma foot_fault [footprint]: "wpE anyhow (Inl f) Q"
  by simp

section \<open>Calls and loops\<close>

lemma foot_one:
  assumes "one_foot L i one" and "foot L i s0 s" and "\<And>t u. foot L i s0 u \<Longrightarrow> Q (t, u)"
  shows "wpE anyhow (one s) Q"
proof -
  have "wpE anyhow (one s) (\<lambda>(t, s'). foot L i s s')"
    using assms(1) foot_at [OF assms(2)] by (simp add: one_foot_def)
  then show ?thesis
    by (rule wpE_post) (auto intro!: assms(3) intro: foot_step [OF assms(2)])
qed

lemma one_footI:
  "(\<And>s. layout_of s = L \<Longrightarrow> i \<le> pos s \<Longrightarrow> wpE anyhow (one s) (\<lambda>(t, s'). foot L i s s')) \<Longrightarrow> one_foot L i one"
  by (simp add: one_foot_def)

lemma foot_refl: "layout_of s = L \<Longrightarrow> i \<le> pos s \<Longrightarrow> foot L i s s"
  by (simp add: foot_def)

definition calls_foot :: "layout \<Rightarrow> nat \<Rightarrow> calls \<Rightarrow> bool" where
  "calls_foot L i call \<longleftrightarrow> (\<forall>k. one_foot L i (call k))"

lemma one_foot_call: "calls_foot L i call \<Longrightarrow> one_foot L i (call k)"
  by (simp add: calls_foot_def)

lemma call_foot: "calls_foot L i call \<Longrightarrow> layout_of s = L \<Longrightarrow> i \<le> pos s \<Longrightarrow>
    wpE anyhow (call k s) (\<lambda>(t, s'). foot L i s s')"
  by (simp add: calls_foot_def one_foot_def)

lemma one_foot_any: "calls_foot L i call \<Longrightarrow> one_foot L i (consume_any call)"
  by (rule one_footI) (auto simp: consume_any_def intro!: foot_peekNode call_foot)

lemma one_foot_expecting: "calls_foot L i call \<Longrightarrow> one_foot L i (consumeExpecting P call)"
  by (rule one_footI) (auto simp: consumeExpecting_def intro!: foot_peekNode call_foot)

lemma one_foot_defs:
  assumes "calls_foot L i call"
  shows "one_foot L i (consumeStmt call)" "one_foot L i (consumeExpr call)"
    "one_foot L i (consumeTopLevelDecl call)" "one_foot L i (consumeConstantExpr call)"
  by (intro one_footI; (simp add: consumeStmt_def consumeExpr_def consumeTopLevelDecl_def consumeConstantExpr_def)?;
      (rule foot_peekAs)?; use one_foot_expecting [OF assms] in \<open>simp add: one_foot_def\<close>)+

lemmas one_foot_rules = one_foot_call one_foot_any one_foot_defs

lemma foot_unless [footprint]:
  assumes "one_foot L i one" and "foot L i s0 s" and "\<And>x u. foot L i s0 u \<Longrightarrow> Q (x, u)"
  shows "wpE anyhow (consumeUnlessReduce one s) Q"
  unfolding consumeUnlessReduce_def wpE_bindE
  by (rule foot_shouldReduce) (auto intro!: foot_one [OF assms(1,2)] assms(3) assms(2))

lemma foot_loop:
  assumes "one_foot L i one"
  shows "foot L i s0 s \<Longrightarrow> wpE anyhow (consume_loop m one s) (\<lambda>(ts, u). foot L i s0 u)"
proof (induction m arbitrary: s)
  case (Suc m)
  have "wpE anyhow (consume_loop m one u) (\<lambda>(ts, v). wpE anyhow (Inr (t # ts, v)) (\<lambda>(ts, u). foot L i s0 u))"
    if "foot L i s0 u" for t u
    by (rule wpE_post [OF Suc.IH [OF that]]) auto
  then show ?case
    unfolding consume_loop.simps wpE_bindE
    by (intro foot_shouldReduce) (auto simp: split_def intro!: foot_one [OF assms Suc.prems] Suc.prems)
qed simp

lemma foot_while [footprint]:
  assumes "one_foot L i one" and "foot L i s0 s" and "\<And>ts u. foot L i s0 u \<Longrightarrow> Q (ts, u)"
  shows "wpE anyhow (consumeWhile one s) Q"
  unfolding consumeWhile_def by (rule wpE_post [OF foot_loop [OF assms(1,2)]]) (auto intro: assms(3))

section \<open>The methods\<close>

definition method_foot :: "(calls \<Rightarrow> ast consumer) \<Rightarrow> bool" where
  "method_foot m \<longleftrightarrow> (\<forall>L i call s. calls_foot L i call \<longrightarrow> \<not> has_unit L i \<longrightarrow> layout_of s = L \<longrightarrow> i \<le> pos s \<longrightarrow>
     wpE anyhow (m call s) (\<lambda>(t, s'). foot L i s s'))"

lemma method_footI:
  "(\<And>L i call s. calls_foot L i call \<Longrightarrow> \<not> has_unit L i \<Longrightarrow> layout_of s = L \<Longrightarrow> i \<le> pos s \<Longrightarrow>
     wpE anyhow (m call s) (\<lambda>(t, s'). foot L i s s')) \<Longrightarrow> method_foot m"
  by (simp add: method_foot_def)

lemma method_footD:
  "method_foot m \<Longrightarrow> calls_foot L i call \<Longrightarrow> \<not> has_unit L i \<Longrightarrow> layout_of s = L \<Longrightarrow> i \<le> pos s \<Longrightarrow>
     wpE anyhow (m call s) (\<lambda>(t, s'). foot L i s s')"
  by (simp add: method_foot_def)

lemmas foot_structure = inside_if inside_Inr inside_payload inside_option inside_pair
lemmas foot_calls = one_foot_call [THEN foot_one] one_foot_defs [THEN foot_one]

lemma methods_foot:
  "method_foot consumeFunctionDecl" "method_foot consumeMetaDecl" "method_foot consumeMetaContribution"
  "method_foot consumeArgumentDeclList" "method_foot consumeGlobalConstantDecl"
  "method_foot consumeUnscopedCompoundStmt" "method_foot consumeCompoundStmt"
  "method_foot consumeReturnStmt" "method_foot consumeExpressionStmt" "method_foot (consumeDeclStmt q)"
  "method_foot consumeIfStmt" "method_foot consumeMetaIfStmt" "method_foot consumeMetaCalculationStmt"
  "method_foot consumeBinaryOperatorExpr" "method_foot consumeCallOperatorExpr"
  "method_foot consumeMetaInstantiationExpr" "method_foot (\<lambda>_. consumeDeclRefExpr q)"
  "method_foot (\<lambda>_. consumeIntegerLiteralExpr)" "method_foot (\<lambda>_. consumeBooleanLiteralExpr)"
  "method_foot (\<lambda>_. consumeNamedArgumentDecl q)"
  apply (rule method_footI, unfold method_defs wpE_bindE Let_def, rule foot_start, assumption, assumption,
    (simp only: prod.case wpE_bindE | rule footprint foot_structure
    | (rule foot_calls, assumption, assumption)
    | (rule one_foot_rules, assumption) | assumption)+)+
  done

lemma units_foot: "method_foot (consumeCompilationUnit q)" "method_foot (consumeMetaUnit q)"
  by (rule method_footI, simp only: consumeCompilationUnit_def consumeMetaUnit_def wpE_bindE,
      rule foot_unit, assumption, assumption, assumption, auto simp: kind_pred_defs)+

lemma AnonymousArgumentDecl_foot: "method_foot consumeAnonymousArgumentDecl"
  by (rule method_footI, unfold consumeAnonymousArgumentDecl_def wpE_bindE, rule foot_peekIs, rule inside_if)
    (simp_all add: call_foot foot_start)

lemma consumeMethod_foot:
  assumes "calls_foot L i call" and "\<not> has_unit L i" and "layout_of s = L" and "i \<le> pos s"
  shows "wpE anyhow (consumeMethod p call k s) (\<lambda>(t, s'). foot L i s s')"
proof (cases k)
  case KindErroneousExpr
  then show ?thesis by (simp add: consumeErroneousExpr_def)
qed (simp_all only: consumeMethod.simps methods_foot [THEN method_footD, OF assms]
    units_foot [THEN method_footD, OF assms] AnonymousArgumentDecl_foot [THEN method_footD, OF assms])

lemma consumeKind_foot: "\<not> has_unit L i \<Longrightarrow> calls_foot L i (consumeKind p n)"
proof (induction n)
  case (Suc n)
  then have "one_foot L i (consumeKind p (Suc n) k)" for k
    by (intro one_footI) (simp add: consumeMethod_foot)
  then show ?case unfolding calls_foot_def ..
qed (simp add: calls_foot_def one_foot_def)

section \<open>The crawl of a compilation unit\<close>

definition registers :: "obj \<Rightarrow> ast list \<Rightarrow> (addr \<Rightarrow> obj option) \<Rightarrow> addr \<Rightarrow> obj option" where
  "registers parent ns m k = (if \<exists>n \<in> set ns. isTopLevelNode (getKind n) \<and> addr_of n = k then Some parent else m k)"

lemma visit_registers:
  assumes "introduceScope_visit p (Obj a PCompilationUnit) (obj_of n) s = Inr t"
  shows "same_maps (s\<lparr>containingUnit := registers (Obj a PCompilationUnit) [n] (containingUnit s)\<rparr>) t"
proof -
  have "registers (Obj a PCompilationUnit) [n] (containingUnit s) =
      (if isTopLevelNode (getKind n) then (containingUnit s)(addr_of n \<mapsto> Obj a PCompilationUnit) else containingUnit s)"
    by (auto simp: registers_def fun_eq_iff)
  with assms show ?thesis
    by (auto simp: introduceScope_visit_def Let_def split: if_splits dest!: introduce_maps)
qed

lemma visits_register:
  assumes "foldE (introduceScope_visit p (Obj a PCompilationUnit)) (map obj_of ns) s = Inr t"
  shows "same_maps (s\<lparr>containingUnit := registers (Obj a PCompilationUnit) ns (containingUnit s)\<rparr>) t"
  using assms
proof (induction ns arbitrary: s)
  case (Cons n ns)
  then obtain u where u: "introduceScope_visit p (Obj a PCompilationUnit) (obj_of n) s = Inr u"
    "foldE (introduceScope_visit p (Obj a PCompilationUnit)) (map obj_of ns) u = Inr t"
    by (auto simp: bindE_eq_Inr)
  have "registers (Obj a PCompilationUnit) (n # ns) (containingUnit s) = registers (Obj a PCompilationUnit) ns
      (registers (Obj a PCompilationUnit) [n] (containingUnit s))"
    by (auto simp: registers_def fun_eq_iff)
  with visit_registers [OF u(1)] Cons.IH [OF u(2)] show ?case by (auto simp: same_maps_def)
qed (simp add: registers_def [abs_def] same_maps_def)

lemma registers_top:
  assumes "\<forall>t \<in> set cs. top_level_ok t"
  shows "registers u (concat (map crawl_nodes cs)) m = registers u cs m"
proof -
  have "(\<exists>n \<in> set (concat (map crawl_nodes cs)). isTopLevelNode (getKind n) \<and> addr_of n = k) \<longleftrightarrow>
      (\<exists>n \<in> set cs. isTopLevelNode (getKind n) \<and> addr_of n = k)" for k
    using assms
  proof (induction cs)
    case (Cons t cs)
    from crawl_nodes_top Cons.prems obtain ns where "crawl_nodes t = t # ns" "\<forall>n \<in> set ns. unnamed n" by fastforce
    with Cons show ?case by (auto simp: unnamed_def)
  qed simp
  then show ?thesis by (simp add: registers_def [abs_def])
qed

section \<open>Reading a compilation unit\<close>

lemma flatten_nodes: "Some n \<in> set (flatten t) \<Longrightarrow> \<exists>x \<in> set (nodes t). n = obj_of x"
proof (induction t rule: ast_children_induct)
  case (node t)
  have "\<exists>x \<in> set (nodes_of ts). n = obj_of x"
    if "Some n \<in> set (flattens ts)" "set ts \<subseteq> set (children t)" for ts
    using that by (induction ts) (auto dest: node.IH)
  from this [of "children t"] node.prems show ?case
    by (auto simp: flatten_eq [of t] nodes_eq [of t] split: if_splits)
qed

lemma grammatical_child: "grammatical m t \<Longrightarrow> c \<in> set (children t) \<Longrightarrow> \<exists>m. grammatical m c"
  by (cases t) (auto simp: set_opt_list)

lemma grammatical_no_unit: "grammatical m t \<Longrightarrow> x \<in> set (nodes t) \<Longrightarrow> \<not> isUnitNode (getKind x)"
proof (induction t arbitrary: m rule: ast_children_induct)
  case (node t)
  have "\<not> isUnitNode (getKind t)" using node.prems(1) by (cases t) (simp_all add: kind_pred_defs)
  then show ?case
    using node.prems(2) node.IH grammatical_child [OF node.prems(1)] by (fastforce simp: nodes_eq [of t] nodes_of_def)
qed

lemma unit_layout_no_unit:
  assumes "\<forall>c \<in> set cs. top_level_ok c"
  shows "\<not> has_unit (Some n # flattens cs @ [None]) (Suc 0)"
proof -
  have "\<not> isUnitNode (obj_kind x)" if x: "Some x \<in> set (flattens cs)" for x
  proof -
    from x obtain t where t: "t \<in> set cs" "Some x \<in> set (flatten t)" by (auto simp: flattens_def)
    from flatten_nodes [OF t(2)] obtain y where "y \<in> set (nodes t)" "x = obj_of y" by blast
    with grammatical_no_unit [of Outside t y] assms t(1) show ?thesis by (auto simp: top_level_ok_def)
  qed
  then show ?thesis by (auto simp: has_unit_def)
qed

text \<open>After reading a compilation unit its top level declarations know it, and it knows its scope.\<close>

theorem readCompilationUnit_maps:
  fixes a cs
  defines "t \<equiv> CompilationUnit a cs"
  assumes ok: "unit_ok t" and read: "readCompilationUnit p e (flatten t) = Inr (u, s)"
  shows "containingUnit s = (\<lambda>k. if k \<in> addr_of ` set cs then Some (Obj a PCompilationUnit) else None)
    \<and> exportedNode s = Map.empty \<and> dom (unitScope s) = {a}"
proof -
  let ?L = "flatten t" and ?n = "Obj a PCompilationUnit"
  have L: "?L = Some ?n # flattens cs @ [None]"
    by (simp add: t_def flatten_eq [of "CompilationUnit a cs"] kind_pred_defs)
  have top: "\<forall>c \<in> set cs. top_level_ok c" using ok by (simp add: unit_ok_def t_def)
  have none: "\<not> has_unit ?L (Suc 0)" unfolding L by (rule unit_layout_no_unit [OF top])
  let ?s = "reader_new e ?L"
  define s1 where "s1 = ?s\<lparr>pos := Suc (pos ?s)\<rparr>"
  have s: "remaining ?s = Some ?n # flattens cs @ [None]" "pos ?s = 0"
    by (simp_all add: reader_new_def builder_new_def remaining_def L builder_state.defs)
  have s1: "remaining s1 = flattens cs @ [None]" "layout_of s1 = ?L" "pos s1 = Suc 0" "containingUnit s1 = Map.empty"
    "exportedNode s1 = Map.empty" "unitScope s1 = Map.empty"
    using shift_remaining(2) [OF s(1)] s(2)
    by (simp_all add: s1_def reader_new_def builder_new_def builder_state.defs)
  from read obtain n where "consumeCompilationUnit p (consumeKind p n) ?s = Inr (u, s)"
    by (auto simp: readCompilationUnit_def Let_def reader_fuel_def)
  then obtain us where body: "consumeUnitBody p (consumeKind p n) None ?n s1 = Inr (us, s)"
    by (auto simp: consumeCompilationUnit_def shiftAs_def shiftNode_Some [OF s(1)] bindE_eq_Inr s1_def)
  then obtain s2 s3 s4 s5 where s2: "enterConsistentScope None s1 = Inr s2"
    and s3: "introduceScope p ?n s2 = Inr s3"
    and s4: "consumeWhile (consumeTopLevelDecl (consumeKind p n)) s3 = Inr (us, s4)"
    and s5: "leaveConsistentScope (currentScope s1) (s4\<lparr>unitScope := (unitScope s4)(a \<mapsto> currentScope s4)\<rparr>) = Inr s5"
    and s6: "leaveShift ?n s5 = Inr s"
    by (auto simp: consumeUnitBody_def bindE_eq_Inr Let_def)
  have m2: "same_maps s1 s2" "remaining s2 = flattens cs @ [None]"
    using s2 s1(1) by (auto simp: enterConsistentScope_def bindE_eq_Inr split: if_splits)
  have "length (flattens cs) < crawl_fuel s2"
    using arg_cong [OF m2(2), of length] by (simp add: crawl_fuel_def remaining_def)
  with crawl_loop_flattens [of s2 cs "[]" "crawl_fuel s2"] m2(2) s3
  have "foldE (introduceScope_visit p ?n) (map obj_of (concat (map crawl_nodes cs))) s2 = Inr s3"
    by (simp add: introduceScope_def crawlCurrentScope_def)
  from visits_register [OF this] have m3: "same_maps (s2\<lparr>containingUnit := registers ?n cs (containingUnit s2)\<rparr>) s3"
    by (simp only: registers_top [OF top])
  then have at3: "layout_of s3 = ?L" "Suc 0 \<le> pos s3" using m2(1) s1 by (auto simp: same_maps_def)
  have "wpE anyhow (consumeWhile (consumeTopLevelDecl (consumeKind p n)) s3) (\<lambda>(ts, u). foot ?L (Suc 0) s3 u)"
    by (rule foot_while [OF one_foot_defs(3) [OF consumeKind_foot [OF none]] foot_refl [OF at3]]) simp
  with s4 have m4: "same_maps s3 s4" by (simp add: foot_def)
  have m: "containingUnit s = containingUnit s4 \<and> exportedNode s = exportedNode s4
      \<and> unitScope s = (unitScope s4)(a \<mapsto> currentScope s4)"
    using s5 s6 by (auto simp: leaveConsistentScope_def leaveShift_def reduce_def shift_def bindE_eq_Inr assertE_def
        split: if_splits)
  have "registers ?n cs Map.empty = (\<lambda>k. if k \<in> addr_of ` set cs then Some ?n else None)"
    using top by (auto simp: registers_def fun_eq_iff top_level_ok_def)
  with m m4 m3 m2(1) s1(4-6) show ?thesis by (simp add: same_maps_def)
qed

end
