(* ===== verification/Tooling.thy ===== *)
theory Tooling imports Grammar begin

text \<open>
  What the tools print: \<^verbatim>\<open>src/AST/ASTStringer\<close> (the type name of a node and what it represents) and
  \<^verbatim>\<open>src/Tooling/ASTDumper.cpp\<close> (flat and structured dumps of a layout, dumps of a tree). The YAML
  text LLVM makes of the dumped records is not modelled. A resolved reference holds the address of
  its declaration; the memory that tells what is allocated there is an argument.
\<close>

section \<open>ASTStringer\<close>

fun type_string :: "ast_kind \<Rightarrow> string" where
  "type_string KindCompilationUnit = ''CompilationUnit''"
| "type_string KindMetaUnit = ''MetaUnit''"
| "type_string KindFunctionDecl = ''FunctionDecl''"
| "type_string KindMetaDecl = ''MetaDecl''"
| "type_string KindMetaContribution = ''MetaContribution''"
| "type_string KindArgumentDeclList = ''ArgumentDeclList''"
| "type_string KindAnonymousArgumentDecl = ''AnonymousArgumentDecl''"
| "type_string KindNamedArgumentDecl = ''NamedArgumentDecl''"
| "type_string KindGlobalConstantDecl = ''GlobalConstantDecl''"
| "type_string KindUnscopedCompoundStmt = ''UnscopedCompoundStmt''"
| "type_string KindCompoundStmt = ''CompoundStmt''"
| "type_string KindReturnStmt = ''ReturnStmt''"
| "type_string KindExpressionStmt = ''ExpressionStmt''"
| "type_string KindDeclStmt = ''DeclStmt''"
| "type_string KindIfStmt = ''IfStmt''"
| "type_string KindMetaIfStmt = ''MetaIfStmt''"
| "type_string KindMetaCalculationStmt = ''MetaCalculationStmt''"
| "type_string KindDeclRefExpr = ''DeclRefExpr''"
| "type_string KindIntegerLiteralExpr = ''IntegerLiteralExpr''"
| "type_string KindBooleanLiteralExpr = ''BooleanLiteralExpr''"
| "type_string KindErroneousExpr = ''ErroneousExpr''"
| "type_string KindBinaryOperatorExpr = ''BinaryOperatorExpr''"
| "type_string KindCallOperatorExpr = ''CallOperatorExpr''"
| "type_string KindMetaInstantiationExpr = ''MetaInstantiationExpr''"

definition toTypeString :: "obj \<Rightarrow> string" where
  "toTypeString n = type_string (obj_kind n)"

fun operator_rep :: "bin_op \<Rightarrow> string" where
  "operator_rep OperatorMul = ''*''"
| "operator_rep OperatorDiv = ''/''"
| "operator_rep OperatorPlus = ''+''"
| "operator_rep OperatorMinus = ''-''"
| "operator_rep OperatorLessThan = ''<''"
| "operator_rep OperatorGreaterThan = ''>''"
| "operator_rep OperatorLessThanOrEq = ''<=''"
| "operator_rep OperatorGreaterThanOrEq = ''>=''"
| "operator_rep OperatorEqual = ''==''"
| "operator_rep OperatorNotEqual = ''!=''"
| "operator_rep OperatorAssign = ''=''"

text \<open>\<open>std::to_string\<close> of an \<open>int32_t\<close>.\<close>

fun nat_to_string :: "nat \<Rightarrow> string" where
  "nat_to_string n = (if n < 10 then [char_of (48 + n)]
     else nat_to_string (n div 10) @ [char_of (48 + n mod 10)])"

declare nat_to_string.simps [simp del]

definition int_to_string :: "int \<Rightarrow> string" where
  "int_to_string i = (if i < 0 then CHR ''-'' # nat_to_string (nat (- i)) else nat_to_string (nat i))"

text \<open>\<open>toString\<close>: the overloads of \<open>toStringImpl\<close>, selected by the class of the node.\<close>

fun toString :: "(addr \<Rightarrow> obj option) \<Rightarrow> ast \<Rightarrow> string option res" where
  "toString memory (FunctionDecl a n args r b) = Inr (Some (getType n))"
| "toString memory (MetaDecl a n args c) = Inr (Some (getType n))"
| "toString memory (NamedArgumentDecl a n) = Inr (Some (getType n))"
| "toString memory (GlobalConstantDecl a n e) = Inr (Some (getType n))"
| "toString memory (DeclStmt a n e) = Inr (Some (getType n))"
| "toString memory (DeclRefExpr a n d) = (case d of
     Some decl \<Rightarrow> (case memory decl of
         Some node \<Rightarrow> Inr (Some (getType n @ '' <resolved to '' @ [CHR 0x27] @ toTypeString node
           @ [CHR 0x27] @ ''>''))
       | None \<Rightarrow> Inl NullDeref)
   | None \<Rightarrow> Inr (Some (getType n @ '' <unresolved>'')))"
| "toString memory (IntegerLiteralExpr a l) = Inr (Some (int_to_string (sint (getType l))))"
| "toString memory (BooleanLiteralExpr a l) = Inr (Some (if getType l then ''true'' else ''false''))"
| "toString memory (BinaryOperatorExpr a b l r) = Inr (Some (operator_rep (getType b)))"
| "toString memory t = Inr None"

lemma type_string_inj: "type_string k = type_string l \<Longrightarrow> k = l"
  by (cases k; cases l; simp)

lemma operator_rep_inj: "operator_rep b = operator_rep c \<Longrightarrow> b = c"
  by (cases b; cases c; simp)

section \<open>Dumping trees\<close>

datatype simple_ast = SimpleAST (sa_kind: ast_kind) (sa_represents: "string option")
  (sa_children: "simple_ast list option")

text \<open>\<open>SimpleASTNode::createFrom\<close>.\<close>

fun createFrom :: "(addr \<Rightarrow> obj option) \<Rightarrow> ast \<Rightarrow> simple_ast res" where
  "createFrom memory t = bindE (toString memory t) (\<lambda>represents.
     if hasChildren (getKind t) \<and> children t \<noteq> []
     then bindE (mapE (createFrom memory) (children t)) (\<lambda>cs.
       Inr (SimpleAST (getKind t) represents (Some cs)))
     else Inr (SimpleAST (getKind t) represents None))"

declare createFrom.simps [simp del]

section \<open>Dumping layouts\<close>

datatype simple_layout = SimpleLayout (sl_kind: string) (sl_children: "simple_layout list option")

definition reduce_marker_text :: string where
  "reduce_marker_text = ''<reduce marker>''"

definition obvious_reduce_text :: string where
  "obvious_reduce_text = ''<obvious reduce>''"

definition createUnstructured :: "obj option \<Rightarrow> simple_layout" where
  "createUnstructured node = (case node of
     Some n \<Rightarrow> SimpleLayout (toTypeString n) None
   | None \<Rightarrow> SimpleLayout reduce_marker_text None)"

definition dumpFlatLayout :: "layout \<Rightarrow> simple_layout list" where
  "dumpFlatLayout l = map createUnstructured l"

text \<open>
  \<open>createStructured\<close> with its two loops: until the reduce marker, or a known number of times. The
  iterators are the rest of the layout; every call takes one unit of fuel.
\<close>

fun createStructured :: "nat \<Rightarrow> layout \<Rightarrow> (simple_layout \<times> layout) res"
  and consume_until_reduce :: "nat \<Rightarrow> layout \<Rightarrow> (simple_layout list \<times> layout) res"
  and consume_times :: "nat \<Rightarrow> nat \<Rightarrow> layout \<Rightarrow> (simple_layout list \<times> layout) res" where
  "createStructured 0 l = Inl OutOfFuel"
| "createStructured (Suc fuel) l = (case l of
     [] \<Rightarrow> Inl (AssertFailed ''Malformed layout!'')
   | None # l' \<Rightarrow> Inl NullDeref
   | Some main # l' \<Rightarrow>
       if \<not> hasChildren (obj_kind main) then Inr (SimpleLayout (toTypeString main) None, l')
       else if isNodeRequiringReduceMarker main
       then bindE (consume_until_reduce fuel l') (\<lambda>(cs, l'').
         Inr (SimpleLayout (toTypeString main) (Some (cs @ [SimpleLayout reduce_marker_text None])),
           tl l''))
       else bindE (consume_times fuel (getKnownAmountOfChildren (obj_kind main)) l') (\<lambda>(cs, l'').
         Inr (SimpleLayout (toTypeString main) (Some (cs @ [SimpleLayout obvious_reduce_text None])),
           l'')))"
| "consume_until_reduce 0 l = Inl OutOfFuel"
| "consume_until_reduce (Suc fuel) l = (case l of
     [] \<Rightarrow> Inl OutOfBounds
   | None # l' \<Rightarrow> Inr ([], l)
   | Some n # l' \<Rightarrow> bindE (createStructured fuel l) (\<lambda>(c, l).
       bindE (consume_until_reduce fuel l) (\<lambda>(cs, l). Inr (c # cs, l))))"
| "consume_times 0 count l = Inl OutOfFuel"
| "consume_times (Suc fuel) count l = (case count of
     0 \<Rightarrow> Inr ([], l)
   | Suc count' \<Rightarrow>
       if l = [] then Inl (AssertFailed ''Malformed layout!'')
       else if hd l = None then Inl (AssertFailed ''Expected a valid node here!'')
       else bindE (createStructured fuel l) (\<lambda>(c, l).
         bindE (consume_times fuel count' l) (\<lambda>(cs, l). Inr (c # cs, l))))"

definition dumpLayout :: "layout \<Rightarrow> simple_layout res" where
  "dumpLayout l = bindE (createStructured (2 * length l + 1) l) (\<lambda>(node, rest).
     bindE (assertE (rest = []) ''Expected to be at the end of the layout!'') (\<lambda>_. Inr node))"

text \<open>What a tree looks like in a structured dump.\<close>

fun structure_of :: "ast \<Rightarrow> simple_layout" where
  "structure_of t = SimpleLayout (toTypeString (obj_of t))
     (if hasChildren (getKind t)
      then Some (map structure_of (children t) @ [SimpleLayout
        (if isRequiringReduceMarker (getKind t) then reduce_marker_text else obvious_reduce_text) None])
      else None)"

declare structure_of.simps [simp del]

lemma nonmarker_amount:
  "hasChildren (getKind t) \<Longrightarrow> \<not> isRequiringReduceMarker (getKind t) \<Longrightarrow>
   getKnownAmountOfChildren (getKind t) = length (children t)"
  using children_known_amount [of t]
  by (auto simp: isRequiringReduceMarker_def hasUnknownAmountOfChildren_def split: if_splits)

lemma consume_step:
  "consume_until_reduce (Suc n) (flatten c @ r) = bindE (createStructured n (flatten c @ r)) (\<lambda>(x, l).
     bindE (consume_until_reduce n l) (\<lambda>(xs, l). Inr (x # xs, l)))"
  "consume_times (Suc n) (Suc m) (flatten c @ r) = bindE (createStructured n (flatten c @ r)) (\<lambda>(x, l).
     bindE (consume_times n m l) (\<lambda>(xs, l). Inr (x # xs, l)))"
  by (simp_all add: flatten_eq [of c])

lemma consume_children:
  assumes "\<And>c fuel rest. c \<in> set cs \<Longrightarrow> 2 * node_count c \<le> fuel \<Longrightarrow>
    createStructured fuel (flatten c @ rest) = Inr (structure_of c, rest)"
    and "Suc (2 * length (nodes_of cs)) \<le> fuel"
  shows "consume_until_reduce fuel (flattens cs @ None # rest) = Inr (map structure_of cs, None # rest)"
    and "consume_times fuel (length cs) (flattens cs @ rest) = Inr (map structure_of cs, rest)"
proof -
  have "consume_until_reduce fuel (flattens cs @ None # rest) = Inr (map structure_of cs, None # rest)
    \<and> consume_times fuel (length cs) (flattens cs @ rest') = Inr (map structure_of cs, rest')" for rest'
    using assms
  proof (induction cs arbitrary: fuel)
    case Nil
    then obtain n where "fuel = Suc n" by (cases fuel) auto
    then show ?case by simp
  next
    case (Cons c cs)
    have "0 < length (nodes c)" by (simp add: nodes_eq)
    then have "Suc (2 * node_count c) \<le> fuel" "Suc (Suc (2 * length (nodes_of cs))) \<le> fuel"
      using Cons.prems(2) unfolding node_count_def nodes_of_simps length_append by presburger+
    then have "0 < fuel" "2 * node_count c \<le> fuel - 1"
      "Suc (2 * length (nodes_of cs)) \<le> fuel - 1"
      by simp_all
    then obtain n where n: "fuel = Suc n" "2 * node_count c \<le> n"
      "Suc (2 * length (nodes_of cs)) \<le> n"
      by (cases fuel) auto
    have c: "createStructured n (flatten c @ r) = Inr (structure_of c, r)" for r
      using Cons.prems(1) n(2) by simp
    show ?case
      using c Cons.IH [OF Cons.prems(1) n(3)]
      by (simp add: n(1) consume_step
          del: consume_until_reduce.simps consume_times.simps createStructured.simps)
  qed
  then show "consume_until_reduce fuel (flattens cs @ None # rest) = Inr (map structure_of cs, None # rest)"
    "consume_times fuel (length cs) (flattens cs @ rest) = Inr (map structure_of cs, rest)" by auto
qed

theorem createStructured_flatten:
  "2 * node_count t \<le> fuel \<Longrightarrow> createStructured fuel (flatten t @ rest) = Inr (structure_of t, rest)"
proof (induction t arbitrary: fuel rest rule: ast_children_induct)
  case (node t)
  let ?cs = "children t"
  obtain n where n: "fuel = Suc n" "Suc (2 * length (nodes_of ?cs)) \<le> n"
    using node.prems by (cases fuel) (auto simp: node_count_def nodes_eq [of t])
  show ?case
    using consume_children [of ?cs n, OF node.IH n(2)] n(1)
    by (auto simp: flatten_eq [of t] structure_of.simps [of t] isNodeRequiringReduceMarker_def
        children_leaf nonmarker_amount dest: requiring_marker_has_children)
qed

lemma node_count_flatten: "node_count t \<le> length (flatten t)"
proof (induction t rule: ast_children_induct)
  case (node t)
  have "sum_list (map node_count cs) \<le> length (flattens cs)"
    if "\<And>c. c \<in> set cs \<Longrightarrow> node_count c \<le> length (flatten c)" for cs
    using that by (induction cs) (auto intro: add_mono)
  from this [of "children t"] node show ?case
    by (simp add: node_count_children [of t] flatten_eq [of t])
qed

theorem dumpLayout_flatten: "dumpLayout (flatten t) = Inr (structure_of t)"
  using createStructured_flatten [of t "2 * length (flatten t) + 1" "[]"] node_count_flatten [of t]
  by (simp add: dumpLayout_def assertE_def)

text \<open>The fuel is enough for any layout, whatever it holds.\<close>

definition shorter :: "layout \<Rightarrow> nat \<Rightarrow> ('a \<times> layout) res \<Rightarrow> bool" where
  "shorter l k r \<longleftrightarrow> wpE (\<lambda>e. e \<noteq> OutOfFuel) r (\<lambda>(x, l'). length l' + k \<le> length l)"

lemma structured_total:
  "2 * length l < fuel \<Longrightarrow> shorter l 1 (createStructured fuel l)"
  "2 * length l + 1 < fuel \<Longrightarrow> shorter l 0 (consume_until_reduce fuel l)"
  "2 * length l + 1 < fuel \<Longrightarrow> shorter l 0 (consume_times fuel count l)"
proof (induction fuel l and fuel l and fuel count l
    rule: createStructured_consume_until_reduce_consume_times.induct)
  case (2 fuel l)
  then show ?case
    by (cases "consume_until_reduce fuel (tl l)";
        cases "consume_times fuel (getKnownAmountOfChildren (obj_kind (the (hd l)))) (tl l)")
      (auto simp: shorter_def split: list.split option.split)
next
  case (4 fuel l)
  show ?case
  proof (cases l)
    case (Cons x l')
    show ?thesis
    proof (cases x)
      case (Some n)
      from 4 Cons Some have s: "shorter l 1 (createStructured fuel l)" by simp
      show ?thesis
      proof (cases "createStructured fuel l")
        case (Inr r)
        obtain c l1 where r: "r = (c, l1)" by (cases r)
        with s Inr Cons have len: "length l1 \<le> length l'" by (simp add: shorter_def)
        with 4 Cons Some Inr r have "shorter l1 0 (consume_until_reduce fuel l1)" by simp
        with len Inr r Cons Some show ?thesis
          by (cases "consume_until_reduce fuel l1") (auto simp: shorter_def)
      qed (use s Cons Some in \<open>simp add: shorter_def\<close>)
    qed (use Cons in \<open>simp add: shorter_def\<close>)
  qed (simp add: shorter_def)
next
  case (6 fuel count l)
  show ?case
  proof (cases "count = 0 \<or> l = [] \<or> hd l = None")
    case False
    then obtain m where m: "count = Suc m" "l \<noteq> []" "hd l \<noteq> None" by (cases count) auto
    from 6 m have s: "shorter l 1 (createStructured fuel l)" by simp
    show ?thesis
    proof (cases "createStructured fuel l")
      case (Inr r)
      obtain c l1 where r: "r = (c, l1)" by (cases r)
      with s Inr have len: "Suc (length l1) \<le> length l" by (simp add: shorter_def)
      with 6 m Inr r have "shorter l1 0 (consume_times fuel m l1)" by simp
      with len Inr r m show ?thesis
        by (cases "consume_times fuel m l1") (auto simp: shorter_def)
    qed (use s m in \<open>simp add: shorter_def\<close>)
  qed (auto simp: shorter_def split: nat.split)
qed (simp_all add: shorter_def)

theorem dumpLayout_total: "dumpLayout l \<noteq> Inl OutOfFuel"
  using structured_total(1) [of l "2 * length l + 1"]
  by (cases "createStructured (2 * length l + 1) l")
    (auto simp: dumpLayout_def shorter_def assertE_def simp del: createStructured.simps split: if_splits)

end
