(* ===== verification/Parser.thy ===== *)
theory Parser imports Visitor_Trees Reader_Footprint Tooling begin

text \<open>
  From tokens to the syntax tree: \<^verbatim>\<open>src/Parse/ASTParser.cpp\<close>, with the error listener of
  \<^verbatim>\<open>src/Diag/DiagnosticListener.cpp\<close> and the invocation of \<^verbatim>\<open>src/Frontend/CompilerInvocation\<close>. The lexer and the
  parser ANTLR generates are not under \<^verbatim>\<open>src/\<close>: what they give the compiler, the syntax errors
  they report and the parse tree, is an argument.
\<close>

section \<open>The invocation\<close>

datatype emit_action = EmitNone | EmitTokens | EmitFlatLayout | EmitLayout | EmitAST

datatype opt_level = OptDebug | O1 | O2 | O3

datatype verbose_flag = VAll | VShipments | VInstantiations | VInstantiatedLayout
  | VInstantiatedAST | VInstantiatedExports

fun verbose_bit :: "verbose_flag \<Rightarrow> nat" where
  "verbose_bit VAll = 0"
| "verbose_bit VShipments = 1"
| "verbose_bit VInstantiations = 2"
| "verbose_bit VInstantiatedLayout = 3"
| "verbose_bit VInstantiatedAST = 4"
| "verbose_bit VInstantiatedExports = 5"

text \<open>The flags are a bit set of the 32 bits of an \<^verbatim>\<open>unsigned\<close>.\<close>

record invocation =
  emitAction :: emit_action
  optLevel :: opt_level
  verboseFlags :: "32 word"

definition setEmitAction :: "emit_action \<Rightarrow> invocation \<Rightarrow> invocation" where
  "setEmitAction a i = i\<lparr>emitAction := a\<rparr>"

definition hasEmitAction :: "invocation \<Rightarrow> emit_action \<Rightarrow> bool" where
  "hasEmitAction i a \<longleftrightarrow> emitAction i = a"

definition setVerboseFlags :: "32 word \<Rightarrow> invocation \<Rightarrow> invocation" where
  "setVerboseFlags fs i = (let i = i\<lparr>verboseFlags := fs\<rparr> in
     if bit (verboseFlags i) (verbose_bit VAll) then i\<lparr>verboseFlags := not 0\<rparr> else i)"

definition hasVerboseFlag :: "invocation \<Rightarrow> verbose_flag \<Rightarrow> bool" where
  "hasVerboseFlag i f \<longleftrightarrow> bit (verboseFlags i) (verbose_bit f)"

lemma verbose_bit_less: "verbose_bit f < 32"
  by (cases f) simp_all

lemma hasVerboseFlag_set:
  "hasVerboseFlag (setVerboseFlags fs i) f \<longleftrightarrow> bit fs (verbose_bit f) \<or> bit fs (verbose_bit VAll)"
  using verbose_bit_less [of f]
  by (simp add: hasVerboseFlag_def setVerboseFlags_def Let_def bit_not_iff)

section \<open>Syntax errors\<close>

text \<open>Who reports: a parser with its current token's text and the tokens it expects.\<close>

datatype recognizer = LexerRecognizer | ParserRecognizer string "string list" | OtherRecognizer

record syntax_error =
  se_recognizer :: recognizer
  se_line :: nat
  se_column :: nat
  se_msg :: string

definition syntaxError :: "string \<Rightarrow> syntax_error \<Rightarrow> engine \<Rightarrow> engine" where
  "syntaxError buf err e =
     (let location = fromSource buf (se_line err) (se_column err);
          (diag, e) = createDiagnosticBuilder ErrorGenericParserFault [ArgStr (se_msg err)] location e;
          diag = (case se_recognizer err of
              LexerRecognizer \<Rightarrow> builder_addFixItReplace (Diagnostics.extend location 1) [] diag
            | ParserRecognizer current expected \<Rightarrow>
                (let size = length current;
                     diag = (if size > 1 then builder_addRange (Diagnostics.extend location size) diag
                       else diag)
                 in fold (builder_addFixItInsert location) expected diag)
            | OtherRecognizer \<Rightarrow> diag)
      in builder_destroy diag e)"

lemma fold_inserts_ownership: "bld_ownership (fold (builder_addFixItInsert l) ts b) = bld_ownership b"
  by (induction ts arbitrary: b) (simp_all add: builder_addFixItInsert_def)

lemma printed_severity_inserts:
  "msg_severity (bld_message (fold (builder_addFixItInsert l) ts b)) = msg_severity (bld_message b)"
  by (induction ts arbitrary: b) (simp_all add: builder_addFixItInsert_def)

lemma getOccurrenceCount_destroy [simp]:
  "getOccurrenceCount (builder_destroy b e) s = getOccurrenceCount e s"
  by (simp add: builder_destroy_def consumeDiagnostic_def)

lemma getOccurrenceCount_syntaxError:
  "getOccurrenceCount (syntaxError buf err e) s = getOccurrenceCount e s + (if s = Error then 1 else 0)"
  by (simp add: syntaxError_def createDiagnosticBuilder_def Let_def count_occurrence_count eq_commute
      del: getOccurrenceCount.simps count_occurrence.simps)

definition syntaxErrors :: "string \<Rightarrow> syntax_error list \<Rightarrow> engine \<Rightarrow> engine" where
  "syntaxErrors buf errs e = fold (syntaxError buf) errs e"

lemma getOccurrenceCount_syntaxErrors:
  "getOccurrenceCount (syntaxErrors buf errs e) s
     = getOccurrenceCount e s + (if s = Error then length errs else 0)"
  by (induction errs arbitrary: e)
    (simp_all add: syntaxErrors_def getOccurrenceCount_syntaxError del: getOccurrenceCount.simps)

section \<open>Parsing\<close>

datatype 'a parse_outcome =
    ParseAborted nat \<comment> \<open>no result; the number of errors that is logged\<close>
  | DumpedFlatLayout "simple_layout list"
  | DumpedLayout simple_layout
  | Parsed 'a

text \<open>
  The result is a fragment: the tree, and the context that owns its nodes. The context is what the
  nodes point to, in the state of the reader, and where the next node is allocated.
\<close>

record fragment =
  fr_unit :: ast
  fr_next :: addr
  fr_reader :: reader

text \<open>\<open>canContinue\<close> logs the number of errors when there are any.\<close>

definition canContinue ::
    "engine \<Rightarrow> ('a parse_outcome \<times> engine) res \<Rightarrow> ('a parse_outcome \<times> engine) res" where
  "canContinue e continue = (if hasErrors e
     then Inr (ParseAborted (getOccurrenceCount e Error), e) else continue)"

definition first_address :: addr where
  "first_address = 0"

definition parseFragment :: "params \<Rightarrow> vparams \<Rightarrow> invocation \<Rightarrow> syntax_error list \<Rightarrow> ptree \<Rightarrow> engine
    \<Rightarrow> (fragment parse_outcome \<times> engine) res" where
  "parseFragment p vp ci errs pt e =
     (let e = syntaxErrors (source_text vp) errs e in
      canContinue e (
      bindE (visit vp pt \<lparr>next_addr = first_address, written = [], v_engine = e\<rparr>) (\<lambda>st.
      let layout = written st; e = v_engine st in
      canContinue e (
      if hasEmitAction ci EmitFlatLayout then Inr (DumpedFlatLayout (dumpFlatLayout layout), e)
      else if hasEmitAction ci EmitLayout
      then bindE (dumpLayout layout) (\<lambda>d. Inr (DumpedLayout d, e))
      else bindE (readCompilationUnit p e layout) (\<lambda>(main, s).
        bindE (builder_destroy_check s) (\<lambda>_.
        canContinue (engine_of s)
          (Inr (Parsed \<lparr>fr_unit = main, fr_next = next_addr st, fr_reader = s\<rparr>, engine_of s))))))))"

text \<open>The tree of the fragment alone.\<close>

definition parse :: "params \<Rightarrow> vparams \<Rightarrow> invocation \<Rightarrow> syntax_error list \<Rightarrow> ptree \<Rightarrow> engine
    \<Rightarrow> (ast parse_outcome \<times> engine) res" where
  "parse p vp ci errs pt e = bindE (parseFragment p vp ci errs pt e) (\<lambda>(outcome, e).
     Inr (map_parse_outcome fr_unit outcome, e))"

lemma errors_v_report: "hasErrors (v_engine (v_report ds st)) \<longleftrightarrow>
    hasErrors (v_engine st) \<or> (\<exists>(d, i) \<in> set ds. getDiagnosticSeverity d = Error)"
proof -
  have "hasErrors (fold (\<lambda>(d, i). diagnoseAt d i [ArgStr (getType i)]) ds e) \<longleftrightarrow>
      hasErrors e \<or> (\<exists>(d, i) \<in> set ds. getDiagnosticSeverity d = Error)" for e
    by (induction ds arbitrary: e) auto
  then show ?thesis by (simp add: v_report_def)
qed

text \<open>Whatever the visitor reports is an error.\<close>

lemma node_for_errors:
  "node_for vp r cs = Inr (p, ds) \<Longrightarrow> \<forall>(d, i) \<in> set ds. getDiagnosticSeverity d = Error"
  by (cases r) (auto simp: visit_defs deref_def bindE_eq_Inr Let_def split: option.splits if_splits)

lemma complaints_errors: "\<forall>(d, i) \<in> set (complaints vp pt). getDiagnosticSeverity d = Error"
proof (induction pt)
  case (Context r cs)
  show ?case
  proof (cases "node_for vp r cs")
    case (Inr x)
    obtain p ds where x: "x = (p, ds)" by (cases x)
    have "\<forall>y \<in> set (concat (map (complaints vp) cs)). case y of (d, i) \<Rightarrow> getDiagnosticSeverity d = Error"
      using Context by auto
    with node_for_errors [of vp r cs p ds] Inr x show ?thesis
      by (auto simp: complaints.simps(2) simp del: set_concat split: option.split)
  qed (simp add: complaints.simps(2))
qed simp

text \<open>
  A conforming parse tree of a whole source file: with syntax errors, or a literal or type the
  visitor objects to, there is no result; otherwise the result is the tree the parse tree denotes,
  resolved, if no name is unknown or declared twice.
\<close>

definition denoted_unit :: "vparams \<Rightarrow> ptree list \<Rightarrow> ast" where
  "denoted_unit vp cs = CompilationUnit first_address (build_all vp cs (Suc first_address))"

text \<open>A fragment of a unit: its top level declarations, and no other node, know the unit.\<close>

definition fragment_of :: "ast \<Rightarrow> ast \<Rightarrow> fragment \<Rightarrow> bool" where
  "fragment_of t u fr \<longleftrightarrow> fr_unit fr = u
     \<and> containingUnit (fr_reader fr) = (\<lambda>k. if k \<in> addr_of ` set (children t) then Some (obj_of t) else None)
     \<and> exportedNode (fr_reader fr) = Map.empty \<and> dom (unitScope (fr_reader fr)) = {addr_of t}"

theorem parseFragment_unit:
  fixes vp
  assumes c: "conforms None (Context R_compilationUnit cs)" and e: "\<not> hasErrors e"
  defines "t \<equiv> denoted_unit vp cs" and "pt \<equiv> Context R_compilationUnit cs"
  shows "\<exists>outcome e'. parseFragment p vp ci errs pt e = Inr (outcome, e') \<and>
    (if errs \<noteq> [] then outcome = ParseAborted (length errs)
     else if complaints vp pt \<noteq> [] then \<exists>n. outcome = ParseAborted n
     else if hasEmitAction ci EmitFlatLayout then outcome = DumpedFlatLayout (dumpFlatLayout (flatten t))
     else if hasEmitAction ci EmitLayout then outcome = DumpedLayout (structure_of t)
     else if unit_err shadows_nothing Map.empty t then \<exists>n. outcome = ParseAborted n
     else (\<exists>fr. outcome = Parsed fr \<and> fragment_of t (unit_tree shadows_nothing Map.empty t) fr) \<and> \<not> hasErrors e')"
proof (cases "errs = []")
  case False
  have "getOccurrenceCount e Error = 0" using e by (simp add: hasErrors_def)
  with False show ?thesis
    by (simp add: parseFragment_def canContinue_def hasErrors_def getOccurrenceCount_syntaxErrors Let_def
        del: getOccurrenceCount.simps)
next
  case True
  let ?st = "\<lparr>next_addr = first_address, written = [], v_engine = e\<rparr>"
  have b: "build vp pt first_address = [t]"
    using build_unit(1) [OF c, of vp first_address] by (simp add: pt_def t_def denoted_unit_def)
  obtain st where st: "visit vp pt ?st = Inr st" "visited_as (complaints vp pt) [t] ?st st"
    using visit_ok [OF c, of vp ?st] b by (auto simp: pt_def occurs_at_def)
  then have w: "written st = flatten t" "v_engine st = v_engine (v_report (complaints vp pt) ?st)"
    "distinct (map addr_of (nodes t))"
    by (auto simp: visited_as_def)
  show ?thesis
  proof (cases "complaints vp pt = []")
    case False
    then obtain d i where "(d, i) \<in> set (complaints vp pt)" by (cases "complaints vp pt") auto
    then have "hasErrors (v_engine st)"
      using complaints_errors [of vp pt] w(2) by (fastforce simp: errors_v_report)
    with True False st(1) e show ?thesis
      by (auto simp: parseFragment_def canContinue_def syntaxErrors_def Let_def)
  next
    case quiet: True
    then have ve: "v_engine st = e" using w(2) by (simp add: v_report_def)
    have "lits_ok vp pt" using quiet_lits_ok [OF c refl] quiet by (simp add: pt_def)
    then have ok: "unit_ok t" using build_unit(2) [OF c] by (simp add: pt_def t_def denoted_unit_def)
    obtain s where r: "readCompilationUnit p e (flatten t) = Inr (unit_tree shadows_nothing Map.empty t, s)"
      and "hasErrors (engine_of s) \<longleftrightarrow> hasErrors e \<or> unit_err shadows_nothing Map.empty t"
      and "currentScope s = []"
      using readCompilationUnit_unit [of first_address "build_all vp cs (Suc first_address)" p e "[]"]
        ok w(3) by (auto simp: t_def denoted_unit_def)
    moreover from readCompilationUnit_maps [OF ok [unfolded t_def denoted_unit_def]] r
    have "fragment_of t u \<lparr>fr_unit = u, fr_next = n, fr_reader = s\<rparr>" for u n
      by (simp add: fragment_of_def t_def denoted_unit_def cong: if_cong)
    ultimately show ?thesis using True quiet st(1) w(1) ve e
      by (auto simp: parseFragment_def canContinue_def syntaxErrors_def Let_def dumpLayout_flatten
          builder_destroy_check_def isInAnyScope_def assertE_def)
  qed
qed

theorem parse_unit:
  fixes vp
  assumes "conforms None (Context R_compilationUnit cs)" and "\<not> hasErrors e"
  defines "t \<equiv> denoted_unit vp cs" and "pt \<equiv> Context R_compilationUnit cs"
  shows "\<exists>outcome e'. parse p vp ci errs pt e = Inr (outcome, e') \<and>
    (if errs \<noteq> [] then outcome = ParseAborted (length errs)
     else if complaints vp pt \<noteq> [] then \<exists>n. outcome = ParseAborted n
     else if hasEmitAction ci EmitFlatLayout then outcome = DumpedFlatLayout (dumpFlatLayout (flatten t))
     else if hasEmitAction ci EmitLayout then outcome = DumpedLayout (structure_of t)
     else if unit_err shadows_nothing Map.empty t then \<exists>n. outcome = ParseAborted n
     else outcome = Parsed (unit_tree shadows_nothing Map.empty t) \<and> \<not> hasErrors e')"
proof -
  from parseFragment_unit [OF assms(1,2), of p vp ci errs, folded t_def pt_def] obtain outcome e' where
    o: "parseFragment p vp ci errs pt e = Inr (outcome, e')" and
    "if errs \<noteq> [] then outcome = ParseAborted (length errs)
     else if complaints vp pt \<noteq> [] then \<exists>n. outcome = ParseAborted n
     else if hasEmitAction ci EmitFlatLayout then outcome = DumpedFlatLayout (dumpFlatLayout (flatten t))
     else if hasEmitAction ci EmitLayout then outcome = DumpedLayout (structure_of t)
     else if unit_err shadows_nothing Map.empty t then \<exists>n. outcome = ParseAborted n
     else (\<exists>fr. outcome = Parsed fr \<and> fragment_of t (unit_tree shadows_nothing Map.empty t) fr) \<and> \<not> hasErrors e'"
    by blast
  then show ?thesis
    by (intro exI [of _ "map_parse_outcome fr_unit outcome"] exI [of _ e'])
      (auto simp: parse_def o fragment_of_def split: if_splits)
qed

end
