(* ===== verification/Sema.thy ===== *)
theory Sema imports Grammar Diagnostics begin

text \<open>
  The semantic checks of \<^verbatim>\<open>src/Sema/SemaAnalysis\<close> on top of the generic visitor of
  \<^verbatim>\<open>src/AST/ASTVisitor.hpp\<close>. The analysis keeps the nodes on the path from the root to the current
  node; \<open>behind k\<close> is the node \<open>k\<close> steps above the current one.

  A declaration that a reference resolves to is looked up in \<open>heap\<close>, the nodes by their address.
\<close>

type_synonym heap = "addr \<Rightarrow> ast option"

definition load :: "heap \<Rightarrow> addr \<Rightarrow> ast res" where
  "load h a = (case h a of None \<Rightarrow> Inl NullDeref | Some t \<Rightarrow> Inr t)"

lemma load_Some [simp]: "h a = Some t \<Longrightarrow> load h a = Inr t"
  by (simp add: load_def)

section \<open>The state of the analysis\<close>

text \<open>The path is a stack: its head is the back of the vector \<^verbatim>\<open>depth_\<close>.\<close>

record sema =
  sema_depth :: "ast list"
  sema_engine :: engine

definition sema_new :: "engine \<Rightarrow> sema" where
  "sema_new e = \<lparr>sema_depth = [], sema_engine = e\<rparr>"

definition behind :: "nat \<Rightarrow> sema \<Rightarrow> ast res" where
  "behind back s = (if back < length (sema_depth s) then Inr (sema_depth s ! back) else Inl OutOfBounds)"

definition sema_report :: "(engine \<Rightarrow> engine) \<Rightarrow> sema \<Rightarrow> sema" where
  "sema_report d s = s\<lparr>sema_engine := d (sema_engine s)\<rparr>"

definition note_declared_here :: "ident \<Rightarrow> sema \<Rightarrow> sema" where
  "note_declared_here n = sema_report (diagnoseAt NoteDeclarationHint n [ArgStr (getType n)])"

section \<open>The checks of the visit methods\<close>

definition isIdentifierReserved :: "ident \<Rightarrow> bool" where
  "isIdentifierReserved i \<longleftrightarrow> getType i = ''int''"

definition visit_FunctionDecl :: "ident \<Rightarrow> sema \<Rightarrow> sema" where
  "visit_FunctionDecl n s = (if isIdentifierReserved n
     then sema_report (diagnoseAt ErrorFunctionNameReserved n [ArgStr (getType n)]) s else s)"

definition visit_MetaDecl :: "ident \<Rightarrow> sema \<Rightarrow> sema" where
  "visit_MetaDecl n s = (if isIdentifierReserved n
     then sema_report (diagnoseAt ErrorMetaNameReserved n [ArgStr (getType n)]) s else s)"

definition visit_IfStmt :: "ast \<Rightarrow> sema \<Rightarrow> sema" where
  "visit_IfStmt condition s = (case condition of
     BinaryOperatorExpr a b l r \<Rightarrow>
       if getType b = OperatorAssign
       then sema_report (diagnoseRange WarningDidYouMeanEquals (getAnnotation b) []) s else s
   | _ \<Rightarrow> s)"

text \<open>
  A call of a resolved reference: the result of a function without a return type may only be
  dropped, the number of arguments must fit, and anything but a function is not callable. The guard
  of the last case asks for the class of the callee expression, which is never a meta declaration.
\<close>

definition report_void_call :: "ident \<Rightarrow> ident \<Rightarrow> sema \<Rightarrow> sema" where
  "report_void_call ref fn s =
     note_declared_here fn
       (sema_report (diagnoseAt ErrorFunctionCallReturnsVoid ref [ArgStr (getType ref)]) s)"

definition report_call_count :: "ident \<Rightarrow> ident \<Rightarrow> nat \<Rightarrow> nat \<Rightarrow> sema \<Rightarrow> sema" where
  "report_call_count ref fn actual expected s =
     note_declared_here fn
       (sema_report (diagnoseAt ErrorFunctionCallArgCountMismatch ref
          [ArgStr (getType ref), ArgNat actual, ArgNat expected]) s)"

definition report_not_callable :: "ident \<Rightarrow> obj \<Rightarrow> sema \<Rightarrow> sema" where
  "report_not_callable ref decl s =
     note_declared_here (getName decl) (sema_report (diagnoseAt ErrorCanOnlyCallFunctions ref []) s)"

definition visit_CallOperatorExpr :: "heap \<Rightarrow> ast \<Rightarrow> ast list \<Rightarrow> sema \<Rightarrow> sema res" where
  "visit_CallOperatorExpr h callee es s = (case callee of
     DeclRefExpr a n (Some d) \<Rightarrow> bindE (load h d) (\<lambda>decl. case decl of
       FunctionDecl f fn args ret body \<Rightarrow>
         bindE (if ret = None
           then bindE (behind 1 s) (\<lambda>up. Inr (getKind up \<noteq> KindExpressionStmt)) else Inr False) (\<lambda>void.
         let s = (if void then report_void_call n fn s else s);
             actual = length es; expected = length (children args)
         in Inr (if actual \<noteq> expected then report_call_count n fn actual expected s else s))
     | _ \<Rightarrow>
         if getKind callee \<noteq> KindMetaDecl
         then (if isNamedDeclContext (getKind decl) then Inr (report_not_callable n (obj_of decl) s)
           else Inl (Unreachable ''Expected the node to match the predicate!''))
         else Inr s)
   | _ \<Rightarrow> Inr s)"

text \<open>
  A meta instantiation: integer literals as arguments, a meta declaration to instantiate, and the
  number of arguments it takes. A reference that is not resolved, and one that resolves to something
  else than a meta declaration, make the check dereference a null pointer.
\<close>

definition report_meta_argument :: "source_range \<Rightarrow> ast \<Rightarrow> sema \<Rightarrow> sema" where
  "report_meta_argument rg arg s = (if getKind arg \<noteq> KindIntegerLiteralExpr
     then sema_report (diagnoseRange ErrorIntegralForMetaDecl rg []) s else s)"

definition report_meta_count :: "source_range \<Rightarrow> ident \<Rightarrow> nat \<Rightarrow> nat \<Rightarrow> sema \<Rightarrow> sema" where
  "report_meta_count rg dn actual expected s =
     note_declared_here dn
       (sema_report (diagnoseRange ErrorInstantiationArgCountMismatch rg
          [ArgStr (getType dn), ArgNat actual, ArgNat expected]) s)"

definition visit_MetaInstantiationExpr ::
    "heap \<Rightarrow> source_range \<Rightarrow> ast \<Rightarrow> ast list \<Rightarrow> sema \<Rightarrow> sema res" where
  "visit_MetaInstantiationExpr h rg ref es s =
     (let s = fold (report_meta_argument rg) es s in
      case ref of
        DeclRefExpr a n (Some d) \<Rightarrow> bindE (load h d) (\<lambda>decl. case decl of
          MetaDecl m dn args contribution \<Rightarrow>
            (let expected = length (children args); actual = length es
             in Inr (if expected \<noteq> actual then report_meta_count rg dn actual expected s else s))
        | _ \<Rightarrow>
            (let s = sema_report (diagnoseRange ErrorInstantiatedNonMetaDecl rg [ArgStr (getType n)]) s
             in Inl NullDeref))
      | DeclRefExpr a n None \<Rightarrow> Inl NullDeref
      | _ \<Rightarrow> Inl BadCast)"

fun sema_check :: "heap \<Rightarrow> ast \<Rightarrow> sema \<Rightarrow> sema res" where
  "sema_check h (FunctionDecl a n args r b) s = Inr (visit_FunctionDecl n s)"
| "sema_check h (MetaDecl a n args c) s = Inr (visit_MetaDecl n s)"
| "sema_check h (IfStmt a c t f) s = Inr (visit_IfStmt c s)"
| "sema_check h (CallOperatorExpr a c es) s = visit_CallOperatorExpr h c es s"
| "sema_check h (MetaInstantiationExpr a rg d es) s = visit_MetaInstantiationExpr h rg d es s"
| "sema_check h t s = Inr s"

section \<open>The traversal\<close>

text \<open>\<open>accept\<close> with the visit method it selects: the checks of the class, then the children.\<close>

definition sema_enter :: "ast \<Rightarrow> sema \<Rightarrow> sema" where
  "sema_enter t s = s\<lparr>sema_depth := t # sema_depth s\<rparr>"

definition sema_leave :: "sema \<Rightarrow> sema" where
  "sema_leave s = s\<lparr>sema_depth := tl (sema_depth s)\<rparr>"

fun accept :: "heap \<Rightarrow> ast \<Rightarrow> sema \<Rightarrow> sema res" where
  "accept h t s =
     bindE (sema_check h t (sema_enter t s)) (\<lambda>s.
     bindE (foldE (accept h) (children t) s) (\<lambda>s.
     Inr (sema_leave s)))"

declare accept.simps [simp del]

definition checkAST :: "heap \<Rightarrow> ast \<Rightarrow> engine \<Rightarrow> engine res" where
  "checkAST h base e = bindE (accept h base (sema_new e)) (\<lambda>s. Inr (sema_engine s))"

section \<open>What is checked\<close>

text \<open>
  The complaints about one node, given the class of the node above it, and those about a tree in the
  order of its nodes.
\<close>

type_synonym complaint = "diagnostic \<times> source_range \<times> diag_arg list"

definition at_name :: "diagnostic \<Rightarrow> ident \<Rightarrow> diag_arg list \<Rightarrow> complaint" where
  "at_name d i args = (d, getAnnotation i, args)"

definition declared_here :: "ident \<Rightarrow> complaint" where
  "declared_here i = at_name NoteDeclarationHint i [ArgStr (getType i)]"

definition reserved_name :: "diagnostic \<Rightarrow> ident \<Rightarrow> complaint list" where
  "reserved_name d i = (if isIdentifierReserved i then [at_name d i [ArgStr (getType i)]] else [])"

definition assignment_condition :: "ast \<Rightarrow> complaint list" where
  "assignment_condition c = (case c of
     BinaryOperatorExpr a b l r \<Rightarrow>
       if getType b = OperatorAssign then [(WarningDidYouMeanEquals, getAnnotation b, [])] else []
   | _ \<Rightarrow> [])"

definition call_complaints :: "heap \<Rightarrow> bool \<Rightarrow> ast \<Rightarrow> ast list \<Rightarrow> complaint list" where
  "call_complaints h dropped callee es = (case callee of
     DeclRefExpr a n (Some d) \<Rightarrow> (case h d of
       Some (FunctionDecl f fn args ret body) \<Rightarrow>
         (if ret = None \<and> \<not> dropped
          then [at_name ErrorFunctionCallReturnsVoid n [ArgStr (getType n)], declared_here fn] else [])
         @ (if length es \<noteq> length (children args)
          then [at_name ErrorFunctionCallArgCountMismatch n
                  [ArgStr (getType n), ArgNat (length es), ArgNat (length (children args))],
                declared_here fn] else [])
     | Some decl \<Rightarrow> [at_name ErrorCanOnlyCallFunctions n [], declared_here (getName (obj_of decl))]
     | None \<Rightarrow> [])
   | _ \<Rightarrow> [])"

definition meta_complaints :: "heap \<Rightarrow> source_range \<Rightarrow> ast \<Rightarrow> ast list \<Rightarrow> complaint list" where
  "meta_complaints h rg ref es =
     map (\<lambda>e. (ErrorIntegralForMetaDecl, rg, [])) (filter (\<lambda>e. getKind e \<noteq> KindIntegerLiteralExpr) es)
     @ (case ref of
          DeclRefExpr a n (Some d) \<Rightarrow> (case h d of
            Some (MetaDecl m dn args c) \<Rightarrow>
              if length (children args) \<noteq> length es
              then [(ErrorInstantiationArgCountMismatch, rg,
                      [ArgStr (getType dn), ArgNat (length es), ArgNat (length (children args))]),
                    declared_here dn] else []
          | _ \<Rightarrow> [])
        | _ \<Rightarrow> [])"

fun node_complaints :: "heap \<Rightarrow> ast_kind option \<Rightarrow> ast \<Rightarrow> complaint list" where
  "node_complaints h up (FunctionDecl a n args r b) = reserved_name ErrorFunctionNameReserved n"
| "node_complaints h up (MetaDecl a n args c) = reserved_name ErrorMetaNameReserved n"
| "node_complaints h up (IfStmt a c t f) = assignment_condition c"
| "node_complaints h up (CallOperatorExpr a c es) =
     call_complaints h (up = Some KindExpressionStmt) c es"
| "node_complaints h up (MetaInstantiationExpr a rg d es) = meta_complaints h rg d es"
| "node_complaints h up t = []"

fun tree_complaints :: "heap \<Rightarrow> ast_kind option \<Rightarrow> ast \<Rightarrow> complaint list" where
  "tree_complaints h up t = node_complaints h up t
     @ concat (map (tree_complaints h (Some (getKind t))) (children t))"

declare tree_complaints.simps [simp del]

definition complain :: "complaint list \<Rightarrow> engine \<Rightarrow> engine" where
  "complain cs e = fold (\<lambda>(d, r, args). diagnoseRange d r args) cs e"

text \<open>
  What the checks take for granted, and fail without: a reference that is called points to a named
  declaration, an instantiated one to a meta declaration, and a call of a function without a return
  type is not the root. \<open>checkAST_safe\<close> shows that the analysis returns exactly then.
\<close>

definition instantiates_meta :: "heap \<Rightarrow> ast \<Rightarrow> bool" where
  "instantiates_meta h ref \<longleftrightarrow> (\<exists>a n d m dn args c. ref = DeclRefExpr a n (Some d)
     \<and> h d = Some (MetaDecl m dn args c))"

definition calls_declared :: "heap \<Rightarrow> ast \<Rightarrow> bool" where
  "calls_declared h callee \<longleftrightarrow> (\<forall>a n d. callee = DeclRefExpr a n (Some d) \<longrightarrow>
     (\<exists>decl. h d = Some decl \<and> isNamedDeclContext (getKind decl)))"

definition calls_void :: "heap \<Rightarrow> ast \<Rightarrow> bool" where
  "calls_void h callee \<longleftrightarrow> (\<exists>a n d f fn args body. callee = DeclRefExpr a n (Some d)
     \<and> h d = Some (FunctionDecl f fn args None body))"

fun sema_safe_node :: "heap \<Rightarrow> ast_kind option \<Rightarrow> ast \<Rightarrow> bool" where
  "sema_safe_node h up (CallOperatorExpr a c es) \<longleftrightarrow>
     calls_declared h c \<and> (calls_void h c \<longrightarrow> up \<noteq> None)"
| "sema_safe_node h up (MetaInstantiationExpr a rg d es) \<longleftrightarrow> instantiates_meta h d"
| "sema_safe_node h up t \<longleftrightarrow> True"

fun sema_safe :: "heap \<Rightarrow> ast_kind option \<Rightarrow> ast \<Rightarrow> bool" where
  "sema_safe h up t \<longleftrightarrow> sema_safe_node h up t
     \<and> (\<forall>c \<in> set (children t). sema_safe h (Some (getKind t)) c)"

declare sema_safe.simps [simp del]

lemma sema_safe_eq:
  "sema_safe h up t \<longleftrightarrow> sema_safe_node h up t \<and> list_all (sema_safe h (Some (getKind t))) (children t)"
  by (simp add: sema_safe.simps [of h up t] list_all_iff)

section \<open>The analysis reports exactly the complaints\<close>

lemma complain_simps [simp]:
  "complain [] e = e"
  "complain ((d, r, args) # cs) e = complain cs (diagnoseRange d r args e)"
  "complain (cs @ ds) e = complain ds (complain cs e)"
  by (simp_all add: complain_def)

lemma sema_report_simps [simp]:
  "sema_report f s = s\<lparr>sema_engine := f (sema_engine s)\<rparr>"
  by (simp add: sema_report_def)

lemma note_declared_here_complain [simp]:
  "note_declared_here i s = s\<lparr>sema_engine := complain [declared_here i] (sema_engine s)\<rparr>"
  by (simp add: note_declared_here_def declared_here_def at_name_def diagnoseAt_def)

lemma complain_at_name [simp]:
  "complain (at_name d i args # cs) e = complain cs (diagnoseAt d i args e)"
  by (simp add: at_name_def diagnoseAt_def)

lemma fold_meta_arguments:
  "fold (report_meta_argument rg) es s = s\<lparr>sema_engine :=
     complain (map (\<lambda>e. (ErrorIntegralForMetaDecl, rg, []))
       (filter (\<lambda>e. getKind e \<noteq> KindIntegerLiteralExpr) es)) (sema_engine s)\<rparr>"
  by (induction es arbitrary: s) (simp_all add: report_meta_argument_def)

lemmas sema_reports = visit_FunctionDecl_def visit_MetaDecl_def visit_IfStmt_def
  report_void_call_def report_call_count_def report_not_callable_def report_meta_count_def

definition kind_above :: "ast list \<Rightarrow> ast_kind option" where
  "kind_above ts = (case ts of [] \<Rightarrow> None | t # us \<Rightarrow> Some (getKind t))"

lemma kind_above_simps [simp]: "kind_above [] = None" "kind_above (t # ts) = Some (getKind t)"
  by (simp_all add: kind_above_def)

lemma kind_above_None [simp]: "kind_above ts = None \<longleftrightarrow> ts = []"
  by (simp add: kind_above_def split: list.splits)

lemma behind_above [simp]:
  "behind (Suc 0) (s\<lparr>sema_depth := t # u # us\<rparr>) = Inr u"
  by (simp add: behind_def)

lemma visit_call_complains:
  assumes "calls_declared h callee" and "calls_void h callee \<longrightarrow> up \<noteq> []"
  shows "visit_CallOperatorExpr h callee es (s\<lparr>sema_depth := t # up\<rparr>) = Inr (s\<lparr>sema_depth := t # up,
    sema_engine := complain (call_complaints h (kind_above up = Some KindExpressionStmt) callee es)
      (sema_engine s)\<rparr>)"
proof (cases "\<exists>a n d. callee = DeclRefExpr a n (Some d)")
  case True
  then obtain a n d where callee: "callee = DeclRefExpr a n (Some d)" by blast
  with assms(1) obtain decl where decl: "h d = Some decl" "isNamedDeclContext (getKind decl)"
    by (auto simp: calls_declared_def)
  have up: "\<exists>u us. up = u # us" if "decl = FunctionDecl f fn args None body" for f fn args body
    using assms(2) decl(1) that callee by (cases up) (auto simp: calls_void_def)
  show ?thesis
  proof (cases decl)
    case (FunctionDecl f fn args ret body)
    with decl up show ?thesis
      by (cases ret) (auto simp: callee visit_CallOperatorExpr_def call_complaints_def sema_reports Let_def)
  qed (use decl in \<open>auto simp: callee visit_CallOperatorExpr_def
      call_complaints_def sema_reports Let_def\<close>)
next
  case False
  then show ?thesis
    by (auto simp: visit_CallOperatorExpr_def call_complaints_def split: ast.splits option.splits)
qed

lemma visit_call_fails:
  assumes "\<not> (calls_declared h callee \<and> (calls_void h callee \<longrightarrow> up \<noteq> []))"
  shows "\<exists>f. visit_CallOperatorExpr h callee es (s\<lparr>sema_depth := t # up\<rparr>) = Inl f"
proof (cases "calls_declared h callee")
  case True
  with assms have "up = []" "calls_void h callee" by auto
  then show ?thesis by (auto simp: calls_void_def visit_CallOperatorExpr_def behind_def)
next
  case False
  then obtain a n d where callee: "callee = DeclRefExpr a n (Some d)"
    and decl: "\<And>decl. h d = Some decl \<Longrightarrow> \<not> isNamedDeclContext (getKind decl)"
    by (auto simp: calls_declared_def)
  show ?thesis
  proof (cases "h d")
    case None
    then show ?thesis by (simp add: callee visit_CallOperatorExpr_def load_def)
  next
    case (Some t)
    with decl [OF Some] show ?thesis by (cases t) (simp_all add: callee visit_CallOperatorExpr_def)
  qed
qed

lemma visit_meta_complains:
  assumes "instantiates_meta h ref"
  shows "visit_MetaInstantiationExpr h rg ref es s = Inr (s\<lparr>sema_engine :=
    complain (meta_complaints h rg ref es) (sema_engine s)\<rparr>)"
  using assms
  by (auto simp: instantiates_meta_def visit_MetaInstantiationExpr_def meta_complaints_def
      fold_meta_arguments sema_reports Let_def)

lemma visit_meta_fails:
  assumes "\<not> instantiates_meta h ref"
  shows "\<exists>f. visit_MetaInstantiationExpr h rg ref es s = Inl f"
proof (cases "\<exists>a n d t. ref = DeclRefExpr a n (Some d) \<and> h d = Some t")
  case True
  then obtain a n d t where ref: "ref = DeclRefExpr a n (Some d)" and t: "h d = Some t" by blast
  with assms show ?thesis
    by (cases t) (simp_all add: instantiates_meta_def visit_MetaInstantiationExpr_def Let_def)
next
  case False
  then show ?thesis
    by (auto simp: visit_MetaInstantiationExpr_def load_def Let_def split: ast.split option.splits)
qed

lemma sema_check_fails:
  assumes "\<not> sema_safe_node h (kind_above up) t"
  shows "\<exists>f. sema_check h t (sema_enter t (s\<lparr>sema_depth := up\<rparr>)) = Inl f"
  using assms
  by (cases t) (simp_all add: sema_enter_def visit_meta_fails visit_call_fails)

lemma sema_check_complains:
  assumes "sema_safe_node h (kind_above up) t"
  shows "sema_check h t (sema_enter t (s\<lparr>sema_depth := up\<rparr>)) = Inr (s\<lparr>sema_depth := t # up,
    sema_engine := complain (node_complaints h (kind_above up) t) (sema_engine s)\<rparr>)"
  using assms
  by (cases t) (simp_all add: sema_enter_def visit_meta_complains visit_call_complains sema_reports
      reserved_name_def assignment_condition_def split: ast.splits)

lemma accept_complains:
  "sema_safe h (kind_above up) t \<Longrightarrow>
   accept h t \<lparr>sema_depth = up, sema_engine = e\<rparr>
     = Inr \<lparr>sema_depth = up, sema_engine = complain (tree_complaints h (kind_above up) t) e\<rparr>"
proof (induction t arbitrary: up e rule: ast_children_induct)
  case (node t)
  have safe: "sema_safe_node h (kind_above up) t"
    "\<forall>c \<in> set (children t). sema_safe h (Some (getKind t)) c"
    using node.prems by (simp_all add: sema_safe.simps [of h _ t])
  have below: "foldE (accept h) cs \<lparr>sema_depth = t # up, sema_engine = e\<rparr>
      = Inr \<lparr>sema_depth = t # up,
          sema_engine = complain (concat (map (tree_complaints h (Some (getKind t))) cs)) e\<rparr>"
    if "set cs \<subseteq> set (children t)" for cs e
    using that by (induction cs arbitrary: e) (simp_all add: node.IH safe(2))
  show ?case
    using sema_check_complains [OF safe(1), of "\<lparr>sema_depth = up, sema_engine = e\<rparr>"]
    by (simp add: accept.simps [of h t] below sema_leave_def tree_complaints.simps [of h _ t])
qed

lemma accept_fails:
  "\<not> sema_safe h (kind_above up) t \<Longrightarrow> \<exists>f. accept h t \<lparr>sema_depth = up, sema_engine = e\<rparr> = Inl f"
proof (induction t arbitrary: up e rule: ast_children_induct)
  case (node t)
  show ?case
  proof (cases "sema_safe_node h (kind_above up) t")
    case False
    then show ?thesis
      using sema_check_fails [OF False, of "\<lparr>sema_depth = up, sema_engine = e\<rparr>"]
      by (auto simp: accept.simps [of h t])
  next
    case True
    let ?safe = "sema_safe h (Some (getKind t))"
    have below: "\<exists>f. foldE (accept h) cs \<lparr>sema_depth = t # up, sema_engine = e\<rparr> = Inl f"
      if "set cs \<subseteq> set (children t)" and "\<exists>c \<in> set cs. \<not> ?safe c" for cs e
      using that
    proof (induction cs arbitrary: e)
      case (Cons c cs)
      show ?case
      proof (cases "?safe c")
        case True
        with Cons show ?thesis using accept_complains [of h "t # up" c e] by simp
      next
        case False
        with Cons.prems(1) node.IH [of c "t # up" e] show ?thesis by auto
      qed
    qed simp
    from node.prems True have "\<exists>c \<in> set (children t). \<not> ?safe c"
      by (simp add: sema_safe.simps [of h _ t])
    from below [OF subset_refl this] obtain f
      where "foldE (accept h) (children t) \<lparr>sema_depth = t # up,
        sema_engine = complain (node_complaints h (kind_above up) t) e\<rparr> = Inl f" by blast
    then show ?thesis
      using sema_check_complains [OF True, of "\<lparr>sema_depth = up, sema_engine = e\<rparr>"]
      by (simp add: accept.simps [of h t])
  qed
qed

lemma checkAST_complains:
  assumes "sema_safe h None t"
  shows "checkAST h t e = Inr (complain (tree_complaints h None t) e)"
  using accept_complains [of h "[]" t e] assms by (simp add: checkAST_def sema_new_def)

lemma checkAST_fails:
  assumes "\<not> sema_safe h None t"
  shows "\<exists>f. checkAST h t e = Inl f"
  using accept_fails [of h "[]" t e] assms by (auto simp: checkAST_def sema_new_def)

lemma checkAST_safe:
  "checkAST h t e = Inr e' \<longleftrightarrow> sema_safe h None t \<and> e' = complain (tree_complaints h None t) e"
  using checkAST_complains [of h t e] checkAST_fails [of h t e] by (cases "sema_safe h None t") auto

lemma sema_safe_nodes:
  "sema_safe h up t \<Longrightarrow> MetaInstantiationExpr a rg ref es \<in> set (nodes t) \<Longrightarrow> instantiates_meta h ref"
proof (induction t arbitrary: up rule: ast_children_induct)
  case (node t)
  have "t = MetaInstantiationExpr a rg ref es
      \<or> (\<exists>c \<in> set (children t). MetaInstantiationExpr a rg ref es \<in> set (nodes c))"
    using node.prems(2) by (simp add: nodes.simps [of t]) blast
  then show ?case
  proof
    assume "t = MetaInstantiationExpr a rg ref es"
    with node.prems(1) show ?thesis by (simp add: sema_safe.simps [of h up "MetaInstantiationExpr a rg ref es"])
  next
    assume "\<exists>c \<in> set (children t). MetaInstantiationExpr a rg ref es \<in> set (nodes c)"
    then obtain c where c: "c \<in> set (children t)" "MetaInstantiationExpr a rg ref es \<in> set (nodes c)" by blast
    with node.prems(1) have "sema_safe h (Some (getKind t)) c" by (simp add: sema_safe.simps [of h up t])
    with node.IH c show ?thesis by blast
  qed
qed

definition is_error :: "complaint \<Rightarrow> bool" where
  "is_error c \<longleftrightarrow> getDiagnosticSeverity (fst c) = Error"

definition erring :: "complaint list \<Rightarrow> bool" where
  "erring cs \<longleftrightarrow> (\<exists>c \<in> set cs. is_error c)"

lemma erring_simps [simp]:
  "\<not> erring []"
  "erring ((d, r, args) # cs) \<longleftrightarrow> getDiagnosticSeverity d = Error \<or> erring cs"
  "erring (at_name d i args # cs) \<longleftrightarrow> getDiagnosticSeverity d = Error \<or> erring cs"
  "erring (declared_here i # cs) \<longleftrightarrow> erring cs"
  "erring (cs @ ds) \<longleftrightarrow> erring cs \<or> erring ds"
  "erring (if b then cs else ds) \<longleftrightarrow> (if b then erring cs else erring ds)"
  "erring (concat css) \<longleftrightarrow> (\<exists>cs \<in> set css. erring cs)"
  by (auto simp: erring_def is_error_def at_name_def declared_here_def)

lemma hasErrors_complain [simp]: "hasErrors (complain cs e) \<longleftrightarrow> hasErrors e \<or> erring cs"
proof (induction cs arbitrary: e)
  case (Cons c cs)
  then show ?case by (cases c) auto
qed simp

text \<open>The number of errors the analysis reports: its complaints that are errors.\<close>

definition error_complaints :: "heap \<Rightarrow> ast \<Rightarrow> nat" where
  "error_complaints h t = length (filter is_error (tree_complaints h None t))"

lemma errors_complain:
  "getOccurrenceCount (complain cs e) Error = getOccurrenceCount e Error + length (filter is_error cs)"
proof (induction cs arbitrary: e)
  case (Cons c cs)
  then show ?case
    by (cases c) (simp add: is_error_def getOccurrenceCount_diagnoseRange del: getOccurrenceCount.simps)
qed simp

section \<open>What a tree without errors satisfies\<close>

text \<open>
  A node is checked if calls of functions have the arguments the function takes and no result of a
  function without return type is used, only functions are called, and meta instantiations have the
  integer literals the meta declaration takes.
\<close>

fun call_fits :: "heap \<Rightarrow> ast_kind option \<Rightarrow> ast \<Rightarrow> bool" where
  "call_fits h up (CallOperatorExpr a (DeclRefExpr r n (Some d)) es) \<longleftrightarrow>
     (\<exists>f fn args ret body. h d = Some (FunctionDecl f fn args ret body)
       \<and> length es = length (children args) \<and> (ret \<noteq> None \<or> up = Some KindExpressionStmt))"
| "call_fits h up t \<longleftrightarrow> True"

fun instantiation_fits :: "heap \<Rightarrow> ast \<Rightarrow> bool" where
  "instantiation_fits h (MetaInstantiationExpr a rg (DeclRefExpr r n (Some d)) es) \<longleftrightarrow>
     (\<exists>m dn args c. h d = Some (MetaDecl m dn args c) \<and> length es = length (children args)
       \<and> (\<forall>e \<in> set es. getKind e = KindIntegerLiteralExpr))"
| "instantiation_fits h t \<longleftrightarrow> True"

fun name_fits :: "ast \<Rightarrow> bool" where
  "name_fits (FunctionDecl a n args r b) \<longleftrightarrow> \<not> isIdentifierReserved n"
| "name_fits (MetaDecl a n args c) \<longleftrightarrow> \<not> isIdentifierReserved n"
| "name_fits t \<longleftrightarrow> True"

definition node_fits :: "heap \<Rightarrow> ast_kind option \<Rightarrow> ast \<Rightarrow> bool" where
  "node_fits h up t \<longleftrightarrow> call_fits h up t \<and> instantiation_fits h t \<and> name_fits t"

fun tree_fits :: "heap \<Rightarrow> ast_kind option \<Rightarrow> ast \<Rightarrow> bool" where
  "tree_fits h up t \<longleftrightarrow> node_fits h up t \<and> (\<forall>c \<in> set (children t). tree_fits h (Some (getKind t)) c)"

declare tree_fits.simps [simp del]

lemma tree_fits_eq:
  "tree_fits h up t \<longleftrightarrow> node_fits h up t \<and> list_all (tree_fits h (Some (getKind t))) (children t)"
  by (simp add: tree_fits.simps [of h up t] list_all_iff)

lemma call_fits_iff:
  assumes "calls_declared h callee"
  shows "call_fits h up (CallOperatorExpr a callee es)
    \<longleftrightarrow> \<not> erring (call_complaints h (up = Some KindExpressionStmt) callee es)"
proof (cases "\<exists>r n d. callee = DeclRefExpr r n (Some d)")
  case True
  then obtain r n d where callee: "callee = DeclRefExpr r n (Some d)" by blast
  with assms obtain decl where "h d = Some decl" "isNamedDeclContext (getKind decl)"
    by (auto simp: calls_declared_def)
  then show ?thesis
    by (cases decl) (auto simp: callee call_complaints_def)
next
  case False
  then show ?thesis
    by (cases callee) (auto simp: call_complaints_def split: option.splits)
qed

lemma instantiation_fits_iff:
  assumes "instantiates_meta h ref"
  shows "instantiation_fits h (MetaInstantiationExpr a rg ref es) \<longleftrightarrow> \<not> erring (meta_complaints h rg ref es)"
proof -
  have "erring (map (\<lambda>e. (ErrorIntegralForMetaDecl, rg, [])) (filter P es)) \<longleftrightarrow> (\<exists>e \<in> set es. P e)" for P
    by (auto simp: erring_def is_error_def)
  with assms show ?thesis by (auto simp: instantiates_meta_def meta_complaints_def split: if_splits)
qed

lemma assignment_condition_quiet [simp]: "\<not> erring (assignment_condition c)"
  by (cases c) (simp_all add: assignment_condition_def)

lemma node_fits_iff:
  assumes "sema_safe_node h up t"
  shows "node_fits h up t \<longleftrightarrow> \<not> erring (node_complaints h up t)"
  using assms
  by (cases t) (simp_all add: node_fits_def call_fits_iff instantiation_fits_iff reserved_name_def)

lemma tree_fits_iff: "sema_safe h up t \<Longrightarrow> tree_fits h up t \<longleftrightarrow> \<not> erring (tree_complaints h up t)"
proof (induction t arbitrary: up rule: ast_children_induct)
  case (node t)
  then show ?case
    by (simp add: tree_fits.simps [of h up t] sema_safe.simps [of h up t]
        tree_complaints.simps [of h up t] node_fits_iff)
qed

text \<open>A reference that does not resolve to a meta declaration breaks the check of its instantiation.\<close>

lemma instantiation_unresolved:
  assumes "\<not> instantiates_meta h (DeclRefExpr r n d)"
  shows "accept h (MetaInstantiationExpr a rg (DeclRefExpr r n d) es) s = Inl NullDeref"
proof -
  have "visit_MetaInstantiationExpr h rg (DeclRefExpr r n d) es u = Inl NullDeref" for u
  proof (cases d)
    case None
    then show ?thesis by (simp add: visit_MetaInstantiationExpr_def)
  next
    case (Some k)
    show ?thesis
    proof (cases "h k")
      case None
      with Some show ?thesis by (simp add: visit_MetaInstantiationExpr_def load_def)
    next
      case (Some decl)
      with assms \<open>d = Some k\<close> show ?thesis
        by (cases decl) (auto simp: visit_MetaInstantiationExpr_def instantiates_meta_def)
    qed
  qed
  then show ?thesis by (simp add: accept.simps [of h "MetaInstantiationExpr a rg (DeclRefExpr r n d) es"])
qed

end
