(* ===== verification/Dependency.thy ===== *)
theory Dependency imports Grammar begin

text \<open>
  \<^verbatim>\<open>src/Sema/DependencyAnalysis\<close>: the meta instantiations a function depends on, and those a meta
  declaration evaluates at compile time, are handed to a consumer one by one until it refuses one.
  The consumer may change a state and may fault.
\<close>

section \<open>Loops that stop at the first refusal\<close>

type_synonym ('a, 's) taker = "'a \<Rightarrow> 's \<Rightarrow> (bool \<times> 's) res"

fun untilE :: "('a, 's) taker \<Rightarrow> 'a list \<Rightarrow> 's \<Rightarrow> (bool \<times> 's) res" where
  "untilE f [] s = Inr (True, s)"
| "untilE f (x # xs) s = bindE (f x s) (\<lambda>(ok, s). if \<not> ok then Inr (False, s) else untilE f xs s)"

lemma untilE_cong [fundef_cong]:
  "xs = ys \<Longrightarrow> s = t \<Longrightarrow> (\<And>x s. x \<in> set ys \<Longrightarrow> f x s = g x s) \<Longrightarrow> untilE f xs s = untilE g ys t"
proof (induction xs arbitrary: ys s t)
  case (Cons x xs)
  then show ?case by (cases "g x t") auto
qed simp

lemma untilE_append:
  "untilE f (xs @ ys) s = bindE (untilE f xs s) (\<lambda>(ok, s). if \<not> ok then Inr (False, s) else untilE f ys s)"
proof (induction xs arbitrary: s)
  case (Cons x xs)
  then show ?case by (cases "f x s") auto
qed simp

lemma untilE_return [simp]:
  "bindE m (\<lambda>(ok, s). if \<not> ok then Inr (False, s) else Inr (True, s)) = m"
  by (cases m) auto

lemma untilE_single: "untilE f [x] s = f x s"
  by (cases "f x s") auto

lemma untilE_concat:
  assumes "\<And>x s. x \<in> set xs \<Longrightarrow> f x s = untilE g (h x) s"
  shows "untilE f xs s = untilE g (concat (map h xs)) s"
  using assms
proof (induction xs arbitrary: s)
  case (Cons x xs)
  then show ?case by (cases "untilE g (h x) s") (auto simp: untilE_append)
qed simp

section \<open>Consuming instantiations\<close>

definition applyConsumer :: "(ast, 's) taker \<Rightarrow> (ast, 's) taker" where
  "applyConsumer consumer node s = (case node of
     MetaInstantiationExpr a rg d es \<Rightarrow> consumer node s
   | _ \<Rightarrow> Inr (True, s))"

fun consumeAll :: "(ast, 's) taker \<Rightarrow> (ast, 's) taker" where
  "consumeAll consumer node s = bindE (applyConsumer consumer node s) (\<lambda>(ok, s).
     if \<not> ok then Inr (False, s)
     else if hasChildren (getKind node) then untilE (consumeAll consumer) (children node) s
     else Inr (True, s))"

declare consumeAll.simps [simp del]

text \<open>
  Of a meta condition only the condition is looked at, of a meta calculation everything; other nodes
  are searched for these.
\<close>

definition consumeMeta :: "(ast, 's) taker \<Rightarrow> (ast, 's) taker \<Rightarrow> (ast, 's) taker" where
  "consumeMeta all_meta consumer node s = (case node of
     MetaIfStmt a c t f \<Rightarrow> consumeAll consumer c s
   | MetaCalculationStmt a st ds \<Rightarrow> consumeAll consumer node s
   | _ \<Rightarrow> all_meta node s)"

lemma consumeMeta_cong [fundef_cong]:
  "node = node' \<Longrightarrow> s = s' \<Longrightarrow> c = c' \<Longrightarrow> f node' s' = g node' s'
    \<Longrightarrow> consumeMeta f c node s = consumeMeta g c' node' s'"
  by (cases node') (simp_all add: consumeMeta_def)

fun consumeAllMeta :: "(ast, 's) taker \<Rightarrow> (ast, 's) taker" where
  "consumeAllMeta consumer node s =
     (if hasChildren (getKind node)
      then untilE (consumeMeta (consumeAllMeta consumer) consumer) (children node) s
      else Inr (True, s))"

declare consumeAllMeta.simps [simp del]

text \<open>\<open>consumeMetaInstantiationsOf\<close> of a function and of a meta declaration.\<close>

definition consumeInstantiationsOfFunction :: "(ast, 's) taker \<Rightarrow> ast \<Rightarrow> 's \<Rightarrow> 's res" where
  "consumeInstantiationsOfFunction consumer node s =
     bindE (consumeAll consumer node s) (\<lambda>(ok, s). Inr s)"

definition consumeInstantiationsOfMeta :: "(ast, 's) taker \<Rightarrow> ast \<Rightarrow> 's \<Rightarrow> 's res" where
  "consumeInstantiationsOfMeta consumer node s =
     bindE (consumeAllMeta consumer node s) (\<lambda>(ok, s). Inr s)"

section \<open>What is consumed\<close>

definition is_instantiation :: "ast \<Rightarrow> bool" where
  "is_instantiation t \<longleftrightarrow> getKind t = KindMetaInstantiationExpr"

definition instantiations :: "ast \<Rightarrow> ast list" where
  "instantiations t = filter is_instantiation (nodes t)"

text \<open>The nodes whose instantiations a meta declaration is searched for.\<close>

definition meta_part :: "ast \<Rightarrow> ast list option" where
  "meta_part t = (case t of
     MetaIfStmt a e b f \<Rightarrow> Some [e] | MetaCalculationStmt a st ds \<Rightarrow> Some [t] | _ \<Rightarrow> None)"

fun meta_roots :: "ast \<Rightarrow> ast list" where
  "meta_roots t = concat (map (\<lambda>c. case meta_part c of Some rs \<Rightarrow> rs | None \<Rightarrow> meta_roots c) (children t))"

declare meta_roots.simps [simp del]

definition meta_instantiations :: "ast \<Rightarrow> ast list" where
  "meta_instantiations t = concat (map instantiations (meta_roots t))"

lemma instantiations_node:
  "instantiations t = (if is_instantiation t then [t] else []) @ concat (map instantiations (children t))"
proof -
  have "filter P (nodes_of ts) = concat (map (filter P \<circ> nodes) ts)" for P ts
    by (induction ts) simp_all
  then show ?thesis
    by (simp add: instantiations_def [abs_def] nodes_eq [of t] comp_def)
qed

lemma applyConsumer_eq:
  "applyConsumer f t s = untilE f (if is_instantiation t then [t] else []) s"
  by (cases t) (simp_all add: applyConsumer_def is_instantiation_def untilE_single del: untilE.simps(2))

lemma consumeAll_eq: "consumeAll f t s = untilE f (instantiations t) s"
proof (induction t arbitrary: s rule: ast_children_induct)
  case (node t)
  have "untilE (consumeAll f) (children t) s = untilE f (concat (map instantiations (children t))) s" for s
    by (rule untilE_concat) (rule node.IH)
  then show ?case
    by (cases "hasChildren (getKind t)")
      (simp_all add: consumeAll.simps [of f t] applyConsumer_eq instantiations_node [of t]
        untilE_append children_leaf cong: if_cong)
qed

lemma consumeAllMeta_eq: "consumeAllMeta f t s = untilE f (meta_instantiations t) s"
proof (induction t arbitrary: s rule: ast_children_induct)
  case (node t)
  define part where "part c = (case meta_part c of Some rs \<Rightarrow> rs | None \<Rightarrow> meta_roots c)" for c
  have child: "consumeMeta (consumeAllMeta f) f c s = untilE f (concat (map instantiations (part c))) s"
    if "c \<in> set (children t)" for c s
    using node.IH [OF that]
    by (cases c) (simp_all add: consumeMeta_def part_def meta_part_def consumeAll_eq meta_instantiations_def)
  have "meta_instantiations t = concat (map (\<lambda>c. concat (map instantiations (part c))) (children t))"
  proof -
    have "concat (map instantiations (concat (map part cs)))
        = concat (map (\<lambda>c. concat (map instantiations (part c))) cs)" for cs
      by (induction cs) simp_all
    then show ?thesis
      by (simp add: meta_instantiations_def meta_roots.simps [of t] part_def [abs_def])
  qed
  then show ?case
    using untilE_concat [of "children t", OF child]
    by (cases "hasChildren (getKind t)")
      (simp_all add: consumeAllMeta.simps [of f t] children_leaf)
qed

section \<open>What a meta declaration evaluates at compile time\<close>

text \<open>
  The conditions and calculations that are evaluated when the declaration is instantiated, those
  below the branches of a meta condition included.
\<close>

lemma size_tl_child [termination_simp]: "c \<in> set (tl (children t)) \<Longrightarrow> size c < size t"
  by (cases "children t") (auto intro: size_child)

fun evaluated_roots :: "ast \<Rightarrow> ast list" where
  "evaluated_roots t =
     (if getKind t = KindMetaCalculationStmt then [t]
      else if getKind t = KindMetaIfStmt
      then hd (children t) # concat (map evaluated_roots (tl (children t)))
      else concat (map evaluated_roots (children t)))"

declare evaluated_roots.simps [simp del]

text \<open>No meta condition or calculation below a branch of a meta condition.\<close>

fun flat_meta :: "ast \<Rightarrow> bool" where
  "flat_meta t \<longleftrightarrow>
     (if getKind t = KindMetaCalculationStmt then True
      else if getKind t = KindMetaIfStmt then \<forall>c \<in> set (tl (children t)). evaluated_roots c = []
      else \<forall>c \<in> set (children t). flat_meta c)"

declare flat_meta.simps [simp del]

lemma flat_meta_eq:
  "flat_meta t \<longleftrightarrow>
     (if getKind t = KindMetaCalculationStmt then True
      else if getKind t = KindMetaIfStmt then list_all (\<lambda>c. evaluated_roots c = []) (tl (children t))
      else list_all flat_meta (children t))"
  by (simp add: flat_meta.simps [of t] list_all_iff)

lemma meta_part_eq:
  "meta_part t = (if getKind t = KindMetaCalculationStmt then Some [t]
    else if getKind t = KindMetaIfStmt then Some [hd (children t)] else None)"
  by (cases t) (simp_all add: meta_part_def)

lemma evaluated_flat:
  "flat_meta t \<Longrightarrow> evaluated_roots t = (case meta_part t of Some rs \<Rightarrow> rs | None \<Rightarrow> meta_roots t)"
proof (induction t rule: ast_children_induct)
  case (node t)
  show ?case
  proof (cases "meta_part t")
    case None
    then have "\<forall>c \<in> set (children t). flat_meta c"
      using node.prems by (simp add: meta_part_eq flat_meta.simps [of t] split: if_splits)
    with None node.IH show ?thesis
      by (simp add: meta_part_eq evaluated_roots.simps [of t] meta_roots.simps [of t] cong: map_cong
          split: if_splits)
  next
    case (Some rs)
    with node.prems show ?thesis
      by (auto simp: meta_part_eq evaluated_roots.simps [of t] flat_meta.simps [of t] concat_eq_Nil_conv
          split: if_splits)
  qed
qed

lemma evaluated_consumed:
  assumes "flat_meta t" and "meta_part t = None"
  shows "meta_instantiations t = concat (map instantiations (evaluated_roots t))"
  using evaluated_flat [OF assms(1)] assms(2) by (simp add: meta_instantiations_def)

lemma meta_roots_conditions:
  assumes "\<forall>c \<in> set (children t). getKind c = KindMetaIfStmt"
  shows "meta_roots t = map (hd \<circ> children) (children t)"
proof -
  have "concat (map (\<lambda>c. case meta_part c of Some rs \<Rightarrow> rs | None \<Rightarrow> meta_roots c) cs)
      = map (hd \<circ> children) cs" if "\<forall>c \<in> set cs. getKind c = KindMetaIfStmt" for cs
    using that by (induction cs) (simp_all add: meta_part_eq)
  with assms show ?thesis by (simp add: meta_roots.simps [of t])
qed

end
