(* ===== verification/Mangling.thy ===== *)
theory Mangling imports AST begin

text \<open>
  \<^verbatim>\<open>src/Codegen/NameMangeling\<close>: the symbols of functions and meta declarations. How the formatting
  library prints a pointer is a parameter \<open>fmt\<close>. A node of a unit knows the unit it is contained in;
  that pointer is an argument here.
\<close>

section \<open>Mangling\<close>

definition getMangleSeparator :: string where
  "getMangleSeparator = ''@''"

text \<open>Writing to a stream appends to what was written.\<close>

definition writeStringRef :: "string \<Rightarrow> string \<Rightarrow> string" where
  "writeStringRef ref out = out @ ref"

definition mangleSymbol :: "string \<Rightarrow> string \<Rightarrow> string" where
  "mangleSymbol symbol out =
     writeStringRef getMangleSeparator (writeStringRef symbol (writeStringRef getMangleSeparator out))"

definition mangleNameOfInstantiation :: "(addr \<Rightarrow> string) \<Rightarrow> addr \<Rightarrow> string \<Rightarrow> string" where
  "mangleNameOfInstantiation fmt inst out = mangleSymbol (fmt inst) out"

text \<open>
  \<open>mangleUnitEntity\<close> has an overload for meta units and one for any node. A meta unit passes the unit
  it is contained in on as a pointer to a node, so that the overload for any node is selected,
  whatever the class of that unit.
\<close>

definition mangleUnitEntity_node :: "obj \<Rightarrow> string \<Rightarrow> bool \<times> string" where
  "mangleUnitEntity_node node out = (False, out)"

definition mangleUnitEntity_meta :: "(addr \<Rightarrow> string) \<Rightarrow> obj \<Rightarrow> addr \<Rightarrow> string \<Rightarrow> bool \<times> string" where
  "mangleUnitEntity_meta fmt containing inst out =
     (let (written, out) = mangleUnitEntity_node containing out;
          out = (if written then writeStringRef getMangleSeparator out else out)
      in (True, mangleNameOfInstantiation fmt inst out))"

text \<open>\<open>up\<close> gives the unit that contains a meta unit.\<close>

definition doMangleUnitEntity :: "(addr \<Rightarrow> string) \<Rightarrow> (addr \<Rightarrow> obj) \<Rightarrow> obj \<Rightarrow> string \<Rightarrow> bool \<times> string" where
  "doMangleUnitEntity fmt up node out = (case obj_payload node of
     PMetaUnit inst \<Rightarrow> mangleUnitEntity_meta fmt (up (obj_addr node)) inst out
   | _ \<Rightarrow> mangleUnitEntity_node node out)"

definition mangleTopLevelEntity ::
    "(addr \<Rightarrow> string) \<Rightarrow> (addr \<Rightarrow> obj) \<Rightarrow> obj \<Rightarrow> ident \<Rightarrow> string \<Rightarrow> string" where
  "mangleTopLevelEntity fmt up containing name out =
     (let (written, out) = doMangleUnitEntity fmt up containing out;
          out = (if written then writeStringRef getMangleSeparator out else out)
      in writeStringRef (getType name) out)"

definition mangleNameOfMetaUnit :: "(addr \<Rightarrow> string) \<Rightarrow> obj \<Rightarrow> addr \<Rightarrow> string \<Rightarrow> string" where
  "mangleNameOfMetaUnit fmt containing inst out = snd (mangleUnitEntity_meta fmt containing inst out)"

text \<open>\<open>mangleNameOf\<close> of a function or a meta declaration, into a fresh stream.\<close>

definition mangleNameOf :: "(addr \<Rightarrow> string) \<Rightarrow> (addr \<Rightarrow> obj) \<Rightarrow> obj \<Rightarrow> ident \<Rightarrow> string" where
  "mangleNameOf fmt up containing name = mangleTopLevelEntity fmt up containing name []"

definition mangleSymbolOf :: "string \<Rightarrow> string" where
  "mangleSymbolOf name = mangleSymbol name []"

definition callback_contribute :: string where
  "callback_contribute = mangleSymbolOf ''callback_contribute''"

definition callback_reduce :: string where
  "callback_reduce = mangleSymbolOf ''callback_reduce''"

definition callback_introduce :: string where
  "callback_introduce = mangleSymbolOf ''callback_introduce''"

section \<open>Mangled names are distinct\<close>

definition separator :: char where
  "separator = CHR 0x40"

lemma getMangleSeparator_eq: "getMangleSeparator = [separator]"
  by (simp add: getMangleSeparator_def separator_def)

text \<open>Two units are told apart by the instantiation they result from.\<close>

definition unit_key :: "obj \<Rightarrow> addr option" where
  "unit_key u = (case obj_payload u of PMetaUnit inst \<Rightarrow> Some inst | _ \<Rightarrow> None)"

lemmas mangle_defs = mangleTopLevelEntity_def doMangleUnitEntity_def mangleUnitEntity_meta_def
  mangleUnitEntity_node_def mangleNameOfInstantiation_def mangleSymbol_def writeStringRef_def
  getMangleSeparator_eq

lemma mangleNameOf_eq:
  "mangleNameOf fmt up u name = (case unit_key u of
     None \<Rightarrow> getType name
   | Some inst \<Rightarrow> separator # fmt inst @ separator # separator # getType name)"
  by (cases "obj_payload u") (simp_all add: mangleNameOf_def unit_key_def mangle_defs)

lemma until_separator:
  assumes "separator \<notin> set xs" and "separator \<notin> set ys"
    and "xs @ separator # us = ys @ separator # vs"
  shows "xs = ys \<and> us = vs"
proof -
  have "takeWhile (\<lambda>c. c \<noteq> separator) (zs @ separator # ws) = zs" if "separator \<notin> set zs" for zs ws
    using that by (induction zs) auto
  with assms show ?thesis by (metis append_same_eq list.inject same_append_eq)
qed

lemma mangleNameOf_inject:
  assumes "inj fmt" and "\<And>i. separator \<notin> set (fmt i)"
    and "separator \<notin> set (getType n)" and "separator \<notin> set (getType m)"
    and "mangleNameOf fmt up u n = mangleNameOf fmt up v m"
  shows "unit_key u = unit_key v \<and> getType n = getType m"
proof (cases "unit_key u")
  case None
  show ?thesis
  proof (cases "unit_key v")
    case (Some j)
    with None assms(5) have "getType n = separator # fmt j @ separator # separator # getType m"
      by (simp add: mangleNameOf_eq)
    with assms(3) show ?thesis by simp
  qed (use None assms(5) in \<open>simp add: mangleNameOf_eq\<close>)
next
  case (Some i)
  show ?thesis
  proof (cases "unit_key v")
    case None
    with Some assms(5) have "getType m = separator # fmt i @ separator # separator # getType n"
      by (simp add: mangleNameOf_eq)
    with assms(4) show ?thesis by simp
  next
    case (Some j)
    with \<open>unit_key u = Some i\<close> assms(5)
    have "fmt i @ separator # separator # getType n = fmt j @ separator # separator # getType m"
      by (simp add: mangleNameOf_eq)
    from until_separator [OF assms(2) assms(2) this] assms(1) Some \<open>unit_key u = Some i\<close>
    show ?thesis by (simp add: inj_eq)
  qed
qed

lemma callbacks_mangled:
  "callback_contribute = separator # ''callback_contribute'' @ [separator]"
  "callback_reduce = separator # ''callback_reduce'' @ [separator]"
  "callback_introduce = separator # ''callback_introduce'' @ [separator]"
  by (simp_all add: callback_contribute_def callback_reduce_def callback_introduce_def
      mangleSymbolOf_def mangleSymbol_def writeStringRef_def getMangleSeparator_eq)

text \<open>No function is named like a symbol of the compiler itself.\<close>

lemma mangleNameOf_not_symbol:
  assumes "\<And>i. separator \<notin> set (fmt i)" and "separator \<notin> set symbol"
    and "separator \<notin> set (getType n)" and "getType n \<noteq> []"
  shows "mangleNameOf fmt up u n \<noteq> mangleSymbolOf symbol"
proof
  assume eq: "mangleNameOf fmt up u n = mangleSymbolOf symbol"
  have symbol: "mangleSymbolOf symbol = separator # symbol @ [separator]"
    by (simp add: mangleSymbolOf_def mangleSymbol_def writeStringRef_def getMangleSeparator_eq)
  show False
  proof (cases "unit_key u")
    case None
    with eq symbol have "getType n = separator # symbol @ [separator]" by (simp add: mangleNameOf_eq)
    with assms(3) show False by simp
  next
    case (Some i)
    with eq symbol have "fmt i @ separator # separator # getType n = symbol @ separator # []"
      by (simp add: mangleNameOf_eq)
    from until_separator [OF assms(1,2) this] show False by simp
  qed
qed

end
