(* ===== verification/Shapes.thy ===== *)
theory Shapes imports Resolve Visitor_Layout begin

text \<open>
  Trees by the class of a node and its children: the grammar of syntax trees one node at a time, and
  copies of trees at other addresses. A copy has the objects of the original under consecutive
  addresses and nothing of what the reader adds.
\<close>

section \<open>The grammar of one node\<close>

fun kinds_ok :: "meta_depth_level \<Rightarrow> ast_kind \<Rightarrow> ast_kind list \<Rightarrow> bool" where
  "kinds_ok m KindFunctionDecl ks \<longleftrightarrow> (case ks of
     args # ls \<Rightarrow> args = KindArgumentDeclList \<and> (case ls of
         [b] \<Rightarrow> isStmtNode b
       | [r, b] \<Rightarrow> isAnonymousArgumentDecl r \<and> isStmtNode b
       | _ \<Rightarrow> False)
   | _ \<Rightarrow> False)"
| "kinds_ok m KindMetaDecl ks \<longleftrightarrow> m = Outside \<and> ks = [KindArgumentDeclList, KindMetaContribution]"
| "kinds_ok m KindMetaContribution ks \<longleftrightarrow> True"
| "kinds_ok m KindArgumentDeclList ks \<longleftrightarrow> list_all isAnonymousArgumentDecl ks"
| "kinds_ok m KindGlobalConstantDecl ks \<longleftrightarrow> list_all isConstantExpr ks"
| "kinds_ok m KindUnscopedCompoundStmt ks \<longleftrightarrow> list_all isStmtNode ks"
| "kinds_ok m KindCompoundStmt ks \<longleftrightarrow> list_all isStmtNode ks"
| "kinds_ok m KindReturnStmt ks \<longleftrightarrow> list_all isExprNode ks"
| "kinds_ok m KindExpressionStmt ks \<longleftrightarrow> list_all isExprNode ks"
| "kinds_ok m KindDeclStmt ks \<longleftrightarrow> list_all isExprNode ks"
| "kinds_ok m KindBinaryOperatorExpr ks \<longleftrightarrow> list_all isExprNode ks"
| "kinds_ok m KindCallOperatorExpr ks \<longleftrightarrow> list_all isExprNode ks"
| "kinds_ok m KindIfStmt ks \<longleftrightarrow> isExprNode (hd ks) \<and> list_all isStmtNode (tl ks)"
| "kinds_ok m KindMetaIfStmt ks \<longleftrightarrow> m = InsideMetaDecl \<and> isExprNode (hd ks)
     \<and> list_all (\<lambda>k. k = KindMetaContribution) (tl ks)"
| "kinds_ok m KindMetaCalculationStmt ks \<longleftrightarrow> m = InsideMetaDecl \<and> list_all isStmtNode ks"
| "kinds_ok m KindMetaInstantiationExpr ks \<longleftrightarrow> hd ks = KindDeclRefExpr \<and> list_all isExprNode (tl ks)"
| "kinds_ok m KindAnonymousArgumentDecl ks \<longleftrightarrow> True"
| "kinds_ok m KindNamedArgumentDecl ks \<longleftrightarrow> True"
| "kinds_ok m KindDeclRefExpr ks \<longleftrightarrow> True"
| "kinds_ok m KindIntegerLiteralExpr ks \<longleftrightarrow> True"
| "kinds_ok m KindBooleanLiteralExpr ks \<longleftrightarrow> True"
| "kinds_ok m _ ks \<longleftrightarrow> False"

definition children_ok :: "meta_depth_level \<Rightarrow> ast_kind \<Rightarrow> ast list \<Rightarrow> bool" where
  "children_ok m k cs \<longleftrightarrow> (\<forall>i < length cs. grammatical (mode_of_child m k i) (cs ! i))"

lemma children_ok_default:
  "child_modes m k = [] \<Longrightarrow> children_ok m k cs \<longleftrightarrow> (\<forall>c \<in> set cs. grammatical m c)"
  by (simp add: children_ok_def mode_of_child_def all_set_conv_all_nth)

lemma children_ok_meta:
  "children_ok m KindMetaDecl [a, c] \<longleftrightarrow> grammatical m a \<and> grammatical InsideMetaDecl c"
  "children_ok m KindMetaIfStmt [e, t] \<longleftrightarrow> grammatical InsideComputation e \<and> grammatical m t"
  "children_ok m KindMetaIfStmt [e, t, f] \<longleftrightarrow> grammatical InsideComputation e \<and> grammatical m t
     \<and> grammatical m f"
  "children_ok m KindMetaCalculationStmt [s] \<longleftrightarrow> grammatical InsideComputation s"
  by (auto simp: children_ok_def mode_of_child_def less_Suc_eq numeral_eq_Suc nth_Cons')

lemma grammatical_eq:
  "grammatical m t \<longleftrightarrow> kinds_ok m (getKind t) (map getKind (children t)) \<and> children_ok m (getKind t) (children t)"
proof (cases t)
  case (FunctionDecl a n args r b)
  then show ?thesis by (cases r) (auto simp: children_ok_default)
next
  case (IfStmt a c t f)
  then show ?thesis by (cases f) (auto simp: children_ok_default)
next
  case (MetaIfStmt a c t f)
  then show ?thesis by (cases f) (auto simp: children_ok_meta)
next
  case (ReturnStmt a e)
  then show ?thesis by (cases e) (auto simp: children_ok_default)
qed (auto simp: children_ok_default children_ok_meta list_all_iff)

section \<open>Copies at other addresses\<close>

lemma length_opt_list [simp]: "length (opt_list x) \<noteq> Suc (Suc n)" "Suc (Suc n) \<noteq> length (opt_list x)"
  by (cases x; simp)+

lemma assemble_complete:
  assumes "length cs = length (children t)"
  shows "\<exists>u. assemble (Obj n (obj_payload (obj_of t))) cs = Some u"
  using assms
  by (cases t) (auto simp: assemble_def length_Suc_conv split: list.splits option.splits)

text \<open>The children of a node with the addresses their copies start at.\<close>

fun offsets :: "addr \<Rightarrow> ast list \<Rightarrow> (addr \<times> ast) list" where
  "offsets n [] = []"
| "offsets n (t # ts) = (n, t) # offsets (n + node_count t) ts"

lemma map_snd_offsets [simp]: "map snd (offsets n ts) = ts"
  by (induction ts arbitrary: n) simp_all

lemma length_offsets [simp]: "length (offsets n ts) = length ts"
  by (induction ts arbitrary: n) simp_all

lemma offsets_mem: "(k, c) \<in> set (offsets n ts) \<Longrightarrow> c \<in> set ts"
  by (metis image_eqI map_snd_offsets set_map snd_conv)

lemma size_offset [termination_simp]: "(k, c) \<in> set (offsets n (children t)) \<Longrightarrow> size c < size t"
  by (blast dest: offsets_mem intro: size_child)

fun copy_at :: "addr \<Rightarrow> ast \<Rightarrow> ast" where
  "copy_at n t = the (assemble (Obj n (obj_payload (obj_of t)))
     (map (\<lambda>(k, c). copy_at k c) (offsets (Suc n) (children t))))"

declare copy_at.simps [simp del]

definition copies_at :: "addr \<Rightarrow> ast list \<Rightarrow> ast list" where
  "copies_at n ts = map (\<lambda>(k, c). copy_at k c) (offsets n ts)"

lemma copies_at_simps [simp]:
  "copies_at n [] = []" "copies_at n (t # ts) = copy_at n t # copies_at (n + node_count t) ts"
  by (simp_all add: copies_at_def)

lemma length_copies [simp]: "length (copies_at n ts) = length ts"
  by (simp add: copies_at_def)

lemma copy_at_assemble:
  "assemble (Obj n (obj_payload (obj_of t))) (copies_at (Suc n) (children t)) = Some (copy_at n t)"
  using assemble_complete [of "copies_at (Suc n) (children t)" t n]
  by (auto simp: copy_at.simps [of n t] copies_at_def)

lemma copy_at_simps [simp]:
  "obj_of (copy_at n t) = Obj n (obj_payload (obj_of t))"
  "children (copy_at n t) = copies_at (Suc n) (children t)"
  "addr_of (copy_at n t) = n"
  "getKind (copy_at n t) = getKind t"
  using assemble_Some [OF copy_at_assemble [of n t]]
  by (simp_all add: addr_of_def getKind_def obj_kind_def)

lemma map_copies:
  assumes "\<And>c n. c \<in> set ts \<Longrightarrow> f (copy_at n c) = g c"
  shows "map f (copies_at n ts) = map g ts"
  using assms by (induction ts arbitrary: n) simp_all

lemma nth_copies: "i < length ts \<Longrightarrow> \<exists>k. copies_at n ts ! i = copy_at k (ts ! i)"
proof (induction ts arbitrary: n i)
  case (Cons t ts)
  then show ?case by (cases i) auto
qed simp

lemma node_count_copy [simp]: "node_count (copy_at n t) = node_count t"
proof (induction t arbitrary: n rule: ast_children_induct)
  case (node t)
  show ?case
    by (simp add: node_count_children [of "copy_at n t"] node_count_children [of t]
        map_copies [of "children t" node_count node_count, OF node.IH])
qed

lemma copy_copy [simp]: "copy_at k (copy_at n t) = copy_at k t"
proof (induction t arbitrary: k n rule: ast_children_induct)
  case (node t)
  have "copies_at j (copies_at i ts) = copies_at j ts" if "set ts \<subseteq> set (children t)" for i j ts
    using that by (induction ts arbitrary: i j) (simp_all add: node.IH)
  with copy_at_assemble [of k "copy_at n t"] copy_at_assemble [of k t] show ?case by simp
qed

lemma grammatical_copy [simp]: "grammatical m (copy_at n t) \<longleftrightarrow> grammatical m t"
proof (induction t arbitrary: m n rule: ast_children_induct)
  case (node t)
  have "grammatical m' (copies_at k (children t) ! i) \<longleftrightarrow> grammatical m' (children t ! i)"
    if "i < length (children t)" for m' i k
    using nth_copies [OF that, of k] node.IH [OF nth_mem [OF that]] by auto
  then show ?case
    by (simp add: grammatical_eq [of m "copy_at n t"] grammatical_eq [of m t] children_ok_def
        map_copies [of "children t" getKind getKind])
qed

lemma addrs_copy: "map addr_of (nodes (copy_at n t)) = [n ..< n + node_count t]"
proof (induction t arbitrary: n rule: ast_children_induct)
  case (node t)
  have "map addr_of (nodes_of (copies_at k ts)) = [k ..< k + sum_list (map node_count ts)]"
    if "set ts \<subseteq> set (children t)" for k ts
    using that
  proof (induction ts arbitrary: k)
    case (Cons c cs)
    then show ?case
      using upt_add_eq_append [of k "k + node_count c" "sum_list (map node_count cs)"]
      by (simp add: node.IH add.assoc)
  qed simp
  from this [of "children t" "Suc n"] show ?case
    by (simp add: nodes_eq [of "copy_at n t"] node_count_children [of t] upt_conv_Cons
        del: upt_Suc)
qed

lemma copy_units:
  "copy_at n (CompilationUnit a cs) = CompilationUnit n (copies_at (Suc n) cs)"
  "copy_at n (MetaUnit a i cs) = MetaUnit n i (copies_at (Suc n) cs)"
  by (simp_all add: copy_at.simps [of n] assemble_def copies_at_def)

lemma unit_ok_copy: "unit_ok t \<Longrightarrow> unit_ok (copy_at n t)"
  by (auto simp: unit_ok_def top_level_ok_def copies_at_def dest!: offsets_mem)

section \<open>Layouts under new addresses\<close>

fun number_layout :: "addr \<Rightarrow> layout \<Rightarrow> layout" where
  "number_layout n [] = []"
| "number_layout n (None # l) = None # number_layout n l"
| "number_layout n (Some x # l) = Some (Obj n (obj_payload x)) # number_layout (Suc n) l"

definition objects :: "layout \<Rightarrow> nat" where
  "objects l = length (filter (\<lambda>x. x \<noteq> None) l)"

lemma objects_simps [simp]:
  "objects [] = 0" "objects (None # l) = objects l" "objects (Some x # l) = Suc (objects l)"
  "objects (k @ l) = objects k + objects l"
  by (simp_all add: objects_def)

lemma number_append: "number_layout n (k @ l) = number_layout n k @ number_layout (n + objects k) l"
  by (induction n k rule: number_layout.induct) simp_all

lemma objects_flatten [simp]: "objects (flatten t) = node_count t"
proof (induction t rule: ast_children_induct)
  case (node t)
  have "objects (flattens ts) = sum_list (map node_count ts)" if "set ts \<subseteq> set (children t)" for ts
    using that by (induction ts) (simp_all add: node.IH)
  from this [of "children t"] show ?case
    by (simp add: flatten_eq [of t] node_count_children [of t])
qed

lemma number_flatten: "number_layout n (flatten t) = flatten (copy_at n t)"
proof (induction t arbitrary: n rule: ast_children_induct)
  case (node t)
  have "number_layout k (flattens ts) = flattens (copies_at k ts)" if "set ts \<subseteq> set (children t)" for k ts
    using that by (induction ts arbitrary: k) (simp_all add: node.IH number_append)
  from this [of "children t" "Suc n"] show ?case
    by (simp add: flatten_eq [of t] flatten_eq [of "copy_at n t"] number_append)
qed

end
