(* ===== verification/Cloner.thy ===== *)
theory Cloner imports Shapes Parser begin

text \<open>
  \<^verbatim>\<open>src/AST/ASTCloner\<close>, and the \<open>NodeContributor\<close> of \<^verbatim>\<open>src/Codegen/CodeExecutor.cpp\<close>: the callbacks
  of a running meta function write clones of the contributed nodes, and constants for the introduced
  declarations, to the layout of the instantiation.
\<close>

section \<open>Cloning\<close>

text \<open>A relocator moves source ranges; the one that is used leaves them where they are.\<close>

type_synonym relocator = "source_range \<Rightarrow> source_range"

definition sourceRelocator :: relocator where
  "sourceRelocator rg = rg"

definition relocate :: "relocator \<Rightarrow> ('t, source_range) annotated \<Rightarrow> ('t, source_range) annotated" where
  "relocate rel x = Annotated (getType x) (rel (getAnnotation x))"

text \<open>A node without its children: the names of meta declarations and constants are not relocated.\<close>

fun clone_payload :: "relocator \<Rightarrow> payload \<Rightarrow> payload" where
  "clone_payload rel PCompilationUnit = PCompilationUnit"
| "clone_payload rel (PMetaUnit i) = PMetaUnit i"
| "clone_payload rel (PFunctionDecl n) = PFunctionDecl (relocate rel n)"
| "clone_payload rel (PMetaDecl n) = PMetaDecl n"
| "clone_payload rel (PGlobalConstantDecl n) = PGlobalConstantDecl n"
| "clone_payload rel (PMetaContribution rg) = PMetaContribution (rel rg)"
| "clone_payload rel (PMetaInstantiationExpr rg) = PMetaInstantiationExpr (rel rg)"
| "clone_payload rel PArgumentDeclList = PArgumentDeclList"
| "clone_payload rel PAnonymousArgumentDecl = PAnonymousArgumentDecl"
| "clone_payload rel (PNamedArgumentDecl n) = PNamedArgumentDecl (relocate rel n)"
| "clone_payload rel PUnscopedCompoundStmt = PUnscopedCompoundStmt"
| "clone_payload rel PCompoundStmt = PCompoundStmt"
| "clone_payload rel PReturnStmt = PReturnStmt"
| "clone_payload rel PExpressionStmt = PExpressionStmt"
| "clone_payload rel (PDeclStmt n) = PDeclStmt (relocate rel n)"
| "clone_payload rel PIfStmt = PIfStmt"
| "clone_payload rel PMetaIfStmt = PMetaIfStmt"
| "clone_payload rel PMetaCalculationStmt = PMetaCalculationStmt"
| "clone_payload rel (PDeclRefExpr n) = PDeclRefExpr (relocate rel n)"
| "clone_payload rel (PIntegerLiteralExpr l) = PIntegerLiteralExpr (relocate rel l)"
| "clone_payload rel (PBooleanLiteralExpr l) = PBooleanLiteralExpr (relocate rel l)"
| "clone_payload rel PErroneousExpr = PErroneousExpr"
| "clone_payload rel (PBinaryOperatorExpr b) = PBinaryOperatorExpr (relocate rel b)"
| "clone_payload rel PCallOperatorExpr = PCallOperatorExpr"

lemma relocate_id [simp]: "relocate sourceRelocator x = x"
  by (cases x) (simp add: relocate_def sourceRelocator_def)

lemma clone_payload_id [simp]: "clone_payload sourceRelocator p = p"
  by (cases p) (simp_all add: sourceRelocator_def)

lemma kind_of_clone [simp]: "kind_of_payload (clone_payload rel p) = kind_of_payload p"
  by (cases p) simp_all

section \<open>The contributor\<close>

text \<open>
  The layout that is written, the next address of the context, and the diagnostics. What an exported
  value is reported with, the flags of the invocation and the instantiation as text, are arguments.
\<close>

record contributor =
  c_layout :: layout
  c_next :: addr
  c_engine :: engine

definition allocate_on :: "payload \<Rightarrow> contributor \<Rightarrow> obj \<times> contributor" where
  "allocate_on p c = (Obj (c_next c) p, c\<lparr>c_next := Suc (c_next c)\<rparr>)"

text \<open>\<open>clone\<close> allocates the copy on the context.\<close>

definition clone :: "relocator \<Rightarrow> obj \<Rightarrow> contributor \<Rightarrow> obj \<times> contributor" where
  "clone rel node c = allocate_on (clone_payload rel (obj_payload node)) c"

definition stringifyArgument :: "ast \<Rightarrow> string" where
  "stringifyArgument arg = (case arg of
     IntegerLiteralExpr a l \<Rightarrow> int_to_string (sint (getType l)) | _ \<Rightarrow> ''{intermediate}'')"

fun join :: "string \<Rightarrow> string list \<Rightarrow> string" where
  "join sep [] = []"
| "join sep [x] = x"
| "join sep (x # xs) = x @ sep @ join sep xs"

definition stringifyInstantiation :: "ident \<Rightarrow> ast list \<Rightarrow> string" where
  "stringifyInstantiation name args =
     getType name @ ''<'' @ join '', '' (map stringifyArgument args) @ ''>''"

definition contribute :: "obj \<Rightarrow> contributor \<Rightarrow> contributor" where
  "contribute node c =
     (let (cloned, c) = clone sourceRelocator node c
      in c\<lparr>c_layout := directWrite cloned (c_layout c)\<rparr>)"

definition writer_write :: "payload \<Rightarrow> contributor \<Rightarrow> contributor" where
  "writer_write p c = (let (node, c) = allocate_on p c in c\<lparr>c_layout := write_node node (c_layout c)\<rparr>)"

definition introduce_constant ::
    "invocation \<Rightarrow> string \<Rightarrow> obj \<Rightarrow> i32 \<Rightarrow> cursor \<Rightarrow> contributor \<Rightarrow> contributor res" where
  "introduce_constant ci inst node val cur c =
     (if isNamedDeclContext (obj_kind node) then
        let c = (if hasVerboseFlag ci VInstantiatedExports
              then c\<lparr>c_engine := diagnoseAt NoteInstantiationExported (getName node)
                [ArgStr inst, ArgStr (name_str node), ArgInt (sint val)] (c_engine c)\<rparr> else c);
            name = relocate sourceRelocator (getName node);
            c = writer_write (if isInsideFunctionDecl cur then PDeclStmt name else PGlobalConstantDecl name) c
        in Inr (writer_write (PIntegerLiteralExpr (Annotated val (getAnnotation name))) c)
      else Inl (Unreachable ''Expected the node to match the predicate!''))"

definition reduce_production :: "contributor \<Rightarrow> contributor" where
  "reduce_production c = c\<lparr>c_layout := markReduce (c_layout c)\<rparr>"

section \<open>The callbacks\<close>

text \<open>
  What a running meta function calls: the depth is passed as an integer and becomes a cursor that is
  outside every meta declaration.
\<close>

datatype callback = ContributeNode obj | ReduceNode | IntroduceNode obj i32 depth_level

definition run_callback :: "invocation \<Rightarrow> string \<Rightarrow> callback \<Rightarrow> contributor \<Rightarrow> contributor res" where
  "run_callback ci inst cb c = (case cb of
     ContributeNode node \<Rightarrow> Inr (contribute node c)
   | ReduceNode \<Rightarrow> Inr (reduce_production c)
   | IntroduceNode node val depth \<Rightarrow>
       introduce_constant ci inst node val \<lparr>c_depth = depth, c_meta = Outside\<rparr> c)"

section \<open>What the callbacks write\<close>

text \<open>The callbacks that contribute a layout element by element.\<close>

definition replay :: "layout \<Rightarrow> callback list" where
  "replay l = map (\<lambda>x. case x of Some n \<Rightarrow> ContributeNode n | None \<Rightarrow> ReduceNode) l"

definition appended :: "layout \<Rightarrow> contributor \<Rightarrow> contributor" where
  "appended l c = c\<lparr>c_layout := c_layout c @ number_layout (c_next c) l, c_next := c_next c + objects l\<rparr>"

lemma appended_simps [simp]:
  "appended [] c = c"
  "c_layout (appended l c) = c_layout c @ number_layout (c_next c) l"
  "c_next (appended l c) = c_next c + objects l"
  "c_engine (appended l c) = c_engine c"
  "appended k (appended l c) = appended (l @ k) c"
  by (simp_all add: appended_def number_append add.assoc)

lemmas contributor_defs = contribute_def clone_def allocate_on_def reduce_production_def
  writer_write_def directWrite_def markReduce_def

lemma run_contribute:
  "run_callback ci inst (ContributeNode n) c = Inr (appended [Some n] c)"
  by (simp add: run_callback_def contributor_defs appended_def)

lemma run_reduce: "run_callback ci inst ReduceNode c = Inr (appended [None] c)"
  by (simp add: run_callback_def contributor_defs appended_def)

lemma run_replay: "foldE (run_callback ci inst) (replay l) c = Inr (appended l c)"
proof (induction l arbitrary: c)
  case (Cons x l)
  then show ?case by (cases x) (simp_all add: replay_def run_contribute run_reduce)
qed (simp add: replay_def)

text \<open>An introduced declaration becomes a local variable or a constant with its value.\<close>

definition constant_tree :: "obj \<Rightarrow> i32 \<Rightarrow> depth_level \<Rightarrow> ast" where
  "constant_tree node val depth =
     (let literal = IntegerLiteralExpr 0 (Annotated val (getAnnotation (getName node)))
      in if depth = InsideFunctionDecl then DeclStmt 0 (getName node) literal
         else GlobalConstantDecl 0 (getName node) literal)"

lemma isInsideFunctionDecl_of [simp]:
  "isInsideFunctionDecl \<lparr>c_depth = d, c_meta = m\<rparr> \<longleftrightarrow> d = InsideFunctionDecl"
  by (cases d) (simp_all add: isInsideFunctionDecl_def less_eq_depth_level_def)

lemma write_node_leaf: "\<not> isNodeRequiringReduceMarker n \<Longrightarrow> write_node n l = l @ [Some n]"
  by (simp add: write_node_def directWrite_def)

definition export_note :: "invocation \<Rightarrow> string \<Rightarrow> obj \<Rightarrow> i32 \<Rightarrow> engine \<Rightarrow> engine" where
  "export_note ci inst node val e = (if hasVerboseFlag ci VInstantiatedExports
     then diagnoseAt NoteInstantiationExported (getName node)
       [ArgStr inst, ArgStr (name_str node), ArgInt (sint val)] e else e)"

lemma hasErrors_export_note [simp]: "hasErrors (export_note ci inst node val e) = hasErrors e"
  by (simp add: export_note_def)

lemma run_introduce:
  assumes "isNamedDeclContext (obj_kind node)"
  shows "run_callback ci inst (IntroduceNode node val depth) c
    = Inr ((appended (flatten (constant_tree node val depth)) c)\<lparr>c_engine :=
        export_note ci inst node val (c_engine c)\<rparr>)"
  using assms
  by (cases c) (simp add: run_callback_def introduce_constant_def writer_write_def allocate_on_def
      Let_def write_node_leaf isNodeRequiringReduceMarker_def isRequiringReduceMarker_def
      hasUnknownAmountOfChildren_def constant_tree_def appended_def flatten_eq export_note_def)

end
