(* ===== verification/Samples.thy ===== *)
theory Samples imports Parser Sema Dependency Mangling Cloner begin

text \<open>
  Small concrete programs the witnesses evaluate the model on: the unit of
  \<^verbatim>\<open>f(int x) int -> { return x; }\<close>, its parse tree, and a meta unit.
\<close>

definition named :: "string \<Rightarrow> ident" where
  "named n = Annotated n \<lparr>getStart = 0, getEnd = length n\<rparr>"

definition sample_params :: params where
  "sample_params = \<lparr>edit_distance = (\<lambda>x y. if x = y then 0 else 1), iteration = id, inst_view = Map.empty\<rparr>"

definition sample_function :: "addr \<Rightarrow> ast" where
  "sample_function a = FunctionDecl a (named ''f'')
     (ArgumentDeclList (a + 1) [NamedArgumentDecl (a + 2) (named ''x'')])
     (Some (AnonymousArgumentDecl (a + 3)))
     (CompoundStmt (a + 4) [ReturnStmt (a + 5) (Some (DeclRefExpr (a + 6) (named ''x'') None))])"

definition resolved_function :: "addr \<Rightarrow> ast" where
  "resolved_function a = FunctionDecl a (named ''f'')
     (ArgumentDeclList (a + 1) [NamedArgumentDecl (a + 2) (named ''x'')])
     (Some (AnonymousArgumentDecl (a + 3)))
     (CompoundStmt (a + 4) [ReturnStmt (a + 5) (Some (DeclRefExpr (a + 6) (named ''x'') (Some (a + 2))))])"

definition sample_children :: "ast list" where
  "sample_children = [sample_function 1]"

lemmas sample_defs = named_def sample_function_def resolved_function_def
  sample_children_def

lemma sample_unit_ok: "unit_ok (CompilationUnit 0 sample_children)"
  by (simp add: sample_defs unit_ok_def top_level_ok_def kind_pred_defs)

lemma sample_distinct: "distinct (map addr_of (nodes (CompilationUnit 0 sample_children)))"
  by (simp add: sample_defs nodes_eq addr_of_def)

lemma sample_resolved:
  "unit_tree shadows_nothing Map.empty (CompilationUnit 0 sample_children)
     = CompilationUnit 0 [resolved_function 1]"
  by (simp add: sample_defs unit_tree_def unit_decls_def may_declare_def res_tree_simps res_decls_simps
      declares_def name_str_def getName_def Let_def)

lemma sample_no_error: "\<not> unit_err shadows_nothing Map.empty (CompilationUnit 0 sample_children)"
  by (simp add: sample_defs unit_err_def unit_decls_def may_declare_def res_err_simps res_decls_simps
      declares_def clashes_def name_str_def getName_def Let_def)

text \<open>The parse tree of that program, with every token at the start of an empty file.\<close>

definition token :: "token_kind \<Rightarrow> string \<Rightarrow> ptree" where
  "token k x = Terminal k x 1 0"

definition sample_vparams :: vparams where
  "sample_vparams = \<lparr>source_text = [], getAsInteger = (\<lambda>x. None)\<rparr>"

definition sample_invocation :: invocation where
  "sample_invocation = \<lparr>emitAction = EmitNone, optLevel = OptDebug, verboseFlags = 0\<rparr>"

definition sample_parse_function :: ptree where
  "sample_parse_function = Context R_functionDecl
     [token T_Identifier ''f'', token T_OpenPar ''('',
      Context R_argumentDeclList [Context R_argumentDecl
        [Context R_argumentType [token T_Identifier ''int''], Context R_argumentName [token T_Identifier ''x'']]],
      token T_ClosePar '')'',
      Context R_returnDecl [Context R_argumentDecl [Context R_argumentType [token T_Identifier ''int'']]],
      token T_Arrow ''->'',
      Context R_statement [Context R_compoundStmt [Context R_basicCompoundStmt
        [token T_OpenCurly ''{'',
         Context R_statement [Context R_returnStmt [token T_Return ''return'',
           Context R_expr [Context R_declRefExpr [token T_Identifier ''x'']], token T_Semicolon '';'']],
         token T_CloseCurly ''}'']]]]"

definition sample_parse_children :: "ptree list" where
  "sample_parse_children = [Context R_runtimeGlobalScopeNode [sample_parse_function], token T_EOF ''<EOF>'']"

lemmas sample_parse_defs = token_def sample_vparams_def sample_parse_function_def sample_parse_children_def

lemma sample_conforms: "conforms None (Context R_compilationUnit sample_parse_children)"
  by (simp add: sample_parse_defs enclosed_in_def)

lemma empty_source_range: "Diagnostics.extend (fromSource [] (Suc 0) 0) n = \<lparr>getStart = 0, getEnd = n\<rparr>"
  by (simp add: fromSource_def from_source_lines.simps from_source_chars.simps Diagnostics.extend_def)

lemma sample_quiet: "complaints sample_vparams (Context R_compilationUnit sample_parse_children) = []"
  by (simp add: sample_parse_defs complaints.simps(2) visit_defs child_simps)

lemma sample_denotes:
  "denoted_unit sample_vparams sample_parse_children = CompilationUnit 0 sample_children"
  by (simp add: denoted_unit_def first_address_def sample_parse_defs sample_defs build.simps(2)
      visit_defs child_simps identifierOf_def assemble_def empty_source_range Let_def nodes_eq)

text \<open>A meta unit that results from instantiating the meta declaration \<open>f\<close> at address 5 of unit 4.\<close>

definition sample_decl :: obj where
  "sample_decl = Obj 5 (PMetaDecl (named ''f''))"

definition sample_meta_params :: params where
  "sample_meta_params = sample_params\<lparr>inst_view := [9 \<mapsto> (named ''f'', Some sample_decl)]\<rparr>"

definition sample_meta_scope :: scope_chain where
  "sample_meta_scope = [AllocatedScope True [(''f'', sample_decl)]]"

definition sample_meta_state :: reader where
  "sample_meta_state = (reader_new engine_new (flatten (MetaUnit 10 9 [sample_function 11])))
     \<lparr>containingUnit := [5 \<mapsto> Obj 4 PCompilationUnit], unitScope := [4 \<mapsto> sample_meta_scope]\<rparr>"

lemmas sample_meta_defs = sample_decl_def sample_meta_params_def sample_params_def sample_meta_scope_def
  sample_meta_state_def reader_new_def builder_new_def builder_state.defs

lemma sample_meta_env: "env_of sample_meta_scope = [''f'' \<mapsto> sample_decl]"
  by (simp add: env_of_def sample_meta_scope_def fun_eq_iff)

lemma sample_decl_simps: "isMetaDecl sample_decl" "obj_addr sample_decl = 5"
  by (simp_all add: sample_decl_def isMetaDecl_def)

lemma sample_meta_tree:
  "unit_tree (shadows_instantiated (named ''f'') sample_decl) (env_of sample_meta_scope)
     (MetaUnit 10 9 [sample_function 11]) = MetaUnit 10 9 [resolved_function 11]"
  by (simp add: sample_defs sample_meta_env sample_decl_simps unit_tree_def unit_decls_def
      may_declare_def shadows_instantiated_def res_tree_simps res_decls_simps
      declares_def name_str_def getName_def Let_def)

lemma sample_meta_no_error:
  "\<not> unit_err (shadows_instantiated (named ''f'') sample_decl) (env_of sample_meta_scope)
     (MetaUnit 10 9 [sample_function 11])"
  by (simp add: sample_defs sample_meta_env sample_decl_simps unit_err_def unit_decls_def
      may_declare_def shadows_instantiated_def res_err_simps res_decls_simps
      declares_def clashes_def name_str_def getName_def Let_def)

lemma sample_meta_addrs: "map addr_of (nodes (MetaUnit 10 9 [sample_function 11])) = [10 ..< 18]"
  by (simp add: sample_defs nodes_eq addr_of_def upt_conv_Cons)

lemma sample_meta_scope_addrs: "scope_addrs sample_meta_scope = {5}"
  by (simp add: scope_addrs_def sample_meta_scope_def sample_decl_def)

lemma sample_meta_ok: "unit_ok (MetaUnit 10 9 [sample_function 11])"
  by (simp add: sample_defs unit_ok_def top_level_ok_def kind_pred_defs)

lemma sample_meta_distinct: "distinct (map addr_of (nodes (MetaUnit 10 9 [sample_function 11])))"
  unfolding sample_meta_addrs by simp

lemma sample_meta_new:
  "addr_of ` set (nodes (MetaUnit 10 9 [sample_function 11])) \<inter> insert 5 (scope_addrs sample_meta_scope) = {}"
proof -
  have "addr_of ` set (nodes (MetaUnit 10 9 [sample_function 11])) = set [10 ..< 18]"
    by (metis sample_meta_addrs set_map)
  then show ?thesis by (simp add: sample_meta_scope_addrs)
qed

lemma sample_meta_facts:
  "remaining sample_meta_state = flatten (MetaUnit 10 9 [sample_function 11]) @ []"
  "top_mode (modeStack sample_meta_state) = Outside" "\<not> isInAnyScope sample_meta_state"
  "exportedNode sample_meta_state 10 = None"
  "inst_view sample_meta_params 9 = Some (named ''f'', Some sample_decl)" "isMetaDecl sample_decl"
  "containingUnit sample_meta_state (obj_addr sample_decl) = Some (Obj 4 PCompilationUnit)"
  "unitScope sample_meta_state 4 = Some sample_meta_scope"
  "\<not> hasErrors (engine_of sample_meta_state)"
  "addr_of ` set (nodes (MetaUnit 10 9 [sample_function 11])) \<inter>
     insert (obj_addr sample_decl) (scope_addrs sample_meta_scope) = {}"
  using sample_meta_new
  by (simp_all add: sample_meta_state_def reader_new_def builder_new_def builder_state.defs remaining_def
      isInAnyScope_def sample_meta_params_def sample_decl_simps hasErrors_def engine_new_def)

text \<open>\<^verbatim>\<open>g() -> { f(1); }\<close>, where \<open>f\<close> is the function above, and a call without the argument.\<close>

definition sample_caller :: "ast list \<Rightarrow> ast" where
  "sample_caller es = FunctionDecl 20 (named ''g'') (ArgumentDeclList 21 []) None (CompoundStmt 22
     [ExpressionStmt 23 (CallOperatorExpr 24 (DeclRefExpr 25 (named ''f'') (Some 1)) es)])"

definition sample_one :: ast where
  "sample_one = IntegerLiteralExpr 26 (Annotated 1 \<lparr>getStart = 0, getEnd = 1\<rparr>)"

definition sample_heap :: heap where
  "sample_heap = [1 \<mapsto> resolved_function 1]"

lemmas sample_caller_defs = sample_caller_def sample_one_def sample_heap_def

lemma sample_caller_safe:
  "sema_safe sample_heap None (sample_caller [])" "sema_safe sample_heap None (sample_caller [sample_one])"
  by (auto simp: sema_safe_eq sample_caller_defs calls_declared_def resolved_function_def)

lemma sample_caller_fits: "tree_fits sample_heap None (sample_caller [sample_one])"
  by (simp add: tree_fits_eq sample_caller_defs node_fits_def isIdentifierReserved_def named_def
      resolved_function_def)

lemma sample_caller_unfit: "\<not> tree_fits sample_heap None (sample_caller [])"
  by (simp add: tree_fits_eq sample_caller_defs node_fits_def isIdentifierReserved_def named_def
      resolved_function_def)

text \<open>
  The contribution \<^verbatim>\<open>{ meta if (f<>) { g() -> { } meta { h<>; } } }\<close> of a meta declaration.
\<close>

definition sample_instantiation :: "addr \<Rightarrow> string \<Rightarrow> ast" where
  "sample_instantiation a n = MetaInstantiationExpr a \<lparr>getStart = 0, getEnd = 2\<rparr>
     (DeclRefExpr (a + 1) (named n) None) []"

definition sample_meta_if :: "ast list \<Rightarrow> ast" where
  "sample_meta_if cs = MetaContribution 30 \<lparr>getStart = 0, getEnd = 0\<rparr>
     [MetaIfStmt 31 (sample_instantiation 32 ''f'')
        (MetaContribution 34 \<lparr>getStart = 0, getEnd = 0\<rparr> cs) None]"

definition sample_calculation :: ast where
  "sample_calculation = MetaCalculationStmt 35
     (UnscopedCompoundStmt 39 [ExpressionStmt 36 (sample_instantiation 37 ''h'')]) []"

definition recorder :: "(ast, addr list) taker" where
  "recorder t s = Inr (True, s @ [addr_of t])"

lemmas sample_dependency_defs = sample_instantiation_def sample_meta_if_def sample_calculation_def
  recorder_def named_def

end
