(* ===== verification/IR.thy ===== *)
theory IR imports AST begin

text \<open>
  What the code generators build: the blocks of a function and the calls of the IR builder, in the
  order they are made, each with the block that is the insertion point. A block, and the value a call
  returns, are named by a number that is not used again. Of the type of a value the generators ask
  only whether it is a pointer.

  The interface \<^verbatim>\<open>IRContext\<close> of \<^verbatim>\<open>src/Codegen/IRContext.hpp\<close> is a record of operations on the state of
  the context.
\<close>

section \<open>Values and instructions\<close>

type_synonym block = nat

datatype ir_value =
    VConst i32 \<comment> \<open>an integer constant\<close>
  | VPointer addr \<comment> \<open>the address of a node as a constant\<close>
  | VArg nat \<comment> \<open>an integer argument of the function\<close>
  | VContext \<comment> \<open>the context argument of a meta function\<close>
  | VFunction string
  | VInstr nat bool \<comment> \<open>what a call returns, and whether it is a pointer\<close>

fun isPointerTy :: "ir_value \<Rightarrow> bool" where
  "isPointerTy (VConst i) = False"
| "isPointerTy (VPointer a) = False"
| "isPointerTy (VArg n) = False"
| "isPointerTy VContext = True"
| "isPointerTy (VFunction f) = True"
| "isPointerTy (VInstr n p) = p"

datatype ir_binop = Mul | SDiv | Add | Sub

datatype ir_pred = SLT | SGT | SLE | SGE | EQ | NE

datatype instr =
    Alloca string
  | Store ir_value ir_value \<comment> \<open>value, pointer\<close>
  | Load ir_value
  | BinOp ir_binop ir_value ir_value
  | ICmp ir_pred ir_value ir_value
  | ZExt ir_value
  | IsNotNull ir_value
  | Call ir_value "ir_value list"
  | IntToPtr ir_value
  | PointerCast ir_value
  | Ret ir_value
  | RetVoid
  | Br block
  | CondBr ir_value block block

section \<open>Functions under construction\<close>

record ir_function =
  arg_size :: nat
  ir_blocks :: "(block \<times> string) list"
  ir_code :: "(block option \<times> nat \<times> instr) list"
  insert_point :: "block option"
  ir_next :: nat

definition ir_new :: "nat \<Rightarrow> ir_function" where
  "ir_new n = \<lparr>arg_size = n, ir_blocks = [], ir_code = [], insert_point = None, ir_next = 0\<rparr>"

definition setInsertPoint :: "block \<Rightarrow> ir_function \<Rightarrow> ir_function" where
  "setInsertPoint b f = f\<lparr>insert_point := Some b\<rparr>"

text \<open>A call of the builder: the instruction goes to the end of the insertion block.\<close>

definition emit :: "instr \<Rightarrow> bool \<Rightarrow> ir_function \<Rightarrow> ir_value \<times> ir_function" where
  "emit i pointer f = (VInstr (ir_next f) pointer,
     f\<lparr>ir_code := ir_code f @ [(insert_point f, ir_next f, i)], ir_next := Suc (ir_next f)\<rparr>)"

text \<open>Blocks are created before another block, or at the end.\<close>

fun insert_before :: "block option \<Rightarrow> block \<times> string \<Rightarrow> (block \<times> string) list \<Rightarrow> (block \<times> string) list" where
  "insert_before p x [] = [x]"
| "insert_before p x (y # ys) = (if p = Some (fst y) then x # y # ys else y # insert_before p x ys)"

definition createBlockBefore :: "block option \<Rightarrow> string \<Rightarrow> ir_function \<Rightarrow> block \<times> ir_function" where
  "createBlockBefore p name f = (ir_next f,
     f\<lparr>ir_blocks := insert_before p (ir_next f, name) (ir_blocks f), ir_next := Suc (ir_next f)\<rparr>)"

definition createBlock :: "string \<Rightarrow> ir_function \<Rightarrow> block \<times> ir_function" where
  "createBlock name f = createBlockBefore None name f"

fun insert_after :: "block \<Rightarrow> block \<times> string \<Rightarrow> (block \<times> string) list \<Rightarrow> (block \<times> string) list" where
  "insert_after p x [] = []"
| "insert_after p x (y # ys) = (if p = fst y then y # x # ys else y # insert_after p x ys)"

definition moveAfter :: "block \<Rightarrow> block \<Rightarrow> ir_function \<Rightarrow> ir_function" where
  "moveAfter b p f = (if b = p then f else
     case find (\<lambda>x. fst x = b) (ir_blocks f) of
       None \<Rightarrow> f
     | Some x \<Rightarrow> f\<lparr>ir_blocks := insert_after p x (filter (\<lambda>y. fst y \<noteq> b) (ir_blocks f))\<rparr>)"

section \<open>The context\<close>

text \<open>
  The globals a generator asks for: a function of the source, or the function an instantiation
  exports, which may be required to be completed.
\<close>

record 'c ir_context =
  lookupGlobal_function :: "addr \<Rightarrow> 'c \<Rightarrow> (ir_value \<times> 'c) res"
  lookupGlobal_inst :: "addr \<Rightarrow> bool \<Rightarrow> 'c \<Rightarrow> (ir_value option \<times> 'c) res"

section \<open>Loops that thread a state\<close>

fun mapS :: "('a \<Rightarrow> 's \<Rightarrow> ('b \<times> 's) res) \<Rightarrow> 'a list \<Rightarrow> 's \<Rightarrow> ('b list \<times> 's) res" where
  "mapS f [] s = Inr ([], s)"
| "mapS f (x # xs) s = bindE (f x s) (\<lambda>(y, s). bindE (mapS f xs s) (\<lambda>(ys, s). Inr (y # ys, s)))"

lemma mapS_cong [fundef_cong]:
  "xs = ys \<Longrightarrow> s = t \<Longrightarrow> (\<And>x s. x \<in> set ys \<Longrightarrow> f x s = g x s) \<Longrightarrow> mapS f xs s = mapS g ys t"
proof (induction xs arbitrary: ys s t)
  case (Cons x xs)
  then show ?case by (cases "g x t") (auto intro!: bindE_cong)
qed simp

end
