(* ===== verification/FunctionCodegen.thy ===== *)
theory FunctionCodegen imports IR Sema begin

text \<open>
  \<^verbatim>\<open>src/Codegen/FunctionCodegen\<close>: the code of one function. The value map is a stack of scopes from
  declarations to values; the builder and its function are an \<open>ir_function\<close>; the context that provides
  globals is a parameter with a state of its own.

  The arguments of a call in C++ are evaluated in any order; where two of them load from memory the
  left one is taken first.
\<close>

section \<open>State\<close>

type_synonym values_scope = "addr \<Rightarrow> ir_value option"

record 'c fcodegen =
  fc_builder :: ir_function
  fc_values :: "values_scope list"
  fc_context :: 'c

text \<open>The state a generator of a function starts in.\<close>

definition fc_new :: "nat \<Rightarrow> 'd \<Rightarrow> 'd fcodegen" where
  "fc_new n c = \<lparr>fc_builder = ir_new n, fc_values = [], fc_context = c\<rparr>"

definition enterValueScope :: "'c fcodegen \<Rightarrow> 'c fcodegen" where
  "enterValueScope s = s\<lparr>fc_values := Map.empty # fc_values s\<rparr>"

definition leaveValueScope :: "'c fcodegen \<Rightarrow> 'c fcodegen" where
  "leaveValueScope s = s\<lparr>fc_values := tl (fc_values s)\<rparr>"

text \<open>The value of a declaration in the innermost scope that has one.\<close>

fun lookup_values :: "values_scope list \<Rightarrow> addr \<Rightarrow> ir_value option" where
  "lookup_values [] d = None"
| "lookup_values (m # ms) d = (case m d of Some v \<Rightarrow> Some v | None \<Rightarrow> lookup_values ms d)"

definition introduceValue :: "addr \<Rightarrow> ir_value \<Rightarrow> 'c fcodegen \<Rightarrow> 'c fcodegen res" where
  "introduceValue d v s = (case fc_values s of
     [] \<Rightarrow> Inl (AssertFailed ''No scope active'')
   | m # ms \<Rightarrow> Inr (s\<lparr>fc_values := m(d \<mapsto> v) # ms\<rparr>))"

definition lookupLocal :: "addr \<Rightarrow> 'c fcodegen \<Rightarrow> ir_value res" where
  "lookupLocal d s = (case lookup_values (fc_values s) d of
     Some v \<Rightarrow> Inr v
   | None \<Rightarrow> Inl (AssertFailed ''The value of the decl should be present!''))"

text \<open>Calls of the builder.\<close>

definition buildInstr :: "instr \<Rightarrow> bool \<Rightarrow> 'c fcodegen \<Rightarrow> ir_value \<times> 'c fcodegen" where
  "buildInstr i pointer s = (let (v, f) = emit i pointer (fc_builder s) in (v, s\<lparr>fc_builder := f\<rparr>))"

definition buildVoid :: "instr \<Rightarrow> 'c fcodegen \<Rightarrow> 'c fcodegen" where
  "buildVoid i s = snd (buildInstr i False s)"

definition newBlock :: "string \<Rightarrow> 'c fcodegen \<Rightarrow> block \<times> 'c fcodegen" where
  "newBlock name s = (let (b, f) = createBlock name (fc_builder s) in (b, s\<lparr>fc_builder := f\<rparr>))"

definition newBlockBefore :: "block \<Rightarrow> string \<Rightarrow> 'c fcodegen \<Rightarrow> block \<times> 'c fcodegen" where
  "newBlockBefore p name s =
     (let (b, f) = createBlockBefore (Some p) name (fc_builder s) in (b, s\<lparr>fc_builder := f\<rparr>))"

definition insertAt :: "block \<Rightarrow> 'c fcodegen \<Rightarrow> 'c fcodegen" where
  "insertAt b s = s\<lparr>fc_builder := setInsertPoint b (fc_builder s)\<rparr>"

definition loadMemory :: "ir_value \<Rightarrow> 'c fcodegen \<Rightarrow> ir_value \<times> 'c fcodegen" where
  "loadMemory v s = (if isPointerTy v then buildInstr (Load v) False s else (v, s))"

definition createEntryBlock :: "'c fcodegen \<Rightarrow> (block \<times> 'c fcodegen) res" where
  "createEntryBlock s =
     bindE (assertE (ir_blocks (fc_builder s) = []) ''Expected an empty function'') (\<lambda>_.
     let (b, s) = newBlock ''entry'' s in Inr (b, insertAt b s))"

text \<open>The new block is meant to follow the old one; the old one is moved behind itself.\<close>

definition createRegionAfter :: "block \<Rightarrow> string \<Rightarrow> 'c fcodegen \<Rightarrow> block \<times> 'c fcodegen" where
  "createRegionAfter b name s =
     (let (created, s) = newBlock name s;
          s = buildVoid (Br created) s;
          s = s\<lparr>fc_builder := moveAfter b b (fc_builder s)\<rparr>
      in (created, insertAt created s))"

section \<open>Arguments\<close>

text \<open>
  Every named argument gets a slot in the stack frame, read only ones are used as they are. The first
  argument of a meta function is its context and is skipped.
\<close>

definition frameArgument :: "bool \<Rightarrow> ir_value \<times> ast \<Rightarrow> 'c fcodegen \<Rightarrow> 'c fcodegen res" where
  "frameArgument isReadOnly = (\<lambda>(arg, decl) s. case decl of
     NamedArgumentDecl a n \<Rightarrow>
       if isReadOnly then introduceValue a arg s
       else (let (slot, s) = buildInstr (Alloca (getType n @ ''_framed'')) True s;
                 s = buildVoid (Store arg slot) s
             in introduceValue a slot s)
   | _ \<Rightarrow> Inr s)"

definition setUpStackFrame :: "ast list \<Rightarrow> bool \<Rightarrow> bool \<Rightarrow> 'c fcodegen \<Rightarrow> (block \<times> 'c fcodegen) res" where
  "setUpStackFrame args isReadOnly isThisCall s =
     (let first = (if isThisCall then 1 else 0) in
      bindE (assertE (length args + first = arg_size (fc_builder s))
        ''The given arguments must have the same count as the llvm::Function!'') (\<lambda>_.
      bindE (createEntryBlock s) (\<lambda>(b, s).
      bindE (foldE (frameArgument isReadOnly) (zip (map VArg [first ..< arg_size (fc_builder s)]) args) s) (\<lambda>s.
      Inr (b, s)))))"

section \<open>Expressions\<close>

definition isComparison :: "bin_op \<Rightarrow> ir_pred option" where
  "isComparison op = (case op of
     OperatorLessThan \<Rightarrow> Some SLT | OperatorGreaterThan \<Rightarrow> Some SGT
   | OperatorLessThanOrEq \<Rightarrow> Some SLE | OperatorGreaterThanOrEq \<Rightarrow> Some SGE
   | OperatorEqual \<Rightarrow> Some EQ | OperatorNotEqual \<Rightarrow> Some NE
   | _ \<Rightarrow> None)"

definition isArithmetic :: "bin_op \<Rightarrow> ir_binop option" where
  "isArithmetic op = (case op of
     OperatorMul \<Rightarrow> Some Mul | OperatorDiv \<Rightarrow> Some SDiv
   | OperatorPlus \<Rightarrow> Some Add | OperatorMinus \<Rightarrow> Some Sub
   | _ \<Rightarrow> None)"

text \<open>The instructions of a binary operator on the values of its operands.\<close>

definition codegenOperator :: "bin_op \<Rightarrow> ir_value \<Rightarrow> ir_value \<Rightarrow> 'c fcodegen \<Rightarrow> ir_value \<times> 'c fcodegen" where
  "codegenOperator op left right s =
     (case isArithmetic op of
        Some i \<Rightarrow>
          (let (l, s) = loadMemory left s; (r, s) = loadMemory right s in buildInstr (BinOp i l r) False s)
      | None \<Rightarrow> (case isComparison op of
          Some p \<Rightarrow>
            (let (l, s) = loadMemory left s; (r, s) = loadMemory right s;
                 (i, s) = buildInstr (ICmp p l r) False s
             in buildInstr (ZExt i) False s)
        | None \<Rightarrow> (let (r, s) = loadMemory right s in (right, buildVoid (Store r left) s))))"

fun codegenConstant :: "ast \<Rightarrow> ir_value res" where
  "codegenConstant (IntegerLiteralExpr a l) = Inr (VConst (getType l))"
| "codegenConstant (BooleanLiteralExpr a l) = Inr (VConst (if getType l then 1 else 0))"
| "codegenConstant t = Inl BadCast"

text \<open>A reference: a function of the context, a local variable, or the value of a constant.\<close>

definition codegenDeclRef :: "heap \<Rightarrow> 'c ir_context \<Rightarrow> addr option \<Rightarrow> 'c fcodegen \<Rightarrow> (ir_value \<times> 'c fcodegen) res" where
  "codegenDeclRef h cx d s = (case d of
     None \<Rightarrow> Inl (AssertFailed ''Tried to codegen an unresolved decl ref!'')
   | Some k \<Rightarrow> bindE (load h k) (\<lambda>decl.
       if isFunctionDecl (obj_of decl)
       then bindE (lookupGlobal_function cx k (fc_context s)) (\<lambda>(v, c). Inr (v, s\<lparr>fc_context := c\<rparr>))
       else if isVarDecl (obj_of decl) then bindE (lookupLocal k s) (\<lambda>v. Inr (v, s))
       else (case decl of
           GlobalConstantDecl a n e \<Rightarrow> bindE (codegenConstant e) (\<lambda>v. Inr (v, s))
         | _ \<Rightarrow> Inl (Unreachable ''Unhandled decl!''))))"

fun codegenExpr :: "heap \<Rightarrow> 'c ir_context \<Rightarrow> ast \<Rightarrow> 'c fcodegen \<Rightarrow> (ir_value \<times> 'c fcodegen) res" where
  "codegenExpr h cx (DeclRefExpr a n d) s = codegenDeclRef h cx d s"
| "codegenExpr h cx (MetaInstantiationExpr a rg d es) s =
     bindE (lookupGlobal_inst cx a True (fc_context s)) (\<lambda>(global, c).
       case global of
         Some v \<Rightarrow> Inr (v, s\<lparr>fc_context := c\<rparr>)
       | None \<Rightarrow> Inl (AssertFailed ''Expected all instantiations to be resolved before''))"
| "codegenExpr h cx (IntegerLiteralExpr a l) s = Inr (VConst (getType l), s)"
| "codegenExpr h cx (BooleanLiteralExpr a l) s = Inr (VConst (if getType l then 1 else 0), s)"
| "codegenExpr h cx (ErroneousExpr a) s = Inl (Unreachable ''Yeah nice'')"
| "codegenExpr h cx (BinaryOperatorExpr a b l r) s =
     bindE (codegenExpr h cx l s) (\<lambda>(left, s).
     bindE (codegenExpr h cx r s) (\<lambda>(right, s).
     Inr (codegenOperator (getType b) left right s)))"
| "codegenExpr h cx (CallOperatorExpr a c es) s =
     bindE (codegenExpr h cx c s) (\<lambda>(callee, s).
     bindE (mapS (\<lambda>e s. bindE (codegenExpr h cx e s) (\<lambda>(v, s). Inr (loadMemory v s))) es s) (\<lambda>(args, s).
     Inr (buildInstr (Call callee args) False s)))"
| "codegenExpr h cx t s = Inl (Unreachable ''Expected the node to match the predicate!'')"

section \<open>Statements\<close>

type_synonym 'c supplier = "block \<Rightarrow> 'c fcodegen \<Rightarrow> (block option \<times> 'c fcodegen) res"

text \<open>The block after the statement is created when the first branch needs it.\<close>

definition lazyContinue :: "block option \<Rightarrow> 'c fcodegen \<Rightarrow> block \<times> 'c fcodegen" where
  "lazyContinue k s = (case k of Some b \<Rightarrow> (b, s) | None \<Rightarrow> newBlock ''continue_block'' s)"

definition closeBranch :: "block option \<Rightarrow> block option \<Rightarrow> 'c fcodegen \<Rightarrow> block option \<times> 'c fcodegen" where
  "closeBranch reached k s = (case reached of
     None \<Rightarrow> (k, s)
   | Some _ \<Rightarrow> (let (b, s) = lazyContinue k s in (Some b, buildVoid (Br b) s)))"

text \<open>The branch that is taken when the condition fails, which is the code that follows if there is none.\<close>

definition codegenFalseBranch :: "'c supplier option \<Rightarrow> block option \<Rightarrow> 'c fcodegen
    \<Rightarrow> (block \<times> block option \<times> 'c fcodegen) res" where
  "codegenFalseBranch codegenFalse k s = (case codegenFalse of
     Some g \<Rightarrow>
       (let (f, s) = (case k of Some p \<Rightarrow> newBlockBefore p ''false_block'' s
                              | None \<Rightarrow> newBlock ''false_block'' s) in
        bindE (g f (insertAt f s)) (\<lambda>(reached, s).
        let (k, s) = closeBranch reached k s in Inr (f, k, s)))
   | None \<Rightarrow> (let (p, s) = lazyContinue k s in Inr (p, Some p, s)))"

definition codegenIfStructure :: "heap \<Rightarrow> 'c ir_context \<Rightarrow> block \<Rightarrow> ast \<Rightarrow> 'c supplier \<Rightarrow> 'c supplier option
    \<Rightarrow> 'c fcodegen \<Rightarrow> (block option \<times> 'c fcodegen) res" where
  "codegenIfStructure h cx b cond codegenTrue codegenFalse s =
     (let (trueBlock, s) = newBlock ''true_block'' s in
      bindE (codegenTrue trueBlock (insertAt trueBlock s)) (\<lambda>(reached, s).
      let (k, s) = closeBranch reached None s in
      bindE (codegenFalseBranch codegenFalse k s) (\<lambda>(falseBlock, k, s).
      bindE (codegenExpr h cx cond (insertAt b s)) (\<lambda>(v, s).
      let (p, s) = buildInstr (IsNotNull v) False s;
          s = buildVoid (CondBr p trueBlock falseBlock) s
      in Inr (case k of
          Some q \<Rightarrow> (Some q, insertAt q s)
        | None \<Rightarrow> (None, s))))))"

lemma codegenIfStructure_cong [fundef_cong]:
  "h = h' \<Longrightarrow> cx = cx' \<Longrightarrow> b = b' \<Longrightarrow> c = c' \<Longrightarrow> (\<And>b s. f b s = f' b s) \<Longrightarrow> g = g' \<Longrightarrow> s = s' \<Longrightarrow>
   codegenIfStructure h cx b c f g s = codegenIfStructure h' cx' b' c' f' g' s'"
  by (metis ext)

text \<open>
  The statements of a block one after the other: the code after a statement that has ended the
  control flow dereferences the null block it returned.
\<close>

fun codegenStmt :: "heap \<Rightarrow> 'c ir_context \<Rightarrow> ast \<Rightarrow> 'c supplier" where
  "codegenStmt h cx (CompoundStmt a cs) b s =
     bindE (foldE (\<lambda>c (current, s).
         case current of None \<Rightarrow> Inl NullDeref | Some b \<Rightarrow> codegenStmt h cx c b s)
       cs (Some b, enterValueScope s)) (\<lambda>(current, s).
     Inr (current, leaveValueScope s))"
| "codegenStmt h cx (UnscopedCompoundStmt a cs) b s =
     foldE (\<lambda>c (current, s).
         case current of None \<Rightarrow> Inl NullDeref | Some b \<Rightarrow> codegenStmt h cx c b s) cs (Some b, s)"
| "codegenStmt h cx (ReturnStmt a e) b s = (case e of
     Some x \<Rightarrow> bindE (codegenExpr h cx x s) (\<lambda>(v, s).
       let (v, s) = loadMemory v s in Inr (None, buildVoid (Ret v) s))
   | None \<Rightarrow> Inr (None, buildVoid RetVoid s))"
| "codegenStmt h cx (ExpressionStmt a e) b s =
     bindE (codegenExpr h cx e s) (\<lambda>(v, s). Inr (Some b, s))"
| "codegenStmt h cx (DeclStmt a n e) b s =
     bindE (codegenExpr h cx e s) (\<lambda>(v, s).
     let (slot, s) = buildInstr (Alloca (getType n)) True s;
         (v, s) = loadMemory v s;
         s = buildVoid (Store v slot) s
     in bindE (introduceValue a slot s) (\<lambda>s. Inr (Some b, s)))"
| "codegenStmt h cx (MetaIfStmt a c t f) b s =
     Inl (Unreachable ''Detected meta if within the runtime codegen!'')"
| "codegenStmt h cx (MetaCalculationStmt a st ds) b s =
     Inl (Unreachable ''Detected meta scope within the runtime codegen!'')"
| "codegenStmt h cx (IfStmt a c t f) b s =
     codegenIfStructure h cx b c (\<lambda>b s. codegenStmt h cx t b s)
       (map_option (\<lambda>g b s. codegenStmt h cx g b s) f) s"
| "codegenStmt h cx t b s = Inl (Unreachable ''Expected the node to match the predicate!'')"

text \<open>A whole function: a missing return is filled up with a void return.\<close>

definition codegenFunction :: "heap \<Rightarrow> 'c ir_context \<Rightarrow> ast \<Rightarrow> 'c fcodegen \<Rightarrow> 'c fcodegen res" where
  "codegenFunction h cx node s = (case node of
     FunctionDecl a n args ret body \<Rightarrow>
       (let s = enterValueScope s in
        bindE (setUpStackFrame (children args) False False s) (\<lambda>(b, s).
        bindE (codegenStmt h cx body b s) (\<lambda>(current, s).
        Inr (leaveValueScope (case current of Some _ \<Rightarrow> buildVoid RetVoid s | None \<Rightarrow> s)))))
   | _ \<Rightarrow> Inl BadCast)"

end
