(* ===== verification/CodegenBase.thy ===== *)
theory CodegenBase imports IR Mangling Sema begin

text \<open>
  \<^verbatim>\<open>src/Codegen/CodegenBase\<close>: the types of what is generated and the prototypes of functions. A module
  is its symbol table: the functions by their symbol, each with its type and, once it is generated,
  its code. A constant that refers to a function is its symbol.

  The library returns a cast of an existing function when a symbol is requested with another type;
  the code casts what it gets back to a function, which fails.
\<close>

section \<open>Types\<close>

datatype ir_type = IntTy | VoidTy | ContextPtrTy

datatype function_type = FunctionType (ft_result: ir_type) (ft_args: "ir_type list")

text \<open>Literals, local variables and arguments all are 32 bit integers.\<close>

definition getTypeOfInt :: ir_type where
  "getTypeOfInt = IntTy"

definition getTypeOfVoid :: ir_type where
  "getTypeOfVoid = VoidTy"

definition getTypeOfContextPtr :: ir_type where
  "getTypeOfContextPtr = ContextPtrTy"

fun getTypeOf :: "ast \<Rightarrow> ir_type option" where
  "getTypeOf (IntegerLiteralExpr a l) = Some getTypeOfInt"
| "getTypeOf (BooleanLiteralExpr a l) = Some getTypeOfInt"
| "getTypeOf (DeclStmt a n e) = Some getTypeOfInt"
| "getTypeOf (AnonymousArgumentDecl a) = Some getTypeOfInt"
| "getTypeOf (NamedArgumentDecl a n) = Some getTypeOfInt"
| "getTypeOf t = None"

definition typeOf :: "ast \<Rightarrow> ir_type res" where
  "typeOf t = (case getTypeOf t of Some ty \<Rightarrow> Inr ty | None \<Rightarrow> Inl BadCast)"

text \<open>The type of a function: the context comes first in a meta function, no return type is void.\<close>

definition getFunctionType :: "ast list \<Rightarrow> ast option \<Rightarrow> bool \<Rightarrow> function_type res" where
  "getFunctionType argDeclList returnType isThisCall =
     bindE (mapE typeOf argDeclList) (\<lambda>args.
     bindE (case returnType of Some t \<Rightarrow> typeOf t | None \<Rightarrow> Inr getTypeOfVoid) (\<lambda>result.
     Inr (FunctionType result ((if isThisCall then [getTypeOfContextPtr] else []) @ args))))"

definition getFunctionTypeOf :: "ast \<Rightarrow> function_type res" where
  "getFunctionTypeOf node = (case node of
     FunctionDecl a n args ret b \<Rightarrow> getFunctionType (children args) ret False
   | MetaDecl a n args c \<Rightarrow> getFunctionType (children args) None True
   | _ \<Rightarrow> Inl BadCast)"

section \<open>Modules\<close>

record ir_global =
  gl_type :: function_type
  gl_arg_names :: "string list"
  gl_private :: bool
  gl_body :: "ir_function option"

type_synonym ir_module = "string \<Rightarrow> ir_global option"

definition prototype :: "function_type \<Rightarrow> ir_global" where
  "prototype ty = \<lparr>gl_type = ty, gl_arg_names = [], gl_private = False, gl_body = None\<rparr>"

definition isDeclaration :: "ir_global \<Rightarrow> bool" where
  "isDeclaration g \<longleftrightarrow> gl_body g = None"

definition getOrInsertFunction :: "string \<Rightarrow> function_type \<Rightarrow> ir_module \<Rightarrow> ir_module res" where
  "getOrInsertFunction name ty m = (case m name of
     None \<Rightarrow> Inr (m(name \<mapsto> prototype ty))
   | Some g \<Rightarrow> if gl_type g = ty then Inr m else Inl BadCast)"

text \<open>A new function; the caller has to choose a symbol that is not taken.\<close>

definition createFunction :: "string \<Rightarrow> function_type \<Rightarrow> ir_module \<Rightarrow> ir_module" where
  "createFunction name ty m = m(name \<mapsto> prototype ty)"

section \<open>Prototypes\<close>

text \<open>
  A function or meta declaration and the unit it is contained in; \<open>fmt\<close> prints a pointer, \<open>up\<close> gives
  the unit of a meta unit.
\<close>

definition symbolOf :: "(addr \<Rightarrow> string) \<Rightarrow> (addr \<Rightarrow> obj option) \<Rightarrow> ast \<Rightarrow> string res" where
  "symbolOf fmt containing node =
     (case containing (addr_of node) of None \<Rightarrow> Inl NullDeref
      | Some u \<Rightarrow> (case obj_payload u of
          PMetaUnit i \<Rightarrow> (case containing (obj_addr u) of None \<Rightarrow> Inl NullDeref
            | Some v \<Rightarrow> Inr (mangleNameOf fmt (\<lambda>_. v) u (getName (obj_of node))))
        | _ \<Rightarrow> Inr (mangleNameOf fmt (\<lambda>_. u) u (getName (obj_of node)))))"

definition createFunctionPrototype ::
    "(addr \<Rightarrow> string) \<Rightarrow> (addr \<Rightarrow> obj option) \<Rightarrow> ast \<Rightarrow> ir_module \<Rightarrow> (string \<times> ir_module) res" where
  "createFunctionPrototype fmt containing node m =
     bindE (symbolOf fmt containing node) (\<lambda>name.
     bindE (getFunctionTypeOf node) (\<lambda>ty.
     bindE (getOrInsertFunction name ty m) (\<lambda>m. Inr (name, m))))"

text \<open>The prototype of a function of another module.\<close>

definition cloneFunctionPrototype :: "string \<Rightarrow> ir_global \<Rightarrow> ir_module \<Rightarrow> ir_module res" where
  "cloneFunctionPrototype name g m = getOrInsertFunction name (gl_type g) m"

text \<open>The callbacks a meta function calls.\<close>

definition createContributeCallbackPrototype :: "ir_module \<Rightarrow> ir_module res" where
  "createContributeCallbackPrototype = getOrInsertFunction callback_contribute
     (FunctionType getTypeOfVoid [getTypeOfContextPtr, getTypeOfContextPtr])"

definition createReduceCallbackPrototype :: "ir_module \<Rightarrow> ir_module res" where
  "createReduceCallbackPrototype = getOrInsertFunction callback_reduce
     (FunctionType getTypeOfVoid [getTypeOfContextPtr])"

definition createIntroduceCallbackPrototype :: "ir_module \<Rightarrow> ir_module res" where
  "createIntroduceCallbackPrototype = getOrInsertFunction callback_introduce
     (FunctionType getTypeOfVoid [getTypeOfContextPtr, getTypeOfContextPtr, getTypeOfContextPtr, getTypeOfInt])"

definition getPointerConstant :: "addr \<Rightarrow> ir_value" where
  "getPointerConstant p = VPointer p"

section \<open>Facts\<close>

text \<open>Inserting a prototype keeps every function that is there.\<close>

definition module_le :: "ir_module \<Rightarrow> ir_module \<Rightarrow> bool" where
  "module_le m m' \<longleftrightarrow> (\<forall>name g. m name = Some g \<longrightarrow> m' name = Some g)"

lemma module_le_refl [simp]: "module_le m m"
  by (simp add: module_le_def)

lemma module_le_trans [trans]: "module_le m m' \<Longrightarrow> module_le m' m'' \<Longrightarrow> module_le m m''"
  by (simp add: module_le_def)

lemma getOrInsertFunction_le: "getOrInsertFunction name ty m = Inr m' \<Longrightarrow> module_le m m'"
  by (auto simp: getOrInsertFunction_def module_le_def split: option.splits if_splits)

lemma getOrInsertFunction_has:
  "getOrInsertFunction name ty m = Inr m' \<Longrightarrow> \<exists>g. m' name = Some g \<and> gl_type g = ty"
  by (auto simp: getOrInsertFunction_def prototype_def split: option.splits if_splits)

lemma getOrInsertFunction_body:
  "getOrInsertFunction name ty m = Inr m' \<Longrightarrow> m' k = Some g \<Longrightarrow> gl_body g = Some f \<Longrightarrow> m k = Some g"
  by (auto simp: getOrInsertFunction_def prototype_def split: option.splits if_splits)

lemma createFunctionPrototype_has:
  assumes "createFunctionPrototype fmt containing node m = Inr (name, m')"
  shows "symbolOf fmt containing node = Inr name" "module_le m m'"
    "\<exists>g ty. m' name = Some g \<and> gl_type g = ty \<and> getFunctionTypeOf node = Inr ty"
    "m' k = Some g \<Longrightarrow> gl_body g = Some f \<Longrightarrow> m k = Some g"
  using assms getOrInsertFunction_le getOrInsertFunction_has getOrInsertFunction_body
  unfolding createFunctionPrototype_def by (fastforce simp: bindE_eq_Inr)+

text \<open>The type has as many arguments as the declaration, and the context of a meta function.\<close>

lemma mapE_length: "mapE f xs = Inr ys \<Longrightarrow> length ys = length xs"
  by (induction xs arbitrary: ys) (auto simp: bindE_eq_Inr)

lemma function_type_args:
  assumes "getFunctionTypeOf (FunctionDecl a n args ret b) = Inr ty"
  shows "length (ft_args ty) = length (children args)"
  using assms by (auto simp: getFunctionTypeOf_def getFunctionType_def bindE_eq_Inr mapE_length split: option.splits)

lemma meta_type_args:
  assumes "getFunctionTypeOf (MetaDecl a n args c) = Inr ty"
  shows "length (ft_args ty) = Suc (length (children args))"
  using assms by (auto simp: getFunctionTypeOf_def getFunctionType_def bindE_eq_Inr mapE_length)

end
