(* ===== verification/MetaCodegen.thy ===== *)
theory MetaCodegen imports FunctionCodegen CodegenBase Cursor begin

text \<open>
  \<^verbatim>\<open>src/Codegen/MetaCodegen\<close>: the code of a meta declaration. What it runs at compile time is generated
  by a \<open>FunctionCodegen\<close>; every other node becomes a call of the callback that contributes it. The
  cursor is kept next to the context, so that the generator of an \<open>if\<close> passes both on. The metadata
  that is attached to the calls is left out.
\<close>

section \<open>State\<close>

text \<open>A context with access to the module that is generated.\<close>

record 'c module_context =
  mc_ir :: "'c ir_context"
  mc_module :: "(ir_module \<Rightarrow> ir_module res) \<Rightarrow> 'c \<Rightarrow> 'c res"

type_synonym 'c metacodegen = "('c \<times> cursor) fcodegen"

definition with_cursor :: "'c ir_context \<Rightarrow> ('c \<times> cursor) ir_context" where
  "with_cursor cx = \<lparr>
     lookupGlobal_function = (\<lambda>k (c, cur). bindE (lookupGlobal_function cx k c) (\<lambda>(v, c). Inr (v, (c, cur)))),
     lookupGlobal_inst = (\<lambda>a r (c, cur). bindE (lookupGlobal_inst cx a r c) (\<lambda>(v, c). Inr (v, (c, cur))))\<rparr>"

definition mg_new :: "nat \<Rightarrow> 'c \<Rightarrow> 'c metacodegen" where
  "mg_new n c = fc_new n (c, \<lparr>c_depth = TopLevel, c_meta = InsideMetaDecl\<rparr>)"

definition moveCursor :: "(cursor \<Rightarrow> cursor res) \<Rightarrow> 'c metacodegen \<Rightarrow> 'c metacodegen res" where
  "moveCursor f s = (case fc_context s of (c, cur) \<Rightarrow>
     bindE (f cur) (\<lambda>cur. Inr (s\<lparr>fc_context := (c, cur)\<rparr>)))"

definition declareCallback ::
    "'c module_context \<Rightarrow> (ir_module \<Rightarrow> ir_module res) \<Rightarrow> 'c metacodegen \<Rightarrow> 'c metacodegen res" where
  "declareCallback cx f s = (case fc_context s of (c, cur) \<Rightarrow>
     bindE (mc_module cx f c) (\<lambda>c. Inr (s\<lparr>fc_context := (c, cur)\<rparr>)))"

section \<open>Calls of the callbacks\<close>

definition getContextArgument :: "'c metacodegen \<Rightarrow> ir_value res" where
  "getContextArgument s =
     bindE (assertE (1 \<le> arg_size (fc_builder s)) ''Expected the function to contain at least a context arg!'')
       (\<lambda>_. Inr VContext)"

definition getPointerToNode :: "addr \<Rightarrow> 'c metacodegen \<Rightarrow> ir_value \<times> 'c metacodegen" where
  "getPointerToNode node s = buildInstr (IntToPtr (getPointerConstant node)) True s"

definition createContributeNode :: "'c module_context \<Rightarrow> addr \<Rightarrow> 'c metacodegen \<Rightarrow> 'c metacodegen res" where
  "createContributeNode cx node s =
     bindE (declareCallback cx createContributeCallbackPrototype s) (\<lambda>s.
     bindE (getContextArgument s) (\<lambda>context.
     let (ptr, s) = getPointerToNode node s
     in Inr (buildVoid (Call (VFunction callback_contribute) [context, ptr]) s)))"

definition createReduceNode :: "'c module_context \<Rightarrow> 'c metacodegen \<Rightarrow> 'c metacodegen res" where
  "createReduceNode cx s =
     bindE (declareCallback cx createReduceCallbackPrototype s) (\<lambda>s.
     bindE (getContextArgument s) (\<lambda>context.
     Inr (buildVoid (Call (VFunction callback_reduce) [context]) s)))"

definition getDepth :: "cursor \<Rightarrow> i32" where
  "getDepth cur = (case c_depth cur of TopLevel \<Rightarrow> 0 | InsideFunctionDecl \<Rightarrow> 1)"

definition createIntroduceNode ::
    "'c module_context \<Rightarrow> addr \<Rightarrow> ir_value \<Rightarrow> 'c metacodegen \<Rightarrow> 'c metacodegen res" where
  "createIntroduceNode cx decl v s =
     bindE (declareCallback cx createIntroduceCallbackPrototype s) (\<lambda>s.
     bindE (getContextArgument s) (\<lambda>context.
     let (nodePtr, s) = getPointerToNode decl s;
         (valuePtr, s) = buildInstr (PointerCast v) True s;
         level = VConst (getDepth (snd (fc_context s)))
     in Inr (buildVoid (Call (VFunction callback_introduce) [context, nodePtr, valuePtr, level]) s)))"

section \<open>Contributions\<close>

definition introduceValues :: "'c module_context \<Rightarrow> addr list \<Rightarrow> 'c metacodegen \<Rightarrow> 'c metacodegen res" where
  "introduceValues cx = foldE (\<lambda>d s. bindE (lookupLocal d s) (\<lambda>v. createIntroduceNode cx d v s))"

text \<open>The statement of a meta calculation is generated behind a new block; it must not return.\<close>

definition codegenCalculation :: "heap \<Rightarrow> 'c module_context \<Rightarrow> ast \<Rightarrow> addr list \<Rightarrow> ('c \<times> cursor) supplier" where
  "codegenCalculation h cx st exported b s =
     (let (b, s) = createRegionAfter b ''meta_calculation'' s in
      bindE (codegenStmt h (with_cursor (mc_ir cx)) st b s) (\<lambda>(current, s).
      bindE (assertE (current \<noteq> None)
        ''Expected to codegen in the same module like the context!'') (\<lambda>_.
      bindE (introduceValues cx exported s) (\<lambda>s. Inr (current, s)))))"

text \<open>A node around the code of its children.\<close>

definition contributeAround :: "'c module_context \<Rightarrow> ast \<Rightarrow> ('c \<times> cursor) supplier \<Rightarrow> ('c \<times> cursor) supplier" where
  "contributeAround cx node inner b s =
     bindE (assertE (\<not> isIntermediateNode (getKind node))
       ''Possibly tried to pass an IntermediateNode to a function codegen!'') (\<lambda>_.
     bindE (moveCursor (cursor_descend (getKind node)) s) (\<lambda>s.
     bindE (createContributeNode cx (addr_of node) s) (\<lambda>s.
     bindE (inner b s) (\<lambda>(current, s).
     bindE (if isNodeRequiringReduceMarker (obj_of node) then createReduceNode cx s else Inr s) (\<lambda>s.
     bindE (moveCursor (cursor_ascend (getKind node)) s) (\<lambda>s. Inr (current, s)))))))"

lemma contributeAround_cong [fundef_cong]:
  "cx = cx' \<Longrightarrow> node = node' \<Longrightarrow> b = b' \<Longrightarrow> s = s' \<Longrightarrow> (\<And>b s. f b s = g b s)
    \<Longrightarrow> contributeAround cx node f b s = contributeAround cx' node' g b' s'"
  by (metis ext)

fun codegenMeta :: "heap \<Rightarrow> 'c module_context \<Rightarrow> ast \<Rightarrow> ('c \<times> cursor) supplier" where
  "codegenMeta h cx (MetaDecl a n args c) b s = Inl (Unreachable ''The meta decl shouldn't be here!'')"
| "codegenMeta h cx (MetaIfStmt a c t f) b s =
     codegenIfStructure h (with_cursor (mc_ir cx)) b c (\<lambda>b s. codegenMeta h cx t b s)
       (map_option (\<lambda>g b s. codegenMeta h cx g b s) f) s"
| "codegenMeta h cx (MetaCalculationStmt a st exported) b s = codegenCalculation h cx st exported b s"
| "codegenMeta h cx (MetaContribution a rg cs) b s =
     foldE (\<lambda>c (current, s). case current of None \<Rightarrow> Inl NullDeref | Some b \<Rightarrow> codegenMeta h cx c b s)
       cs (Some b, s)"
| "codegenMeta h cx node b s =
     contributeAround cx node (\<lambda>b s.
       foldE (\<lambda>c (current, s). case current of None \<Rightarrow> Inl NullDeref | Some b \<Rightarrow> codegenMeta h cx c b s)
         (children node) (Some b, s)) b s"

section \<open>Meta functions\<close>

definition codegenMetaFunction :: "heap \<Rightarrow> 'c module_context \<Rightarrow> ast \<Rightarrow> 'c metacodegen \<Rightarrow> 'c metacodegen res" where
  "codegenMetaFunction h cx metaDecl s = (case metaDecl of
     MetaDecl a n args c \<Rightarrow>
       (let s = enterValueScope s in
        bindE (setUpStackFrame (children args) False True s) (\<lambda>(b, s).
        bindE (introduceValues cx (map addr_of (filter (\<lambda>x. getKind x = KindNamedArgumentDecl) (children args))) s) (\<lambda>s.
        bindE (codegenMeta h cx c b s) (\<lambda>(current, s).
        bindE (assertE (current \<noteq> None) ''Always expect a valid control flow here!'') (\<lambda>_.
        Inr (leaveValueScope (buildVoid RetVoid s)))))))
   | _ \<Rightarrow> Inl BadCast)"

text \<open>The jump pad passes its context and the arguments of the instantiation on, as they are.\<close>

definition codegenJumpPad :: "heap \<Rightarrow> 'c module_context \<Rightarrow> string \<Rightarrow> ast list \<Rightarrow> 'c metacodegen \<Rightarrow> 'c metacodegen res" where
  "codegenJumpPad h cx callee args s =
     bindE (assertE (ir_blocks (fc_builder s) = []) ''Expected an empty function!'') (\<lambda>_.
     bindE (assertE (arg_size (fc_builder s) = 1) ''Expected the function to only have 1 arg!'') (\<lambda>_.
     bindE (createEntryBlock (enterValueScope s)) (\<lambda>(b, s).
     bindE (mapS (codegenExpr h (with_cursor (mc_ir cx))) args s) (\<lambda>(vs, s).
     let s = buildVoid (Call (VFunction callee) (VContext # vs)) s
     in Inr (leaveValueScope (buildVoid RetVoid s))))))"

end
