(* ===== verification/CodegenInstance.thy ===== *)
theory CodegenInstance imports MetaCodegen Cloner Dependency Parser begin

text \<open>
  \<^verbatim>\<open>src/Codegen/CodegenInstance\<close>: the module that all functions of a compilation end up in, and the work
  list of functions that still are declarations. The instance and the executor share the syntax trees,
  the diagnostics and each other's state, which is one record here.

  The executor instantiates meta declarations, and the instance calls it: \<open>instantiator\<close> is that call,
  an argument of everything that may lead to it.
\<close>

section \<open>What is not part of the sources\<close>

text \<open>
  The library's pointer printer, pass manager and execution engine, the edit distance, and the order
  of hash maps. The engine runs a function of the modules it was given and calls back: with a node, or
  with a declaration, the value that is read behind the passed pointer, and a depth.
\<close>

datatype jit_call = JContribute addr | JReduce | JIntroduce addr i32 i32

datatype unresolved = UFunction string | UDecl addr | UInst addr

record external =
  x_params :: params
  x_invocation :: invocation
  x_fmt :: "addr \<Rightarrow> string"
  x_hash :: "addr list \<Rightarrow> nat"
  x_hash_unresolved :: "unresolved list \<Rightarrow> nat"
  x_unique :: "ir_module \<Rightarrow> string \<Rightarrow> string"
  x_optimize :: "ir_function \<Rightarrow> ir_function"
  x_jit :: "ir_module list \<Rightarrow> string \<Rightarrow> jit_call list res"

text \<open>The first element of a hash set is any of its elements.\<close>

definition first_of :: "('a list \<Rightarrow> nat) \<Rightarrow> 'a list \<Rightarrow> 'a" where
  "first_of hash xs = xs ! (hash xs mod length xs)"

lemma first_of_mem: "xs \<noteq> [] \<Longrightarrow> first_of hash xs \<in> set xs"
  by (simp add: first_of_def)

section \<open>State\<close>

text \<open>
  The trees by the address of their nodes, what the nodes of finished units point to, the instance,
  and the executor.
\<close>

record compiler =
  cp_heap :: heap
  cp_next :: addr
  cp_containing :: "addr \<Rightarrow> obj option"
  cp_exported :: "addr \<Rightarrow> addr option"
  cp_scopes :: "addr \<Rightarrow> scope_chain option"
  cp_engine :: engine
  cp_module :: ir_module
  cp_dependencies :: "addr list"
  cp_generation :: "addr list"
  cp_source :: "string \<Rightarrow> addr option"
  cp_shipment :: "ir_module option"
  cp_symbols :: "string list"
  cp_unresolved :: "unresolved list"
  cp_instances :: "addr \<Rightarrow> addr option"
  cp_jit :: "ir_module list"

type_synonym instantiator = "addr \<Rightarrow> bool \<Rightarrow> compiler \<Rightarrow> (addr option \<times> compiler) res"

text \<open>A cast of a value to a function, and the function of a name.\<close>

definition function_name :: "ir_value \<Rightarrow> string res" where
  "function_name v = (case v of VFunction name \<Rightarrow> Inr name | _ \<Rightarrow> Inl BadCast)"

definition global :: "string \<Rightarrow> ir_module \<Rightarrow> ir_global res" where
  "global name m = (case m name of Some g \<Rightarrow> Inr g | None \<Rightarrow> Inl NullDeref)"

definition function_code :: "ir_global \<Rightarrow> ir_function" where
  "function_code g = (case gl_body g of Some f \<Rightarrow> f | None \<Rightarrow> ir_new (length (ft_args (gl_type g))))"

definition setBody :: "string \<Rightarrow> ir_function \<Rightarrow> ir_module \<Rightarrow> ir_module" where
  "setBody name f m = m(name := map_option (\<lambda>g. g\<lparr>gl_body := Some f\<rparr>) (m name))"

text \<open>An instantiation: its range, the name it refers to, that declaration, and the arguments.\<close>

definition instantiation_of :: "heap \<Rightarrow> addr \<Rightarrow> (source_range \<times> ident \<times> ast \<times> ast list) res" where
  "instantiation_of h a = bindE (load h a) (\<lambda>inst. case inst of
     MetaInstantiationExpr b rg (DeclRefExpr r n d) es \<Rightarrow>
       (case d of None \<Rightarrow> Inl NullDeref
        | Some k \<Rightarrow> bindE (load h k) (\<lambda>decl. Inr (rg, n, decl, es)))
   | _ \<Rightarrow> Inl BadCast)"

section \<open>The context the instance provides\<close>

text \<open>
  The prototype of a function declaration; as long as it is one, the function is a dependency that is
  to be generated.
\<close>

definition instance_lookup :: "external \<Rightarrow> addr \<Rightarrow> compiler \<Rightarrow> (ir_value \<times> compiler) res" where
  "instance_lookup X k s =
     bindE (load (cp_heap s) k) (\<lambda>node.
     bindE (if isFunctionDecl (obj_of node) then Inr () else Inl BadCast) (\<lambda>_.
     bindE (createFunctionPrototype (x_fmt X) (cp_containing s) node (cp_module s)) (\<lambda>(name, m).
     bindE (global name m) (\<lambda>g.
     let s = s\<lparr>cp_module := m\<rparr>;
         s = (if isDeclaration g then s\<lparr>cp_dependencies := List.insert k (cp_dependencies s)\<rparr> else s)
     in Inr (VFunction name, s\<lparr>cp_source := (cp_source s)(name \<mapsto> k)\<rparr>)))))"

text \<open>The exported node of an instantiation; a unit that exports nothing is an error.\<close>

definition instance_instantiate ::
    "instantiator \<Rightarrow> addr \<Rightarrow> bool \<Rightarrow> compiler \<Rightarrow> (addr option \<times> compiler) res" where
  "instance_instantiate inst a rc s =
     bindE (inst a rc s) (\<lambda>(unit, s). case unit of
         None \<Rightarrow> Inr (None, s)
       | Some u \<Rightarrow> (case cp_exported s u of
           Some e \<Rightarrow> Inr (Some e, s)
         | None \<Rightarrow> bindE (instantiation_of (cp_heap s) a) (\<lambda>(rg, name, decl, es).
             let dn = getName (obj_of decl);
                 e = diagnoseRange ErrorInstantiationNoExport rg [ArgStr (getType name)] (cp_engine s);
                 e = diagnoseAt NoteDeclarationHint dn [ArgStr (getType dn)] e
             in Inr (None, s\<lparr>cp_engine := e\<rparr>))))"

text \<open>Of the exported nodes only functions can be referred to: what a unit exports is no instantiation.\<close>

definition instance_lookup_inst ::
    "external \<Rightarrow> instantiator \<Rightarrow> addr \<Rightarrow> bool \<Rightarrow> compiler \<Rightarrow> (ir_value option \<times> compiler) res" where
  "instance_lookup_inst X inst a rc s =
     bindE (instance_instantiate inst a rc s) (\<lambda>(exported, s). case exported of
         None \<Rightarrow> Inr (None, s)
       | Some k \<Rightarrow> bindE (load (cp_heap s) k) (\<lambda>node.
           if getKind node = KindFunctionDecl
           then bindE (instance_lookup X k s) (\<lambda>(v, s). Inr (Some v, s))
           else Inl BadCast))"

definition instance_context :: "external \<Rightarrow> instantiator \<Rightarrow> compiler ir_context" where
  "instance_context X inst = \<lparr>lookupGlobal_function = instance_lookup X,
     lookupGlobal_inst = instance_lookup_inst X inst\<rparr>"

section \<open>Generating functions\<close>

definition enterGeneration :: "addr \<Rightarrow> compiler \<Rightarrow> compiler res" where
  "enterGeneration k s = (if k \<in> set (cp_generation s) then Inl (Unreachable ''Cycle detected'')
     else Inr (s\<lparr>cp_generation := k # cp_generation s\<rparr>))"

definition leaveGeneration :: "addr \<Rightarrow> compiler \<Rightarrow> compiler" where
  "leaveGeneration k s = s\<lparr>cp_generation := removeAll k (cp_generation s)\<rparr>"

definition inMetaUnit :: "addr \<Rightarrow> compiler \<Rightarrow> bool res" where
  "inMetaUnit k s = (case cp_containing s k of None \<Rightarrow> Inl NullDeref | Some u \<Rightarrow> Inr (obj_kind u = KindMetaUnit))"

definition argument_names :: "ast \<Rightarrow> string list res" where
  "argument_names node = (case node of
     FunctionDecl a n args ret b \<Rightarrow> Inr (map (\<lambda>x. case x of NamedArgumentDecl c m \<Rightarrow> getType m | _ \<Rightarrow> []) (children args))
   | _ \<Rightarrow> Inl BadCast)"

text \<open>The body of a function. Once it has an entry block it is no declaration any more.\<close>

definition generateBody :: "external \<Rightarrow> instantiator \<Rightarrow> addr \<Rightarrow> ast \<Rightarrow> string \<Rightarrow> compiler \<Rightarrow> compiler res" where
  "generateBody X inst k node name s =
     bindE (global name (cp_module s)) (\<lambda>g.
     bindE (inMetaUnit k s) (\<lambda>isPrivate.
     bindE (argument_names node) (\<lambda>names.
     bindE (enterGeneration k s) (\<lambda>s.
     let g = g\<lparr>gl_private := gl_private g \<or> isPrivate, gl_arg_names := names, gl_body := Some (function_code g)\<rparr>;
         s = s\<lparr>cp_module := (cp_module s)(name \<mapsto> g)\<rparr>
     in bindE (codegenFunction (cp_heap s) (instance_context X inst) node
            \<lparr>fc_builder = function_code g, fc_values = [], fc_context = s\<rparr>) (\<lambda>t.
     let s = fc_context t
     in Inr (leaveGeneration k (s\<lparr>cp_module := setBody name (x_optimize X (fc_builder t)) (cp_module s)\<rparr>)))))))"

text \<open>\<open>codegen\<close> of a function declaration: the symbol, or nothing if there are errors.\<close>

definition codegenFunctionDecl ::
    "external \<Rightarrow> instantiator \<Rightarrow> addr \<Rightarrow> compiler \<Rightarrow> (string option \<times> compiler) res" where
  "codegenFunctionDecl X inst k s =
     bindE (instance_lookup X k s) (\<lambda>(v, s).
     bindE (function_name v) (\<lambda>name.
     bindE (global name (cp_module s)) (\<lambda>g.
     bindE (load (cp_heap s) k) (\<lambda>node.
     if \<not> isDeclaration g then Inr (Some name, s)
     else
       bindE (consumeInstantiationsOfFunction
           (\<lambda>i s. bindE (instance_lookup_inst X inst (addr_of i) False s) (\<lambda>(v, s). Inr (v \<noteq> None, s)))
           node s) (\<lambda>s.
       if hasErrors (cp_engine s) then Inr (None, s)
       else bindE (generateBody X inst k node name s) (\<lambda>s. Inr (Some name, s)))))))"

definition codegenInstantiation ::
    "external \<Rightarrow> instantiator \<Rightarrow> addr \<Rightarrow> compiler \<Rightarrow> (string option \<times> compiler) res" where
  "codegenInstantiation X inst a s =
     bindE (instance_instantiate inst a False s) (\<lambda>(exported, s). case exported of
         None \<Rightarrow> Inr (None, s)
       | Some k \<Rightarrow> bindE (load (cp_heap s) k) (\<lambda>node.
           if getKind node = KindFunctionDecl then codegenFunctionDecl X inst k s
           else Inl (Unreachable ''Expected the node to match the predicate!'')))"

text \<open>\<open>resolveGlobal\<close>; the source map only ever holds functions.\<close>

definition resolveGlobal ::
    "external \<Rightarrow> instantiator \<Rightarrow> unresolved \<Rightarrow> compiler \<Rightarrow> (string option \<times> compiler) res" where
  "resolveGlobal X inst u s = (case u of
     UFunction name \<Rightarrow> (case cp_source s name of
         None \<Rightarrow> Inl (AssertFailed ''The function should be contained in the source map!'')
       | Some k \<Rightarrow> codegenFunctionDecl X inst k s)
   | UDecl k \<Rightarrow> codegenFunctionDecl X inst k s
   | UInst a \<Rightarrow> codegenInstantiation X inst a s)"

section \<open>The work list\<close>

text \<open>Of the top level nodes only functions and instantiations are generated.\<close>

definition codegenNode :: "external \<Rightarrow> instantiator \<Rightarrow> addr \<Rightarrow> compiler \<Rightarrow> (bool \<times> compiler) res" where
  "codegenNode X inst k s = bindE (load (cp_heap s) k) (\<lambda>node.
     if getKind node = KindFunctionDecl
     then bindE (codegenFunctionDecl X inst k s) (\<lambda>(f, s). Inr (f \<noteq> None, s))
     else if getKind node = KindMetaInstantiationExpr
     then bindE (codegenInstantiation X inst k s) (\<lambda>(f, s). Inr (f \<noteq> None, s))
     else Inr (True, s))"

fun codegenDependencies :: "external \<Rightarrow> instantiator \<Rightarrow> nat \<Rightarrow> compiler \<Rightarrow> (bool \<times> compiler) res" where
  "codegenDependencies X inst 0 s = (if cp_dependencies s = [] then Inr (True, s) else Inl OutOfFuel)"
| "codegenDependencies X inst (Suc n) s =
     (if cp_dependencies s = [] then Inr (True, s)
      else let k = first_of (x_hash X) (cp_dependencies s);
               s = s\<lparr>cp_dependencies := removeAll k (cp_dependencies s)\<rparr>
           in bindE (codegenNode X inst k s) (\<lambda>(ok, s).
              if ok then codegenDependencies X inst n s else Inr (False, s)))"

definition codegenUnit :: "external \<Rightarrow> instantiator \<Rightarrow> nat \<Rightarrow> ast \<Rightarrow> compiler \<Rightarrow> (bool \<times> compiler) res" where
  "codegenUnit X inst n unit s =
     bindE (assertE (cp_dependencies s = []) ''Expected to start with empty dependencies!'') (\<lambda>_.
     codegenDependencies X inst n (s\<lparr>cp_dependencies := fold List.insert (map addr_of (children unit)) []\<rparr>))"

end
