(* ===== verification/CodeExecutor.thy ===== *)
theory CodeExecutor imports CodegenInstance begin

text \<open>
  \<^verbatim>\<open>src/Codegen/CodeExecutor\<close>: instantiating a meta declaration. Its code and a jump pad are generated
  into a shipment, the functions they need are pulled out of the module of the instance, the shipment
  goes to the execution engine, and what the run contributes is read into a meta unit.

  An instantiation may need other instantiations; the depth of this recursion, and the number of
  functions that are pulled for one shipment, are bounded by fuel.
\<close>

section \<open>The shipment\<close>

definition shipment :: "compiler \<Rightarrow> ir_module" where
  "shipment s = (case cp_shipment s of Some m \<Rightarrow> m | None \<Rightarrow> Map.empty)"

definition onShipment :: "(ir_module \<Rightarrow> ir_module res) \<Rightarrow> compiler \<Rightarrow> compiler res" where
  "onShipment f s = bindE (f (shipment s)) (\<lambda>m. Inr (s\<lparr>cp_shipment := Some m\<rparr>))"

text \<open>The first shipment declares the callbacks; \<open>created\<close> is whether the library builds an engine.\<close>

definition executor_createFor :: "bool \<Rightarrow> compiler \<Rightarrow> (bool \<times> compiler) res" where
  "executor_createFor created s =
     bindE (onShipment createContributeCallbackPrototype s) (\<lambda>s.
     bindE (onShipment createReduceCallbackPrototype s) (\<lambda>s.
     bindE (onShipment createIntroduceCallbackPrototype s) (\<lambda>s.
     Inr (created, if created then s\<lparr>cp_jit := [shipment s], cp_shipment := None\<rparr> else s))))"

definition isGlobalResolved :: "string \<Rightarrow> compiler \<Rightarrow> bool" where
  "isGlobalResolved symbol s \<longleftrightarrow> symbol \<in> set (cp_symbols s)"

definition setGlobalAsResolved :: "string \<Rightarrow> compiler \<Rightarrow> compiler res" where
  "setGlobalAsResolved symbol s =
     bindE (assertE (\<not> isGlobalResolved symbol s) ''The symbol shouldn't be available yet!'') (\<lambda>_.
     Inr (s\<lparr>cp_symbols := symbol # cp_symbols s\<rparr>))"

definition setGlobalAsUnresolved :: "unresolved \<Rightarrow> compiler \<Rightarrow> compiler" where
  "setGlobalAsUnresolved u s = s\<lparr>cp_unresolved := List.insert u (cp_unresolved s)\<rparr>"

definition requireGlobal :: "string \<Rightarrow> unresolved \<Rightarrow> compiler \<Rightarrow> compiler" where
  "requireGlobal symbol u s = (if isGlobalResolved symbol s then s else setGlobalAsUnresolved u s)"

text \<open>A function that is not available is noted, and declared in the shipment.\<close>

definition executor_lookup :: "external \<Rightarrow> addr \<Rightarrow> compiler \<Rightarrow> (ir_value \<times> compiler) res" where
  "executor_lookup X k s =
     bindE (load (cp_heap s) k) (\<lambda>node.
     bindE (if isFunctionDecl (obj_of node) then Inr () else Inl BadCast) (\<lambda>_.
     bindE (symbolOf (x_fmt X) (cp_containing s) node) (\<lambda>symbol.
     let s = requireGlobal symbol (UDecl k) s in
     bindE (createFunctionPrototype (x_fmt X) (cp_containing s) node (shipment s)) (\<lambda>(name, m).
     Inr (VFunction name, s\<lparr>cp_shipment := Some m\<rparr>)))))"

text \<open>The same for a function of the module of the instance.\<close>

definition declareGlobal :: "string \<Rightarrow> compiler \<Rightarrow> compiler res" where
  "declareGlobal name s =
     bindE (global name (cp_module s)) (\<lambda>g.
     onShipment (cloneFunctionPrototype name g) (requireGlobal name (UFunction name) s))"

definition executor_lookup_inst ::
    "external \<Rightarrow> instantiator \<Rightarrow> addr \<Rightarrow> bool \<Rightarrow> compiler \<Rightarrow> (ir_value option \<times> compiler) res" where
  "executor_lookup_inst X inst a rc s =
     bindE (instance_lookup_inst X inst a rc s) (\<lambda>(constant, s). case constant of
         None \<Rightarrow> Inr (None, s)
       | Some v \<Rightarrow> bindE (function_name v) (\<lambda>name.
           bindE (declareGlobal name s) (\<lambda>s. Inr (Some (VFunction name), s))))"

definition executor_context :: "external \<Rightarrow> instantiator \<Rightarrow> compiler module_context" where
  "executor_context X inst = \<lparr>
     mc_ir = \<lparr>lookupGlobal_function = executor_lookup X, lookupGlobal_inst = executor_lookup_inst X inst\<rparr>,
     mc_module = onShipment\<rparr>"

section \<open>Pulling functions\<close>

fun instr_values :: "instr \<Rightarrow> ir_value list" where
  "instr_values (Alloca n) = []"
| "instr_values (Store v p) = [v, p]"
| "instr_values (Load p) = [p]"
| "instr_values (BinOp op l r) = [l, r]"
| "instr_values (ICmp p l r) = [l, r]"
| "instr_values (ZExt v) = [v]"
| "instr_values (IsNotNull v) = [v]"
| "instr_values (Call c vs) = vs @ [c]"
| "instr_values (IntToPtr v) = [v]"
| "instr_values (PointerCast v) = [v]"
| "instr_values (Ret v) = [v]"
| "instr_values RetVoid = []"
| "instr_values (Br b) = []"
| "instr_values (CondBr v t f) = [v]"

text \<open>The functions the code refers to, in the order they are met.\<close>

definition referenced :: "ir_function \<Rightarrow> string list" where
  "referenced f = concat (map (\<lambda>v. case v of VFunction name \<Rightarrow> [name] | _ \<Rightarrow> [])
     (concat (map (\<lambda>(b, n, i). instr_values i) (ir_code f))))"

text \<open>A copy of the function; the functions it refers to are declared, and pulled later.\<close>

definition cloneFunctionIntoModule :: "string \<Rightarrow> ir_global \<Rightarrow> ir_function \<Rightarrow> compiler \<Rightarrow> compiler res" where
  "cloneFunctionIntoModule name g f s =
     bindE (onShipment (getOrInsertFunction name (gl_type g)) s) (\<lambda>s.
     bindE (global name (shipment s)) (\<lambda>cloned.
     bindE (assertE (isDeclaration cloned) ''The function is existing already!'') (\<lambda>_.
     bindE (foldE declareGlobal (referenced f) s) (\<lambda>s.
     onShipment (\<lambda>m. Inr (m(name \<mapsto> g\<lparr>gl_private := False, gl_body := Some f\<rparr>))) s))))"

definition pull :: "string \<Rightarrow> compiler \<Rightarrow> compiler res" where
  "pull name s =
     bindE (global name (cp_module s)) (\<lambda>g. case gl_body g of
       None \<Rightarrow> Inl (AssertFailed ''Expected a fully generated function!'')
     | Some f \<Rightarrow> bindE (setGlobalAsResolved name s) (\<lambda>s. cloneFunctionIntoModule name g f s))"

fun resolveDependencies :: "external \<Rightarrow> instantiator \<Rightarrow> nat \<Rightarrow> compiler \<Rightarrow> (bool \<times> compiler) res" where
  "resolveDependencies X inst 0 s = (if cp_unresolved s = [] then Inr (True, s) else Inl OutOfFuel)"
| "resolveDependencies X inst (Suc n) s =
     (if cp_unresolved s = [] then Inr (True, s)
      else let u = first_of (x_hash_unresolved X) (cp_unresolved s);
               s = s\<lparr>cp_unresolved := removeAll u (cp_unresolved s)\<rparr>
           in bindE (resolveGlobal X inst u s) (\<lambda>(resolved, s). case resolved of
                None \<Rightarrow> Inr (False, s)
              | Some name \<Rightarrow> bindE (pull name s) (resolveDependencies X inst n)))"

definition shipToJIT :: "external \<Rightarrow> instantiator \<Rightarrow> nat \<Rightarrow> compiler \<Rightarrow> (bool \<times> compiler) res" where
  "shipToJIT X inst n s =
     bindE (assertE (cp_shipment s \<noteq> None) ''The shipment should contain anything!'') (\<lambda>_.
     bindE (resolveDependencies X inst n s) (\<lambda>(ok, s).
     Inr (ok, if ok then s\<lparr>cp_jit := cp_jit s @ [shipment s], cp_shipment := None\<rparr> else s)))"

section \<open>Meta functions\<close>

text \<open>A function of the shipment is generated, from the code it has.\<close>

definition generateMeta :: "(compiler metacodegen \<Rightarrow> compiler metacodegen res) \<Rightarrow> string \<Rightarrow> compiler \<Rightarrow> compiler res" where
  "generateMeta gen name s =
     bindE (global name (shipment s)) (\<lambda>g.
     bindE (gen ((mg_new (length (ft_args (gl_type g))) s)\<lparr>fc_builder := function_code g\<rparr>)) (\<lambda>t.
     onShipment (\<lambda>m. Inr (setBody name (fc_builder t) m)) (fst (fc_context t))))"

definition codegenMetaDecl ::
    "external \<Rightarrow> instantiator \<Rightarrow> ast \<Rightarrow> compiler \<Rightarrow> (string option \<times> compiler) res" where
  "codegenMetaDecl X inst node s =
     bindE (symbolOf (x_fmt X) (cp_containing s) node) (\<lambda>metaFunctionName.
     let prototype_in = (\<lambda>s. bindE (createFunctionPrototype (x_fmt X) (cp_containing s) node (shipment s)) (\<lambda>(name, m).
           Inr (name, s\<lparr>cp_shipment := Some m\<rparr>)))
     in if isGlobalResolved metaFunctionName s
        then bindE (prototype_in s) (\<lambda>(name, s). Inr (Some name, s))
        else
          bindE (consumeInstantiationsOfMeta
              (\<lambda>i s. bindE (inst (addr_of i) False s) (\<lambda>(unit, s). Inr (unit \<noteq> None, s))) node s) (\<lambda>s.
          if hasErrors (cp_engine s) then Inr (None, s)
          else bindE (prototype_in s) (\<lambda>(name, s).
            if isGlobalResolved metaFunctionName s then Inr (Some name, s)
            else bindE (setGlobalAsResolved metaFunctionName s) (\<lambda>s.
              bindE (generateMeta (codegenMetaFunction (cp_heap s) (executor_context X inst) node) name s) (\<lambda>s.
              Inr (Some name, s))))))"

text \<open>The library chooses another symbol when the one of the jump pad is taken.\<close>

definition createJumpPadTo ::
    "external \<Rightarrow> instantiator \<Rightarrow> addr \<Rightarrow> string \<Rightarrow> compiler \<Rightarrow> (string \<times> compiler) res" where
  "createJumpPadTo X inst a metafunction s =
     bindE (instantiation_of (cp_heap s) a) (\<lambda>(rg, n, decl, es).
     let name = ''jumppad_'' @ getType n @ ''_'' @ mangleNameOfInstantiation (x_fmt X) a [];
         name = (if shipment s name = None then name else x_unique X (shipment s) name);
         ty = FunctionType getTypeOfVoid [getTypeOfContextPtr]
     in bindE (onShipment (\<lambda>m. Inr (createFunction name ty m)) s) (\<lambda>s.
        bindE (generateMeta (codegenJumpPad (cp_heap s) (executor_context X inst) metafunction es) name s) (\<lambda>s.
        Inr (name, s))))"

section \<open>Instantiating\<close>

text \<open>The callbacks of the running code: the pointers they get are those of nodes.\<close>

definition callback_of :: "heap \<Rightarrow> jit_call \<Rightarrow> callback res" where
  "callback_of h c = (case c of
     JContribute a \<Rightarrow> bindE (load h a) (\<lambda>t. Inr (ContributeNode (obj_of t)))
   | JReduce \<Rightarrow> Inr ReduceNode
   | JIntroduce a v depth \<Rightarrow> bindE (load h a) (\<lambda>t.
       Inr (IntroduceNode (obj_of t) v (if depth = 1 then InsideFunctionDecl else TopLevel))))"

text \<open>The run, inside the scope of a new meta unit of the layout.\<close>

definition runMetaFunction :: "external \<Rightarrow> addr \<Rightarrow> string \<Rightarrow> compiler \<Rightarrow> (layout \<times> compiler) res" where
  "runMetaFunction X a jumpPad s =
     bindE (instantiation_of (cp_heap s) a) (\<lambda>(rg, n, decl, es).
     let (unit, c) = allocate_on (PMetaUnit a) \<lparr>c_layout = [], c_next = cp_next s, c_engine = cp_engine s\<rparr>;
         c = c\<lparr>c_layout := directWrite unit (c_layout c)\<rparr>
     in bindE (x_jit X (cp_jit s) jumpPad) (\<lambda>calls.
        bindE (mapE (callback_of (cp_heap s)) calls) (\<lambda>callbacks.
        bindE (foldE (run_callback (x_invocation X) (stringifyInstantiation n es)) callbacks c) (\<lambda>c.
        Inr (if isNodeRequiringReduceMarker unit then markReduce (c_layout c) else c_layout c,
          s\<lparr>cp_next := c_next c, cp_engine := c_engine c\<rparr>)))))"

text \<open>What the reader sees of the other trees.\<close>

definition view_of :: "heap \<Rightarrow> addr \<Rightarrow> (ident \<times> obj option) option" where
  "view_of h a = (case h a of
     Some (MetaInstantiationExpr b rg (DeclRefExpr r n d) es) \<Rightarrow>
       Some (n, case d of None \<Rightarrow> None | Some k \<Rightarrow> map_option obj_of (h k))
   | _ \<Rightarrow> None)"

definition heap_with :: "ast \<Rightarrow> heap \<Rightarrow> heap" where
  "heap_with t h = fold (\<lambda>n h. h(addr_of n \<mapsto> n)) (nodes t) h"

definition meta_reader :: "layout \<Rightarrow> compiler \<Rightarrow> reader" where
  "meta_reader l s = (reader_new (cp_engine s) l)\<lparr>containingUnit := cp_containing s,
     exportedNode := cp_exported s, unitScope := cp_scopes s\<rparr>"

definition readMetaUnit :: "external \<Rightarrow> layout \<Rightarrow> compiler \<Rightarrow> (ast \<times> compiler) res" where
  "readMetaUnit X l s =
     bindE (consumeKind ((x_params X)\<lparr>inst_view := view_of (cp_heap s)\<rparr>) (reader_fuel (meta_reader l s))
         KindMetaUnit (meta_reader l s)) (\<lambda>(unit, r).
     Inr (unit, s\<lparr>cp_containing := containingUnit r, cp_exported := exportedNode r, cp_scopes := unitScope r,
       cp_engine := engine_of r, cp_heap := heap_with unit (cp_heap s)\<rparr>))"

definition cacheInstantiationOf :: "addr \<Rightarrow> addr \<Rightarrow> compiler \<Rightarrow> compiler res" where
  "cacheInstantiationOf a unit s =
     bindE (assertE (cp_instances s a = None) ''Expected that there was no instantiations before!'') (\<lambda>_.
     Inr (s\<lparr>cp_instances := (cp_instances s)(a \<mapsto> unit)\<rparr>))"

text \<open>The new unit is read and checked; it is kept unless there are errors.\<close>

definition finishInstantiation :: "external \<Rightarrow> addr \<Rightarrow> layout \<Rightarrow> compiler \<Rightarrow> (addr option \<times> compiler) res" where
  "finishInstantiation X a l s =
     bindE (readMetaUnit X l s) (\<lambda>(unit, s).
     if hasErrors (cp_engine s) then Inr (None, s)
     else bindE (checkAST (cp_heap s) unit (cp_engine s)) (\<lambda>e.
       let s = s\<lparr>cp_engine := e\<rparr> in
       if hasErrors e then Inr (None, s)
       else bindE (cacheInstantiationOf a (addr_of unit) s) (\<lambda>s. Inr (Some (addr_of unit), s))))"

definition instantiateWith :: "external \<Rightarrow> nat \<Rightarrow> instantiator \<Rightarrow> instantiator" where
  "instantiateWith X n inst a requiresCompleted s = (case cp_instances s a of
     Some unit \<Rightarrow> Inr (Some unit, s)
   | None \<Rightarrow>
       bindE (assertE (\<not> requiresCompleted) ''Expected the instantiated to be completed before!'') (\<lambda>_.
       bindE (instantiation_of (cp_heap s) a) (\<lambda>(rg, name, decl, es).
       bindE (if getKind decl = KindMetaDecl then Inr () else Inl BadCast) (\<lambda>_.
       bindE (codegenMetaDecl X inst decl s) (\<lambda>(metafunction, s). case metafunction of
           None \<Rightarrow> Inr (None, s)
         | Some f \<Rightarrow>
             bindE (createJumpPadTo X inst a f s) (\<lambda>(jumpPad, s).
             bindE (shipToJIT X inst n s) (\<lambda>(shipped, s).
             if \<not> shipped then Inr (None, s)
             else bindE (runMetaFunction X a jumpPad s) (\<lambda>(l, s).
               finishInstantiation X a l s))))))))"

fun instantiate :: "external \<Rightarrow> nat \<Rightarrow> instantiator" where
  "instantiate X 0 a requiresCompleted s = Inl OutOfFuel"
| "instantiate X (Suc n) a requiresCompleted s = instantiateWith X n (instantiate X n) a requiresCompleted s"

declare instantiate.simps [simp del]

end
