(* ===== verification/IR_Exec.thy ===== *)
theory IR_Exec imports IR "HOL-Library.Signed_Division" begin

text \<open>
  What the blocks of a generated function do when they are run: a machine with the values of the
  instructions executed so far, the memory of the stack slots, and a world that calls change. What a
  called function does is a parameter. A call of the generated code that LLVM leaves undefined (a
  division by zero, an operand of the wrong class) is the value None.
\<close>

section \<open>Arithmetic\<close>

definition run_binop :: "ir_binop \<Rightarrow> i32 \<Rightarrow> i32 \<Rightarrow> i32 option" where
  "run_binop op l r = (case op of
     Mul \<Rightarrow> Some (l * r) | Add \<Rightarrow> Some (l + r) | Sub \<Rightarrow> Some (l - r)
   | SDiv \<Rightarrow> if r = 0 \<or> r = - 1 \<and> sint l = - (2 ^ 31) then None
       else Some (word_of_int (sint l sdiv sint r)))"

definition run_icmp :: "ir_pred \<Rightarrow> i32 \<Rightarrow> i32 \<Rightarrow> bool" where
  "run_icmp p l r = (case p of
     SLT \<Rightarrow> sint l < sint r | SGT \<Rightarrow> sint l > sint r | SLE \<Rightarrow> sint l \<le> sint r | SGE \<Rightarrow> sint l \<ge> sint r
   | EQ \<Rightarrow> l = r | NE \<Rightarrow> l \<noteq> r)"

section \<open>The machine\<close>

text \<open>An \<open>alloca\<close> is executed once at most, so that its slot is named by the number of the call.\<close>

datatype rval = RInt i32 | RBool bool | RVoid | RSlot nat | RFun string | RNode addr | RContext

type_synonym memory = "nat \<Rightarrow> i32 option"

record 'w machine =
  m_regs :: "nat \<Rightarrow> rval option"
  m_mem :: memory
  m_world :: 'w

datatype 'w ir_config = At block nat "'w machine" | Returned "i32 option" 'w

type_synonym 'w ir_call = "string \<Rightarrow> rval list \<Rightarrow> memory \<Rightarrow> 'w \<Rightarrow> (rval \<times> 'w) option"

fun operand :: "i32 list \<Rightarrow> 'w machine \<Rightarrow> ir_value \<Rightarrow> rval option" where
  "operand as m (VConst i) = Some (RInt i)"
| "operand as m (VPointer a) = Some (RNode a)"
| "operand as m (VArg n) = (if n < length as then Some (RInt (as ! n)) else None)"
| "operand as m VContext = Some RContext"
| "operand as m (VFunction f) = Some (RFun f)"
| "operand as m (VInstr n p) = m_regs m n"

fun operands :: "i32 list \<Rightarrow> 'w machine \<Rightarrow> ir_value list \<Rightarrow> rval list option" where
  "operands as m [] = Some []"
| "operands as m (v # vs) = (case operand as m v of None \<Rightarrow> None
    | Some x \<Rightarrow> map_option ((#) x) (operands as m vs))"

definition set_reg :: "nat \<Rightarrow> rval \<Rightarrow> 'w machine \<Rightarrow> 'w machine" where
  "set_reg n v m = m\<lparr>m_regs := (m_regs m)(n \<mapsto> v)\<rparr>"

text \<open>Instructions that do not end a block.\<close>

definition run_instr :: "'w ir_call \<Rightarrow> i32 list \<Rightarrow> nat \<Rightarrow> instr \<Rightarrow> 'w machine \<Rightarrow> 'w machine option" where
  "run_instr call as n i m = (case i of
     Alloca name \<Rightarrow> Some (set_reg n (RSlot n) (m\<lparr>m_mem := (m_mem m)(n := None)\<rparr>))
   | Store v p \<Rightarrow> (case (operand as m v, operand as m p) of
         (Some (RInt k), Some (RSlot q)) \<Rightarrow> Some (m\<lparr>m_mem := (m_mem m)(q \<mapsto> k)\<rparr>) | _ \<Rightarrow> None)
   | Load p \<Rightarrow> (case operand as m p of
         Some (RSlot q) \<Rightarrow> (case m_mem m q of Some k \<Rightarrow> Some (set_reg n (RInt k) m) | None \<Rightarrow> None)
       | _ \<Rightarrow> None)
   | BinOp op l r \<Rightarrow> (case (operand as m l, operand as m r) of
         (Some (RInt x), Some (RInt y)) \<Rightarrow>
           (case run_binop op x y of Some k \<Rightarrow> Some (set_reg n (RInt k) m) | None \<Rightarrow> None)
       | _ \<Rightarrow> None)
   | ICmp p l r \<Rightarrow> (case (operand as m l, operand as m r) of
         (Some (RInt x), Some (RInt y)) \<Rightarrow> Some (set_reg n (RBool (run_icmp p x y)) m) | _ \<Rightarrow> None)
   | ZExt v \<Rightarrow> (case operand as m v of
         Some (RBool b) \<Rightarrow> Some (set_reg n (RInt (if b then 1 else 0)) m) | _ \<Rightarrow> None)
   | IsNotNull v \<Rightarrow> (case operand as m v of
         Some (RInt k) \<Rightarrow> Some (set_reg n (RBool (k \<noteq> 0)) m)
       | Some (RSlot q) \<Rightarrow> Some (set_reg n (RBool True) m)
       | Some (RFun f) \<Rightarrow> Some (set_reg n (RBool True) m)
       | _ \<Rightarrow> None)
   | Call f vs \<Rightarrow> (case (operand as m f, operands as m vs) of
         (Some (RFun g), Some rs) \<Rightarrow> (case call g rs (m_mem m) (m_world m) of
           Some (r, w) \<Rightarrow> Some (set_reg n r (m\<lparr>m_world := w\<rparr>)) | None \<Rightarrow> None)
       | _ \<Rightarrow> None)
   | IntToPtr v \<Rightarrow> map_option (\<lambda>r. set_reg n r m) (operand as m v)
   | PointerCast v \<Rightarrow> map_option (\<lambda>r. set_reg n r m) (operand as m v)
   | _ \<Rightarrow> None)"

type_synonym code = "(block option \<times> nat \<times> instr) list"

text \<open>The instructions of a block.\<close>

definition body :: "code \<Rightarrow> block \<Rightarrow> (nat \<times> instr) list" where
  "body code b = map snd (filter (\<lambda>x. fst x = Some b) code)"

definition step :: "code \<Rightarrow> 'w ir_call \<Rightarrow> i32 list \<Rightarrow> 'w ir_config \<Rightarrow> 'w ir_config option" where
  "step code call as c = (case c of
     Returned r w \<Rightarrow> None
   | At b k m \<Rightarrow>
       if k < length (body code b) then
         (case body code b ! k of (n, i) \<Rightarrow> (case i of
            Ret v \<Rightarrow> (case operand as m v of Some (RInt x) \<Rightarrow> Some (Returned (Some x) (m_world m)) | _ \<Rightarrow> None)
          | RetVoid \<Rightarrow> Some (Returned None (m_world m))
          | Br b' \<Rightarrow> Some (At b' 0 m)
          | CondBr v t f \<Rightarrow> (case operand as m v of
              Some (RBool p) \<Rightarrow> Some (At (if p then t else f) 0 m) | _ \<Rightarrow> None)
          | _ \<Rightarrow> map_option (At b (Suc k)) (run_instr call as n i m)))
       else None)"

text \<open>Any number of steps.\<close>

definition reaches :: "code \<Rightarrow> 'w ir_call \<Rightarrow> i32 list \<Rightarrow> 'w ir_config \<Rightarrow> 'w ir_config \<Rightarrow> bool" where
  "reaches code call as = (\<lambda>c d. step code call as c = Some d)\<^sup>*\<^sup>*"

text \<open>The run of a function from its entry block, with a bound on the number of steps.\<close>

fun steps :: "nat \<Rightarrow> code \<Rightarrow> 'w ir_call \<Rightarrow> i32 list \<Rightarrow> 'w ir_config \<Rightarrow> 'w ir_config" where
  "steps 0 code call as c = c"
| "steps (Suc k) code call as c = (case step code call as c of None \<Rightarrow> c | Some d \<Rightarrow> steps k code call as d)"

definition entry_config :: "'w \<Rightarrow> 'w ir_config" where
  "entry_config w = At 0 0 \<lparr>m_regs = Map.empty, m_mem = Map.empty, m_world = w\<rparr>"

lemma reaches_refl [simp, intro]: "reaches code call as c c"
  by (simp add: reaches_def)

lemma reaches_trans [trans]:
  "reaches code call as c d \<Longrightarrow> reaches code call as d e \<Longrightarrow> reaches code call as c e"
  by (simp add: reaches_def)

lemma reaches_step: "step code call as c = Some d \<Longrightarrow> reaches code call as c d"
  by (simp add: reaches_def r_into_rtranclp)

lemma reaches_steps: "reaches code call as c d \<Longrightarrow> \<exists>k. steps k code call as c = d"
  unfolding reaches_def
proof (induction rule: converse_rtranclp_induct)
  case base
  show ?case by (rule exI [of _ 0]) simp
next
  case (step c e)
  then obtain k where "steps k code call as e = d" by auto
  with step.hyps(1) show ?case by (intro exI [of _ "Suc k"]) simp
qed

section \<open>Bodies of blocks\<close>

lemma body_simps [simp]:
  "body [] b = []"
  "body (code @ code') b = body code b @ body code' b"
  "body ((p, x) # code) b = (if p = Some b then x # body code b else body code b)"
  by (simp_all add: body_def)

lemma step_instr:
  assumes "body code b = pre @ (n, i) # post" and "run_instr call as n i m = Some m'"
  shows "step code call as (At b (length pre) m) = Some (At b (Suc (length pre)) m')"
  using assms by (cases i) (simp_all add: step_def run_instr_def)

lemma reaches_instr:
  assumes "body code b = pre @ (n, i) # post" and "run_instr call as n i m = Some m'"
  shows "reaches code call as (At b (length pre) m) (At b (Suc (length pre)) m')"
  by (rule reaches_step) (rule step_instr [OF assms])

lemma reaches_ret:
  assumes "body code b = pre @ (n, Ret v) # post" and "operand as m v = Some (RInt x)"
  shows "reaches code call as (At b (length pre) m) (Returned (Some x) (m_world m))"
  by (rule reaches_step) (simp add: step_def assms)

lemma reaches_ret_void:
  assumes "body code b = pre @ (n, RetVoid) # post"
  shows "reaches code call as (At b (length pre) m) (Returned None (m_world m))"
  by (rule reaches_step) (simp add: step_def assms)

lemma reaches_br:
  assumes "body code b = pre @ (n, Br b') # post"
  shows "reaches code call as (At b (length pre) m) (At b' 0 m)"
  by (rule reaches_step) (simp add: step_def assms)

lemma reaches_cond_br:
  assumes "body code b = pre @ (n, CondBr v t f) # post" and "operand as m v = Some (RBool p)"
  shows "reaches code call as (At b (length pre) m) (At (if p then t else f) 0 m)"
  by (rule reaches_step) (simp add: step_def assms)

end
