(* ===== verification/Codegen_Frame.thy ===== *)
theory Codegen_Frame imports FunctionCodegen IR_Exec begin

text \<open>
  What the generator of a function leaves alone: an expression only adds instructions at the
  insertion point; a statement adds instructions to the block it starts in and to new blocks, ends at
  the block it returns, and changes the innermost scope of values only.
\<close>

abbreviation code_of :: "'c fcodegen \<Rightarrow> code" where
  "code_of s \<equiv> ir_code (fc_builder s)"

abbreviation next_of :: "'c fcodegen \<Rightarrow> nat" where
  "next_of s \<equiv> ir_next (fc_builder s)"

abbreviation point_of :: "'c fcodegen \<Rightarrow> block option" where
  "point_of s \<equiv> insert_point (fc_builder s)"

named_theorems builder_simps \<open>calls of the builder\<close>

declare buildInstr_def [builder_simps] buildVoid_def [builder_simps] emit_def [builder_simps]
  newBlock_def [builder_simps] newBlockBefore_def [builder_simps] createBlock_def [builder_simps]
  createBlockBefore_def [builder_simps] insertAt_def [builder_simps] setInsertPoint_def [builder_simps]

section \<open>Straight code\<close>

definition straight :: "'c fcodegen \<Rightarrow> 'c fcodegen \<Rightarrow> bool" where
  "straight s s' \<longleftrightarrow> (\<exists>xs. code_of s' = code_of s @ map (Pair (point_of s)) xs) \<and> next_of s \<le> next_of s'
     \<and> point_of s' = point_of s \<and> fc_values s' = fc_values s"

lemma straight_refl [simp, intro]: "straight s s"
  by (auto simp: straight_def)

lemma straight_trans [trans]:
  assumes "straight s t" and "straight t u" shows "straight s u"
proof -
  from assms obtain xs ys where "code_of t = code_of s @ map (Pair (point_of s)) xs"
    and "code_of u = code_of t @ map (Pair (point_of t)) ys"
    by (auto simp: straight_def)
  then have "code_of u = code_of s @ map (Pair (point_of s)) (xs @ ys)"
    using assms by (simp add: straight_def)
  with assms show ?thesis unfolding straight_def by (metis order_trans)
qed

lemma straight_context [simp]: "straight s (s\<lparr>fc_context := c\<rparr>)"
  by (auto simp: straight_def)

lemma straight_build: "buildInstr i p s = (v, s') \<Longrightarrow> straight s s'"
  by (auto simp: straight_def builder_simps intro!: exI [of _ "[(next_of s, i)]"])

lemma straight_buildVoid [simp]: "straight s (buildVoid i s)"
  unfolding buildVoid_def by (metis prod.collapse straight_build)

lemma straight_loadMemory: "loadMemory v s = (v', s') \<Longrightarrow> straight s s'"
  by (auto simp: loadMemory_def split: if_splits dest: straight_build)

lemma straight_operator: "codegenOperator op l r s = (v, s') \<Longrightarrow> straight s s'"
  unfolding codegenOperator_def Let_def
  by (auto split: option.splits prod.splits dest!: straight_loadMemory straight_build
      intro: straight_trans straight_buildVoid)

lemma straight_declRef: "codegenDeclRef h cx d s = Inr (v, s') \<Longrightarrow> straight s s'"
  unfolding codegenDeclRef_def
  by (auto split: option.splits if_splits ast.splits prod.splits simp: bindE_eq_Inr)

lemma straight_mapS:
  assumes "\<And>x s y s'. x \<in> set xs \<Longrightarrow> f x s = Inr (y, s') \<Longrightarrow> straight s s'"
    and "mapS f xs s = Inr (ys, s')"
  shows "straight s s'"
  using assms
proof (induction xs arbitrary: s ys)
  case (Cons x xs)
  from Cons.prems(2) obtain y t zs where x: "f x s = Inr (y, t)" and xs: "mapS f xs t = Inr (zs, s')"
    by (auto simp: bindE_eq_Inr)
  have "straight s t" using Cons.prems(1) [OF _ x] by simp
  moreover have "straight t s'"
    by (rule Cons.IH [OF _ xs]) (use Cons.prems(1) in \<open>metis list.set_intros(2)\<close>)
  ultimately show ?case by (rule straight_trans)
qed auto

lemma straight_expr: "codegenExpr h cx t s = Inr (v, s') \<Longrightarrow> straight s s'"
proof (induction t arbitrary: s v s' rule: ast_children_induct)
  case (node t)
  show ?case
  proof (cases t)
    case (BinaryOperatorExpr a b l r)
    with node.prems obtain x s1 y s2 where l: "codegenExpr h cx l s = Inr (x, s1)"
      and r: "codegenExpr h cx r s1 = Inr (y, s2)" and op: "codegenOperator (getType b) x y s2 = (v, s')"
      by (auto simp: bindE_eq_Inr)
    have "straight s s1" by (rule node.IH [OF _ l]) (simp add: BinaryOperatorExpr)
    also have "straight s1 s2" by (rule node.IH [OF _ r]) (simp add: BinaryOperatorExpr)
    also have "straight s2 s'" by (rule straight_operator [OF op])
    finally show ?thesis .
  next
    case (CallOperatorExpr a c es)
    with node.prems obtain f s1 args s2 where c: "codegenExpr h cx c s = Inr (f, s1)"
      and es: "mapS (\<lambda>e s. bindE (codegenExpr h cx e s) (\<lambda>(v, s). Inr (loadMemory v s))) es s1 = Inr (args, s2)"
      and call: "buildInstr (Call f args) False s2 = (v, s')"
      by (auto simp: bindE_eq_Inr)
    have "straight s s1" by (rule node.IH [OF _ c]) (simp add: CallOperatorExpr)
    also have "straight s1 s2"
    proof (rule straight_mapS [OF _ es])
      fix e t y t'
      assume "e \<in> set es" and "bindE (codegenExpr h cx e t) (\<lambda>(v, s). Inr (loadMemory v s)) = Inr (y, t')"
      then show "straight t t'"
        using node.IH [of e] CallOperatorExpr
        by (auto simp: bindE_eq_Inr intro: straight_trans dest!: straight_loadMemory)
    qed
    also have "straight s2 s'" by (rule straight_build [OF call])
    finally show ?thesis .
  qed (use node.prems in \<open>auto simp: bindE_eq_Inr dest!: straight_declRef split: option.splits\<close>)
qed

section \<open>Growing code\<close>

text \<open>The blocks a piece of code may be added to: the current one, and those made since.\<close>

definition placed :: "block \<Rightarrow> nat \<Rightarrow> nat \<Rightarrow> block option \<times> nat \<times> instr \<Rightarrow> bool" where
  "placed b lo hi x \<longleftrightarrow> (\<exists>c. fst x = Some c \<and> (c = b \<or> lo \<le> c \<and> c < hi))"

definition grown :: "block \<Rightarrow> 'c fcodegen \<Rightarrow> 'c fcodegen \<Rightarrow> bool" where
  "grown b s s' \<longleftrightarrow> (\<exists>xs. code_of s' = code_of s @ xs
       \<and> (\<forall>x \<in> set xs. placed b (next_of s) (next_of s') x)) \<and> next_of s \<le> next_of s'"

lemma placed_weaken:
  "placed b lo hi x \<Longrightarrow> lo' \<le> lo \<Longrightarrow> hi \<le> hi' \<Longrightarrow> b = b' \<or> lo' \<le> b \<and> b < hi' \<Longrightarrow> placed b' lo' hi' x"
  unfolding placed_def by fastforce

lemma grown_refl [simp, intro]: "grown b s s"
  by (simp add: grown_def)

lemma grown_trans:
  assumes "grown b s t" and "grown c t u" and "c = b \<or> next_of s \<le> c \<and> c < next_of u"
  shows "grown b s u"
proof -
  from assms(1) obtain xs where xs: "code_of t = code_of s @ xs" "next_of s \<le> next_of t"
    "\<forall>x \<in> set xs. placed b (next_of s) (next_of t) x"
    unfolding grown_def by blast
  from assms(2) obtain ys where ys: "code_of u = code_of t @ ys" "next_of t \<le> next_of u"
    "\<forall>x \<in> set ys. placed c (next_of t) (next_of u) x"
    unfolding grown_def by blast
  have "\<forall>x \<in> set xs. placed b (next_of s) (next_of u) x"
    using xs ys(2) by (meson order_refl placed_weaken)
  moreover have "\<forall>x \<in> set ys. placed b (next_of s) (next_of u) x"
    using ys xs(2) assms(3) by (meson order_refl placed_weaken)
  ultimately show ?thesis
    unfolding grown_def using xs(1,2) ys(1,2) by (intro conjI exI [of _ "xs @ ys"]) auto
qed

lemma straight_grown: "straight s s' \<Longrightarrow> point_of s = Some b \<Longrightarrow> grown b s s'"
  by (auto simp: straight_def grown_def placed_def)

lemma grown_next: "grown b s s' \<Longrightarrow> next_of s \<le> next_of s'"
  by (simp add: grown_def)

text \<open>Growing code leaves every other old block as it is.\<close>

lemma grown_body: "grown b s s' \<Longrightarrow> c \<noteq> b \<Longrightarrow> c < next_of s \<Longrightarrow> body (code_of s') c = body (code_of s) c"
  unfolding grown_def body_def placed_def by (fastforce simp: filter_empty_conv)

text \<open>No instruction belongs to a block that is not made yet.\<close>

definition numbered :: "'c fcodegen \<Rightarrow> bool" where
  "numbered s \<longleftrightarrow> (\<forall>x \<in> set (code_of s). \<forall>b. fst x = Some b \<longrightarrow> b < next_of s)"

lemma numbered_grown: "numbered s \<Longrightarrow> grown b s s' \<Longrightarrow> b < next_of s \<Longrightarrow> numbered s'"
  unfolding numbered_def grown_def placed_def by fastforce

lemma numbered_body: "numbered s \<Longrightarrow> next_of s \<le> b \<Longrightarrow> body (code_of s) b = []"
  unfolding numbered_def body_def by (fastforce simp: filter_empty_conv)

section \<open>Statements\<close>

text \<open>What a statement that starts in block \<open>b\<close> leaves: the block it goes on in is the insertion point.\<close>

definition left_at :: "block \<Rightarrow> 'c fcodegen \<Rightarrow> block option \<Rightarrow> 'c fcodegen \<Rightarrow> bool" where
  "left_at b s r s' \<longleftrightarrow> grown b s s'
     \<and> (\<forall>c. r = Some c \<longrightarrow> point_of s' = Some c \<and> (c = b \<or> next_of s \<le> c) \<and> c < next_of s')
     \<and> length (fc_values s') = length (fc_values s) \<and> tl (fc_values s') = tl (fc_values s)"

lemma left_atD:
  assumes "left_at b s r s'"
  shows "grown b s s'" "next_of s \<le> next_of s'" "length (fc_values s') = length (fc_values s)"
    "tl (fc_values s') = tl (fc_values s)"
    "r = Some c \<Longrightarrow> point_of s' = Some c" "r = Some c \<Longrightarrow> c < next_of s'"
    "r = Some c \<Longrightarrow> c = b \<or> next_of s \<le> c"
  using assms by (auto simp: left_at_def grown_def)

lemma left_at_straight:
  assumes "straight s s'" "point_of s = Some b" "b < next_of s"
  shows "left_at b s (Some b) s'" "left_at b s None s'"
  using assms straight_grown [OF assms(1,2)] by (auto simp: left_at_def straight_def)

lemma left_at_seq:
  assumes "left_at b s (Some c) t" and "left_at c t r u"
  shows "left_at b s r u"
proof -
  note st = left_atD [OF assms(1)] and tu = left_atD [OF assms(2)]
  have "c = b \<or> next_of s \<le> c \<and> c < next_of u"
    using st(6) st(7) tu(2) by auto
  then have "grown b s u" by (rule grown_trans [OF st(1) tu(1)])
  moreover have "d = b \<or> next_of s \<le> d" if "r = Some d" for d
    using st(2) st(7) tu(7) [OF that] by auto
  ultimately show ?thesis using st(3,4) tu(3-6) unfolding left_at_def by auto
qed

lemma codegenIfStructureE:
  assumes "codegenIfStructure h cx b c f g s = Inr (r, s')"
  obtains tb s1 rt s2 k1 s3 fb k2 s4 v s5 p s6
  where "newBlock ''true_block'' s = (tb, s1)" and "f tb (insertAt tb s1) = Inr (rt, s2)"
    and "closeBranch rt None s2 = (k1, s3)" and "codegenFalseBranch g k1 s3 = Inr (fb, k2, s4)"
    and "codegenExpr h cx c (insertAt b s4) = Inr (v, s5)"
    and "buildInstr (IsNotNull v) False s5 = (p, s6)" and "r = k2"
    and "s' = (case k2 of Some q \<Rightarrow> insertAt q (buildVoid (CondBr p tb fb) s6)
                        | None \<Rightarrow> buildVoid (CondBr p tb fb) s6)"
proof -
  obtain tb s1 where 1: "newBlock ''true_block'' s = (tb, s1)" by fastforce
  with assms obtain rt s2 where 2: "f tb (insertAt tb s1) = Inr (rt, s2)"
    by (auto simp: codegenIfStructure_def bindE_eq_Inr)
  obtain k1 s3 where 3: "closeBranch rt None s2 = (k1, s3)" by fastforce
  with assms 1 2 obtain fb k2 s4 where 4: "codegenFalseBranch g k1 s3 = Inr (fb, k2, s4)"
    by (auto simp: codegenIfStructure_def bindE_eq_Inr)
  with assms 1 2 3 obtain v s5 where 5: "codegenExpr h cx c (insertAt b s4) = Inr (v, s5)"
    by (auto simp: codegenIfStructure_def bindE_eq_Inr)
  obtain p s6 where 6: "buildInstr (IsNotNull v) False s5 = (p, s6)" by fastforce
  from assms 1 2 3 4 5 6 have "r = k2" "s' = (case k2 of Some q \<Rightarrow> insertAt q (buildVoid (CondBr p tb fb) s6)
                        | None \<Rightarrow> buildVoid (CondBr p tb fb) s6)"
    by (auto simp: codegenIfStructure_def Let_def split: option.splits)
  with 1 2 3 4 5 6 that show thesis by blast
qed

text \<open>Leaving a branch: the jump is the only instruction, and the block it jumps to may be new.\<close>

lemma closeBranch_None [simp]: "closeBranch None k s = (k, s)"
  by (simp add: closeBranch_def)

lemma closeBranch_Some:
  assumes "closeBranch (Some c) k s = (k', s')" and "point_of s = Some c"
  obtains q n where "k' = Some q" and "k = Some q \<or> k = None \<and> q = next_of s"
    and "code_of s' = code_of s @ [(Some c, n, Br q)]" and "next_of s \<le> next_of s'"
    and "k = None \<Longrightarrow> q < next_of s'" and "point_of s' = Some c" and "fc_values s' = fc_values s"
    and "fc_context s' = fc_context s"
  using assms by (cases k) (auto simp: closeBranch_def lazyContinue_def builder_simps)

lemma closeBranch_frame:
  assumes "closeBranch r k s = (k', s')" and "left_at b t r s" and "\<forall>q. k = Some q \<longrightarrow> q < next_of s"
  shows "grown b t s'" "next_of s \<le> next_of s'" "\<forall>q. k' = Some q \<longrightarrow> q < next_of s' \<and> (k = Some q \<or> next_of s \<le> q)"
    "length (fc_values s') = length (fc_values t)" "tl (fc_values s') = tl (fc_values t)"
    "fc_values s' = fc_values s"
proof -
  have "grown b t s' \<and> next_of s \<le> next_of s' \<and> (\<forall>q. k' = Some q \<longrightarrow> q < next_of s' \<and> (k = Some q \<or> next_of s \<le> q))
    \<and> fc_values s' = fc_values s"
  proof (cases r)
    case None
    with assms show ?thesis by (auto simp: left_at_def)
  next
    case (Some c)
    with assms(2) have c: "point_of s = Some c" "c = b \<or> next_of t \<le> c" "c < next_of s" "grown b t s"
      by (auto simp: left_at_def)
    obtain q n where q: "k' = Some q" "k = Some q \<or> k = None \<and> q = next_of s"
      "code_of s' = code_of s @ [(Some c, n, Br q)]" "next_of s \<le> next_of s'"
      "k = None \<Longrightarrow> q < next_of s'" "fc_values s' = fc_values s"
      using closeBranch_Some [OF assms(1) [unfolded Some] c(1)] by blast
    have "grown c s s'" using q(3,4) by (auto simp: grown_def placed_def)
    with c have "grown b t s'" by (metis grown_next grown_trans order_less_le_trans)
    with q assms(3) show ?thesis by auto
  qed
  with assms(2) show "grown b t s'" "next_of s \<le> next_of s'"
    "\<forall>q. k' = Some q \<longrightarrow> q < next_of s' \<and> (k = Some q \<or> next_of s \<le> q)"
    "length (fc_values s') = length (fc_values t)" "tl (fc_values s') = tl (fc_values t)"
    "fc_values s' = fc_values s"
    by (auto simp: left_at_def)
qed

text \<open>The generator of a branch, as a structure calls it.\<close>

definition framed :: "'c supplier \<Rightarrow> bool" where
  "framed f \<longleftrightarrow> (\<forall>b s r s'. f b s = Inr (r, s') \<longrightarrow> point_of s = Some b \<longrightarrow> b < next_of s \<longrightarrow> left_at b s r s')"

lemma framedD: "framed f \<Longrightarrow> f b s = Inr (r, s') \<Longrightarrow> point_of s = Some b \<Longrightarrow> b < next_of s \<Longrightarrow> left_at b s r s'"
  by (simp add: framed_def)

lemma newBlock_simps:
  "newBlock name s = (b, s') \<Longrightarrow> b = next_of s" "newBlock name s = (b, s') \<Longrightarrow> next_of s' = Suc (next_of s)"
  "newBlock name s = (b, s') \<Longrightarrow> code_of s' = code_of s" "newBlock name s = (b, s') \<Longrightarrow> fc_values s' = fc_values s"
  "newBlock name s = (b, s') \<Longrightarrow> point_of s' = point_of s"
  "newBlock name s = (b, s') \<Longrightarrow> fc_context s' = fc_context s"
  by (auto simp: builder_simps)

lemma insertAt_simps [simp]:
  "point_of (insertAt b s) = Some b" "next_of (insertAt b s) = next_of s" "code_of (insertAt b s) = code_of s"
  "fc_values (insertAt b s) = fc_values s" "fc_context (insertAt b s) = fc_context s"
  by (simp_all add: builder_simps)

lemma grown_same:
  "next_of s \<le> next_of s' \<Longrightarrow> code_of s' = code_of s \<Longrightarrow> grown b s s'"
  by (simp add: grown_def)

lemma grown_insertAt [simp]:
  "grown b s (insertAt q t) \<longleftrightarrow> grown b s t" "grown b (insertAt q s) t \<longleftrightarrow> grown b s t"
  by (simp_all add: grown_def)

text \<open>The blocks before the condition is generated.\<close>

lemma true_branch_frame:
  assumes "newBlock name s = (tb, s1)" and "f tb (insertAt tb s1) = Inr (rt, s2)" and "framed f"
    and "closeBranch rt None s2 = (k1, s3)"
  shows "grown tb s s3" "left_at tb (insertAt tb s1) rt s2" "next_of s \<le> tb" "tb < next_of s3"
    "\<forall>q. k1 = Some q \<longrightarrow> next_of s2 \<le> q \<and> q < next_of s3"
    "length (fc_values s3) = length (fc_values s)" "tl (fc_values s3) = tl (fc_values s)"
    "fc_values s3 = fc_values s2" "next_of s2 \<le> next_of s3"
proof -
  note tb = newBlock_simps [OF assms(1)]
  show l: "left_at tb (insertAt tb s1) rt s2" using assms(2,3) tb by (simp add: framed_def)
  note c = closeBranch_frame [OF assms(4) l]
  have "grown tb s (insertAt tb s1)" using tb by (intro grown_same) simp_all
  then show "grown tb s s3" using c(1) by (auto intro: grown_trans)
  show "next_of s \<le> tb" "tb < next_of s3" using tb c(1,2) l left_atD(2) [OF l] by auto
  show "\<forall>q. k1 = Some q \<longrightarrow> next_of s2 \<le> q \<and> q < next_of s3" using c(3) by auto
  show "length (fc_values s3) = length (fc_values s)" "tl (fc_values s3) = tl (fc_values s)"
    using c(4,5) tb by simp_all
  show "fc_values s3 = fc_values s2" "next_of s2 \<le> next_of s3" using c(2,6) by simp_all
qed

lemma false_branch_frame:
  assumes "codegenFalseBranch g k s = Inr (fb, k', s')" and "\<forall>q. k = Some q \<longrightarrow> q < next_of s"
    and "\<And>f. g = Some f \<Longrightarrow> framed f"
  shows "next_of s \<le> next_of s'" "fb < next_of s'" "k = Some fb \<or> next_of s \<le> fb"
    "grown d s s'"
    "\<forall>q. k' = Some q \<longrightarrow> q < next_of s' \<and> (k = Some q \<or> next_of s \<le> q)"
    "length (fc_values s') = length (fc_values s)" "tl (fc_values s') = tl (fc_values s)"
proof -
  have "next_of s \<le> next_of s' \<and> fb < next_of s' \<and> (k = Some fb \<or> next_of s \<le> fb)
    \<and> grown d s s'
    \<and> (\<forall>q. k' = Some q \<longrightarrow> q < next_of s' \<and> (k = Some q \<or> next_of s \<le> q))
    \<and> length (fc_values s') = length (fc_values s) \<and> tl (fc_values s') = tl (fc_values s)"
  proof (cases g)
    case None
    with assms(1,2) show ?thesis
      by (cases k) (auto simp: codegenFalseBranch_def lazyContinue_def builder_simps intro!: grown_same)
  next
    case (Some f)
    define made where "made = (case k of Some p \<Rightarrow> newBlockBefore p ''false_block'' s | None \<Rightarrow> newBlock ''false_block'' s)"
    obtain b s1 where b: "made = (b, s1)" by fastforce
    have s1: "b = next_of s" "next_of s1 = Suc (next_of s)" "code_of s1 = code_of s" "fc_values s1 = fc_values s"
      using b by (auto simp: made_def builder_simps split: option.splits)
    from assms(1) Some b obtain r s2 where r: "f b (insertAt b s1) = Inr (r, s2)"
      and c: "closeBranch r k s2 = (k', s')" and fb: "fb = b"
      by (auto simp: codegenFalseBranch_def made_def [symmetric] bindE_eq_Inr split: prod.splits)
    have l: "left_at b (insertAt b s1) r s2"
      using framedD [OF assms(3) [OF Some] r] s1 by simp
    have "\<forall>q. k = Some q \<longrightarrow> q < next_of s2" using assms(2) left_atD(2) [OF l] s1 by auto
    note c = closeBranch_frame [OF c l this]
    have "grown b s (insertAt b s1)" using s1 by (intro grown_same) simp_all
    then have "grown b s s'" using c(1) by (auto intro: grown_trans)
    then have "grown d s s'"
      using grown_trans [OF grown_refl, of b s s' d] s1 c(2) left_atD(2) [OF l] by auto
    then show ?thesis using c s1 left_atD(2) [OF l] fb by auto
  qed
  then show "next_of s \<le> next_of s'" "fb < next_of s'" "k = Some fb \<or> next_of s \<le> fb"
    "grown d s s'"
    "\<forall>q. k' = Some q \<longrightarrow> q < next_of s' \<and> (k = Some q \<or> next_of s \<le> q)"
    "length (fc_values s') = length (fc_values s)" "tl (fc_values s') = tl (fc_values s)"
    by blast+
qed

lemma framed_if:
  assumes "framed f" and "\<And>g'. g = Some g' \<Longrightarrow> framed g'"
  shows "framed (\<lambda>b s. codegenIfStructure h cx b c f g s)"
  unfolding framed_def
proof (intro allI impI)
  fix b s r s'
  assume "codegenIfStructure h cx b c f g s = Inr (r, s')" and b: "point_of s = Some b" "b < next_of s"
  from this(1) obtain tb s1 rt s2 k1 s3 fb k2 s4 v s5 p s6
    where 1: "newBlock ''true_block'' s = (tb, s1)" "f tb (insertAt tb s1) = Inr (rt, s2)"
      "closeBranch rt None s2 = (k1, s3)" and 2: "codegenFalseBranch g k1 s3 = Inr (fb, k2, s4)"
      and 3: "codegenExpr h cx c (insertAt b s4) = Inr (v, s5)"
      "buildInstr (IsNotNull v) False s5 = (p, s6)" and r: "r = k2"
      "s' = (case k2 of Some q \<Rightarrow> insertAt q (buildVoid (CondBr p tb fb) s6)
                      | None \<Rightarrow> buildVoid (CondBr p tb fb) s6)"
    by (rule codegenIfStructureE)
  note t = true_branch_frame [OF 1(1,2) assms(1) 1(3)]
  have k1: "\<forall>q. k1 = Some q \<longrightarrow> q < next_of s3" using t(5) by blast
  note f = false_branch_frame [OF 2 k1 assms(2)]
  define s7 where "s7 = buildVoid (CondBr p tb fb) s6"
  have e: "straight (insertAt b s4) s7"
    unfolding s7_def using straight_expr [OF 3(1)] straight_build [OF 3(2)]
    by (meson straight_buildVoid straight_trans)
  have "grown b s s3" using grown_trans [OF grown_refl t(1), of b] t(3,4) by auto
  then have "grown b s s4" using f(4) [of b] by (auto intro: grown_trans)
  moreover have "grown b s4 (insertAt b s4)" by (rule grown_same) simp_all
  moreover have "grown b (insertAt b s4) s7" by (rule straight_grown [OF e]) simp
  ultimately have "grown b s s7" by (meson grown_trans)
  then have "grown b s s'"
    using r by (auto simp: s7_def [symmetric] split: option.splits)
  moreover have "point_of s' = Some q \<and> next_of s \<le> q \<and> q < next_of s'" if "r = Some q" for q
    using that r f(5) t(5,9) e grown_next [OF t(1)] left_atD(2) [OF t(2)] newBlock_simps(2) [OF 1(1)]
    by (auto simp: s7_def [symmetric] straight_def)
  moreover have "fc_values s' = fc_values s4"
    using r e by (auto simp: s7_def [symmetric] straight_def split: option.splits)
  ultimately show "left_at b s r s'"
    using f(6,7) t(6,7) by (auto simp: left_at_def)
qed

lemma introduceValue_simps:
  assumes "introduceValue d v s = Inr s'"
  shows "code_of s' = code_of s" "next_of s' = next_of s" "point_of s' = point_of s"
    "length (fc_values s') = length (fc_values s)" "tl (fc_values s') = tl (fc_values s)"
    "fc_values s' = (hd (fc_values s))(d \<mapsto> v) # tl (fc_values s)" "fc_values s \<noteq> []"
    "fc_context s' = fc_context s"
  using assms by (auto simp: introduceValue_def split: list.splits)

lemma framed_seq:
  assumes "\<And>c. c \<in> set cs \<Longrightarrow> framed (F c)"
    and "foldE (\<lambda>c (current, s). case current of None \<Rightarrow> Inl NullDeref | Some b \<Rightarrow> F c b s) cs (Some b, s) = Inr (r, s')"
    and "point_of s = Some b" and "b < next_of s"
  shows "left_at b s r s'"
  using assms
proof (induction cs arbitrary: b s)
  case Nil
  then show ?case by (auto simp: left_at_def)
next
  case (Cons c cs)
  from Cons.prems(2) obtain q t where c: "F c b s = Inr (q, t)"
    and cs: "foldE (\<lambda>c (current, s). case current of None \<Rightarrow> Inl NullDeref | Some b \<Rightarrow> F c b s) cs (q, t) = Inr (r, s')"
    by (auto simp: bindE_eq_Inr)
  have l: "left_at b s q t" by (rule framedD [of "F c", OF _ c]) (use Cons.prems in auto)
  show ?case
  proof (cases q)
    case None
    with cs l show ?thesis by (cases cs) auto
  next
    case (Some d)
    then have "left_at d t r s'"
      using Cons.IH [of d t] Cons.prems(1) cs left_atD(5,6) [OF l] by auto
    with l Some show ?thesis by (metis left_at_seq)
  qed
qed

lemma value_scope_simps [simp]:
  "fc_builder (enterValueScope s) = fc_builder s" "fc_values (enterValueScope s) = Map.empty # fc_values s"
  "fc_builder (leaveValueScope s) = fc_builder s" "fc_values (leaveValueScope s) = tl (fc_values s)"
  "fc_context (enterValueScope s) = fc_context s" "fc_context (leaveValueScope s) = fc_context s"
  by (simp_all add: enterValueScope_def leaveValueScope_def)

lemma codegenStmt_declE:
  assumes "codegenStmt h cx (DeclStmt a n e) b s = Inr (r, s')"
  obtains v s1 slot s2 w s3 where "codegenExpr h cx e s = Inr (v, s1)"
    and "buildInstr (Alloca (getType n)) True s1 = (slot, s2)" and "loadMemory v s2 = (w, s3)"
    and "introduceValue a slot (buildVoid (Store w slot) s3) = Inr s'" and "r = Some b"
proof -
  from assms obtain v s1 where 1: "codegenExpr h cx e s = Inr (v, s1)" by (auto simp: bindE_eq_Inr)
  obtain slot s2 where 2: "buildInstr (Alloca (getType n)) True s1 = (slot, s2)" by fastforce
  obtain w s3 where 3: "loadMemory v s2 = (w, s3)" by fastforce
  from assms 1 2 3 that show thesis by (auto simp: Let_def bindE_eq_Inr)
qed

lemma codegenStmt_returnE:
  assumes "codegenStmt h cx (ReturnStmt a (Some x)) b s = Inr (r, s')"
  obtains v s1 w s2 where "codegenExpr h cx x s = Inr (v, s1)" and "loadMemory v s1 = (w, s2)"
    and "r = None" and "s' = buildVoid (Ret w) s2"
proof -
  from assms obtain v s1 where 1: "codegenExpr h cx x s = Inr (v, s1)" by (auto simp: bindE_eq_Inr)
  obtain w s2 where 2: "loadMemory v s1 = (w, s2)" by fastforce
  from assms 1 2 that show thesis by (auto simp: Let_def bindE_eq_Inr)
qed

lemma framed_stmt: "framed (\<lambda>b s. codegenStmt h cx t b s)"
proof (induction t rule: ast_children_induct)
  case (node t)
  show ?case
    unfolding framed_def
  proof (intro allI impI)
    fix b s r s'
    assume t: "codegenStmt h cx t b s = Inr (r, s')" and b: "point_of s = Some b" "b < next_of s"
    show "left_at b s r s'"
    proof (cases t)
      case (CompoundStmt a cs)
      with t obtain u where cs: "foldE (\<lambda>c (current, s).
          case current of None \<Rightarrow> Inl NullDeref | Some b \<Rightarrow> codegenStmt h cx c b s)
          cs (Some b, enterValueScope s) = Inr (r, u)" and s': "s' = leaveValueScope u"
        by (auto simp: bindE_eq_Inr)
      have "left_at b (enterValueScope s) r u"
        by (rule framed_seq [OF _ cs]) (use node.IH CompoundStmt b in auto)
      then show ?thesis using s' by (auto simp: left_at_def grown_def)
    next
      case (UnscopedCompoundStmt a cs)
      with t show ?thesis
        by (intro framed_seq [of cs "codegenStmt h cx"]) (use node.IH UnscopedCompoundStmt b in auto)
    next
      case (ReturnStmt a e)
      have "r = None \<and> straight s s'"
      proof (cases e)
        case None
        with t ReturnStmt show ?thesis by auto
      next
        case (Some x)
        with t ReturnStmt obtain v s1 w s2 where x: "codegenExpr h cx x s = Inr (v, s1)"
          and w: "loadMemory v s1 = (w, s2)" and s': "r = None" "s' = buildVoid (Ret w) s2"
          by (metis codegenStmt_returnE)
        with straight_expr [OF x] straight_loadMemory [OF w] show ?thesis
          by (metis straight_buildVoid straight_trans)
      qed
      then show ?thesis using b by (simp add: left_at_straight)
    next
      case (ExpressionStmt a e)
      with t have "r = Some b" "straight s s'" by (auto simp: bindE_eq_Inr dest: straight_expr)
      then show ?thesis using b by (simp add: left_at_straight)
    next
      case (DeclStmt a n e)
      with t obtain v s1 slot s2 w s3 where e: "codegenExpr h cx e s = Inr (v, s1)"
        and slot: "buildInstr (Alloca (getType n)) True s1 = (slot, s2)" and w: "loadMemory v s2 = (w, s3)"
        and i: "introduceValue a slot (buildVoid (Store w slot) s3) = Inr s'" and r: "r = Some b"
        by (metis codegenStmt_declE)
      have "straight s (buildVoid (Store w slot) s3)"
        using straight_expr [OF e] straight_build [OF slot] straight_loadMemory [OF w]
        by (meson straight_buildVoid straight_trans)
      then have "left_at b s r (buildVoid (Store w slot) s3)" using b r by (simp add: left_at_straight)
      then show ?thesis using introduceValue_simps [OF i] r by (auto simp: left_at_def grown_def)
    next
      case (IfStmt a c t1 f1)
      with t have "codegenIfStructure h cx b c (\<lambda>b s. codegenStmt h cx t1 b s)
          (map_option (\<lambda>g b s. codegenStmt h cx g b s) f1) s = Inr (r, s')" by simp
      moreover have "framed (\<lambda>b s. codegenIfStructure h cx b c (\<lambda>b s. codegenStmt h cx t1 b s)
          (map_option (\<lambda>g b s. codegenStmt h cx g b s) f1) s)"
        by (rule framed_if) (use node.IH IfStmt in auto)
      ultimately show ?thesis using b by (simp add: framed_def)
    qed (use t in auto)
  qed
qed

lemmas stmt_frame = framedD [OF framed_stmt]

lemma compound_values:
  assumes "codegenStmt h cx t b s = Inr (r, s')" and "getKind t = KindCompoundStmt"
    and "point_of s = Some b" and "b < next_of s"
  shows "fc_values s' = fc_values s"
proof -
  obtain a cs where t: "t = CompoundStmt a cs" using assms(2) by (cases t) auto
  with assms(1) obtain u where cs: "foldE (\<lambda>c (current, s).
      case current of None \<Rightarrow> Inl NullDeref | Some b \<Rightarrow> codegenStmt h cx c b s)
      cs (Some b, enterValueScope s) = Inr (r, u)" and s': "s' = leaveValueScope u"
    by (auto simp: bindE_eq_Inr)
  have "left_at b (enterValueScope s) r u"
    by (rule framed_seq [OF _ cs]) (use assms(3,4) framed_stmt in auto)
  then show ?thesis using s' by (simp add: left_at_def)
qed

lemma frameArgument_unnamed:
  "\<nexists>a n. t = NamedArgumentDecl a n \<Longrightarrow> frameArgument ro (v, t) s = Inr s"
  by (cases t) (simp_all add: frameArgument_def)

lemma arg_size_insertAt: "arg_size (fc_builder (insertAt b s)) = arg_size (fc_builder s)"
  by (simp add: builder_simps)

end
