(* ===== verification/Semantics.thy ===== *)
theory Semantics imports Sema "HOL-Library.Signed_Division" begin

text \<open>
  The meaning of a function of the source language, as the reference its generated code is compared
  with: expressions and statements are evaluated on the variables of the open scopes and a world that
  calls change. None is a program without a meaning: a division by zero, an operand that is a
  function, a variable out of scope.

  How functions are named, what the instantiations export and what a call does are parameters.
\<close>

section \<open>Values and variables\<close>

text \<open>An expression denotes an integer, nothing, the place of a variable, or a function.\<close>

datatype sval = SInt i32 | SVoid | SPlace addr | SFun string

type_synonym vars = "(addr \<Rightarrow> i32 option) list"

record 'w swy =
  sw_vars :: vars
  sw_world :: 'w

text \<open>A variable belongs to the innermost scope that declares it.\<close>

fun read_var :: "vars \<Rightarrow> addr \<Rightarrow> i32 option" where
  "read_var [] d = None"
| "read_var (m # ms) d = (case m d of Some v \<Rightarrow> Some v | None \<Rightarrow> read_var ms d)"

fun assign_var :: "addr \<Rightarrow> i32 \<Rightarrow> vars \<Rightarrow> vars" where
  "assign_var d k [] = []"
| "assign_var d k (m # ms) = (if m d = None then m # assign_var d k ms else m(d \<mapsto> k) # ms)"

definition declare_var :: "addr \<Rightarrow> i32 \<Rightarrow> vars \<Rightarrow> vars" where
  "declare_var d k ms = (case ms of [] \<Rightarrow> [] | m # ms \<Rightarrow> m(d \<mapsto> k) # ms)"

definition read_value :: "sval \<Rightarrow> 'w swy \<Rightarrow> i32 option" where
  "read_value v s = (case v of SInt k \<Rightarrow> Some k | SPlace d \<Rightarrow> read_var (sw_vars s) d | _ \<Rightarrow> None)"

section \<open>Expressions\<close>

definition run_operator :: "bin_op \<Rightarrow> i32 \<Rightarrow> i32 \<Rightarrow> i32 option" where
  "run_operator op l r = (case op of
     OperatorMul \<Rightarrow> Some (l * r)
   | OperatorDiv \<Rightarrow> if r = 0 \<or> r = - 1 \<and> sint l = - (2 ^ 31) then None
       else Some (word_of_int (sint l sdiv sint r))
   | OperatorPlus \<Rightarrow> Some (l + r)
   | OperatorMinus \<Rightarrow> Some (l - r)
   | OperatorLessThan \<Rightarrow> Some (if sint l < sint r then 1 else 0)
   | OperatorGreaterThan \<Rightarrow> Some (if sint l > sint r then 1 else 0)
   | OperatorLessThanOrEq \<Rightarrow> Some (if sint l \<le> sint r then 1 else 0)
   | OperatorGreaterThanOrEq \<Rightarrow> Some (if sint l \<ge> sint r then 1 else 0)
   | OperatorEqual \<Rightarrow> Some (if l = r then 1 else 0)
   | OperatorNotEqual \<Rightarrow> Some (if l \<noteq> r then 1 else 0)
   | OperatorAssign \<Rightarrow> None)"

definition eval_operator :: "bin_op \<Rightarrow> sval \<Rightarrow> sval \<Rightarrow> 'w swy \<Rightarrow> (sval \<times> 'w swy) option" where
  "eval_operator op l r s =
     (if op = OperatorAssign then
        (case (l, read_value r s) of
           (SPlace d, Some k) \<Rightarrow> Some (r, s\<lparr>sw_vars := assign_var d k (sw_vars s)\<rparr>)
         | _ \<Rightarrow> None)
      else (case (read_value l s, read_value r s) of
           (Some x, Some y) \<Rightarrow> map_option (\<lambda>k. (SInt k, s)) (run_operator op x y)
         | _ \<Rightarrow> None))"

fun literal_value :: "ast \<Rightarrow> i32 option" where
  "literal_value (IntegerLiteralExpr a l) = Some (getType l)"
| "literal_value (BooleanLiteralExpr a l) = Some (if getType l then 1 else 0)"
| "literal_value t = None"

definition eval_ref :: "heap \<Rightarrow> (addr \<Rightarrow> string) \<Rightarrow> addr option \<Rightarrow> 'w swy \<Rightarrow> sval option" where
  "eval_ref h fname d s = (case d of None \<Rightarrow> None | Some k \<Rightarrow> (case h k of
       Some (FunctionDecl a n args ret b) \<Rightarrow> Some (SFun (fname k))
     | Some (NamedArgumentDecl a n) \<Rightarrow> if read_var (sw_vars s) k = None then None else Some (SPlace k)
     | Some (DeclStmt a n e) \<Rightarrow> if read_var (sw_vars s) k = None then None else Some (SPlace k)
     | Some (GlobalConstantDecl a n e) \<Rightarrow> map_option SInt (literal_value e)
     | _ \<Rightarrow> None))"

fun mapO :: "('a \<Rightarrow> 's \<Rightarrow> ('b \<times> 's) option) \<Rightarrow> 'a list \<Rightarrow> 's \<Rightarrow> ('b list \<times> 's) option" where
  "mapO f [] s = Some ([], s)"
| "mapO f (x # xs) s = (case f x s of None \<Rightarrow> None | Some (y, s) \<Rightarrow>
     (case mapO f xs s of None \<Rightarrow> None | Some (ys, s) \<Rightarrow> Some (y # ys, s)))"

lemma mapO_cong [fundef_cong]:
  "xs = ys \<Longrightarrow> s = t \<Longrightarrow> (\<And>x s. x \<in> set ys \<Longrightarrow> f x s = g x s) \<Longrightarrow> mapO f xs s = mapO g ys t"
proof (induction xs arbitrary: ys s t)
  case (Cons x xs)
  then show ?case by (cases "g x t") auto
qed simp

type_synonym 'w swy_call = "string \<Rightarrow> i32 list \<Rightarrow> 'w \<Rightarrow> (i32 option \<times> 'w) option"

text \<open>What a program is linked with.\<close>

record 'w linkage =
  l_heap :: heap
  l_fname :: "addr \<Rightarrow> string"
  l_iname :: "addr \<Rightarrow> string"
  l_call :: "'w swy_call"

definition eval_call :: "'w linkage \<Rightarrow> sval \<Rightarrow> i32 list \<Rightarrow> 'w swy \<Rightarrow> (sval \<times> 'w swy) option" where
  "eval_call L callee args s = (case callee of
     SFun f \<Rightarrow> (case l_call L f args (sw_world s) of
         Some (r, w) \<Rightarrow> Some (case r of Some k \<Rightarrow> SInt k | None \<Rightarrow> SVoid, s\<lparr>sw_world := w\<rparr>)
       | None \<Rightarrow> None)
   | _ \<Rightarrow> None)"

fun eval_expr :: "'w linkage \<Rightarrow> ast \<Rightarrow> 'w swy \<Rightarrow> (sval \<times> 'w swy) option" where
  "eval_expr L (DeclRefExpr a n d) s = map_option (\<lambda>v. (v, s)) (eval_ref (l_heap L) (l_fname L) d s)"
| "eval_expr L (MetaInstantiationExpr a rg d es) s = Some (SFun (l_iname L a), s)"
| "eval_expr L (IntegerLiteralExpr a l) s = Some (SInt (getType l), s)"
| "eval_expr L (BooleanLiteralExpr a l) s = Some (SInt (if getType l then 1 else 0), s)"
| "eval_expr L (BinaryOperatorExpr a b l r) s = (case eval_expr L l s of
     Some (x, s) \<Rightarrow> (case eval_expr L r s of
       Some (y, s) \<Rightarrow> eval_operator (getType b) x y s | None \<Rightarrow> None)
   | None \<Rightarrow> None)"
| "eval_expr L (CallOperatorExpr a c es) s = (case eval_expr L c s of
     Some (f, s) \<Rightarrow> (case mapO (\<lambda>e s. case eval_expr L e s of
           Some (v, s) \<Rightarrow> map_option (\<lambda>k. (k, s)) (read_value v s) | None \<Rightarrow> None) es s of
       Some (args, s) \<Rightarrow> eval_call L f args s | None \<Rightarrow> None)
   | None \<Rightarrow> None)"
| "eval_expr L t s = None"

section \<open>Statements\<close>

text \<open>A statement goes on with the next one, or returns from the function.\<close>

datatype 'w outcome = Continue "'w swy" | Return "i32 option" 'w

fun exec_seq :: "('a \<Rightarrow> 'w swy \<Rightarrow> 'w outcome option) \<Rightarrow> 'a list \<Rightarrow> 'w swy \<Rightarrow> 'w outcome option" where
  "exec_seq f [] s = Some (Continue s)"
| "exec_seq f (x # xs) s = (case f x s of
     Some (Continue s) \<Rightarrow> exec_seq f xs s | Some (Return r w) \<Rightarrow> Some (Return r w) | None \<Rightarrow> None)"

lemma exec_seq_cong [fundef_cong]:
  "xs = ys \<Longrightarrow> s = t \<Longrightarrow> (\<And>x s. x \<in> set ys \<Longrightarrow> f x s = g x s) \<Longrightarrow> exec_seq f xs s = exec_seq g ys t"
proof (induction xs arbitrary: ys s t)
  case (Cons x xs)
  then show ?case by (auto split: option.splits outcome.splits)
qed simp

definition enter_scope :: "'w swy \<Rightarrow> 'w swy" where
  "enter_scope s = s\<lparr>sw_vars := Map.empty # sw_vars s\<rparr>"

definition leave_scope :: "'w swy \<Rightarrow> 'w swy" where
  "leave_scope s = s\<lparr>sw_vars := tl (sw_vars s)\<rparr>"

definition eval_condition :: "'w linkage \<Rightarrow> ast \<Rightarrow> 'w swy \<Rightarrow> (bool \<times> 'w swy) option" where
  "eval_condition L c s = (case eval_expr L c s of
     Some (v, s) \<Rightarrow> map_option (\<lambda>k. (k \<noteq> 0, s)) (read_value v s) | None \<Rightarrow> None)"

fun exec_stmt :: "'w linkage \<Rightarrow> ast \<Rightarrow> 'w swy \<Rightarrow> 'w outcome option" where
  "exec_stmt L (CompoundStmt a cs) s = (case exec_seq (exec_stmt L) cs (enter_scope s) of
     Some (Continue s) \<Rightarrow> Some (Continue (leave_scope s)) | x \<Rightarrow> x)"
| "exec_stmt L (UnscopedCompoundStmt a cs) s = exec_seq (exec_stmt L) cs s"
| "exec_stmt L (ReturnStmt a e) s = (case e of
     None \<Rightarrow> Some (Return None (sw_world s))
   | Some x \<Rightarrow> (case eval_expr L x s of
       Some (v, s) \<Rightarrow> map_option (\<lambda>k. Return (Some k) (sw_world s)) (read_value v s) | None \<Rightarrow> None))"
| "exec_stmt L (ExpressionStmt a e) s = map_option (\<lambda>(v, s). Continue s) (eval_expr L e s)"
| "exec_stmt L (DeclStmt a n e) s = (case eval_expr L e s of
     Some (v, s) \<Rightarrow> map_option (\<lambda>k. Continue (s\<lparr>sw_vars := declare_var a k (sw_vars s)\<rparr>)) (read_value v s)
   | None \<Rightarrow> None)"
| "exec_stmt L (IfStmt a c t f) s = (case eval_condition L c s of
     Some (p, s) \<Rightarrow> if p then exec_stmt L t s
       else (case f of Some e \<Rightarrow> exec_stmt L e s | None \<Rightarrow> Some (Continue s))
   | None \<Rightarrow> None)"
| "exec_stmt L t s = None"

section \<open>Functions\<close>

text \<open>The variables of a function when its body starts.\<close>

definition argument_scope :: "(addr \<Rightarrow> i32 option) \<Rightarrow> ast list \<Rightarrow> i32 list \<Rightarrow> addr \<Rightarrow> i32 option" where
  "argument_scope M args ks = foldl (\<lambda>m (a, k). case a of NamedArgumentDecl d n \<Rightarrow> m(d \<mapsto> k) | _ \<Rightarrow> m)
     M (zip args ks)"

text \<open>The result of a call: a function that reaches its end returns nothing.\<close>

definition exec_function :: "'w linkage \<Rightarrow> ast \<Rightarrow> i32 list \<Rightarrow> 'w \<Rightarrow> (i32 option \<times> 'w) option" where
  "exec_function L node ks w = (case node of
     FunctionDecl a n args ret b \<Rightarrow>
       (case exec_stmt L b \<lparr>sw_vars = [argument_scope Map.empty (children args) ks], sw_world = w\<rparr> of
          Some (Continue s) \<Rightarrow> Some (None, sw_world s)
        | Some (Return r w) \<Rightarrow> Some (r, w)
        | None \<Rightarrow> None)
   | _ \<Rightarrow> None)"

end
