(* ===== verification/Codegen_Context.thy ===== *)
theory Codegen_Context imports Codegen_Frame Semantics begin

text \<open>
  The interface of the context a generator works in, \<^verbatim>\<open>IRContext\<close>: a function of the source is the
  global of its name, a completed instantiation is the global of the function it exports. \<open>good\<close> is
  the invariant the provider keeps. \<open>linked_context\<close> adds what a call of such a global does when the
  code is run.
\<close>

section \<open>The contract\<close>

locale ir_context_laws =
  fixes cx :: "'c ir_context"
    and good :: "'c \<Rightarrow> bool"
    and fname :: "addr \<Rightarrow> string"
    and iname :: "addr \<Rightarrow> string"
  assumes lookup_function:
      "good c \<Longrightarrow> lookupGlobal_function cx k c = Inr (v, c') \<Longrightarrow> good c' \<and> v = VFunction (fname k)"
    and lookup_inst:
      "good c \<Longrightarrow> lookupGlobal_inst cx a True c = Inr (Some v, c') \<Longrightarrow> good c' \<and> v = VFunction (iname a)"
begin

text \<open>The generators keep the invariant of their context.\<close>

abbreviation good_state :: "'c fcodegen \<Rightarrow> bool" where
  "good_state s \<equiv> good (fc_context s)"

lemma context_build [simp]:
  "buildInstr i p s = (v, s') \<Longrightarrow> fc_context s' = fc_context s"
  "fc_context (buildVoid i s) = fc_context s"
  "loadMemory v s = (w, s') \<Longrightarrow> fc_context s' = fc_context s"
  by (auto simp: builder_simps loadMemory_def split: if_splits)

lemma context_operator: "codegenOperator op l r s = (v, s') \<Longrightarrow> fc_context s' = fc_context s"
  unfolding codegenOperator_def Let_def
  by (auto split: option.splits prod.splits dest!: context_build(1,3))

lemma good_declRef: "codegenDeclRef h cx d s = Inr (v, s') \<Longrightarrow> good_state s \<Longrightarrow> good_state s'"
  unfolding codegenDeclRef_def
  by (auto split: option.splits if_splits ast.splits prod.splits simp: bindE_eq_Inr dest: lookup_function)

lemma good_mapS:
  assumes "\<And>x s y s'. x \<in> set xs \<Longrightarrow> f x s = Inr (y, s') \<Longrightarrow> good_state s \<Longrightarrow> good_state s'"
    and "mapS f xs s = Inr (ys, s')" and "good_state s"
  shows "good_state s'"
  using assms
proof (induction xs arbitrary: s ys)
  case (Cons x xs)
  from Cons.prems(2) obtain y t zs where x: "f x s = Inr (y, t)" and xs: "mapS f xs t = Inr (zs, s')"
    by (auto simp: bindE_eq_Inr)
  have "good_state t" using Cons.prems(1) [OF _ x] Cons.prems(3) by simp
  then show ?case
    by (intro Cons.IH [OF _ xs]) (use Cons.prems(1) in \<open>metis list.set_intros(2)\<close>)
qed auto

lemma good_expr: "codegenExpr h cx t s = Inr (v, s') \<Longrightarrow> good_state s \<Longrightarrow> good_state s'"
proof (induction t arbitrary: s v s' rule: ast_children_induct)
  case (node t)
  show ?case
  proof (cases t)
    case (BinaryOperatorExpr a b l r)
    with node.prems obtain x s1 y s2 where l: "codegenExpr h cx l s = Inr (x, s1)"
      and r: "codegenExpr h cx r s1 = Inr (y, s2)" and op: "codegenOperator (getType b) x y s2 = (v, s')"
      by (auto simp: bindE_eq_Inr)
    have "good_state s2"
      using node.IH [OF _ l] node.IH [OF _ r] node.prems(2) BinaryOperatorExpr by simp
    then show ?thesis using context_operator [OF op] by simp
  next
    case (CallOperatorExpr a c es)
    with node.prems obtain f s1 args s2 where c: "codegenExpr h cx c s = Inr (f, s1)"
      and es: "mapS (\<lambda>e s. bindE (codegenExpr h cx e s) (\<lambda>(v, s). Inr (loadMemory v s))) es s1 = Inr (args, s2)"
      and call: "buildInstr (Call f args) False s2 = (v, s')"
      by (auto simp: bindE_eq_Inr)
    have "good_state s1" using node.IH [OF _ c] node.prems(2) CallOperatorExpr by simp
    then have "good_state s2"
    proof (rule good_mapS [OF _ es, rotated])
      fix e t y t'
      assume "e \<in> set es" and "bindE (codegenExpr h cx e t) (\<lambda>(v, s). Inr (loadMemory v s)) = Inr (y, t')"
        and "good_state t"
      then show "good_state t'"
        using node.IH [of e] CallOperatorExpr by (auto simp: bindE_eq_Inr)
    qed
    with context_build(1) [OF call] show ?thesis by simp
  next
    case (MetaInstantiationExpr a rg d es)
    with node.prems obtain c where "lookupGlobal_inst cx a True (fc_context s) = Inr (Some v, c)"
      and "s' = s\<lparr>fc_context := c\<rparr>"
      by (auto simp: bindE_eq_Inr split: option.splits)
    then show ?thesis using lookup_inst [OF node.prems(2)] by simp
  qed (use node.prems in \<open>auto simp: bindE_eq_Inr dest: good_declRef\<close>)
qed

lemma context_introduceValue: "introduceValue d v s = Inr s' \<Longrightarrow> fc_context s' = fc_context s"
  by (rule introduceValue_simps)

definition keeps_good :: "'c supplier \<Rightarrow> bool" where
  "keeps_good f \<longleftrightarrow> (\<forall>b s r s'. f b s = Inr (r, s') \<longrightarrow> good_state s \<longrightarrow> good_state s')"

lemma context_closeBranch: "closeBranch r k s = (k', s') \<Longrightarrow> fc_context s' = fc_context s"
  by (cases r; cases k) (auto simp: closeBranch_def lazyContinue_def newBlock_simps split: prod.splits)

lemma good_falseBranch:
  assumes "codegenFalseBranch g k s = Inr (fb, k', s')" and "\<And>f. g = Some f \<Longrightarrow> keeps_good f"
    and "good_state s"
  shows "good_state s'"
proof (cases g)
  case None
  with assms(1,3) show ?thesis
    by (cases k) (auto simp: codegenFalseBranch_def lazyContinue_def builder_simps)
next
  case (Some f)
  define made where "made = (case k of Some p \<Rightarrow> newBlockBefore p ''false_block'' s | None \<Rightarrow> newBlock ''false_block'' s)"
  obtain b s1 where b: "made = (b, s1)" by fastforce
  have "fc_context s1 = fc_context s" using b by (auto simp: made_def builder_simps split: option.splits)
  moreover from assms(1) Some b obtain r s2 where "f b (insertAt b s1) = Inr (r, s2)"
    and "closeBranch r k s2 = (k', s')"
    by (auto simp: codegenFalseBranch_def made_def [symmetric] bindE_eq_Inr split: prod.splits)
  ultimately show ?thesis
    using assms(2) [OF Some] assms(3) context_closeBranch by (fastforce simp: keeps_good_def)
qed

lemma good_if:
  assumes "keeps_good f" and "\<And>g'. g = Some g' \<Longrightarrow> keeps_good g'"
  shows "keeps_good (\<lambda>b s. codegenIfStructure h cx b c f g s)"
  unfolding keeps_good_def
proof (intro allI impI)
  fix b s r s'
  assume "codegenIfStructure h cx b c f g s = Inr (r, s')" and s: "good_state s"
  from this(1) obtain tb s1 rt s2 k1 s3 fb k2 s4 v s5 p s6
    where 1: "newBlock ''true_block'' s = (tb, s1)" "f tb (insertAt tb s1) = Inr (rt, s2)"
      "closeBranch rt None s2 = (k1, s3)" and 2: "codegenFalseBranch g k1 s3 = Inr (fb, k2, s4)"
      and 3: "codegenExpr h cx c (insertAt b s4) = Inr (v, s5)"
      "buildInstr (IsNotNull v) False s5 = (p, s6)" and s': "r = k2"
      "s' = (case k2 of Some q \<Rightarrow> insertAt q (buildVoid (CondBr p tb fb) s6)
                      | None \<Rightarrow> buildVoid (CondBr p tb fb) s6)"
    by (rule codegenIfStructureE)
  have "good_state s3"
    using assms(1) 1 s newBlock_simps(6) [OF 1(1)] context_closeBranch [OF 1(3)]
    by (fastforce simp: keeps_good_def)
  then have "good_state s4" using good_falseBranch [OF 2 assms(2)] by simp
  then have "good_state s5" using good_expr [OF 3(1)] by simp
  then show "good_state s'" using s' context_build(1) [OF 3(2)] by (auto split: option.splits)
qed

lemma good_seq:
  assumes "\<And>c. c \<in> set cs \<Longrightarrow> keeps_good (F c)"
    and "foldE (\<lambda>c (current, s). case current of None \<Rightarrow> Inl NullDeref | Some b \<Rightarrow> F c b s) cs (q, s) = Inr (r, s')"
    and "good_state s"
  shows "good_state s'"
proof -
  have "good_state (snd (r, s'))"
    by (rule foldE_invariant [OF assms(2)]) (use assms(1,3) in \<open>auto simp: keeps_good_def split: option.splits\<close>)
  then show ?thesis by simp
qed

lemma good_stmt: "keeps_good (\<lambda>b s. codegenStmt h cx t b s)"
proof (induction t rule: ast_children_induct)
  case (node t)
  show ?case
  proof (cases t)
    case (CompoundStmt a cs)
    show ?thesis
      unfolding keeps_good_def
    proof (intro allI impI)
      fix b s r s'
      assume "codegenStmt h cx t b s = Inr (r, s')" and s: "good_state s"
      with CompoundStmt obtain u where cs: "foldE (\<lambda>c (current, s).
          case current of None \<Rightarrow> Inl NullDeref | Some b \<Rightarrow> codegenStmt h cx c b s)
          cs (Some b, enterValueScope s) = Inr (r, u)" and s': "s' = leaveValueScope u"
        by (auto simp: bindE_eq_Inr)
      have "good_state u" by (rule good_seq [OF _ cs]) (use node.IH CompoundStmt s in auto)
      with s' show "good_state s'" by simp
    qed
  next
    case (UnscopedCompoundStmt a cs)
    show ?thesis
      unfolding keeps_good_def
    proof (intro allI impI)
      fix b s r s'
      assume "codegenStmt h cx t b s = Inr (r, s')" and s: "good_state s"
      with UnscopedCompoundStmt have cs: "foldE (\<lambda>c (current, s).
          case current of None \<Rightarrow> Inl NullDeref | Some b \<Rightarrow> codegenStmt h cx c b s) cs (Some b, s) = Inr (r, s')"
        by simp
      show "good_state s'" by (rule good_seq [OF _ cs]) (use node.IH UnscopedCompoundStmt s in auto)
    qed
  next
    case (ReturnStmt a e)
    then show ?thesis
    proof (cases e)
      case (Some x)
      with ReturnStmt show ?thesis
        unfolding keeps_good_def by (auto elim!: codegenStmt_returnE simp del: codegenStmt.simps dest: good_expr)
    qed (auto simp: keeps_good_def)
  next
    case (DeclStmt a n e)
    then show ?thesis
      unfolding keeps_good_def
      by (auto elim!: codegenStmt_declE simp del: codegenStmt.simps simp: context_introduceValue dest!: good_expr)
  next
    case (IfStmt a c t1 f1)
    have "keeps_good (\<lambda>b s. codegenIfStructure h cx b c (\<lambda>b s. codegenStmt h cx t1 b s)
        (map_option (\<lambda>g b s. codegenStmt h cx g b s) f1) s)"
      by (rule good_if) (use node.IH IfStmt in auto)
    with IfStmt show ?thesis by simp
  qed (auto simp: keeps_good_def bindE_eq_Inr dest: good_expr)
qed

text \<open>A whole function.\<close>

lemma good_frameArgument: "frameArgument ro x s = Inr s' \<Longrightarrow> good_state s \<Longrightarrow> good_state s'"
  unfolding frameArgument_def
  by (auto split: prod.splits ast.splits if_splits simp: Let_def dest!: context_introduceValue context_build(1))

lemma good_frame:
  assumes "setUpStackFrame args ro this s = Inr (b, s')" and "good_state s"
  shows "good_state s'"
proof -
  from assms(1) obtain t xs where b: "createEntryBlock s = Inr (b, t)"
    and f: "foldE (frameArgument ro) (zip xs args) t = Inr s'"
    by (auto simp: setUpStackFrame_def Let_def bindE_eq_Inr)
  have "good_state t" using b assms(2) by (auto simp: createEntryBlock_def bindE_eq_Inr builder_simps)
  then show ?thesis by (rule foldE_invariant [OF f]) (rule good_frameArgument)
qed

lemma good_function:
  assumes "codegenFunction h cx node s = Inr s'" and "good_state s"
  shows "good_state s'"
proof -
  from assms(1) obtain a n args ret t where node: "node = FunctionDecl a n args ret t"
    by (cases node) (auto simp: codegenFunction_def)
  with assms(1) obtain b s1 r s2 where
    "setUpStackFrame (children args) False False (enterValueScope s) = Inr (b, s1)"
    "codegenStmt h cx t b s1 = Inr (r, s2)" and s': "s' = leaveValueScope (case r of Some _ \<Rightarrow> buildVoid RetVoid s2 | None \<Rightarrow> s2)"
    by (auto simp: codegenFunction_def Let_def bindE_eq_Inr)
  with good_stmt [of h t] good_frame assms(2) have "good_state s2"
    unfolding keeps_good_def by (metis value_scope_simps)
  with s' show ?thesis by (simp split: option.splits)
qed

end

text \<open>What calls of the globals do: the same as calls in the meaning of the source.\<close>

locale linked_context = ir_context_laws cx good "l_fname L" "l_iname L"
  for cx :: "'c ir_context" and good :: "'c \<Rightarrow> bool" and L :: "'w linkage" +
  fixes ct :: "'w ir_call"
  assumes call_linked: "ct f (map RInt ks) mem w = (case l_call L f ks w of
      None \<Rightarrow> None
    | Some (r, w') \<Rightarrow> Some (case r of Some k \<Rightarrow> RInt k | None \<Rightarrow> RVoid, w'))"

end
