(* ===== verification/Codegen_Sim.thy ===== *)
theory Codegen_Sim imports Codegen_Context begin

text \<open>
  The relation between the state of a running generated function and the variables of the source:
  a declared variable lives in the slot of its own \<open>alloca\<close>. First the relation and single
  instructions, then expressions.
\<close>

section \<open>Variables and slots\<close>

fun slot_number :: "ir_value \<Rightarrow> nat" where
  "slot_number (VInstr n p) = n"
| "slot_number _ = 0"

text \<open>The values of declarations are slots that have been made, no two alike.\<close>

definition slots :: "values_scope list \<Rightarrow> nat \<Rightarrow> bool" where
  "slots ms N \<longleftrightarrow> (\<forall>m \<in> set ms. \<forall>d v. m d = Some v \<longrightarrow> v = VInstr (slot_number v) True \<and> slot_number v < N)"

fun separate :: "values_scope list \<Rightarrow> bool" where
  "separate [] = True"
| "separate (m # ms) = (inj_on m (dom m) \<and> (\<forall>m' \<in> set ms. ran m \<inter> ran m' = {}) \<and> separate ms)"

definition abs_scope :: "memory \<Rightarrow> values_scope \<Rightarrow> addr \<Rightarrow> i32 option" where
  "abs_scope mem m d = (case m d of None \<Rightarrow> None | Some v \<Rightarrow> mem (slot_number v))"

definition abs_vars :: "values_scope list \<Rightarrow> memory \<Rightarrow> vars" where
  "abs_vars ms mem = map (abs_scope mem) ms"

definition live :: "values_scope list \<Rightarrow> 'w machine \<Rightarrow> bool" where
  "live ms m \<longleftrightarrow> (\<forall>f \<in> set ms. \<forall>d v. f d = Some v \<longrightarrow>
     m_regs m (slot_number v) = Some (RSlot (slot_number v)) \<and> m_mem m (slot_number v) \<noteq> None)"

lemma liveE:
  assumes "live ms m" and "f \<in> set ms" and "f d = Some v"
  obtains k where "m_regs m (slot_number v) = Some (RSlot (slot_number v))" and "m_mem m (slot_number v) = Some k"
  using assms unfolding live_def by blast

lemma lookup_mem: "lookup_values ms d = Some v \<Longrightarrow> \<exists>m \<in> set ms. m d = Some v"
  by (induction ms) (auto split: option.splits)

lemma read_abs:
  assumes "live ms m"
  shows "read_var (abs_vars ms (m_mem m)) d =
    (case lookup_values ms d of None \<Rightarrow> None | Some v \<Rightarrow> m_mem m (slot_number v))"
  using assms
proof (induction ms)
  case (Cons f ms)
  have "live ms m" using Cons.prems by (simp add: live_def)
  with Cons.IH have IH: "read_var (abs_vars ms (m_mem m)) d =
    (case lookup_values ms d of None \<Rightarrow> None | Some v \<Rightarrow> m_mem m (slot_number v))" by simp
  show ?case
  proof (cases "f d")
    case None
    with IH show ?thesis by (simp add: abs_vars_def abs_scope_def)
  next
    case (Some v)
    obtain k where "m_mem m (slot_number v) = Some k"
      by (rule liveE [OF Cons.prems, of f d v]) (use Some in simp_all)
    with Some show ?thesis by (simp add: abs_vars_def abs_scope_def)
  qed
qed (simp add: abs_vars_def)

lemma abs_scope_update:
  assumes "\<And>e u. f e = Some u \<Longrightarrow> slot_number u = q \<Longrightarrow> e = d" and "f d = Some v" and "slot_number v = q"
  shows "abs_scope (mem(q \<mapsto> k)) f = (abs_scope mem f)(d \<mapsto> k)"
proof
  fix e
  show "abs_scope (mem(q \<mapsto> k)) f e = ((abs_scope mem f)(d \<mapsto> k)) e"
  proof (cases "e = d")
    case False
    then have "slot_number u \<noteq> q" if "f e = Some u" for u using assms(1) [OF that] by auto
    with False show ?thesis by (auto simp: abs_scope_def split: option.splits)
  qed (simp add: abs_scope_def assms(2,3))
qed

lemma abs_scope_other:
  assumes "\<And>e u. f e = Some u \<Longrightarrow> slot_number u \<noteq> q"
  shows "abs_scope (mem(q := x)) f = abs_scope mem f"
  using assms by (auto simp: abs_scope_def fun_eq_iff split: option.splits)

lemma abs_vars_other:
  assumes "\<And>f e u. f \<in> set ms \<Longrightarrow> f e = Some u \<Longrightarrow> slot_number u \<noteq> q"
  shows "abs_vars ms (mem(q := x)) = abs_vars ms mem"
  using assms unfolding abs_vars_def by (auto intro!: abs_scope_other)

lemma slots_eqD: "slots ms N \<Longrightarrow> f \<in> set ms \<Longrightarrow> f d = Some v \<Longrightarrow> v = VInstr (slot_number v) True \<and> slot_number v < N"
  by (auto simp: slots_def)

lemma assign_abs:
  assumes "slots ms N" and "separate ms" and "live ms m" and "lookup_values ms d = Some v"
  shows "abs_vars ms ((m_mem m)(slot_number v \<mapsto> k)) = assign_var d k (abs_vars ms (m_mem m))"
  using assms
proof (induction ms)
  case (Cons f ms)
  have rest: "slots ms N" "separate ms" "live ms m"
    using Cons.prems(1-3) by (auto simp: slots_def live_def)
  have same: "u = v" if "g \<in> set (f # ms)" "g e = Some u" "slot_number u = slot_number v" for g e u
  proof -
    obtain g' where "g' \<in> set (f # ms)" "g' d = Some v" using lookup_mem [OF Cons.prems(4)] by blast
    with that show ?thesis using slots_eqD [OF Cons.prems(1)] by metis
  qed
  show ?case
  proof (cases "f d")
    case None
    then have l: "lookup_values ms d = Some v" using Cons.prems(4) by simp
    then obtain g where g: "g \<in> set ms" "g d = Some v" using lookup_mem by blast
    have "slot_number u \<noteq> slot_number v" if "f e = Some u" for e u
    proof
      assume "slot_number u = slot_number v"
      then have "u = v" using same [of f e u] that by simp
      with that g Cons.prems(2) show False by (fastforce simp: ran_def)
    qed
    then have "abs_scope ((m_mem m)(slot_number v \<mapsto> k)) f = abs_scope (m_mem m) f"
      by (rule abs_scope_other)
    moreover have "abs_scope (m_mem m) f d = None" using None by (simp add: abs_scope_def)
    ultimately show ?thesis using Cons.IH [OF rest l] by (simp add: abs_vars_def del: fun_upd_apply)
  next
    case (Some u)
    with Cons.prems(4) have v: "f d = Some v" by simp
    have d: "e = d" if "f e = Some u" "slot_number u = slot_number v" for e u
      using same [of f e u] that v Cons.prems(2) by (auto simp: inj_on_def dom_def)
    have 1: "abs_scope ((m_mem m)(slot_number v \<mapsto> k)) f = (abs_scope (m_mem m) f)(d \<mapsto> k)"
      by (rule abs_scope_update [of f "slot_number v" d v]) (fact d, fact v, rule refl)
    have 2: "abs_vars ms ((m_mem m)(slot_number v \<mapsto> k)) = abs_vars ms (m_mem m)"
    proof (rule abs_vars_other)
      fix g e u
      assume g: "g \<in> set ms" "g e = Some u"
      show "slot_number u \<noteq> slot_number v"
      proof
        assume "slot_number u = slot_number v"
        then have "u = v" using same [of g e u] g by simp
        with g v Cons.prems(2) show False by (fastforce simp: ran_def)
      qed
    qed
    obtain k' where "m_mem m (slot_number v) = Some k'"
      by (rule liveE [OF Cons.prems(3), of f d v]) (use v in simp_all)
    then have "abs_scope (m_mem m) f d \<noteq> None" using v by (simp add: abs_scope_def)
    with 1 2 show ?thesis by (auto simp: abs_vars_def simp del: fun_upd_apply)
  qed
qed simp

section \<open>The relation\<close>

definition sim :: "values_scope list \<Rightarrow> nat \<Rightarrow> 'w machine \<Rightarrow> 'w swy \<Rightarrow> bool" where
  "sim ms N m sw \<longleftrightarrow> slots ms N \<and> separate ms \<and> live ms m
     \<and> sw_vars sw = abs_vars ms (m_mem m) \<and> sw_world sw = m_world m"

text \<open>Later instructions do not change earlier values.\<close>

definition keeps :: "nat \<Rightarrow> 'w machine \<Rightarrow> 'w machine \<Rightarrow> bool" where
  "keeps N m m' \<longleftrightarrow> (\<forall>n < N. m_regs m' n = m_regs m n)"

fun old :: "nat \<Rightarrow> ir_value \<Rightarrow> bool" where
  "old N (VInstr n p) = (n < N)"
| "old N _ = True"

definition denotes :: "values_scope list \<Rightarrow> nat \<Rightarrow> i32 list \<Rightarrow> 'w machine \<Rightarrow> ir_value \<Rightarrow> sval \<Rightarrow> bool" where
  "denotes ms N as m v sv \<longleftrightarrow> (case sv of
     SInt k \<Rightarrow> operand as m v = Some (RInt k) \<and> \<not> isPointerTy v \<and> old N v
   | SVoid \<Rightarrow> operand as m v = Some RVoid \<and> \<not> isPointerTy v \<and> old N v
   | SPlace d \<Rightarrow> lookup_values ms d = Some v
   | SFun f \<Rightarrow> v = VFunction f)"

lemma keeps_refl [simp]: "keeps N m m"
  by (simp add: keeps_def)

lemma keeps_trans: "keeps N m m' \<Longrightarrow> keeps N' m' m'' \<Longrightarrow> N \<le> N' \<Longrightarrow> keeps N m m''"
  by (simp add: keeps_def)

lemma operand_keeps: "keeps N m m' \<Longrightarrow> old N v \<Longrightarrow> operand as m' v = operand as m v"
  by (cases v) (simp_all add: keeps_def)

lemma old_mono: "old N v \<Longrightarrow> N \<le> N' \<Longrightarrow> old N' v"
  by (cases v) simp_all

lemma denotes_keeps:
  "denotes ms N as m v sv \<Longrightarrow> keeps N m m' \<Longrightarrow> N \<le> N' \<Longrightarrow> denotes ms N' as m' v sv"
  by (cases sv) (auto simp: denotes_def operand_keeps intro: old_mono)

text \<open>A new instruction.\<close>

lemma sim_set_reg:
  assumes "sim ms N m sw" and "N \<le> n" shows "sim ms (Suc n) (set_reg n r m) sw"
  using assms unfolding sim_def slots_def live_def set_reg_def by fastforce

lemma sim_mono: "sim ms N m sw \<Longrightarrow> N \<le> N' \<Longrightarrow> sim ms N' m sw"
  unfolding sim_def slots_def by fastforce

lemma keeps_set_reg: "N \<le> n \<Longrightarrow> keeps N m (set_reg n r m)"
  by (simp add: keeps_def set_reg_def)

lemma operand_set_reg [simp]: "m_regs (set_reg n r m) n = Some r"
  by (simp add: set_reg_def)

section \<open>Runs of straight code\<close>

definition runs :: "'w ir_call \<Rightarrow> i32 list \<Rightarrow> block \<Rightarrow> 'c fcodegen \<Rightarrow> 'c fcodegen
    \<Rightarrow> 'w machine \<Rightarrow> 'w machine \<Rightarrow> bool" where
  "runs ct as b s s' m m' \<longleftrightarrow> (\<forall>more. reaches (code_of s' @ more) ct as
     (At b (length (body (code_of s) b)) m) (At b (length (body (code_of s') b)) m'))"

lemma runs_refl [simp]: "runs ct as b s s m m"
  by (simp add: runs_def)

lemma runs_append:
  assumes "runs ct as b s t m m'" and "runs ct as b t u m' m''" and "code_of u = code_of t @ xs"
  shows "runs ct as b s u m m''"
  unfolding runs_def
proof
  fix cs
  have "reaches (code_of u @ cs) ct as (At b (length (body (code_of s) b)) m)
      (At b (length (body (code_of t) b)) m')"
    using assms(1,3) unfolding runs_def by (metis append.assoc)
  also have "reaches (code_of u @ cs) ct as (At b (length (body (code_of t) b)) m')
      (At b (length (body (code_of u) b)) m'')"
    using assms(2) by (simp add: runs_def)
  finally show "reaches (code_of u @ cs) ct as (At b (length (body (code_of s) b)) m)
      (At b (length (body (code_of u) b)) m'')" .
qed

lemma runs_trans:
  assumes "runs ct as b s t m m'" and "runs ct as b t u m' m''" and "straight t u"
  shows "runs ct as b s u m m''"
  using assms(3) runs_append [OF assms(1,2)] by (auto simp: straight_def)

lemma runs_context [simp]:
  "runs ct as b s (s'\<lparr>fc_context := c\<rparr>) m m' \<longleftrightarrow> runs ct as b s s' m m'"
  by (simp add: runs_def)

lemma runs_build:
  assumes "buildInstr i p s = (v, s')" and "point_of s = Some b"
    and "run_instr ct as (next_of s) i m = Some m'"
  shows "runs ct as b s s' m m'" "v = VInstr (next_of s) p" "next_of s' = Suc (next_of s)"
proof -
  have s': "code_of s' = code_of s @ [(Some b, next_of s, i)]" "next_of s' = Suc (next_of s)"
    and v: "v = VInstr (next_of s) p"
    using assms(1,2) by (auto simp: builder_simps)
  have "reaches (code_of s' @ more) ct as (At b (length (body (code_of s) b)) m)
      (At b (Suc (length (body (code_of s) b))) m')" for more
    by (rule reaches_instr [OF _ assms(3), where post = "body more b"]) (simp add: s')
  then show "runs ct as b s s' m m'" by (simp add: runs_def s')
  show "v = VInstr (next_of s) p" "next_of s' = Suc (next_of s)" by (fact v, fact s')
qed

lemma runs_buildVoid:
  assumes "point_of s = Some b" and "run_instr ct as (next_of s) i m = Some m'"
  shows "runs ct as b s (buildVoid i s) m m'"
  unfolding buildVoid_def by (metis assms prod.collapse runs_build(1))

section \<open>Expressions\<close>

text \<open>
  The generator went from \<open>s\<close> to \<open>s'\<close> in block \<open>b\<close> and gave \<open>v\<close>; the source went to \<open>sw\<close> and gave \<open>sv\<close>.
\<close>

definition computes :: "'w ir_call \<Rightarrow> i32 list \<Rightarrow> block \<Rightarrow> 'c fcodegen \<Rightarrow> 'c fcodegen \<Rightarrow> 'w machine
    \<Rightarrow> 'w swy \<Rightarrow> ir_value \<Rightarrow> sval \<Rightarrow> bool" where
  "computes ct as b s s' m sw v sv \<longleftrightarrow> (\<exists>m'. runs ct as b s s' m m'
     \<and> sim (fc_values s') (next_of s') m' sw \<and> denotes (fc_values s') (next_of s') as m' v sv
     \<and> keeps (next_of s) m m')"

abbreviation sims :: "'c fcodegen \<Rightarrow> 'w machine \<Rightarrow> 'w swy \<Rightarrow> bool" where
  "sims s m sw \<equiv> sim (fc_values s) (next_of s) m sw"

lemma computes_refl:
  "sims s m sw \<Longrightarrow> denotes (fc_values s) (next_of s) as m v sv \<Longrightarrow> computes ct as b s s m sw v sv"
  unfolding computes_def by (intro exI [of _ m]) simp

lemma sim_lookup:
  assumes "sim ms N m sw" and "lookup_values ms d = Some v"
  obtains k where "v = VInstr (slot_number v) True" and "slot_number v < N"
    and "m_regs m (slot_number v) = Some (RSlot (slot_number v))" and "m_mem m (slot_number v) = Some k"
    and "read_var (sw_vars sw) d = Some k"
proof -
  obtain f where f: "f \<in> set ms" "f d = Some v" using lookup_mem [OF assms(2)] by blast
  have live: "live ms m" and "slots ms N" and vars: "sw_vars sw = abs_vars ms (m_mem m)"
    using assms(1) by (auto simp: sim_def)
  obtain k where k: "m_regs m (slot_number v) = Some (RSlot (slot_number v))" "m_mem m (slot_number v) = Some k"
    by (rule liveE [OF live f])
  moreover have "v = VInstr (slot_number v) True \<and> slot_number v < N"
    using slots_eqD [OF \<open>slots ms N\<close> f] .
  moreover have "read_var (sw_vars sw) d = Some k"
    using read_abs [OF live, of d] assms(2) k(2) vars by simp
  ultimately show thesis using that by blast
qed

text \<open>Loading turns the place of a variable into its value.\<close>

lemma loadMemory_computes:
  assumes "loadMemory v s = (w, s')" and "point_of s = Some b" and "sims s m sw"
    and "denotes (fc_values s) (next_of s) as m v sv" and "read_value sv sw = Some k"
  shows "computes ct as b s s' m sw w (SInt k)"
proof (cases sv)
  case (SInt i)
  with assms show ?thesis
    by (auto simp: loadMemory_def denotes_def read_value_def intro!: computes_refl)
next
  case (SPlace d)
  with assms(4) have l: "lookup_values (fc_values s) d = Some v" by (simp add: denotes_def)
  obtain i where i: "v = VInstr (slot_number v) True"
    "m_regs m (slot_number v) = Some (RSlot (slot_number v))" "m_mem m (slot_number v) = Some i"
    "read_var (sw_vars sw) d = Some i"
    by (rule sim_lookup [OF assms(3) l])
  with SPlace assms(5) have k: "k = i" by (simp add: read_value_def)
  have build: "buildInstr (Load v) False s = (w, s')"
    using assms(1) i(1) by (metis isPointerTy.simps(6) loadMemory_def)
  have op: "operand as m v = Some (RSlot (slot_number v))" using i(1,2) by (metis operand.simps(6))
  have run: "run_instr ct as (next_of s) (Load v) m = Some (set_reg (next_of s) (RInt k) m)"
    by (simp add: run_instr_def op i(3) k)
  note r = runs_build [OF build assms(2) run]
  have "fc_values s' = fc_values s" using straight_build [OF build] by (simp add: straight_def)
  then show ?thesis
    unfolding computes_def using r sim_set_reg [OF assms(3), of "next_of s" "RInt k"]
    by (intro exI [of _ "set_reg (next_of s) (RInt k) m"])
      (simp add: denotes_def keeps_set_reg)
qed (use assms(5) in \<open>simp_all add: read_value_def\<close>)

lemma computes_trans:
  assumes "runs ct as b s t m m'" and "keeps (next_of s) m m'" and "next_of s \<le> next_of t" and "straight t u"
    and "computes ct as b t u m' sw v sv"
  shows "computes ct as b s u m sw v sv"
  using assms unfolding computes_def by (meson keeps_trans runs_trans)

text \<open>An instruction that writes its own register.\<close>

lemma build_computes_upd:
  assumes "buildInstr i False s = (v, s')" and "point_of s = Some b"
    and "run_instr ct as (next_of s) i m = Some (set_reg (next_of s) r m1)"
    and "sims s m1 sw" and "keeps (next_of s) m m1"
    and "r = (case sv of SInt k \<Rightarrow> RInt k | _ \<Rightarrow> RVoid)" and "sv = SVoid \<or> (\<exists>k. sv = SInt k)"
  shows "computes ct as b s s' m sw v sv"
proof -
  note b = runs_build [OF assms(1-3)]
  have "fc_values s' = fc_values s" using straight_build [OF assms(1)] by (simp add: straight_def)
  moreover have "keeps (next_of s) m (set_reg (next_of s) r m1)"
    by (rule keeps_trans [OF assms(5) keeps_set_reg]) (rule order_refl)+
  ultimately show ?thesis
    unfolding computes_def using b sim_set_reg [OF assms(4), of "next_of s" r] assms(6,7)
    by (intro exI [of _ "set_reg (next_of s) r m1"]) (auto simp: denotes_def)
qed

lemma build_computes:
  assumes "buildInstr i False s = (v, s')" and "point_of s = Some b" and "sims s m sw"
    and "run_instr ct as (next_of s) i m = Some (set_reg (next_of s) r m)"
    and "r = (case sv of SInt k \<Rightarrow> RInt k | _ \<Rightarrow> RVoid)" and "sv = SVoid \<or> (\<exists>k. sv = SInt k)"
  shows "computes ct as b s s' m sw v sv"
  by (rule build_computes_upd [OF assms(1,2,4,3) keeps_refl assms(5,6)])

text \<open>Both operands of an operator are loaded, the left one first.\<close>

lemma load_both:
  assumes "loadMemory l s = (l', s1)" and "loadMemory r s1 = (r', s2)" and "point_of s = Some b"
    and "sims s m sw"
    and "denotes (fc_values s) (next_of s) as m l x" and "denotes (fc_values s) (next_of s) as m r y"
    and "read_value x sw = Some i" and "read_value y sw = Some j"
  obtains m' where "runs ct as b s s2 m m'" and "sims s2 m' sw" and "keeps (next_of s) m m'"
    and "operand as m' l' = Some (RInt i)" and "operand as m' r' = Some (RInt j)"
    and "fc_values s2 = fc_values s" and "next_of s \<le> next_of s2" and "point_of s2 = Some b"
proof -
  note st1 = straight_loadMemory [OF assms(1)] and st2 = straight_loadMemory [OF assms(2)]
  from loadMemory_computes [OF assms(1,3,4,5,7)] obtain m1
    where m1: "runs ct as b s s1 m m1" "sims s1 m1 sw" "denotes (fc_values s1) (next_of s1) as m1 l' (SInt i)"
      "keeps (next_of s) m m1"
    unfolding computes_def by blast
  have 1: "point_of s1 = Some b" "fc_values s1 = fc_values s" "next_of s \<le> next_of s1"
    using st1 assms(3) by (auto simp: straight_def)
  have "denotes (fc_values s1) (next_of s1) as m1 r y"
    using denotes_keeps [OF assms(6) m1(4) 1(3)] 1(2) by simp
  from loadMemory_computes [OF assms(2) 1(1) m1(2) this assms(8)] obtain m2
    where m2: "runs ct as b s1 s2 m1 m2" "sims s2 m2 sw" "denotes (fc_values s2) (next_of s2) as m2 r' (SInt j)"
      "keeps (next_of s1) m1 m2"
    unfolding computes_def by blast
  show thesis
  proof (rule that)
    show "runs ct as b s s2 m m2" by (rule runs_trans [OF m1(1) m2(1) st2])
    show "keeps (next_of s) m m2" by (rule keeps_trans [OF m1(4) m2(4) 1(3)])
    show "operand as m2 l' = Some (RInt i)"
      using m1(3) operand_keeps [OF m2(4)] by (auto simp: denotes_def)
    show "operand as m2 r' = Some (RInt j)" using m2(3) by (simp add: denotes_def)
    show "sims s2 m2 sw" by (fact m2(2))
  qed (use 1 st2 in \<open>auto simp: straight_def\<close>)
qed

lemma sim_assign:
  assumes "sim ms N m sw" and "lookup_values ms d = Some v"
  shows "sim ms N (m\<lparr>m_mem := (m_mem m)(slot_number v \<mapsto> k)\<rparr>) (sw\<lparr>sw_vars := assign_var d k (sw_vars sw)\<rparr>)"
  using assms assign_abs [of ms N m d v k] by (auto simp: sim_def live_def)

lemma run_arithmetic: "isArithmetic op = Some i \<Longrightarrow> run_binop i a b = run_operator op a b"
  by (cases op) (auto simp: isArithmetic_def run_binop_def run_operator_def)

lemma run_comparison: "isComparison op = Some p \<Longrightarrow> run_operator op a b = Some (if run_icmp p a b then 1 else 0)"
  by (cases op) (auto simp: isComparison_def run_icmp_def run_operator_def)

lemma operator_classes:
  "isArithmetic op = Some i \<Longrightarrow> op \<noteq> OperatorAssign" "isComparison op = Some p \<Longrightarrow> op \<noteq> OperatorAssign"
  "isArithmetic op = None \<Longrightarrow> isComparison op = None \<Longrightarrow> op = OperatorAssign"
  by (cases op; simp add: isArithmetic_def isComparison_def)+

lemma operator_computes:
  assumes "codegenOperator op l r s = (v, s')" and "point_of s = Some b" and "sims s m sw"
    and "denotes (fc_values s) (next_of s) as m l x" and "denotes (fc_values s) (next_of s) as m r y"
    and "eval_operator op x y sw = Some (sv, sw')"
  shows "computes ct as b s s' m sw' v sv"
proof -
  consider (arith) i where "isArithmetic op = Some i"
    | (comp) p where "isArithmetic op = None" "isComparison op = Some p"
    | (assign) "isArithmetic op = None" "isComparison op = None"
    by (cases "isArithmetic op"; cases "isComparison op") auto
  then show ?thesis
  proof cases
    case arith
    obtain l' s1 where l: "loadMemory l s = (l', s1)" by fastforce
    obtain r' s2 where r: "loadMemory r s1 = (r', s2)" by fastforce
    have bin: "buildInstr (BinOp i l' r') False s2 = (v, s')"
      using assms(1) arith l r by (simp add: codegenOperator_def)
    from assms(6) operator_classes(1) [OF arith] obtain a c k where e: "read_value x sw = Some a"
      "read_value y sw = Some c" "run_operator op a c = Some k" "sv = SInt k" "sw' = sw"
      by (auto simp: eval_operator_def split: option.splits)
    obtain m' where m': "runs ct as b s s2 m m'" "sims s2 m' sw" "keeps (next_of s) m m'"
      "operand as m' l' = Some (RInt a)" "operand as m' r' = Some (RInt c)"
      "next_of s \<le> next_of s2" "point_of s2 = Some b"
      by (rule load_both [OF l r assms(2-5) e(1,2)]) blast
    have "computes ct as b s2 s' m' sw v (SInt k)"
      by (rule build_computes [OF bin m'(7,2), where r = "RInt k"])
        (simp_all add: run_instr_def m'(4,5) run_arithmetic [OF arith] e(3))
    with e(4,5) show ?thesis
      using computes_trans [OF m'(1,3,6) straight_build [OF bin]] by simp
  next
    case comp
    obtain l' s1 where l: "loadMemory l s = (l', s1)" by fastforce
    obtain r' s2 where r: "loadMemory r s1 = (r', s2)" by fastforce
    obtain i s3 where icmp: "buildInstr (ICmp p l' r') False s2 = (i, s3)" by fastforce
    have ext: "buildInstr (ZExt i) False s3 = (v, s')"
      using assms(1) comp l r icmp by (simp add: codegenOperator_def)
    from assms(6) operator_classes(2) [OF comp(2)] obtain a c where e: "read_value x sw = Some a"
      "read_value y sw = Some c" "sv = SInt (if run_icmp p a c then 1 else 0)" "sw' = sw"
      by (auto simp: eval_operator_def run_comparison [OF comp(2)] split: option.splits)
    obtain m' where m': "runs ct as b s s2 m m'" "sims s2 m' sw" "keeps (next_of s) m m'"
      "operand as m' l' = Some (RInt a)" "operand as m' r' = Some (RInt c)"
      "next_of s \<le> next_of s2" "point_of s2 = Some b"
      by (rule load_both [OF l r assms(2-5) e(1,2)]) blast
    have "run_instr ct as (next_of s2) (ICmp p l' r') m' = Some (set_reg (next_of s2) (RBool (run_icmp p a c)) m')"
      by (simp add: run_instr_def m'(4,5))
    note c = runs_build [OF icmp m'(7) this]
    note st = straight_build [OF icmp] straight_build [OF ext]
    have 3: "point_of s3 = Some b" "fc_values s3 = fc_values s2"
      using st(1) m'(7) by (auto simp: straight_def)
    have "computes ct as b s3 s' (set_reg (next_of s2) (RBool (run_icmp p a c)) m') sw v sv"
      by (rule build_computes [OF ext 3(1), where r = "RInt (if run_icmp p a c then 1 else 0)"])
        (simp_all add: 3 c(2,3) sim_set_reg [OF m'(2)] run_instr_def e(3))
    then have "computes ct as b s2 s' m' sw v sv"
      by (rule computes_trans [OF c(1) keeps_set_reg _ st(2), rotated 2]) (simp_all add: c(3))
    with e(4) show ?thesis
      using computes_trans [OF m'(1,3,6) straight_trans [OF st]] by simp
  next
    case assign
    then have op: "op = OperatorAssign" by (rule operator_classes(3))
    obtain r' s1 where r: "loadMemory r s = (r', s1)" by fastforce
    have v: "v = r" "s' = buildVoid (Store r' l) s1"
      using assms(1) assign r by (simp_all add: codegenOperator_def)
    from assms(6) op obtain d k where e: "x = SPlace d" "read_value y sw = Some k" "sv = y"
      "sw' = sw\<lparr>sw_vars := assign_var d k (sw_vars sw)\<rparr>"
      by (auto simp: eval_operator_def split: option.splits sval.splits)
    from loadMemory_computes [OF r assms(2,3,5) e(2)] obtain m1
      where m1: "runs ct as b s s1 m m1" "sims s1 m1 sw" "denotes (fc_values s1) (next_of s1) as m1 r' (SInt k)"
        "keeps (next_of s) m m1"
      unfolding computes_def by blast
    note st = straight_loadMemory [OF r]
    have 1: "point_of s1 = Some b" "fc_values s1 = fc_values s" "next_of s \<le> next_of s1"
      using st assms(2) by (auto simp: straight_def)
    have ll: "lookup_values (fc_values s1) d = Some l" using assms(4) e(1) 1(2) by (simp add: denotes_def)
    then obtain q where q: "l = VInstr (slot_number l) True" "m_regs m1 (slot_number l) = Some (RSlot (slot_number l))"
      by (metis sim_lookup [OF m1(2)])
    have ol: "operand as m1 l = Some (RSlot (slot_number l))" using q by (metis operand.simps(6))
    define m2 where "m2 = m1\<lparr>m_mem := (m_mem m1)(slot_number l \<mapsto> k)\<rparr>"
    have "run_instr ct as (next_of s1) (Store r' l) m1 = Some m2"
      using m1(3) by (simp add: run_instr_def denotes_def ol m2_def)
    then have run: "runs ct as b s1 s' m1 m2" using v(2) 1(1) by (simp add: runs_buildVoid)
    have st2: "straight s1 s'" by (simp add: v(2))
    have s': "fc_values s' = fc_values s1" "next_of s1 \<le> next_of s'" using st2 by (auto simp: straight_def)
    have k12: "keeps (next_of s1) m1 m2" by (simp add: keeps_def m2_def)
    have "sims s' m2 sw'"
      using sim_mono [OF sim_assign [OF m1(2) ll] s'(2)] s'(1) e(4) by (simp add: m2_def)
    moreover have "denotes (fc_values s') (next_of s') as m2 r y"
      using denotes_keeps [OF assms(5) keeps_trans [OF m1(4) k12 1(3)]] 1 s' by simp
    ultimately have "computes ct as b s1 s' m1 sw' v sv"
      unfolding computes_def using run k12 v(1) e(3) by blast
    then show ?thesis by (rule computes_trans [OF m1(1,4) 1(3) st2])
  qed
qed

section \<open>Scopes and declarations\<close>

lemma sim_enter: "sim ms N m sw \<Longrightarrow> sim (Map.empty # ms) N m (enter_scope sw)"
  by (auto simp: sim_def slots_def live_def abs_vars_def abs_scope_def enter_scope_def fun_eq_iff)

lemma sim_leave: "sim ms N m sw \<Longrightarrow> sim (tl ms) N m (leave_scope sw)"
  by (cases ms) (auto simp: sim_def slots_def live_def abs_vars_def leave_scope_def)

lemma separate_declare:
  assumes "separate (f # ms)" and "slots (f # ms) n"
  shows "separate (f(d \<mapsto> VInstr n True) # ms)"
proof -
  have fresh: "v \<noteq> VInstr n True" if "g \<in> set (f # ms)" "g e = Some v" for g e v
    using slots_eqD [OF assms(2) that] by (metis less_irrefl slot_number.simps(1))
  have "inj_on (f(d \<mapsto> VInstr n True)) (dom (f(d \<mapsto> VInstr n True)))"
    using assms(1) fresh [of f] by (auto simp: inj_on_def dom_def split: if_splits) (metis fresh list.set_intros(1))
  moreover have "ran (f(d \<mapsto> VInstr n True)) \<inter> ran g = {}" if "g \<in> set ms" for g
  proof -
    have "ran (f(d \<mapsto> VInstr n True)) \<subseteq> insert (VInstr n True) (ran f)" by (auto simp: ran_def)
    moreover have "VInstr n True \<notin> ran g" using fresh [of g] that by (auto simp: ran_def)
    moreover have "ran f \<inter> ran g = {}" using assms(1) that by simp
    ultimately show ?thesis by auto
  qed
  ultimately show ?thesis using assms(1) by simp
qed

lemma sim_declare:
  assumes "sim (f # ms) N m sw" and "slots (f # ms) n" and "n < N" and "m_regs m n = Some (RSlot n)"
  shows "sim (f(d \<mapsto> VInstr n True) # ms) N (m\<lparr>m_mem := (m_mem m)(n \<mapsto> k)\<rparr>)
    (sw\<lparr>sw_vars := declare_var d k (sw_vars sw)\<rparr>)"
proof -
  have other: "slot_number u \<noteq> n" if "g \<in> set (f # ms)" "g e = Some u" for g e u
    using slots_eqD [OF assms(2) that] by auto
  have "abs_vars (f # ms) ((m_mem m)(n \<mapsto> k)) = abs_vars (f # ms) (m_mem m)"
    by (rule abs_vars_other) (fact other)
  moreover have "abs_scope ((m_mem m)(n \<mapsto> k)) (f(d \<mapsto> VInstr n True)) = (abs_scope ((m_mem m)(n \<mapsto> k)) f)(d \<mapsto> k)"
    by (auto simp: abs_scope_def fun_eq_iff)
  ultimately have "abs_vars (f(d \<mapsto> VInstr n True) # ms) ((m_mem m)(n \<mapsto> k))
      = declare_var d k (abs_vars (f # ms) (m_mem m))"
    by (simp add: abs_vars_def declare_var_def)
  moreover have "slots (f(d \<mapsto> VInstr n True) # ms) N"
    using assms(1,3) by (auto simp: sim_def slots_def)
  moreover have "live (f(d \<mapsto> VInstr n True) # ms) (m\<lparr>m_mem := (m_mem m)(n \<mapsto> k)\<rparr>)"
    using assms(1,4) by (auto simp: sim_def live_def)
  ultimately show ?thesis
    using assms(1,2) separate_declare [of f ms n d] by (simp add: sim_def)
qed

text \<open>The slot of a new variable.\<close>

lemma sim_alloca:
  assumes "sim ms N m sw"
  shows "sim ms (Suc N) (set_reg N (RSlot N) (m\<lparr>m_mem := (m_mem m)(N := None)\<rparr>)) sw"
proof -
  have other: "slot_number u \<noteq> N" if "g \<in> set ms" "g e = Some u" for g e u
    using assms slots_eqD [of ms N g e u] that by (auto simp: sim_def)
  have "abs_vars ms ((m_mem m)(N := None)) = abs_vars ms (m_mem m)"
    by (rule abs_vars_other) (fact other)
  moreover have "live ms (set_reg N (RSlot N) (m\<lparr>m_mem := (m_mem m)(N := None)\<rparr>))"
    using assms other by (auto simp: sim_def live_def set_reg_def)
  moreover have "slots ms (Suc N)" using assms by (fastforce simp: sim_def slots_def)
  ultimately show ?thesis using assms by (simp add: sim_def set_reg_def)
qed

end
