(* ===== verification/Codegen_Correct.thy ===== *)
theory Codegen_Correct imports Codegen_Sim begin

text \<open>
  The code generated for a function computes what the function means: expressions, then statements
  with their blocks, then whole functions.
\<close>

section \<open>Expressions\<close>

context linked_context begin

lemma computes_context [simp]:
  "computes ct as b s (s'\<lparr>fc_context := c\<rparr>) m sw v sv \<longleftrightarrow> computes ct as b s s' m sw v sv"
  by (simp add: computes_def)

lemma computes_here:
  assumes "sims s m sw" and "denotes (fc_values s) (next_of s) as m v sv"
  shows "computes ct as b s s m sw v sv"
  by (rule computes_refl [OF assms])

lemma constant_denotes:
  "codegenConstant e = Inr v \<Longrightarrow> literal_value e = Some k \<Longrightarrow> denotes ms N as m v (SInt k)"
  by (cases e) (auto simp: denotes_def)

lemma declRef_computes:
  assumes "codegenDeclRef (l_heap L) cx d s = Inr (v, s')" and "good_state s" and "sims s m sw"
    and "eval_ref (l_heap L) (l_fname L) d sw = Some sv"
  shows "computes ct as b s s' m sw v sv"
proof -
  from assms(1) obtain k where d: "d = Some k" by (cases d) (auto simp: codegenDeclRef_def)
  with assms(1) obtain decl where k: "l_heap L k = Some decl"
    by (cases "l_heap L k") (auto simp: codegenDeclRef_def load_def)
  show ?thesis
  proof (cases decl)
    case (FunctionDecl a n args r body)
    with assms(1) d k obtain c where "lookupGlobal_function cx k (fc_context s) = Inr (v, c)"
      and s': "s' = s\<lparr>fc_context := c\<rparr>"
      by (auto simp: codegenDeclRef_def isFunctionDecl_def bindE_eq_Inr)
    with lookup_function [OF assms(2)] have "v = VFunction (l_fname L k)" by simp
    moreover have "sv = SFun (l_fname L k)" using assms(4) d k FunctionDecl by (simp add: eval_ref_def)
    ultimately show ?thesis
      unfolding s' computes_context using assms(3) by (intro computes_here) (simp_all add: denotes_def)
  next
    case (NamedArgumentDecl a n)
    with assms d k show ?thesis
      by (auto simp: codegenDeclRef_def isFunctionDecl_def isVarDecl_def bindE_eq_Inr lookupLocal_def
          eval_ref_def denotes_def intro!: computes_here split: option.splits if_splits)
  next
    case (DeclStmt a n e)
    with assms d k show ?thesis
      by (auto simp: codegenDeclRef_def isFunctionDecl_def isVarDecl_def bindE_eq_Inr lookupLocal_def
          eval_ref_def denotes_def intro!: computes_here split: option.splits if_splits)
  next
    case (GlobalConstantDecl a n e)
    with assms d k show ?thesis
      by (auto simp: codegenDeclRef_def isFunctionDecl_def isVarDecl_def bindE_eq_Inr
          eval_ref_def intro!: computes_here constant_denotes)
  qed (use assms(4) d k in \<open>simp_all add: eval_ref_def\<close>)
qed

text \<open>The arguments of a call, each loaded before the next one is evaluated.\<close>

abbreviation gen_argument :: "ast \<Rightarrow> 'c fcodegen \<Rightarrow> (ir_value \<times> 'c fcodegen) res" where
  "gen_argument e s \<equiv> bindE (codegenExpr (l_heap L) cx e s) (\<lambda>(v, s). Inr (loadMemory v s))"

abbreviation eval_argument :: "ast \<Rightarrow> 'w swy \<Rightarrow> (i32 \<times> 'w swy) option" where
  "eval_argument e s \<equiv> (case eval_expr L e s of
     Some (v, s) \<Rightarrow> map_option (\<lambda>k. (k, s)) (read_value v s) | None \<Rightarrow> None)"

definition expr_correct :: "ast \<Rightarrow> bool" where
  "expr_correct t \<longleftrightarrow> (\<forall>s v s' b as m sw sv sw'. codegenExpr (l_heap L) cx t s = Inr (v, s') \<longrightarrow>
     point_of s = Some b \<longrightarrow> good_state s \<longrightarrow> sims s m sw \<longrightarrow> eval_expr L t sw = Some (sv, sw') \<longrightarrow>
     computes ct as b s s' m sw' v sv)"

lemma expr_correctD:
  "expr_correct t \<Longrightarrow> codegenExpr (l_heap L) cx t s = Inr (v, s') \<Longrightarrow> point_of s = Some b \<Longrightarrow> good_state s
    \<Longrightarrow> sims s m sw \<Longrightarrow> eval_expr L t sw = Some (sv, sw') \<Longrightarrow> computes ct as b s s' m sw' v sv"
  unfolding expr_correct_def by blast

lemma argument_computes:
  assumes "expr_correct e" and "gen_argument e s = Inr (w, s')" and "point_of s = Some b"
    and "good_state s" and "sims s m sw" and "eval_argument e sw = Some (k, sw')"
  shows "computes ct as b s s' m sw' w (SInt k)" "straight s s'" "good_state s'"
proof -
  from assms(2) obtain v s1 where e: "codegenExpr (l_heap L) cx e s = Inr (v, s1)"
    and w: "loadMemory v s1 = (w, s')" by (auto simp: bindE_eq_Inr)
  from assms(6) obtain sv where sv: "eval_expr L e sw = Some (sv, sw')" "read_value sv sw' = Some k"
    by (auto split: option.splits)
  from expr_correctD [OF assms(1) e assms(3-5) sv(1)] obtain m1 where m1: "runs ct as b s s1 m m1"
    "sims s1 m1 sw'" "denotes (fc_values s1) (next_of s1) as m1 v sv" "keeps (next_of s) m m1"
    unfolding computes_def by blast
  note st = straight_expr [OF e] straight_loadMemory [OF w]
  have 1: "point_of s1 = Some b" "next_of s \<le> next_of s1" using st(1) assms(3) by (auto simp: straight_def)
  show "computes ct as b s s' m sw' w (SInt k)"
    by (rule computes_trans [OF m1(1,4) 1(2) st(2)]) (rule loadMemory_computes [OF w 1(1) m1(2,3) sv(2)])
  show "straight s s'" by (rule straight_trans [OF st])
  show "good_state s'" using good_expr [OF e assms(4)] context_build(3) [OF w] by simp
qed

lemma arguments_compute:
  assumes "\<And>e. e \<in> set es \<Longrightarrow> expr_correct e" and "mapS gen_argument es s = Inr (vs, s')"
    and "point_of s = Some b" and "good_state s" and "sims s m sw" and "mapO eval_argument es sw = Some (ks, sw')"
  shows "\<exists>m'. runs ct as b s s' m m' \<and> sims s' m' sw' \<and> operands as m' vs = Some (map RInt ks)
    \<and> list_all (old (next_of s')) vs \<and> keeps (next_of s) m m' \<and> straight s s'"
  using assms
proof (induction es arbitrary: s vs m sw ks)
  case Nil
  then show ?case by (intro exI [of _ m]) auto
next
  case (Cons e es)
  from Cons.prems(2) obtain w t ws where e: "gen_argument e s = Inr (w, t)"
    and es: "mapS gen_argument es t = Inr (ws, s')" and vs: "vs = w # ws"
    by (auto simp: bindE_eq_Inr)
  from Cons.prems(6) obtain k sw1 ks' where k: "eval_argument e sw = Some (k, sw1)"
    and ks': "mapO eval_argument es sw1 = Some (ks', sw')" and ks: "ks = k # ks'"
    by (auto split: option.splits)
  have "expr_correct e" using Cons.prems(1) by simp
  note a = argument_computes [OF this e Cons.prems(3-5) k]
  from a(1) obtain m1 where m1: "runs ct as b s t m m1" "sims t m1 sw1" "keeps (next_of s) m m1"
    "operand as m1 w = Some (RInt k)" "old (next_of t) w"
    unfolding computes_def denotes_def by auto
  have t: "point_of t = Some b" "next_of s \<le> next_of t" using a(2) Cons.prems(3) by (auto simp: straight_def)
  obtain m2 where m2: "runs ct as b t s' m1 m2" "sims s' m2 sw'" "operands as m2 ws = Some (map RInt ks')"
    "list_all (old (next_of s')) ws" "keeps (next_of t) m1 m2" "straight t s'"
    using Cons.IH [OF _ es t(1) a(3) m1(2) ks'] Cons.prems(1) by auto
  have "next_of t \<le> next_of s'" using m2(6) by (simp add: straight_def)
  then have "old (next_of s') w" by (rule old_mono [OF m1(5)])
  moreover have "operand as m2 w = Some (RInt k)" using operand_keeps [OF m2(5) m1(5)] m1(4) by simp
  ultimately show ?case
    using m2 vs ks runs_trans [OF m1(1) m2(1,6)] keeps_trans [OF m1(3) m2(5) t(2)] straight_trans [OF a(2) m2(6)]
    by (intro exI [of _ m2]) simp
qed

lemma call_computes:
  assumes "buildInstr (Call f vs) False s = (v, s')" and "point_of s = Some b" and "sims s m sw"
    and "denotes (fc_values s) (next_of s) as m f fv" and "operands as m vs = Some (map RInt ks)"
    and "eval_call L fv ks sw = Some (sv, sw')"
  shows "computes ct as b s s' m sw' v sv"
proof -
  from assms(6) obtain g r w where g: "fv = SFun g" "l_call L g ks (sw_world sw) = Some (r, w)"
    "sv = (case r of Some k \<Rightarrow> SInt k | None \<Rightarrow> SVoid)" "sw' = sw\<lparr>sw_world := w\<rparr>"
    by (auto simp: eval_call_def split: sval.splits option.splits)
  have f: "f = VFunction g" using assms(4) g(1) by (simp add: denotes_def)
  have w: "sw_world sw = m_world m" using assms(3) by (simp add: sim_def)
  define rv where "rv = (case r of Some k \<Rightarrow> RInt k | None \<Rightarrow> RVoid)"
  have "run_instr ct as (next_of s) (Call f vs) m = Some (set_reg (next_of s) rv (m\<lparr>m_world := w\<rparr>))"
    using g(2) w by (simp add: run_instr_def f assms(5) call_linked rv_def)
  moreover have "sims s (m\<lparr>m_world := w\<rparr>) sw'" using assms(3) g(4) by (simp add: sim_def live_def)
  moreover have "keeps (next_of s) m (m\<lparr>m_world := w\<rparr>)" by (simp add: keeps_def)
  ultimately show ?thesis
    by (rule build_computes_upd [OF assms(1,2)]) (auto simp: rv_def g(3) split: option.splits)
qed

lemma expr_correct_all: "expr_correct t"
proof (induction t rule: ast_children_induct)
  case (node t)
  show ?case
    unfolding expr_correct_def
  proof (intro allI impI)
    fix s :: "'c fcodegen" and v s' b as m sw sv sw'
    assume t: "codegenExpr (l_heap L) cx t s = Inr (v, s')" and b: "point_of s = Some b" and good: "good_state s"
      and sim: "sims s m sw" and ev: "eval_expr L t sw = Some (sv, sw')"
    show "computes ct as b s s' m sw' v sv"
    proof (cases t)
      case (DeclRefExpr a n d)
      with t ev good sim show ?thesis by (auto intro: declRef_computes)
    next
      case (MetaInstantiationExpr a rg d es)
      with t obtain c where "lookupGlobal_inst cx a True (fc_context s) = Inr (Some v, c)"
        and s': "s' = s\<lparr>fc_context := c\<rparr>"
        by (auto simp: bindE_eq_Inr split: option.splits)
      with lookup_inst [OF good] have "v = VFunction (l_iname L a)" by simp
      with ev MetaInstantiationExpr sim show ?thesis
        unfolding s' computes_context by (auto simp: denotes_def intro!: computes_here)
    next
      case (BinaryOperatorExpr a op l r)
      with t obtain x s1 y s2 where l: "codegenExpr (l_heap L) cx l s = Inr (x, s1)"
        and r: "codegenExpr (l_heap L) cx r s1 = Inr (y, s2)"
        and o: "codegenOperator (getType op) x y s2 = (v, s')"
        by (auto simp: bindE_eq_Inr)
      from ev BinaryOperatorExpr obtain xv sw1 yv sw2 where xv: "eval_expr L l sw = Some (xv, sw1)"
        and yv: "eval_expr L r sw1 = Some (yv, sw2)"
        and ov: "eval_operator (getType op) xv yv sw2 = Some (sv, sw')"
        by (auto split: option.splits)
      have "expr_correct l" "expr_correct r" using node.IH BinaryOperatorExpr by auto
      from expr_correctD [OF this(1) l b good sim xv] obtain m1 where m1: "runs ct as b s s1 m m1"
        "sims s1 m1 sw1" "denotes (fc_values s1) (next_of s1) as m1 x xv" "keeps (next_of s) m m1"
        unfolding computes_def by blast
      note st = straight_expr [OF l] straight_expr [OF r]
      have 1: "point_of s1 = Some b" "next_of s \<le> next_of s1" using st b by (auto simp: straight_def)
      from expr_correctD [OF \<open>expr_correct r\<close> r 1(1) good_expr [OF l good] m1(2) yv] obtain m2
        where m2: "runs ct as b s1 s2 m1 m2" "sims s2 m2 sw2"
          "denotes (fc_values s2) (next_of s2) as m2 y yv" "keeps (next_of s1) m1 m2"
        unfolding computes_def by blast
      have 2: "point_of s2 = Some b" "next_of s1 \<le> next_of s2" "fc_values s2 = fc_values s1"
        using st 1 by (auto simp: straight_def)
      have "denotes (fc_values s2) (next_of s2) as m2 x xv"
        using denotes_keeps [OF m1(3) m2(4) 2(2)] 2(3) by simp
      then have "computes ct as b s2 s' m2 sw' v sv"
        by (rule operator_computes [OF o 2(1) m2(2) _ m2(3) ov])
      then show ?thesis
        by (intro computes_trans [OF runs_trans [OF m1(1) m2(1) st(2)] keeps_trans [OF m1(4) m2(4) 1(2)] _
              straight_operator [OF o]]) (use 1 2 in simp_all)
    next
      case (CallOperatorExpr a c es)
      with t obtain f s1 vs s2 where c: "codegenExpr (l_heap L) cx c s = Inr (f, s1)"
        and es: "mapS gen_argument es s1 = Inr (vs, s2)" and call: "buildInstr (Call f vs) False s2 = (v, s')"
        by (auto simp: bindE_eq_Inr)
      from ev CallOperatorExpr obtain fv sw1 ks sw2 where fv: "eval_expr L c sw = Some (fv, sw1)"
        and ks: "mapO eval_argument es sw1 = Some (ks, sw2)" and cv: "eval_call L fv ks sw2 = Some (sv, sw')"
        by (auto split: option.splits)
      have "expr_correct c" using node.IH CallOperatorExpr by simp
      from expr_correctD [OF this c b good sim fv] obtain m1 where m1: "runs ct as b s s1 m m1"
        "sims s1 m1 sw1" "denotes (fc_values s1) (next_of s1) as m1 f fv" "keeps (next_of s) m m1"
        unfolding computes_def by blast
      note st = straight_expr [OF c]
      have 1: "point_of s1 = Some b" "next_of s \<le> next_of s1" using st b by (auto simp: straight_def)
      have "expr_correct e" if "e \<in> set es" for e using node.IH CallOperatorExpr that by simp
      from arguments_compute [OF this es 1(1) good_expr [OF c good] m1(2) ks] obtain m2
        where m2: "runs ct as b s1 s2 m1 m2" "sims s2 m2 sw2" "operands as m2 vs = Some (map RInt ks)"
          "keeps (next_of s1) m1 m2" "straight s1 s2"
        by blast
      have 2: "point_of s2 = Some b" "next_of s1 \<le> next_of s2" "fc_values s2 = fc_values s1"
        using m2(5) 1 by (auto simp: straight_def)
      have "denotes (fc_values s2) (next_of s2) as m2 f fv"
        using denotes_keeps [OF m1(3) m2(4) 2(2)] 2(3) by simp
      then have "computes ct as b s2 s' m2 sw' v sv"
        by (rule call_computes [OF call 2(1) m2(2) _ m2(3) cv])
      then show ?thesis
        by (intro computes_trans [OF runs_trans [OF m1(1) m2(1,5)] keeps_trans [OF m1(4) m2(4) 1(2)] _
              straight_build [OF call]]) (use 1 2 in simp_all)
    qed (use t ev sim in \<open>auto simp: denotes_def intro!: computes_here\<close>)
  qed
qed

lemmas expr_computes = expr_correctD [OF expr_correct_all]

end

section \<open>Conditions and branches\<close>

text \<open>
  An expression that may denote the place of a variable: a reference, or an assignment from one. The
  condition of an \<open>if\<close> is tested as it is, without loading it, so that it has to be another one.
\<close>

fun place :: "heap \<Rightarrow> ast \<Rightarrow> bool" where
  "place h (DeclRefExpr a n d) = (case d of None \<Rightarrow> False
     | Some k \<Rightarrow> (case h k of None \<Rightarrow> False | Some decl \<Rightarrow> isVarDecl (obj_of decl)))"
| "place h (BinaryOperatorExpr a b l r) = (getType b = OperatorAssign \<and> place h r)"
| "place h t = False"

definition branch_ok :: "heap \<Rightarrow> ast \<Rightarrow> bool" where
  "branch_ok h t = (case t of
     IfStmt a c x f \<Rightarrow> \<not> place h c \<and> getKind x = KindCompoundStmt
       \<and> (case f of None \<Rightarrow> True | Some y \<Rightarrow> getKind y = KindCompoundStmt)
   | _ \<Rightarrow> True)"

definition branches_ok :: "heap \<Rightarrow> ast \<Rightarrow> bool" where
  "branches_ok h t = list_all (branch_ok h) (nodes t)"

lemma branches_ok_child: "branches_ok h t \<Longrightarrow> c \<in> set (children t) \<Longrightarrow> branches_ok h c"
  by (auto simp: branches_ok_def nodes_eq [of t] nodes_of_def list_all_iff)

lemma branches_ok_self: "branches_ok h t \<Longrightarrow> branch_ok h t"
  by (simp add: branches_ok_def nodes_eq [of t])

lemma eval_no_place:
  "eval_expr L t s = Some (v, s') \<Longrightarrow> \<not> place (l_heap L) t \<Longrightarrow> v \<noteq> SPlace d"
proof (induction t arbitrary: s v s' rule: ast_children_induct)
  case (node t)
  show ?case
  proof (cases t)
    case (DeclRefExpr a n k)
    with node.prems show ?thesis
      by (auto simp: eval_ref_def isVarDecl_def split: option.splits ast.splits if_splits)
  next
    case (BinaryOperatorExpr a b l r)
    with node.prems obtain x s1 y s2 where r: "eval_expr L r s1 = Some (y, s2)"
      and o: "eval_operator (getType b) x y s2 = Some (v, s')"
      by (auto split: option.splits)
    show ?thesis
    proof (cases "getType b = OperatorAssign")
      case True
      with node.prems(2) BinaryOperatorExpr have "\<not> place (l_heap L) r" by simp
      then have "y \<noteq> SPlace d" using node.IH [OF _ r] BinaryOperatorExpr by simp
      with o True show ?thesis by (auto simp: eval_operator_def split: option.splits sval.splits)
    next
      case False
      with o show ?thesis by (auto simp: eval_operator_def split: option.splits)
    qed
  next
    case (CallOperatorExpr a c es)
    with node.prems show ?thesis
      by (auto simp: eval_call_def split: option.splits sval.splits)
  qed (use node.prems in auto)
qed

text \<open>
  Where the code of a statement that starts in block \<open>b\<close> gets to: the block in which it goes on, or
  the end of the function.
\<close>

definition arrives :: "'w ir_call \<Rightarrow> i32 list \<Rightarrow> block \<Rightarrow> 'c fcodegen \<Rightarrow> block option \<Rightarrow> 'c fcodegen
    \<Rightarrow> 'w machine \<Rightarrow> 'w outcome \<Rightarrow> bool" where
  "arrives ct as b s r s' m x = (case x of
     Continue sw \<Rightarrow> (\<exists>c m'. r = Some c \<and> sims s' m' sw \<and> (\<forall>more. reaches (code_of s' @ more) ct as
       (At b (length (body (code_of s) b)) m) (At c (length (body (code_of s') c)) m')))
   | Return y w \<Rightarrow> (\<forall>more. reaches (code_of s' @ more) ct as
       (At b (length (body (code_of s) b)) m) (Returned y w)))"

text \<open>A branch: it starts with an empty block, and ends in front of an empty block.\<close>

definition branch_arrives :: "'w ir_call \<Rightarrow> i32 list \<Rightarrow> block \<Rightarrow> block option \<Rightarrow> 'c fcodegen \<Rightarrow> values_scope list
    \<Rightarrow> 'w machine \<Rightarrow> 'w outcome \<Rightarrow> bool" where
  "branch_arrives ct as b k s' ms m x = (case x of
     Continue sw \<Rightarrow> (\<exists>q m'. k = Some q \<and> sim ms (next_of s') m' sw \<and> (\<forall>more. reaches (code_of s' @ more) ct as
       (At b 0 m) (At q 0 m')))
   | Return y w \<Rightarrow> (\<forall>more. reaches (code_of s' @ more) ct as (At b 0 m) (Returned y w)))"

definition scoped :: "'c supplier \<Rightarrow> bool" where
  "scoped f \<longleftrightarrow> (\<forall>b s r s'. f b s = Inr (r, s') \<longrightarrow> point_of s = Some b \<longrightarrow> b < next_of s \<longrightarrow>
     fc_values s' = fc_values s)"

lemma closing_branch:
  assumes "arrives ct as b t r s m x" and "closeBranch r k s = (k', s')" and "left_at b t r s"
    and "body (code_of t) b = []"
  shows "branch_arrives ct as b k' s' (fc_values s) m x"
proof (cases x)
  case (Return y w)
  obtain xs where "code_of s' = code_of s @ xs"
  proof (cases r)
    case None
    with assms(2) that show thesis by simp
  next
    case (Some c)
    have "point_of s = Some c" using assms(3) Some by (simp add: left_at_def)
    then show thesis using closeBranch_Some [OF assms(2) [unfolded Some]] that by metis
  qed
  with assms(1,4) Return show ?thesis by (simp add: arrives_def branch_arrives_def)
next
  case (Continue sw)
  with assms(1,4) obtain c m' where c: "r = Some c" "sims s m' sw"
    "\<And>more. reaches (code_of s @ more) ct as (At b 0 m) (At c (length (body (code_of s) c)) m')"
    by (auto simp: arrives_def)
  have "point_of s = Some c" using assms(3) c(1) by (simp add: left_at_def)
  then obtain q n where q: "k' = Some q" "code_of s' = code_of s @ [(Some c, n, Br q)]" "next_of s \<le> next_of s'"
    using closeBranch_Some [OF assms(2) [unfolded c(1)]] by metis
  have "reaches (code_of s' @ more) ct as (At b 0 m) (At q 0 m')" for more
  proof -
    have "reaches (code_of s' @ more) ct as (At b 0 m) (At c (length (body (code_of s) c)) m')"
      using c(3) [of "(Some c, n, Br q) # more"] q(2) by simp
    also have "reaches (code_of s' @ more) ct as (At c (length (body (code_of s) c)) m') (At q 0 m')"
      by (rule reaches_br [where post = "body more c" and n = n]) (simp add: q(2))
    finally show ?thesis .
  qed
  with q(1,3) c(2) Continue show ?thesis by (auto simp: branch_arrives_def intro: sim_mono)
qed

lemma branch_arrives_more:
  assumes "branch_arrives ct as b k s ms m x" and "code_of s' = code_of s @ xs" and "next_of s \<le> next_of s'"
  shows "branch_arrives ct as b k s' ms m x"
  using assms by (auto simp: branch_arrives_def split: outcome.splits intro: sim_mono)

lemma grown_code: "grown b s s' \<Longrightarrow> \<exists>xs. code_of s' = code_of s @ xs"
  by (auto simp: grown_def)

text \<open>The block that follows the branches is still empty.\<close>

lemma closing_empty:
  assumes "closeBranch r k s = (k', s')" and "left_at b t r s" and "numbered s"
    and "\<forall>q. k = Some q \<longrightarrow> body (code_of s) q = [] \<and> (\<forall>c. r = Some c \<longrightarrow> c \<noteq> q)"
  shows "\<forall>q. k' = Some q \<longrightarrow> body (code_of s') q = []"
proof (cases r)
  case None
  with assms(1,4) show ?thesis by auto
next
  case (Some c)
  have c: "point_of s = Some c" "c < next_of s" using assms(2) Some by (auto simp: left_at_def)
  then obtain q n where q: "k' = Some q" "k = Some q \<or> k = None \<and> q = next_of s"
    "code_of s' = code_of s @ [(Some c, n, Br q)]"
    using closeBranch_Some [OF assms(1) [unfolded Some]] by metis
  have "q \<noteq> c" using q(2) assms(4) c(2) Some by auto
  moreover have "body (code_of s) q = []" using q(2) assms(4) numbered_body [OF assms(3)] by auto
  ultimately show ?thesis using q by simp
qed

context linked_context begin

text \<open>The generator of a branch computes what the branch means.\<close>

definition branch_correct :: "'c supplier \<Rightarrow> ('w swy \<Rightarrow> 'w outcome option) \<Rightarrow> bool" where
  "branch_correct f g \<longleftrightarrow> (\<forall>b s r s' as m sw x. f b s = Inr (r, s') \<longrightarrow> point_of s = Some b \<longrightarrow>
     b < next_of s \<longrightarrow> numbered s \<longrightarrow> good_state s \<longrightarrow> sims s m sw \<longrightarrow> g sw = Some x \<longrightarrow>
     arrives ct as b s r s' m x)"

definition branch_gen :: "'c supplier \<Rightarrow> bool" where
  "branch_gen f \<longleftrightarrow> framed f \<and> scoped f \<and> keeps_good f"

lemma branch_correctD:
  "branch_correct f g \<Longrightarrow> f b s = Inr (r, s') \<Longrightarrow> point_of s = Some b \<Longrightarrow> b < next_of s \<Longrightarrow> numbered s
    \<Longrightarrow> good_state s \<Longrightarrow> sims s m sw \<Longrightarrow> g sw = Some x \<Longrightarrow> arrives ct as b s r s' m x"
  unfolding branch_correct_def by blast

lemma sim_insertAt [simp]: "sims (insertAt b s) m sw \<longleftrightarrow> sims s m sw"
  by simp

text \<open>A branch that is generated as a block of its own.\<close>

lemma one_branch:
  assumes "f b (insertAt b s1) = Inr (r, s2)" and "closeBranch r k s2 = (k', s')"
    and "b = next_of s" and "next_of s1 = Suc (next_of s)" and "code_of s1 = code_of s"
    and "fc_values s1 = fc_values s" and "fc_context s1 = fc_context s"
    and "branch_gen f" and "numbered s" and "good_state s"
    and "\<forall>q. k = Some q \<longrightarrow> q < next_of s \<and> body (code_of s) q = []"
  shows "fc_values s' = fc_values s" "good_state s'" "\<forall>q. k' = Some q \<longrightarrow> body (code_of s') q = []"
    "numbered s'" "next_of s \<le> next_of s'"
    "branch_correct f g \<Longrightarrow> slots (fc_values s) (next_of s) \<Longrightarrow> sim (fc_values s) N m sw \<Longrightarrow> g sw = Some x \<Longrightarrow>
      branch_arrives ct as b k' s' (fc_values s) m x"
proof -
  have f: "framed f" "scoped f" "keeps_good f" using assms(8) by (auto simp: branch_gen_def)
  have b: "b < next_of (insertAt b s1)" using assms(3,4) by simp
  have n1: "numbered (insertAt b s1)" using assms(4,5,9) by (fastforce simp: numbered_def)
  have l: "left_at b (insertAt b s1) r s2" by (rule framedD [OF f(1) assms(1) _ b]) simp
  have v2: "fc_values s2 = fc_values s"
    using f(2) assms(1) b by (simp add: scoped_def assms(6))
  have n2: "numbered s2" using numbered_grown [OF n1 left_atD(1) [OF l] b] .
  have k2: "\<forall>q. k = Some q \<longrightarrow> q < next_of s2" using assms(4,11) left_atD(2) [OF l] by auto
  note c = closeBranch_frame [OF assms(2) l k2]
  show v: "fc_values s' = fc_values s" using c(6) v2 by simp
  show "good_state s'"
    using f(3) assms(1,7,10) context_closeBranch [OF assms(2)] unfolding keeps_good_def
    by (metis insertAt_simps(5))
  show "numbered s'" by (rule numbered_grown [OF n1 c(1) b])
  show "next_of s \<le> next_of s'" using c(2) left_atD(2) [OF l] assms(4) by simp
  have "body (code_of s2) q = [] \<and> (\<forall>c. r = Some c \<longrightarrow> c \<noteq> q)" if "k = Some q" for q
  proof -
    have q: "q < next_of s" "body (code_of s) q = []" using assms(11) that by auto
    then have "body (code_of s2) q = body (code_of (insertAt b s1)) q"
      using assms(3,4) by (intro grown_body [OF left_atD(1) [OF l]]) auto
    with q show ?thesis using left_atD(7) [OF l] assms(3,4,5) by auto
  qed
  then show "\<forall>q. k' = Some q \<longrightarrow> body (code_of s') q = []"
    by (intro closing_empty [OF assms(2) l n2]) blast
  assume corr: "branch_correct f g" and slots: "slots (fc_values s) (next_of s)"
    and sim: "sim (fc_values s) N m sw" and g: "g sw = Some x"
  have "sim (fc_values s) (next_of s) m sw" using sim slots by (simp add: sim_def)
  then have "sims (insertAt b s1) m sw" using assms(4,6) by (auto intro: sim_mono)
  then have "arrives ct as b (insertAt b s1) r s2 m x"
    by (rule branch_correctD [OF corr assms(1) _ b n1 _ _ g, rotated 2]) (simp_all add: assms(7,10))
  then have "branch_arrives ct as b k' s' (fc_values s2) m x"
    by (rule closing_branch [OF _ assms(2) l]) (simp add: assms(3,5) numbered_body [OF assms(9)])
  then show "branch_arrives ct as b k' s' (fc_values s) m x" by (simp add: v2)
qed

lemma closeBranch_keeps: "closeBranch r (Some q) s = (k', s') \<Longrightarrow> k' = Some q"
  by (cases r) (auto simp: closeBranch_def lazyContinue_def)

lemma false_branch:
  assumes "codegenFalseBranch g k s = Inr (b, k', s')" and "numbered s" and "good_state s"
    and "\<And>f. g = Some f \<Longrightarrow> branch_gen f"
    and "\<forall>q. k = Some q \<longrightarrow> q < next_of s \<and> body (code_of s) q = []"
  shows "fc_values s' = fc_values s" "good_state s'" "\<forall>q. k' = Some q \<longrightarrow> body (code_of s') q = []"
    "numbered s'" "next_of s \<le> next_of s'" "k = Some q \<Longrightarrow> k' = Some q"
    "slots (fc_values s) (next_of s) \<Longrightarrow> sim (fc_values s) N m sw \<Longrightarrow>
     (case g of None \<Rightarrow> x = Continue sw | Some f \<Rightarrow> branch_correct f xg \<and> xg sw = Some x) \<Longrightarrow>
      branch_arrives ct as b k' s' (fc_values s) m x"
proof -
  have "fc_values s' = fc_values s \<and> good_state s' \<and> (\<forall>q. k' = Some q \<longrightarrow> body (code_of s') q = [])
    \<and> numbered s' \<and> next_of s \<le> next_of s' \<and> (\<forall>q. k = Some q \<longrightarrow> k' = Some q)
    \<and> (slots (fc_values s) (next_of s) \<longrightarrow> sim (fc_values s) N m sw \<longrightarrow>
       (case g of None \<Rightarrow> x = Continue sw | Some f \<Rightarrow> branch_correct f xg \<and> xg sw = Some x) \<longrightarrow>
       branch_arrives ct as b k' s' (fc_values s) m x)"
  proof (cases g)
    case None
    have k': "k' = Some b" and lazy: "lazyContinue k s = (b, s')"
      using assms(1) None by (auto simp: codegenFalseBranch_def split: prod.splits)
    have s': "code_of s' = code_of s" "fc_values s' = fc_values s" "fc_context s' = fc_context s"
      "next_of s \<le> next_of s'" "k = Some b \<or> k = None \<and> b = next_of s"
      using lazy by (auto simp: lazyContinue_def newBlock_simps split: option.splits)
    have "body (code_of s) b = []" using s'(5) assms(5) numbered_body [OF assms(2)] by auto
    moreover have "numbered s'" using assms(2) s'(1,4) by (fastforce simp: numbered_def)
    moreover have "sim (fc_values s) (next_of s') m sw" if "slots (fc_values s) (next_of s)" "sim (fc_values s) N m sw"
      using that s'(4) by (fastforce simp: sim_def slots_def)
    ultimately show ?thesis
      using None s' k' assms(3) by (auto simp: branch_arrives_def)
  next
    case (Some f)
    define made where "made = (case k of Some p \<Rightarrow> newBlockBefore p ''false_block'' s | None \<Rightarrow> newBlock ''false_block'' s)"
    obtain b' s1 where b': "made = (b', s1)" by fastforce
    have s1: "b' = next_of s" "next_of s1 = Suc (next_of s)" "code_of s1 = code_of s"
      "fc_values s1 = fc_values s" "fc_context s1 = fc_context s"
      using b' by (auto simp: made_def builder_simps split: option.splits)
    from assms(1) Some b' obtain r s2 where r: "f b' (insertAt b' s1) = Inr (r, s2)"
      and c: "closeBranch r k s2 = (k', s')" and b: "b = b'"
      by (auto simp: codegenFalseBranch_def made_def [symmetric] bindE_eq_Inr split: prod.splits)
    note o = one_branch [OF r c s1 assms(4) [OF Some] assms(2,3,5)]
    have "\<forall>q. k = Some q \<longrightarrow> k' = Some q" using closeBranch_keeps c by blast
    with o(1-5) o(6) [of xg N m sw x as] Some b show ?thesis by auto
  qed
  then show "fc_values s' = fc_values s" "good_state s'" "\<forall>q. k' = Some q \<longrightarrow> body (code_of s') q = []"
    "numbered s'" "next_of s \<le> next_of s'" "k = Some q \<Longrightarrow> k' = Some q"
    "slots (fc_values s) (next_of s) \<Longrightarrow> sim (fc_values s) N m sw \<Longrightarrow>
     (case g of None \<Rightarrow> x = Continue sw | Some f \<Rightarrow> branch_correct f xg \<and> xg sw = Some x) \<Longrightarrow>
      branch_arrives ct as b k' s' (fc_values s) m x"
    by blast+
qed

text \<open>Both branches of an \<open>if\<close> in the source.\<close>

definition if_meaning :: "bool \<Rightarrow> ('w swy \<Rightarrow> 'w outcome option) \<Rightarrow> ('w swy \<Rightarrow> 'w outcome option) option
    \<Rightarrow> 'w swy \<Rightarrow> 'w outcome option" where
  "if_meaning p xf xg s = (if p then xf s else (case xg of Some g \<Rightarrow> g s | None \<Rightarrow> Some (Continue s)))"

lemma if_correct:
  assumes gen: "codegenIfStructure (l_heap L) cx b c f g s = Inr (r, s')"
    and b: "point_of s = Some b" "b < next_of s" and num: "numbered s" and good: "good_state s"
    and sim: "sims s m sw" and cond: "eval_condition L c sw = Some (p, sw1)" and noplace: "\<not> place (l_heap L) c"
    and f: "branch_gen f" "branch_correct f xf" and g: "rel_option (\<lambda>g x. branch_gen g \<and> branch_correct g x) g xg"
    and x: "if_meaning p xf xg sw1 = Some x"
  shows "arrives ct as b s r s' m x"
proof -
  from gen obtain tb s1 rt s2 k1 s3 fb k2 s4 v s5 i s6
    where 1: "newBlock ''true_block'' s = (tb, s1)" "f tb (insertAt tb s1) = Inr (rt, s2)"
      "closeBranch rt None s2 = (k1, s3)" and 2: "codegenFalseBranch g k1 s3 = Inr (fb, k2, s4)"
      and 3: "codegenExpr (l_heap L) cx c (insertAt b s4) = Inr (v, s5)"
      "buildInstr (IsNotNull v) False s5 = (i, s6)" and r: "r = k2"
      "s' = (case k2 of Some q \<Rightarrow> insertAt q (buildVoid (CondBr i tb fb) s6)
                      | None \<Rightarrow> buildVoid (CondBr i tb fb) s6)"
    by (rule codegenIfStructureE)
  note nb = newBlock_simps [OF 1(1)]
  have no: "\<forall>q. None = Some q \<longrightarrow> q < next_of s \<and> body (code_of s) q = []" by simp
  note T = one_branch [OF 1(2,3) nb(1-4,6) f(1) num good no]
  have ff: "framed f" using f(1) by (simp add: branch_gen_def)
  note tf = true_branch_frame [OF 1(1,2) ff 1(3)]
  have k1: "\<forall>q. k1 = Some q \<longrightarrow> q < next_of s3 \<and> body (code_of s3) q = []" using T(3) tf(5) by blast
  have gg: "branch_gen g'" if "g = Some g'" for g' using g that by (cases xg) auto
  note F = false_branch [OF 2 T(4,2) gg k1]
  have "\<And>g'. g = Some g' \<Longrightarrow> framed g'" using gg by (simp add: branch_gen_def)
  then have fr: "grown tb s3 s4" "\<forall>q. k2 = Some q \<longrightarrow> q < next_of s4 \<and> (k1 = Some q \<or> next_of s3 \<le> q)"
    using false_branch_frame(4) [OF 2, where d = tb] false_branch_frame(5) [OF 2] k1 by blast+
  have "grown tb s s4" using grown_trans [OF tf(1) fr(1)] by simp
  then have body_b: "body (code_of s4) b = body (code_of s) b"
    using b(2) tf(3) by (intro grown_body) auto
  have vals: "fc_values s4 = fc_values s" using F(1) T(1) by simp
  have le: "next_of s \<le> next_of s4" using T(5) F(5) by simp
  have slots: "slots (fc_values s) (next_of s)" using sim by (simp add: sim_def)
  from cond obtain sv k where sv: "eval_expr L c sw = Some (sv, sw1)" "read_value sv sw1 = Some k" "p = (k \<noteq> 0)"
    by (auto simp: eval_condition_def split: option.splits)
  have "sv = SInt k" using sv(2) eval_no_place [OF sv(1) noplace] by (cases sv) (auto simp: read_value_def)
  moreover have "sims (insertAt b s4) m sw" using sim_mono [OF sim le] vals by simp
  ultimately obtain m1 where m1: "runs ct as b (insertAt b s4) s5 m m1" "sims s5 m1 sw1"
    "operand as m1 v = Some (RInt k)"
    using expr_computes [OF 3(1), of b m sw] F(2) sv(1) unfolding computes_def denotes_def by fastforce
  define m2 where "m2 = set_reg (next_of s5) (RBool p) m1"
  have p5: "point_of s5 = Some b" using straight_expr [OF 3(1)] by (simp add: straight_def)
  have "run_instr ct as (next_of s5) (IsNotNull v) m1 = Some m2"
    by (simp add: run_instr_def m1(3) m2_def sv(3))
  note c2 = runs_build [OF 3(2) p5 this]
  note st = straight_expr [OF 3(1)] straight_build [OF 3(2)]
  have p6: "point_of s6 = Some b" using st(2) p5 by (simp add: straight_def)
  have code': "code_of s' = code_of s6 @ [(Some b, next_of s6, CondBr i tb fb)]" "next_of s6 \<le> next_of s'"
    using r(2) p6 by (auto simp: builder_simps split: option.splits)
  obtain ys where ys: "code_of s' = code_of s4 @ map (Pair (Some b)) ys"
  proof -
    obtain xs where "code_of s6 = code_of s4 @ map (Pair (Some b)) xs"
      using straight_trans [OF st] by (auto simp: straight_def)
    then have "code_of s' = code_of s4 @ map (Pair (Some b)) (xs @ [(next_of s6, CondBr i tb fb)])"
      using code'(1) by simp
    then show thesis by (rule that)
  qed
  have le': "next_of s4 \<le> next_of s'" using straight_trans [OF st] code'(2) by (simp add: straight_def)
  have test: "reaches (code_of s' @ more) ct as (At b (length (body (code_of s) b)) m)
      (At (if p then tb else fb) 0 m2)" for more
  proof -
    have "runs ct as b (insertAt b s4) s6 m m2" by (rule runs_trans [OF m1(1) c2(1) st(2)])
    then have "reaches (code_of s' @ more) ct as (At b (length (body (code_of s) b)) m)
        (At b (length (body (code_of s6) b)) m2)"
      using code'(1) body_b by (simp add: runs_def)
    also have "reaches (code_of s' @ more) ct as (At b (length (body (code_of s6) b)) m2)
        (At (if p then tb else fb) 0 m2)"
      by (rule reaches_cond_br [where post = "body more b" and n = "next_of s6" and v = i])
        (simp_all add: code'(1) c2(2) m2_def)
    finally show ?thesis .
  qed
  have sim2: "sim (fc_values s) (Suc (next_of s5)) m2 sw1"
    using sim_set_reg [OF m1(2), of "next_of s5" "RBool p"] st(1) vals by (simp add: m2_def straight_def)
  have br: "branch_arrives ct as (if p then tb else fb) k2 s' (fc_values s) m2 x"
  proof (cases p)
    case True
    then have "branch_arrives ct as tb k1 s3 (fc_values s) m2 x"
      using T(6) [OF f(2) slots sim2] x by (simp add: if_meaning_def)
    moreover have "code_of s' = code_of s3 @ drop (length (code_of s3)) (code_of s')"
      using ys grown_code [OF fr(1)] by auto
    ultimately have "branch_arrives ct as tb k1 s' (fc_values s) m2 x"
      by (rule branch_arrives_more) (use le' F(5) in simp)
    with True F(6) show ?thesis by (auto simp: branch_arrives_def split: outcome.splits)
  next
    case False
    have "case g of None \<Rightarrow> x = Continue sw1 | Some f \<Rightarrow> branch_correct f (the xg) \<and> the xg sw1 = Some x"
      using g x False by (cases xg; cases g) (auto simp: if_meaning_def)
    then have "branch_arrives ct as fb k2 s4 (fc_values s) m2 x"
      using F(7) [of "Suc (next_of s5)" m2 sw1 x "the xg" as] slots sim2 T(1,5)
      by (simp add: slots_def) (metis le_trans less_le_trans)
    then have "branch_arrives ct as fb k2 s' (fc_values s) m2 x"
      by (rule branch_arrives_more [OF _ ys le'])
    with False show ?thesis by simp
  qed
  have "body (code_of s') q = []" if "k2 = Some q" for q
  proof -
    have "next_of s2 \<le> q \<or> next_of s3 \<le> q" using fr(2) tf(5) that by blast
    then have "q \<noteq> b" using b(2) tf(9) left_atD(2) [OF tf(2)] nb(2) by auto
    then show ?thesis using F(3) that ys by (simp add: body_def filter_empty_conv)
  qed
  moreover have "fc_values s' = fc_values s"
    using r(2) straight_trans [OF st] vals by (auto simp: straight_def builder_simps split: option.splits)
  ultimately show ?thesis
    using br test r(1) unfolding arrives_def branch_arrives_def
    by (auto split: outcome.splits intro: reaches_trans) (metis reaches_trans)
qed

section \<open>Statements\<close>

lemma arrives_seq:
  assumes "arrives ct as b s (Some d) t m (Continue sw)" and "code_of u = code_of t @ xs"
    and "\<And>m'. sims t m' sw \<Longrightarrow> arrives ct as d t r u m' x"
  shows "arrives ct as b s r u m x"
proof -
  from assms(1) obtain m' where m': "sims t m' sw" "\<And>more. reaches (code_of t @ more) ct as
      (At b (length (body (code_of s) b)) m) (At d (length (body (code_of t) d)) m')"
    by (auto simp: arrives_def)
  have "reaches (code_of u @ more) ct as (At b (length (body (code_of s) b)) m)
      (At d (length (body (code_of t) d)) m')" for more
    using m'(2) [of "xs @ more"] assms(2) by simp
  note first = reaches_trans [OF this]
  show ?thesis
  proof (cases x)
    case (Continue sw')
    with assms(3) [OF m'(1)] obtain c m'' where "r = Some c" "sims u m'' sw'" "\<And>more. reaches (code_of u @ more) ct as
        (At d (length (body (code_of t) d)) m') (At c (length (body (code_of u) c)) m'')"
      by (auto simp: arrives_def)
    with Continue show ?thesis using first by (auto simp: arrives_def)
  next
    case (Return y w)
    with assms(3) [OF m'(1)] show ?thesis using first by (simp add: arrives_def)
  qed
qed

lemma arrives_return_more:
  "arrives ct as b s r t m (Return y w) \<Longrightarrow> code_of u = code_of t @ xs \<Longrightarrow> arrives ct as b s r' u m (Return y w)"
  by (simp add: arrives_def)

abbreviation gen_seq ::
    "(ast \<Rightarrow> 'c supplier) \<Rightarrow> ast list \<Rightarrow> block option \<times> 'c fcodegen \<Rightarrow> (block option \<times> 'c fcodegen) res" where
  "gen_seq F \<equiv> foldE (\<lambda>c (current, s). case current of None \<Rightarrow> Inl NullDeref | Some b \<Rightarrow> F c b s)"

lemma seq_correct:
  assumes "\<And>c. c \<in> set cs \<Longrightarrow> framed (F c) \<and> keeps_good (F c) \<and> branch_correct (F c) (X c)"
    and "gen_seq F cs (Some b, s) = Inr (r, s')" and "point_of s = Some b" and "b < next_of s"
    and "numbered s" and "good_state s" and "sims s m sw" and "exec_seq X cs sw = Some x"
  shows "arrives ct as b s r s' m x"
  using assms
proof (induction cs arbitrary: b s m sw)
  case Nil
  then have "r = Some b" "s' = s" "x = Continue sw" by auto
  with Nil.prems(7) show ?case by (auto simp: arrives_def)
next
  case (Cons c cs)
  from Cons.prems(2) obtain q t where c: "F c b s = Inr (q, t)" and cs: "gen_seq F cs (q, t) = Inr (r, s')"
    by (auto simp: bindE_eq_Inr)
  have F: "framed (F c)" "keeps_good (F c)" "branch_correct (F c) (X c)" using Cons.prems(1) by simp_all
  note l = framedD [OF F(1) c Cons.prems(3,4)]
  have good: "good_state t" using F(2) c Cons.prems(6) unfolding keeps_good_def by blast
  from Cons.prems(8) obtain y where y: "X c sw = Some y"
    by (auto split: option.splits)
  have a: "arrives ct as b s q t m y"
    by (rule branch_correctD [OF F(3) c Cons.prems(3-7) y])
  show ?case
  proof (cases q)
    case None
    with cs have cs: "cs = []" "r = None" "s' = t" by (cases cs; auto)+
    from a None have "\<exists>k w. y = Return k w" by (cases y) (auto simp: arrives_def)
    with a Cons.prems(8) y None cs show ?thesis by auto
  next
    case (Some d)
    have d: "point_of t = Some d" "d < next_of t" using left_atD(5,6) [OF l] Some by auto
    have r: "left_at d t r s'" by (rule framed_seq [OF _ cs [unfolded Some] d]) (use Cons.prems(1) in simp)
    then obtain xs where xs: "code_of s' = code_of t @ xs" using grown_code [OF left_atD(1)] by blast
    show ?thesis
    proof (cases y)
      case (Continue sw')
      with Cons.prems(8) y have e: "exec_seq X cs sw' = Some x" by simp
      show ?thesis
      proof (rule arrives_seq [OF a [unfolded Some Continue] xs])
        fix m' assume "sims t m' sw'"
        then show "arrives ct as d t r s' m' x"
          using Cons.IH [OF Cons.prems(1) cs [unfolded Some] d numbered_grown [OF Cons.prems(5) left_atD(1) [OF l] Cons.prems(4)] good _ e]
          by simp
      qed
    next
      case (Return k w)
      with Cons.prems(8) y have "x = Return k w" by simp
      with a Return xs show ?thesis by (auto intro: arrives_return_more)
    qed
  qed
qed

lemma computes_arrives:
  assumes "runs ct as b s s' m m'" and "sims s' m' sw"
  shows "arrives ct as b s (Some b) s' m (Continue sw)"
  using assms by (auto simp: arrives_def runs_def)

lemma return_correct:
  assumes "codegenStmt (l_heap L) cx (ReturnStmt a (Some e)) b s = Inr (r, s')" and "point_of s = Some b"
    and "good_state s" and "sims s m sw" and "exec_stmt L (ReturnStmt a (Some e)) sw = Some x"
  shows "arrives ct as b s r s' m x"
proof -
  from assms(1) obtain v s1 w s2 where e: "codegenExpr (l_heap L) cx e s = Inr (v, s1)"
    and w: "loadMemory v s1 = (w, s2)" and r: "r = None" "s' = buildVoid (Ret w) s2"
    by (rule codegenStmt_returnE)
  from assms(5) obtain sv sw1 k where sv: "eval_expr L e sw = Some (sv, sw1)" "read_value sv sw1 = Some k"
    and x: "x = Return (Some k) (sw_world sw1)"
    by (auto split: option.splits)
  have arg: "gen_argument e s = Inr (w, s2)" "eval_argument e sw = Some (k, sw1)"
    using e w sv by simp_all
  note c = argument_computes [OF expr_correct_all arg(1) assms(2-4) arg(2)]
  from c(1) obtain m' where m': "runs ct as b s s2 m m'" "sims s2 m' sw1" "operand as m' w = Some (RInt k)"
    unfolding computes_def denotes_def by auto
  have p: "point_of s2 = Some b" using c(2) assms(2) by (simp add: straight_def)
  have code: "code_of s' = code_of s2 @ [(Some b, next_of s2, Ret w)]" using r(2) p by (simp add: builder_simps)
  have "reaches (code_of s' @ more) ct as (At b (length (body (code_of s) b)) m) (Returned (Some k) (m_world m'))" for more
  proof -
    have "reaches (code_of s' @ more) ct as (At b (length (body (code_of s) b)) m) (At b (length (body (code_of s2) b)) m')"
      using m'(1) code by (simp add: runs_def)
    also have "reaches (code_of s' @ more) ct as (At b (length (body (code_of s2) b)) m') (Returned (Some k) (m_world m'))"
      by (rule reaches_ret [where post = "body more b" and v = w and n = "next_of s2"]) (simp_all add: code m'(3))
    finally show ?thesis .
  qed
  moreover have "m_world m' = sw_world sw1" using m'(2) by (simp add: sim_def)
  ultimately show ?thesis by (simp add: arrives_def x)
qed

lemma decl_correct:
  assumes "codegenStmt (l_heap L) cx (DeclStmt a n e) b s = Inr (r, s')" and "point_of s = Some b"
    and "good_state s" and "sims s m sw" and "exec_stmt L (DeclStmt a n e) sw = Some x"
  shows "arrives ct as b s r s' m x"
proof -
  from assms(1) obtain v s1 slot s2 w s3 where e: "codegenExpr (l_heap L) cx e s = Inr (v, s1)"
    and slot: "buildInstr (Alloca (getType n)) True s1 = (slot, s2)" and w: "loadMemory v s2 = (w, s3)"
    and i: "introduceValue a slot (buildVoid (Store w slot) s3) = Inr s'" and r: "r = Some b"
    by (rule codegenStmt_declE)
  from assms(5) obtain sv sw1 k where sv: "eval_expr L e sw = Some (sv, sw1)" "read_value sv sw1 = Some k"
    and x: "x = Continue (sw1\<lparr>sw_vars := declare_var a k (sw_vars sw1)\<rparr>)"
    by (auto split: option.splits)
  from expr_computes [OF e assms(2-4) sv(1)] obtain m1 where m1: "runs ct as b s s1 m m1" "sims s1 m1 sw1"
    "denotes (fc_values s1) (next_of s1) as m1 v sv"
    unfolding computes_def by blast
  note st = straight_expr [OF e] straight_build [OF slot] straight_loadMemory [OF w]
  have p1: "point_of s1 = Some b" using st(1) assms(2) by (simp add: straight_def)
  define q where "q = next_of s1"
  define m2 where "m2 = set_reg q (RSlot q) (m1\<lparr>m_mem := (m_mem m1)(q := None)\<rparr>)"
  have "run_instr ct as (next_of s1) (Alloca (getType n)) m1 = Some m2"
    by (simp add: run_instr_def m2_def q_def)
  note b2 = runs_build [OF slot p1 this]
  have v2: "fc_values s2 = fc_values s1" "point_of s2 = Some b" using st(2) p1 by (auto simp: straight_def)
  have sim2: "sims s2 m2 sw1" using sim_alloca [OF m1(2)] b2(3) v2(1) by (simp add: m2_def q_def)
  have "keeps (next_of s1) m1 m2" by (simp add: keeps_def m2_def set_reg_def q_def)
  then have "denotes (fc_values s2) (next_of s2) as m2 v sv"
    using denotes_keeps [OF m1(3)] b2(3) v2(1) by simp
  from loadMemory_computes [OF w v2(2) sim2 this sv(2)] obtain m3 where m3: "runs ct as b s2 s3 m2 m3"
    "sims s3 m3 sw1" "operand as m3 w = Some (RInt k)" "keeps (next_of s2) m2 m3"
    unfolding computes_def denotes_def by auto
  have v3: "fc_values s3 = fc_values s1" "point_of s3 = Some b" "next_of s2 \<le> next_of s3"
    using st(3) v2 by (auto simp: straight_def)
  have reg: "m_regs m3 q = Some (RSlot q)" using m3(4) b2(3) by (simp add: keeps_def m2_def q_def)
  define m4 where "m4 = m3\<lparr>m_mem := (m_mem m3)(q \<mapsto> k)\<rparr>"
  have "run_instr ct as (next_of s3) (Store w slot) m3 = Some m4"
    using reg by (simp add: run_instr_def m3(3) b2(2) m4_def q_def)
  note b4 = runs_buildVoid [OF v3(2) this]
  define s4 where "s4 = buildVoid (Store w slot) s3"
  have st4: "straight s3 s4" by (simp add: s4_def)
  have run: "runs ct as b s s4 m m4"
    using runs_trans [OF runs_trans [OF runs_trans [OF m1(1) b2(1) st(2)] m3(1) st(3)] b4] st4 by (simp add: s4_def)
  note iv = introduceValue_simps [OF i [folded s4_def]]
  obtain f ms where ms: "fc_values s1 = f # ms"
    using iv(7) st4 v3(1) by (cases "fc_values s1") (auto simp: straight_def)
  have s4: "fc_values s4 = f # ms" "next_of s3 \<le> next_of s4" using st4 v3(1) ms by (auto simp: straight_def)
  have "slots (f # ms) q" using m1(2) ms by (simp add: sim_def q_def)
  moreover have "q < next_of s4" using b2(3) v3(3) s4(2) by (simp add: q_def)
  moreover have "sim (f # ms) (next_of s4) m3 sw1" using sim_mono [OF m3(2) s4(2)] v3(1) ms by simp
  ultimately have "sim (f(a \<mapsto> VInstr q True) # ms) (next_of s4) m4 (sw1\<lparr>sw_vars := declare_var a k (sw_vars sw1)\<rparr>)"
    unfolding m4_def using reg by (intro sim_declare)
  then have "sims s' m4 (sw1\<lparr>sw_vars := declare_var a k (sw_vars sw1)\<rparr>)"
    using iv(2,6) s4(1) b2(2) by (simp add: q_def)
  moreover have "runs ct as b s s' m m4" using run iv(1) by (simp add: runs_def)
  ultimately show ?thesis using x r by (simp add: computes_arrives)
qed

lemma reaches_void_return:
  assumes "point_of s = Some b"
  shows "reaches (code_of (buildVoid RetVoid s) @ cs) ct as (At b (length (body (code_of s) b)) m)
    (Returned None (m_world m))"
  by (rule reaches_ret_void [where n = "next_of s" and post = "body cs b"])
    (use assms in \<open>simp add: builder_simps\<close>)

lemma branch_gen_compound:
  assumes "getKind t = KindCompoundStmt"
  shows "branch_gen (\<lambda>b s. codegenStmt (l_heap L) cx t b s)"
  using framed_stmt good_stmt compound_values [OF _ assms] by (auto simp: branch_gen_def scoped_def)

lemma stmt_correct:
  "branches_ok (l_heap L) t \<Longrightarrow> branch_correct (\<lambda>b s. codegenStmt (l_heap L) cx t b s) (exec_stmt L t)"
proof (induction t rule: ast_children_induct)
  case (node t)
  note IH = node.IH [OF _ branches_ok_child [OF node.prems]]
  show ?case
    unfolding branch_correct_def
  proof (intro allI impI)
    fix b s r s' as m sw x
    assume t: "codegenStmt (l_heap L) cx t b s = Inr (r, s')" and b: "point_of s = Some b" "b < next_of s"
      and num: "numbered s" and good: "good_state s" and sim: "sims s m sw" and x: "exec_stmt L t sw = Some x"
    show "arrives ct as b s r s' m x"
    proof (cases t)
      case (CompoundStmt a cs)
      with t obtain u where cs: "gen_seq (codegenStmt (l_heap L) cx) cs (Some b, enterValueScope s) = Inr (r, u)" and s': "s' = leaveValueScope u"
        by (auto simp: bindE_eq_Inr)
      from x CompoundStmt obtain y where y: "exec_seq (exec_stmt L) cs (enter_scope sw) = Some y"
        "x = (case y of Continue sw \<Rightarrow> Continue (leave_scope sw) | Return k w \<Rightarrow> Return k w)"
        by (auto split: option.splits outcome.splits)
      have "arrives ct as b (enterValueScope s) r u m y"
        by (rule seq_correct [OF _ cs _ _ _ _ _ y(1)])
          (use IH CompoundStmt b num good sim_enter [OF sim] framed_stmt good_stmt in \<open>auto simp: numbered_def\<close>)
      then show ?thesis using y(2) s' by (auto simp: arrives_def intro: sim_leave split: outcome.splits)
    next
      case (UnscopedCompoundStmt a cs)
      with t x have "gen_seq (codegenStmt (l_heap L) cx) cs (Some b, s) = Inr (r, s')" "exec_seq (exec_stmt L) cs sw = Some x" by simp_all
      then show ?thesis
        by (intro seq_correct [of cs "codegenStmt (l_heap L) cx" "exec_stmt L" b s])
          (use IH UnscopedCompoundStmt b num good sim framed_stmt good_stmt in auto)
    next
      case (ReturnStmt a e)
      show ?thesis
      proof (cases e)
        case None
        with t x ReturnStmt have "s' = buildVoid RetVoid s" "x = Return None (sw_world sw)" by auto
        moreover have "m_world m = sw_world sw" using sim by (simp add: sim_def)
        ultimately show ?thesis using reaches_void_return [OF b(1), where m = m] by (simp add: arrives_def)
      next
        case (Some k)
        with ReturnStmt show ?thesis using return_correct t b good sim x by simp
      qed
    next
      case (ExpressionStmt a e)
      with t x obtain v sv sw' where "codegenExpr (l_heap L) cx e s = Inr (v, s')" "r = Some b"
        "eval_expr L e sw = Some (sv, sw')" "x = Continue sw'"
        by (auto simp: bindE_eq_Inr)
      then show ?thesis
        using expr_computes [OF _ b(1) good sim, where as = as] unfolding computes_def
        by (metis computes_arrives)
    next
      case (DeclStmt a n e)
      then show ?thesis using decl_correct t b good sim x by simp
    next
      case (IfStmt a c y f)
      from x IfStmt obtain p sw1 where p: "eval_condition L c sw = Some (p, sw1)"
        by (auto split: option.splits)
      have x': "if_meaning p (exec_stmt L y) (map_option (exec_stmt L) f) sw1 = Some x"
        using x IfStmt p by (cases f; cases p) (simp_all add: if_meaning_def)
      have ok: "\<not> place (l_heap L) c" "getKind y = KindCompoundStmt"
        "\<And>z. f = Some z \<Longrightarrow> getKind z = KindCompoundStmt"
        using branches_ok_self [OF node.prems] IfStmt by (auto simp: branch_ok_def)
      show ?thesis
      proof (rule if_correct [OF _ b num good sim p ok(1) branch_gen_compound [OF ok(2)] _ _ x'])
        show "codegenIfStructure (l_heap L) cx b c (\<lambda>b s. codegenStmt (l_heap L) cx y b s)
            (map_option (\<lambda>g b s. codegenStmt (l_heap L) cx g b s) f) s = Inr (r, s')"
          using t IfStmt by simp
        show "branch_correct (\<lambda>b s. codegenStmt (l_heap L) cx y b s) (exec_stmt L y)"
          using IH IfStmt by simp
        show "rel_option (\<lambda>g x. branch_gen g \<and> branch_correct g x)
            (map_option (\<lambda>g b s. codegenStmt (l_heap L) cx g b s) f) (map_option (exec_stmt L) f)"
          using IH IfStmt ok(3) branch_gen_compound by (cases f) auto
      qed
    qed (use t in auto)
  qed
qed

section \<open>Functions\<close>

lemma frame_argument:
  assumes "frameArgument False (VArg i, NamedArgumentDecl a n) s = Inr s'" and "point_of s = Some b"
    and "i < length as" and "sims s m sw"
  obtains m' where "runs ct as b s s' m m'"
    and "sims s' m' (sw\<lparr>sw_vars := declare_var a (as ! i) (sw_vars sw)\<rparr>)" and "point_of s' = Some b"
    and "\<exists>xs. code_of s' = code_of s @ map (Pair (Some b)) xs" and "next_of s \<le> next_of s'"
    and "fc_context s' = fc_context s"
proof -
  obtain slot s1 where slot: "buildInstr (Alloca (getType n @ ''_framed'')) True s = (slot, s1)" by fastforce
  define s2 where "s2 = buildVoid (Store (VArg i) slot) s1"
  have i: "introduceValue a slot s2 = Inr s'" using assms(1) slot by (simp add: frameArgument_def s2_def)
  define q where "q = next_of s"
  define m1 where "m1 = set_reg q (RSlot q) (m\<lparr>m_mem := (m_mem m)(q := None)\<rparr>)"
  have "run_instr ct as (next_of s) (Alloca (getType n @ ''_framed'')) m = Some m1"
    by (simp add: run_instr_def m1_def q_def)
  note b1 = runs_build [OF slot assms(2) this]
  note st = straight_build [OF slot]
  have v1: "fc_values s1 = fc_values s" "point_of s1 = Some b" using st assms(2) by (auto simp: straight_def)
  have sim1: "sims s1 m1 sw" using sim_alloca [OF assms(4)] b1(3) v1(1) by (simp add: m1_def q_def)
  define m2 where "m2 = m1\<lparr>m_mem := (m_mem m1)(q \<mapsto> as ! i)\<rparr>"
  have reg: "m_regs m1 q = Some (RSlot q)" by (simp add: m1_def)
  then have "run_instr ct as (next_of s1) (Store (VArg i) slot) m1 = Some m2"
    using assms(3) by (simp add: run_instr_def b1(2) m2_def q_def)
  note b2 = runs_buildVoid [OF v1(2) this]
  have st2: "straight s1 s2" by (simp add: s2_def)
  have run: "runs ct as b s s2 m m2" using runs_trans [OF b1(1) b2] st2 by (simp add: s2_def)
  note iv = introduceValue_simps [OF i]
  obtain f ms where ms: "fc_values s = f # ms"
    using iv(7) st2 v1(1) by (cases "fc_values s") (auto simp: straight_def)
  have s2: "fc_values s2 = f # ms" "next_of s1 \<le> next_of s2" using st2 v1(1) ms by (auto simp: straight_def)
  have "slots (f # ms) q" using assms(4) ms by (simp add: sim_def q_def)
  moreover have "q < next_of s2" using b1(3) s2(2) by (simp add: q_def)
  moreover have "sim (f # ms) (next_of s2) m1 sw" using sim_mono [OF sim1 s2(2)] v1(1) ms by simp
  ultimately have "sim (f(a \<mapsto> VInstr q True) # ms) (next_of s2) m2 (sw\<lparr>sw_vars := declare_var a (as ! i) (sw_vars sw)\<rparr>)"
    unfolding m2_def using reg by (intro sim_declare)
  then have "sims s' m2 (sw\<lparr>sw_vars := declare_var a (as ! i) (sw_vars sw)\<rparr>)"
    using iv(2,6) s2(1) b1(2) by (simp add: q_def)
  moreover have "runs ct as b s s' m m2" using run iv(1) by (simp add: runs_def)
  moreover have "\<exists>xs. code_of s' = code_of s @ map (Pair (Some b)) xs"
    using straight_trans [OF st st2] iv(1) assms(2) by (auto simp: straight_def)
  moreover have "point_of s' = Some b" "next_of s \<le> next_of s'"
    using iv(2,3) straight_trans [OF st st2] assms(2) by (auto simp: straight_def)
  moreover have "fc_context s' = fc_context s" using iv(8) context_build(1) [OF slot] by (simp add: s2_def)
  ultimately show thesis using that by blast
qed

lemma argument_scope_simps [simp]:
  "argument_scope M [] ks = M"
  "argument_scope M (a # args) (k # ks) =
     argument_scope (case a of NamedArgumentDecl d n \<Rightarrow> M(d \<mapsto> k) | _ \<Rightarrow> M) args ks"
  by (simp_all add: argument_scope_def)

lemma argument_scope_unnamed:
  "\<nexists>d n. t = NamedArgumentDecl d n \<Longrightarrow> argument_scope M (t # args) (k # ks) = argument_scope M args ks"
  by (cases t) simp_all

lemma frame_arguments:
  assumes "foldE (frameArgument False) (zip (map VArg [i ..< i + length args]) args) s = Inr s'"
    and "point_of s = Some b" and "drop i as = ks" and "length ks = length args"
    and "sims s m \<lparr>sw_vars = [M], sw_world = w\<rparr>"
  shows "\<exists>m'. runs ct as b s s' m m' \<and> sims s' m' \<lparr>sw_vars = [argument_scope M args ks], sw_world = w\<rparr>
    \<and> point_of s' = Some b \<and> (\<exists>xs. code_of s' = code_of s @ map (Pair (Some b)) xs) \<and> next_of s \<le> next_of s'
    \<and> fc_context s' = fc_context s"
  using assms
proof (induction args arbitrary: i s ks m M)
  case Nil
  then show ?case by (intro exI [of _ m]) auto
next
  case (Cons t args)
  have upt: "[i ..< i + length (t # args)] = i # [Suc i ..< Suc i + length args]" by (simp add: upt_rec)
  with Cons.prems(1) obtain s1 where t: "frameArgument False (VArg i, t) s = Inr s1"
    and args: "foldE (frameArgument False) (zip (map VArg [Suc i ..< Suc i + length args]) args) s1 = Inr s'"
    by (auto simp: bindE_eq_Inr simp del: upt_Suc)
  obtain k ks' where ks: "ks = k # ks'" "length ks' = length args" using Cons.prems(4) by (cases ks) auto
  note d = drop_eq_ConsD [OF Cons.prems(3) [unfolded ks(1)]]
  have IH: "\<exists>m'. runs ct as b s1 s' m1 m' \<and> sims s' m' \<lparr>sw_vars = [argument_scope M1 args ks'], sw_world = w\<rparr>
    \<and> point_of s' = Some b \<and> (\<exists>xs. code_of s' = code_of s1 @ map (Pair (Some b)) xs) \<and> next_of s1 \<le> next_of s'
    \<and> fc_context s' = fc_context s1"
    if "point_of s1 = Some b" "sims s1 m1 \<lparr>sw_vars = [M1], sw_world = w\<rparr>" for m1 M1
    by (rule Cons.IH [OF args that(1) d(3) ks(2) that(2)])
  show ?case
  proof (cases "\<exists>a n. t = NamedArgumentDecl a n")
    case False
    then have "s1 = s" using t frameArgument_unnamed [OF False, of False "VArg i" s] by simp
    with IH [of m M] Cons.prems(2,5) argument_scope_unnamed [OF False] ks(1) show ?thesis by simp
  next
    case True
    then obtain a n where a: "t = NamedArgumentDecl a n" by blast
    obtain m1 where m1: "runs ct as b s s1 m m1"
      "sims s1 m1 \<lparr>sw_vars = [M(a \<mapsto> k)], sw_world = w\<rparr>" "point_of s1 = Some b"
      "\<exists>xs. code_of s1 = code_of s @ map (Pair (Some b)) xs" "next_of s \<le> next_of s1" "fc_context s1 = fc_context s"
      using frame_argument [OF t [unfolded a] Cons.prems(2) d(1) Cons.prems(5)]
      by (simp add: declare_var_def d(2)) blast
    from IH [OF m1(3,2)] obtain m2 where m2: "runs ct as b s1 s' m1 m2"
      "sims s' m2 \<lparr>sw_vars = [argument_scope (M(a \<mapsto> k)) args ks'], sw_world = w\<rparr>" "point_of s' = Some b"
      "\<exists>xs. code_of s' = code_of s1 @ map (Pair (Some b)) xs" "next_of s1 \<le> next_of s'" "fc_context s' = fc_context s1"
      by blast
    from m1(4) m2(4) have "\<exists>xs. code_of s' = code_of s @ map (Pair (Some b)) xs"
      by (metis append.assoc map_append)
    moreover have "runs ct as b s s' m m2" using m2(4) runs_append [OF m1(1) m2(1)] by blast
    ultimately show ?thesis using m1(5,6) m2 a ks(1) by (intro exI [of _ m2]) simp
  qed
qed

lemma function_correct:
  assumes "codegenFunction (l_heap L) cx node (fc_new n c) = Inr s'" and "good c"
    and "length ks = n" and "branches_ok (l_heap L) node" and "exec_function L node ks w = Some (r, w')"
  shows "reaches (code_of s' @ cs) ct ks (entry_config w) (Returned r w')"
proof -
  from assms(1) obtain a nm args ret t where node: "node = FunctionDecl a nm args ret t"
    by (cases node) (auto simp: codegenFunction_def)
  define s0 where "s0 = enterValueScope (fc_new n c)"
  obtain b s1 where b: "newBlock ''entry'' s0 = (b, s1)" by fastforce
  have b0: "b = 0" "next_of s1 = 1" "code_of s1 = []" "fc_values s1 = [Map.empty]" "fc_context s1 = c"
    "arg_size (fc_builder s1) = n" "ir_blocks (fc_builder s0) = []" "arg_size (fc_builder s0) = n"
    using b by (auto simp: s0_def builder_simps fc_new_def ir_new_def)
  have stack: "setUpStackFrame (children args) False False s0 = (if length (children args) = n
      then bindE (foldE (frameArgument False) (zip (map VArg [0 ..< n]) (children args)) (insertAt 0 s1)) (\<lambda>s. Inr (0, s))
      else Inl (AssertFailed ''The given arguments must have the same count as the llvm::Function!''))"
    using b b0 by (simp add: setUpStackFrame_def createEntryBlock_def arg_size_insertAt)
  from assms(1) node stack obtain s2 where len: "length (children args) = n"
    and frame: "foldE (frameArgument False) (zip (map VArg [0 ..< n]) (children args)) (insertAt 0 s1) = Inr s2"
    and rest: "bindE (codegenStmt (l_heap L) cx t 0 s2) (\<lambda>(current, s).
        Inr (leaveValueScope (case current of Some _ \<Rightarrow> buildVoid RetVoid s | None \<Rightarrow> s))) = Inr s'"
    by (auto simp: codegenFunction_def s0_def [symmetric] bindE_eq_Inr split: if_splits)
  define m :: "'w machine" where "m = \<lparr>m_regs = Map.empty, m_mem = Map.empty, m_world = w\<rparr>"
  have "sims (insertAt 0 s1) m \<lparr>sw_vars = [Map.empty], sw_world = w\<rparr>"
    using b0 by (simp add: sim_def slots_def live_def abs_vars_def abs_scope_def m_def fun_eq_iff)
  then obtain m2 where m2: "runs ct ks 0 (insertAt 0 s1) s2 m m2"
    "sims s2 m2 \<lparr>sw_vars = [argument_scope Map.empty (children args) ks], sw_world = w\<rparr>"
    "point_of s2 = Some 0" "\<exists>xs. code_of s2 = code_of (insertAt 0 s1) @ map (Pair (Some 0)) xs"
    "next_of (insertAt 0 s1) \<le> next_of s2" "fc_context s2 = fc_context (insertAt 0 s1)"
    using frame_arguments [of 0 "children args" "insertAt 0 s1" s2 0 ks ks m Map.empty w] frame len assms(3)
    by auto
  have lt: "0 < next_of s2" using m2(5) b0 by simp
  have num: "numbered s2" using m2(4) lt b0 by (auto simp: numbered_def)
  from rest obtain q s3 where t: "codegenStmt (l_heap L) cx t 0 s2 = Inr (q, s3)"
    and s': "s' = leaveValueScope (case q of Some _ \<Rightarrow> buildVoid RetVoid s3 | None \<Rightarrow> s3)"
    by (auto simp: bindE_eq_Inr)
  from assms(5) node obtain x where x: "exec_stmt L t \<lparr>sw_vars = [argument_scope Map.empty (children args) ks], sw_world = w\<rparr> = Some x"
    and rx: "(r, w') = (case x of Continue s \<Rightarrow> (None, sw_world s) | Return r w \<Rightarrow> (r, w))"
    by (auto simp: exec_function_def argument_scope_def split: option.splits outcome.splits)
  have "branches_ok (l_heap L) t" by (rule branches_ok_child [OF assms(4)]) (simp add: node)
  from branch_correctD [OF stmt_correct [OF this] t m2(3) lt num _ m2(2) x]
  have arr: "arrives ct ks 0 s2 q s3 m2 x" using m2(6) b0(5) assms(2) by simp
  have s3: "\<exists>xs. code_of s' = code_of s3 @ xs"
    using s' by (auto simp: builder_simps split: option.splits)
  then have start: "reaches (code_of s' @ cs) ct ks (entry_config w) (At 0 (length (body (code_of s2) 0)) m2)" for cs
  proof -
    obtain xs where "code_of s' = code_of s2 @ xs"
      using s3 grown_code [OF left_atD(1) [OF stmt_frame [OF t m2(3) lt]]] by auto
    then show ?thesis
      using m2(1) b0(3) unfolding runs_def entry_config_def m_def by simp
  qed
  show ?thesis
  proof (cases x)
    case (Return r1 w1)
    with arr rx s3 have "reaches (code_of s' @ cs) ct ks (At 0 (length (body (code_of s2) 0)) m2) (Returned r w')"
      by (auto simp: arrives_def)
    with start show ?thesis by (rule reaches_trans)
  next
    case (Continue sw)
    with arr obtain c1 m3 where c: "q = Some c1" "sims s3 m3 sw" "\<And>cs. reaches (code_of s3 @ cs) ct ks
        (At 0 (length (body (code_of s2) 0)) m2) (At c1 (length (body (code_of s3) c1)) m3)"
      by (auto simp: arrives_def)
    have "point_of s3 = Some c1" using stmt_frame [OF t m2(3) lt] c(1) by (simp add: left_at_def)
    then have "reaches (code_of s' @ cs) ct ks (At c1 (length (body (code_of s3) c1)) m3) (Returned None (m_world m3))"
      using reaches_void_return [of s3 c1 cs ks m3] s' c(1) by simp
    moreover have "reaches (code_of s' @ cs) ct ks (At 0 (length (body (code_of s2) 0)) m2) (At c1 (length (body (code_of s3) c1)) m3)"
      using c(3) s3 by fastforce
    moreover have "r = None" "w' = m_world m3" using rx Continue c(2) by (simp_all add: sim_def)
    ultimately show ?thesis using start by (metis reaches_trans)
  qed
qed

end

end
