(* ===== verification/Codegen_Total.thy ===== *)
theory Codegen_Total imports Codegen_Correct begin

text \<open>
  Functions for which the generator succeeds, as a check that can be run on a tree: every reference is
  to a global the context knows or to a variable of an open scope, and no statement follows one that
  ends the control flow.
\<close>

section \<open>The check\<close>

text \<open>The functions that are known and the instantiations that are completed.\<close>

record globals =
  g_heap :: heap
  g_function :: "addr \<Rightarrow> bool"
  g_inst :: "addr \<Rightarrow> bool"

definition ref_ok :: "globals \<Rightarrow> addr list \<Rightarrow> addr option \<Rightarrow> bool" where
  "ref_ok G sc d = (case d of None \<Rightarrow> False | Some k \<Rightarrow> (case g_heap G k of
     Some (FunctionDecl a n args ret b) \<Rightarrow> g_function G k
   | Some (NamedArgumentDecl a n) \<Rightarrow> k \<in> set sc
   | Some (DeclStmt a n e) \<Rightarrow> k \<in> set sc
   | Some (GlobalConstantDecl a n e) \<Rightarrow> isConstantExpr (getKind e)
   | _ \<Rightarrow> False))"

fun expr_ok :: "globals \<Rightarrow> addr list \<Rightarrow> ast \<Rightarrow> bool" where
  "expr_ok G sc (DeclRefExpr a n d) = ref_ok G sc d"
| "expr_ok G sc (MetaInstantiationExpr a rg d es) = g_inst G a"
| "expr_ok G sc (IntegerLiteralExpr a l) = True"
| "expr_ok G sc (BooleanLiteralExpr a l) = True"
| "expr_ok G sc (BinaryOperatorExpr a b l r) = (expr_ok G sc l \<and> expr_ok G sc r)"
| "expr_ok G sc (CallOperatorExpr a c es) = (expr_ok G sc c \<and> list_all (expr_ok G sc) es)"
| "expr_ok G sc t = False"

text \<open>The variables in scope after a statement, and whether it ends the control flow.\<close>

type_synonym flow = "(addr list \<times> bool) option"

fun flow_seq :: "(addr list \<Rightarrow> 'a \<Rightarrow> flow) \<Rightarrow> addr list \<Rightarrow> 'a list \<Rightarrow> flow" where
  "flow_seq f sc [] = Some (sc, False)"
| "flow_seq f sc (c # cs) = (case f sc c of None \<Rightarrow> None
     | Some (sc, ended) \<Rightarrow> if ended then (if cs = [] then Some (sc, True) else None) else flow_seq f sc cs)"

lemma flow_seq_cong [fundef_cong]:
  "sc = sc' \<Longrightarrow> xs = ys \<Longrightarrow> (\<And>sc x. x \<in> set ys \<Longrightarrow> f sc x = g sc x) \<Longrightarrow> flow_seq f sc xs = flow_seq g sc' ys"
proof (induction xs arbitrary: ys sc sc')
  case (Cons x xs)
  then show ?case by (auto split: option.splits)
qed simp

definition flow_if :: "globals \<Rightarrow> addr list \<Rightarrow> ast \<Rightarrow> ast \<Rightarrow> ast option \<Rightarrow> flow \<Rightarrow> flow option \<Rightarrow> flow" where
  "flow_if G sc c t f x y =
     (if expr_ok G sc c \<and> getKind t = KindCompoundStmt
        \<and> (case f of None \<Rightarrow> True | Some g \<Rightarrow> getKind g = KindCompoundStmt)
      then (case x of None \<Rightarrow> None | Some (sc1, e1) \<Rightarrow> (case y of
          None \<Rightarrow> Some (sc, False)
        | Some None \<Rightarrow> None
        | Some (Some (sc2, e2)) \<Rightarrow> Some (sc, e1 \<and> e2)))
      else None)"

fun flow :: "globals \<Rightarrow> addr list \<Rightarrow> ast \<Rightarrow> flow" where
  "flow G sc (CompoundStmt a cs) = map_option (\<lambda>(sc', e). (sc, e)) (flow_seq (flow G) sc cs)"
| "flow G sc (UnscopedCompoundStmt a cs) = flow_seq (flow G) sc cs"
| "flow G sc (ReturnStmt a e) = (case e of None \<Rightarrow> Some (sc, True)
     | Some x \<Rightarrow> if expr_ok G sc x then Some (sc, True) else None)"
| "flow G sc (ExpressionStmt a e) = (if expr_ok G sc e then Some (sc, False) else None)"
| "flow G sc (DeclStmt a n e) = (if expr_ok G sc e then Some (a # sc, False) else None)"
| "flow G sc (IfStmt a c t f) = flow_if G sc c t f (flow G sc t) (map_option (flow G sc) f)"
| "flow G sc t = None"

definition function_ok :: "globals \<Rightarrow> ast \<Rightarrow> bool" where
  "function_ok G t = (case t of
     FunctionDecl a n args ret b \<Rightarrow>
       flow G (map addr_of (filter (\<lambda>x. getKind x = KindNamedArgumentDecl) (children args))) b \<noteq> None
   | _ \<Rightarrow> False)"

section \<open>The generator succeeds\<close>

definition covers :: "values_scope list \<Rightarrow> addr list \<Rightarrow> bool" where
  "covers ms sc \<longleftrightarrow> (\<forall>d \<in> set sc. lookup_values ms d \<noteq> None)"

text \<open>A context that has the globals of \<open>G\<close>.\<close>

locale total_context = ir_context_laws cx good fname iname
  for cx :: "'c ir_context" and good fname iname +
  fixes G :: globals
  assumes function_known: "good c \<Longrightarrow> g_function G k \<Longrightarrow> \<exists>v c'. lookupGlobal_function cx k c = Inr (v, c')"
    and inst_completed: "good c \<Longrightarrow> g_inst G a \<Longrightarrow> \<exists>v c'. lookupGlobal_inst cx a True c = Inr (Some v, c')"
begin

lemma declRef_total:
  assumes "ref_ok G sc d" and "covers (fc_values s) sc" and "good_state s"
  shows "\<exists>v s'. codegenDeclRef (g_heap G) cx d s = Inr (v, s')"
proof -
  obtain k where d: "d = Some k" using assms(1) by (cases d) (auto simp: ref_ok_def)
  then obtain decl where k: "g_heap G k = Some decl" using assms(1) by (auto simp: ref_ok_def split: option.splits)
  show ?thesis
  proof (cases decl)
    case (FunctionDecl a n args r b)
    then have "g_function G k" using assms(1) d k by (simp add: ref_ok_def)
    from function_known [OF assms(3) this] obtain v c where "lookupGlobal_function cx k (fc_context s) = Inr (v, c)"
      by blast
    then show ?thesis using d k FunctionDecl by (simp add: codegenDeclRef_def isFunctionDecl_def)
  next
    case (NamedArgumentDecl a n)
    then have "lookup_values (fc_values s) k \<noteq> None" using assms(1,2) d k by (simp add: ref_ok_def covers_def)
    then show ?thesis using d k NamedArgumentDecl
      by (auto simp: codegenDeclRef_def isFunctionDecl_def isVarDecl_def lookupLocal_def)
  next
    case (DeclStmt a n e)
    then have "lookup_values (fc_values s) k \<noteq> None" using assms(1,2) d k by (simp add: ref_ok_def covers_def)
    then show ?thesis using d k DeclStmt
      by (auto simp: codegenDeclRef_def isFunctionDecl_def isVarDecl_def lookupLocal_def)
  next
    case (GlobalConstantDecl a n e)
    then have "isConstantExpr (getKind e)" using assms(1) d k by (simp add: ref_ok_def)
    then show ?thesis using d k GlobalConstantDecl
      by (cases e) (auto simp: codegenDeclRef_def isFunctionDecl_def isVarDecl_def isConstantExpr_def)
  qed (use assms(1) d k in \<open>simp_all add: ref_ok_def\<close>)
qed

definition expr_total :: "ast \<Rightarrow> bool" where
  "expr_total t \<longleftrightarrow> (\<forall>sc s. expr_ok G sc t \<longrightarrow> covers (fc_values s) sc \<longrightarrow> good_state s \<longrightarrow>
     (\<exists>v s'. codegenExpr (g_heap G) cx t s = Inr (v, s') \<and> fc_values s' = fc_values s \<and> good_state s'))"

lemma expr_totalI:
  "(\<And>sc s. expr_ok G sc t \<Longrightarrow> covers (fc_values s) sc \<Longrightarrow> good_state s \<Longrightarrow>
     \<exists>v s'. codegenExpr (g_heap G) cx t s = Inr (v, s')) \<Longrightarrow> expr_total t"
  unfolding expr_total_def using straight_expr good_expr unfolding straight_def by blast

lemma expr_totalE:
  assumes "expr_total t" and "expr_ok G sc t" and "covers (fc_values s) sc" and "good_state s"
  obtains v s' where "codegenExpr (g_heap G) cx t s = Inr (v, s')" and "fc_values s' = fc_values s"
    and "good_state s'"
  using assms unfolding expr_total_def by blast

lemma arguments_total:
  assumes "\<And>e. e \<in> set es \<Longrightarrow> expr_total e" and "list_all (expr_ok G sc) es"
    and "covers (fc_values s) sc" and "good_state s"
  shows "\<exists>vs s'. mapS (\<lambda>e s. bindE (codegenExpr (g_heap G) cx e s) (\<lambda>(v, s). Inr (loadMemory v s))) es s
    = Inr (vs, s')"
  using assms
proof (induction es arbitrary: s)
  case (Cons e es)
  from Cons.prems(1) have "expr_total e" by simp
  then obtain v s1 where e: "codegenExpr (g_heap G) cx e s = Inr (v, s1)" "fc_values s1 = fc_values s" "good_state s1"
    by (rule expr_totalE [of e sc s]) (use Cons.prems in auto)
  obtain w s2 where w: "loadMemory v s1 = (w, s2)" by fastforce
  then have "fc_values s2 = fc_values s" "good_state s2"
    using straight_loadMemory [OF w] context_build(3) [OF w] e by (simp_all add: straight_def)
  then obtain vs s' where "mapS (\<lambda>e s. bindE (codegenExpr (g_heap G) cx e s) (\<lambda>(v, s). Inr (loadMemory v s))) es s2
      = Inr (vs, s')"
    using Cons.IH [of s2] Cons.prems by auto
  with e w show ?case by simp
qed simp

lemma expr_total_all: "expr_total t"
proof (induction t rule: ast_children_induct)
  case (node t)
  show ?case
  proof (rule expr_totalI)
    fix sc s assume ok: "expr_ok G sc t" and cov: "covers (fc_values s) sc" and good: "good_state s"
    show "\<exists>v s'. codegenExpr (g_heap G) cx t s = Inr (v, s')"
    proof (cases t)
      case (DeclRefExpr a n d)
      with ok cov good show ?thesis by (auto intro: declRef_total)
    next
      case (MetaInstantiationExpr a rg d es)
      then obtain v c where "lookupGlobal_inst cx a True (fc_context s) = Inr (Some v, c)"
        using inst_completed [OF good, of a] ok by auto
      with MetaInstantiationExpr show ?thesis by simp
    next
      case (BinaryOperatorExpr a b l r)
      have "expr_total l" "expr_total r" using node.IH BinaryOperatorExpr by auto
      obtain x s1 where l: "codegenExpr (g_heap G) cx l s = Inr (x, s1)" "fc_values s1 = fc_values s" "good_state s1"
        by (rule expr_totalE [OF \<open>expr_total l\<close> _ cov good]) (use ok BinaryOperatorExpr in auto)
      obtain y s2 where "codegenExpr (g_heap G) cx r s1 = Inr (y, s2)"
        by (rule expr_totalE [OF \<open>expr_total r\<close> _ _ l(3), where sc = sc])
          (use ok BinaryOperatorExpr cov l(2) in simp_all)
      moreover obtain v s3 where "codegenOperator (getType b) x y s2 = (v, s3)" by fastforce
      ultimately show ?thesis using l(1) BinaryOperatorExpr by simp
    next
      case (CallOperatorExpr a c es)
      have "expr_total c" using node.IH CallOperatorExpr by auto
      then obtain f s1 where c: "codegenExpr (g_heap G) cx c s = Inr (f, s1)" "fc_values s1 = fc_values s" "good_state s1"
        by (rule expr_totalE [OF _ _ cov good]) (use ok CallOperatorExpr in auto)
      have "covers (fc_values s1) sc" using cov c(2) by simp
      then obtain vs s2 where "mapS (\<lambda>e s. bindE (codegenExpr (g_heap G) cx e s) (\<lambda>(v, s). Inr (loadMemory v s))) es s1
          = Inr (vs, s2)"
        using arguments_total [of es sc s1] node.IH CallOperatorExpr ok c(3) by auto
      with c CallOperatorExpr show ?thesis by (simp add: buildInstr_def split_def Let_def)
    qed (use ok in auto)
  qed
qed

lemmas expr_totalD = expr_totalE [OF expr_total_all]

section \<open>Statements\<close>

definition stmt_total :: "ast \<Rightarrow> bool" where
  "stmt_total t \<longleftrightarrow> (\<forall>sc sc' ended b s. flow G sc t = Some (sc', ended) \<longrightarrow> covers (fc_values s) sc \<longrightarrow>
     fc_values s \<noteq> [] \<longrightarrow> good_state s \<longrightarrow> point_of s = Some b \<longrightarrow> b < next_of s \<longrightarrow>
     (\<exists>r s'. codegenStmt (g_heap G) cx t b s = Inr (r, s') \<and> (ended \<longleftrightarrow> r = None) \<and> covers (fc_values s') sc'))"

lemma stmt_totalE:
  assumes "stmt_total t" and "flow G sc t = Some (sc', ended)" and "covers (fc_values s) sc"
    and "fc_values s \<noteq> []" and "good_state s" and "point_of s = Some b" and "b < next_of s"
  obtains r s' where "codegenStmt (g_heap G) cx t b s = Inr (r, s')" and "ended \<longleftrightarrow> r = None"
    and "covers (fc_values s') sc'" and "left_at b s r s'" and "good_state s'" and "fc_values s' \<noteq> []"
proof -
  from assms obtain r s' where t: "codegenStmt (g_heap G) cx t b s = Inr (r, s')" "ended \<longleftrightarrow> r = None"
    "covers (fc_values s') sc'"
    unfolding stmt_total_def by blast
  have l: "left_at b s r s'" by (rule stmt_frame [OF t(1) assms(6,7)])
  have "good_state s'" using good_stmt [unfolded keeps_good_def] t(1) assms(5) by blast
  moreover have "fc_values s' \<noteq> []" using left_atD(3) [OF l] assms(4) by auto
  ultimately show thesis using that t l by blast
qed

lemma seq_total:
  assumes "\<And>c. c \<in> set cs \<Longrightarrow> stmt_total c" and "flow_seq (flow G) sc cs = Some (sc', ended)"
    and "covers (fc_values s) sc" and "fc_values s \<noteq> []" and "good_state s" and "point_of s = Some b"
    and "b < next_of s"
  shows "\<exists>r s'. foldE (\<lambda>c (current, s). case current of None \<Rightarrow> Inl NullDeref
      | Some b \<Rightarrow> codegenStmt (g_heap G) cx c b s) cs (Some b, s) = Inr (r, s') \<and> (ended \<longleftrightarrow> r = None)
    \<and> covers (fc_values s') sc'"
  using assms
proof (induction cs arbitrary: sc b s)
  case (Cons c cs)
  from Cons.prems(2) obtain sc1 e where c: "flow G sc c = Some (sc1, e)" by (auto split: option.splits)
  have "stmt_total c" using Cons.prems(1) by simp
  from stmt_totalE [OF this c Cons.prems(3-7)] obtain r s1 where s1: "codegenStmt (g_heap G) cx c b s = Inr (r, s1)"
    "e \<longleftrightarrow> r = None" "covers (fc_values s1) sc1" "left_at b s r s1" "good_state s1" "fc_values s1 \<noteq> []" .
  show ?case
  proof (cases r)
    case None
    with s1 c Cons.prems(2) show ?thesis by (auto split: if_splits)
  next
    case (Some d)
    with c s1(2) Cons.prems(2) have "flow_seq (flow G) sc1 cs = Some (sc', ended)" by simp
    from Cons.IH [OF Cons.prems(1) this s1(3,6,5)] left_atD(5,6) [OF s1(4) Some] s1(1) Some
    show ?thesis by auto
  qed
qed auto

lemma closeBranch_known:
  assumes "closeBranch r k s = (k', s')"
  shows "k' = None \<longleftrightarrow> r = None \<and> k = None" "fc_values s' = fc_values s" "fc_context s' = fc_context s"
proof -
  have [simp]: "fc_values (buildVoid i t) = fc_values t" for i t
    using straight_buildVoid [of t i] by (simp add: straight_def)
  obtain b t where b: "newBlock ''continue_block'' s = (b, t)" by fastforce
  show "k' = None \<longleftrightarrow> r = None \<and> k = None" "fc_values s' = fc_values s"
    using assms b newBlock_simps(4) [OF b]
    by (cases r; cases k; auto simp: closeBranch_def lazyContinue_def)+
  show "fc_context s' = fc_context s" by (rule context_closeBranch [OF assms])
qed

lemma falseBranch_total:
  assumes "\<And>g. f = Some g \<Longrightarrow> stmt_total g \<and> getKind g = KindCompoundStmt \<and> (\<exists>sc'. flow G sc g = Some (sc', ended))"
    and "covers (fc_values s) sc" and "fc_values s \<noteq> []" and "good_state s"
  shows "\<exists>fb k' s'. codegenFalseBranch (map_option (\<lambda>g b s. codegenStmt (g_heap G) cx g b s) f) k s = Inr (fb, k', s')
    \<and> fc_values s' = fc_values s \<and> good_state s' \<and> (k' = None \<longleftrightarrow> k = None \<and> f \<noteq> None \<and> ended)"
proof (cases f)
  case None
  with assms(4) show ?thesis
    by (cases k) (auto simp: codegenFalseBranch_def lazyContinue_def builder_simps)
next
  case (Some g)
  define made where "made = (case k of Some p \<Rightarrow> newBlockBefore p ''false_block'' s | None \<Rightarrow> newBlock ''false_block'' s)"
  obtain b s1 where b: "made = (b, s1)" by fastforce
  have s1: "b < next_of s1" "fc_values s1 = fc_values s" "fc_context s1 = fc_context s"
    using b by (auto simp: made_def builder_simps split: option.splits)
  from assms(1) [OF Some] obtain sc' where g: "stmt_total g" "getKind g = KindCompoundStmt"
    "flow G sc g = Some (sc', ended)" by blast
  obtain r s2 where r: "codegenStmt (g_heap G) cx g b (insertAt b s1) = Inr (r, s2)" "ended \<longleftrightarrow> r = None"
    "good_state s2"
    by (rule stmt_totalE [OF g(1,3), of "insertAt b s1" b]) (use s1 assms(2-4) in auto)
  have v: "fc_values s2 = fc_values s" using compound_values [OF r(1) g(2)] s1 by simp
  obtain k' s' where c: "closeBranch r k s2 = (k', s')" by fastforce
  note k = closeBranch_known [OF c]
  have "codegenFalseBranch (map_option (\<lambda>g b s. codegenStmt (g_heap G) cx g b s) f) k s = Inr (b, k', s')"
    using Some b r(1) c by (simp add: codegenFalseBranch_def made_def [symmetric])
  with k v r(2,3) Some show ?thesis by auto
qed

lemma if_total:
  assumes "flow G sc (IfStmt a c t f) = Some (sc', ended)" and "stmt_total t" and "\<And>g. f = Some g \<Longrightarrow> stmt_total g"
    and "covers (fc_values s) sc" and "fc_values s \<noteq> []" and "good_state s"
    and "point_of s = Some b" and "b < next_of s"
  shows "\<exists>r s'. codegenStmt (g_heap G) cx (IfStmt a c t f) b s = Inr (r, s') \<and> (ended \<longleftrightarrow> r = None)
    \<and> covers (fc_values s') sc'"
proof -
  from assms(1) have c: "expr_ok G sc c" "getKind t = KindCompoundStmt" "flow G sc t \<noteq> None"
    and comp: "\<And>g. f = Some g \<Longrightarrow> getKind g = KindCompoundStmt \<and> flow G sc g \<noteq> None"
    by (cases f; auto simp: flow_if_def split: if_splits option.splits)+
  then obtain sc1 e1 where t: "flow G sc t = Some (sc1, e1)" by auto
  define e2 where "e2 = (case f of None \<Rightarrow> True | Some g \<Rightarrow> snd (the (flow G sc g)))"
  have f2: "\<And>g. f = Some g \<Longrightarrow> \<exists>sc2. flow G sc g = Some (sc2, e2)" and e2: "ended \<longleftrightarrow> e1 \<and> f \<noteq> None \<and> e2"
    using comp assms(1) t by (cases f; auto simp: e2_def flow_if_def split: if_splits option.splits)+
  have sc': "sc' = sc" using assms(1) by (cases f) (auto simp: flow_if_def split: if_splits option.splits)
  obtain tb s1 where 1: "newBlock ''true_block'' s = (tb, s1)" by fastforce
  note nb = newBlock_simps [OF 1]
  obtain rt s2 where 2: "codegenStmt (g_heap G) cx t tb (insertAt tb s1) = Inr (rt, s2)" "e1 \<longleftrightarrow> rt = None" "good_state s2"
    by (rule stmt_totalE [OF assms(2) t, of "insertAt tb s1" tb]) (use nb assms(4-6) in auto)
  have v2: "fc_values s2 = fc_values s" using compound_values [OF 2(1) c(2)] nb by simp
  obtain k1 s3 where 3: "closeBranch rt None s2 = (k1, s3)" by fastforce
  note k1 = closeBranch_known [OF 3]
  have "\<exists>fb k' s'. codegenFalseBranch (map_option (\<lambda>g b s. codegenStmt (g_heap G) cx g b s) f) k1 s3 = Inr (fb, k', s')
    \<and> fc_values s' = fc_values s3 \<and> good_state s' \<and> (k' = None \<longleftrightarrow> k1 = None \<and> f \<noteq> None \<and> e2)"
    by (rule falseBranch_total) (use assms(3-5) comp f2 k1 v2 2(3) in auto)
  then obtain fb k2 s4 where 4: "codegenFalseBranch (map_option (\<lambda>g b s. codegenStmt (g_heap G) cx g b s) f) k1 s3
      = Inr (fb, k2, s4)" "fc_values s4 = fc_values s3" "good_state s4" "k2 = None \<longleftrightarrow> k1 = None \<and> f \<noteq> None \<and> e2"
    by blast
  obtain v s5 where 5: "codegenExpr (g_heap G) cx c (insertAt b s4) = Inr (v, s5)" "fc_values s5 = fc_values s4"
    by (rule expr_totalD [OF c(1), of "insertAt b s4"]) (use 4(2,3) k1(2) v2 assms(4) in auto)
  have st: "fc_values (buildVoid (CondBr p tb fb) s6) = fc_values s5" if "buildInstr (IsNotNull v) False s5 = (p, s6)" for p s6
    using straight_build [OF that] straight_buildVoid by (metis straight_def)
  obtain p s6 where 6: "buildInstr (IsNotNull v) False s5 = (p, s6)" by fastforce
  define s7 where "s7 = buildVoid (CondBr p tb fb) s6"
  have "codegenStmt (g_heap G) cx (IfStmt a c t f) b s
      = Inr (case k2 of Some q \<Rightarrow> (Some q, insertAt q s7) | None \<Rightarrow> (None, s7))"
    using 1 2(1) 3 4(1) 5(1) 6 by (simp add: codegenIfStructure_def s7_def Let_def split: option.split)
  moreover have "ended \<longleftrightarrow> k2 = None" using e2 4(4) k1(1) 2(2) by auto
  moreover have "fc_values s7 = fc_values s" using st [OF 6] 5(2) 4(2) k1(2) v2 by (simp add: s7_def)
  ultimately show ?thesis using assms(4) sc' by (auto split: option.splits)
qed

lemma stmt_total_all: "stmt_total t"
proof (induction t rule: ast_children_induct)
  case (node t)
  show ?case
    unfolding stmt_total_def
  proof (intro allI impI)
    fix sc sc' ended b s
    assume fl: "flow G sc t = Some (sc', ended)" and cov: "covers (fc_values s) sc" and ne: "fc_values s \<noteq> []"
      and good: "good_state s" and b: "point_of s = Some b" "b < next_of s"
    show "\<exists>r s'. codegenStmt (g_heap G) cx t b s = Inr (r, s') \<and> (ended \<longleftrightarrow> r = None) \<and> covers (fc_values s') sc'"
    proof (cases t)
      case (CompoundStmt a cs)
      from fl [unfolded CompoundStmt flow.simps] obtain sc1
        where f: "flow_seq (flow G) sc cs = Some (sc1, ended)" and sc': "sc' = sc"
        by (cases "flow_seq (flow G) sc cs") auto
      have "covers (fc_values (enterValueScope s)) sc" using cov by (simp add: covers_def)
      moreover have "stmt_total c" if "c \<in> set cs" for c using node.IH CompoundStmt that by simp
      ultimately obtain r u where u: "foldE (\<lambda>c (current, s). case current of None \<Rightarrow> Inl NullDeref
          | Some b \<Rightarrow> codegenStmt (g_heap G) cx c b s) cs (Some b, enterValueScope s) = Inr (r, u)" "ended \<longleftrightarrow> r = None"
        using seq_total [of cs sc sc1 ended "enterValueScope s" b] f good b by auto
      then have t: "codegenStmt (g_heap G) cx t b s = Inr (r, leaveValueScope u)" using CompoundStmt by simp
      have "fc_values (leaveValueScope u) = fc_values s" using compound_values [OF t] CompoundStmt b by simp
      with t u(2) cov sc' show ?thesis by auto
    next
      case (UnscopedCompoundStmt a cs)
      with fl have f: "flow_seq (flow G) sc cs = Some (sc', ended)" by simp
      from seq_total [OF _ f cov ne good b] node.IH UnscopedCompoundStmt show ?thesis by simp
    next
      case (ReturnStmt a e)
      show ?thesis
      proof (cases e)
        case None
        then show ?thesis using fl ReturnStmt cov straight_buildVoid [of s RetVoid] by (auto simp: straight_def)
      next
        case (Some x)
        with fl ReturnStmt have x: "expr_ok G sc x" "sc' = sc" "ended" by (auto split: if_splits)
        obtain v s1 where v: "codegenExpr (g_heap G) cx x s = Inr (v, s1)" "fc_values s1 = fc_values s"
          by (rule expr_totalD [OF x(1) cov good])
        obtain w s2 where w: "loadMemory v s1 = (w, s2)" by fastforce
        have "fc_values (buildVoid (Ret w) s2) = fc_values s"
          using straight_loadMemory [OF w] straight_buildVoid [of s2 "Ret w"] v(2) by (simp add: straight_def)
        with v w x ReturnStmt Some cov show ?thesis by simp
      qed
    next
      case (ExpressionStmt a e)
      with fl have "expr_ok G sc e" "sc' = sc" "\<not> ended" by (auto split: if_splits)
      with ExpressionStmt cov good show ?thesis by (auto elim!: expr_totalD [of sc e s])
    next
      case (DeclStmt a n e)
      with fl have x: "expr_ok G sc e" "sc' = a # sc" "\<not> ended" by (auto split: if_splits)
      obtain v s1 where v: "codegenExpr (g_heap G) cx e s = Inr (v, s1)" "fc_values s1 = fc_values s"
        by (rule expr_totalD [OF x(1) cov good])
      obtain slot s2 where slot: "buildInstr (Alloca (getType n)) True s1 = (slot, s2)" by fastforce
      obtain w s3 where w: "loadMemory v s2 = (w, s3)" by fastforce
      have v3: "fc_values (buildVoid (Store w slot) s3) = fc_values s"
        using straight_build [OF slot] straight_loadMemory [OF w] straight_buildVoid [of s3 "Store w slot"] v(2)
        by (simp add: straight_def)
      then obtain s4 where i: "introduceValue a slot (buildVoid (Store w slot) s3) = Inr s4"
        using ne by (cases "fc_values s") (auto simp: introduceValue_def)
      obtain m ms where m: "fc_values s = m # ms" using ne by (cases "fc_values s") auto
      have "fc_values s4 = m(a \<mapsto> slot) # ms" using introduceValue_simps(6) [OF i] v3 m by simp
      then have "covers (fc_values s4) sc'" using cov m x(2) by (auto simp: covers_def split: option.splits)
      with v slot w i x DeclStmt show ?thesis by simp
    next
      case (IfStmt a c t1 f1)
      with if_total [of sc a c t1 f1 sc' ended s b] fl cov ne good b node.IH show ?thesis by auto
    qed (use fl in auto)
  qed
qed

section \<open>Functions\<close>

abbreviation named_arguments :: "ast list \<Rightarrow> addr list" where
  "named_arguments args \<equiv> map addr_of (filter (\<lambda>x. getKind x = KindNamedArgumentDecl) args)"

lemma frame_total:
  assumes "fc_values s \<noteq> []" and "length vs = length args" and "covers (fc_values s) sc"
  shows "\<exists>s'. foldE (frameArgument False) (zip vs args) s = Inr s' \<and> covers (fc_values s') (named_arguments args @ sc)
    \<and> fc_values s' \<noteq> [] \<and> point_of s' = point_of s \<and> next_of s \<le> next_of s' \<and> fc_context s' = fc_context s"
  using assms
proof (induction args arbitrary: vs s sc)
  case (Cons t args)
  obtain v vs' where vs: "vs = v # vs'" "length vs' = length args" using Cons.prems(2) by (cases vs) auto
  show ?case
  proof (cases "\<exists>a n. t = NamedArgumentDecl a n")
    case False
    then have "getKind t \<noteq> KindNamedArgumentDecl" by (cases t) auto
    with Cons.IH [OF Cons.prems(1) vs(2) Cons.prems(3)] vs(1) frameArgument_unnamed [OF False, of False v s]
    show ?thesis by simp
  next
    case True
    then obtain a n where t: "t = NamedArgumentDecl a n" by blast
    obtain slot s1 where slot: "buildInstr (Alloca (getType n @ ''_framed'')) True s = (slot, s1)" by fastforce
    define s2 where "s2 = buildVoid (Store v slot) s1"
    note st = straight_build [OF slot] straight_buildVoid [of s1 "Store v slot", folded s2_def]
    obtain m ms where m: "fc_values s = m # ms" using Cons.prems(1) by (cases "fc_values s") auto
    have s2: "fc_values s2 = m # ms" "point_of s2 = point_of s" "next_of s \<le> next_of s2" "fc_context s2 = fc_context s"
      using st m context_build(1) [OF slot] by (auto simp: straight_def s2_def)
    obtain s3 where i: "introduceValue a slot s2 = Inr s3" using s2(1) by (auto simp: introduceValue_def)
    note iv = introduceValue_simps [OF i]
    have f: "frameArgument False (v, t) s = Inr s3" using slot i by (simp add: t frameArgument_def s2_def)
    have cov: "covers (fc_values s3) (a # sc)"
      using Cons.prems(3) iv(6) s2(1) m by (auto simp: covers_def split: option.splits)
    have "fc_values s3 \<noteq> []" using iv(6) by simp
    from Cons.IH [OF this vs(2) cov] obtain s' where s':
      "foldE (frameArgument False) (zip vs' args) s3 = Inr s'" "covers (fc_values s') (named_arguments args @ a # sc)"
      "fc_values s' \<noteq> []" "point_of s' = point_of s3" "next_of s3 \<le> next_of s'" "fc_context s' = fc_context s3"
      by (elim exE conjE)
    have "foldE (frameArgument False) (zip vs (t # args)) s = Inr s'" using f s'(1) vs(1) by simp
    moreover have "covers (fc_values s') (named_arguments (t # args) @ sc)"
    proof -
      have "named_arguments (t # args) = a # named_arguments args" by (simp add: t addr_of_def)
      with s'(2) show ?thesis by (simp add: covers_def ball_Un)
    qed
    moreover have "point_of s' = point_of s" using s'(4) iv(3) s2(2) by (rule trans [OF _ trans])
    moreover have "next_of s \<le> next_of s'" using s'(5) iv(2) s2(3) by linarith
    moreover have "fc_context s' = fc_context s" using s'(6) iv(8) s2(4) by (rule trans [OF _ trans])
    ultimately show ?thesis using s'(3) by blast
  qed
qed auto

lemma function_total:
  assumes "function_ok G node" and "good c" and "node = FunctionDecl a nm args ret t"
  shows "\<exists>s'. codegenFunction (g_heap G) cx node (fc_new (length (children args)) c) = Inr s'"
proof -
  define n where "n = length (children args)"
  define s0 where "s0 = enterValueScope (fc_new n c)"
  obtain b s1 where b: "newBlock ''entry'' s0 = (b, s1)" by fastforce
  have b0: "b = 0" "next_of s1 = 1" "fc_values s1 = [Map.empty]" "fc_context s1 = c"
    "arg_size (fc_builder s1) = n" "ir_blocks (fc_builder s0) = []" "arg_size (fc_builder s0) = n"
    using b by (auto simp: s0_def builder_simps fc_new_def ir_new_def)
  have ne: "fc_values (insertAt 0 s1) \<noteq> []" using b0(3) by simp
  have len: "length (map VArg [0 ..< n]) = length (children args)" by (simp add: n_def)
  have cov: "covers (fc_values (insertAt 0 s1)) []" by (simp add: covers_def)
  from frame_total [OF ne len cov] obtain s2 where s2:
    "foldE (frameArgument False) (zip (map VArg [0 ..< n]) (children args)) (insertAt 0 s1) = Inr s2"
    "covers (fc_values s2) (named_arguments (children args))" "fc_values s2 \<noteq> []"
    "point_of s2 = Some 0" "0 < next_of s2" "good_state s2"
    using b0 assms(2) by auto
  have "setUpStackFrame (children args) False False s0 = Inr (0, s2)"
    using b b0 s2(1) by (simp add: setUpStackFrame_def createEntryBlock_def arg_size_insertAt n_def)
  moreover from assms(1,3) obtain sc' e where "flow G (named_arguments (children args)) t = Some (sc', e)"
    by (auto simp: function_ok_def)
  with stmt_totalE [OF stmt_total_all] s2 obtain r s3 where "codegenStmt (g_heap G) cx t 0 s2 = Inr (r, s3)"
    by metis
  ultimately show ?thesis using assms(3) by (simp add: codegenFunction_def s0_def n_def)
qed

end

end
