(* ===== verification/Codegen_Laws.thy ===== *)
theory Codegen_Laws imports CodeExecutor Codegen_Total begin

text \<open>
  The contexts of \<^verbatim>\<open>CodegenInstance\<close> and \<^verbatim>\<open>CodeExecutor\<close> keep the contracts the generators of functions
  rely on: while a function is generated the trees and the completed instantiations stay as they are,
  a function is looked up under its mangled name, a completed instantiation under the name of the
  function it exports.
\<close>

section \<open>Symbols\<close>

definition same_trees :: "compiler \<Rightarrow> compiler \<Rightarrow> bool" where
  "same_trees S c \<longleftrightarrow> cp_heap c = cp_heap S \<and> cp_containing c = cp_containing S
     \<and> cp_exported c = cp_exported S \<and> cp_instances c = cp_instances S \<and> cp_engine c = cp_engine S"

lemma same_trees_refl [simp]: "same_trees S S"
  by (simp add: same_trees_def)

lemma same_trees_trans [trans]: "same_trees S c \<Longrightarrow> same_trees c d \<Longrightarrow> same_trees S d"
  by (simp add: same_trees_def)

lemma same_trees_simps [simp]:
  "same_trees S (c\<lparr>cp_module := m\<rparr>) = same_trees S c"
  "same_trees S (c\<lparr>cp_dependencies := ds\<rparr>) = same_trees S c"
  "same_trees S (c\<lparr>cp_source := src\<rparr>) = same_trees S c"
  "same_trees S (c\<lparr>cp_generation := gs\<rparr>) = same_trees S c"
  "same_trees S (c\<lparr>cp_shipment := sh\<rparr>) = same_trees S c"
  "same_trees S (c\<lparr>cp_unresolved := us\<rparr>) = same_trees S c"
  "same_trees (S\<lparr>cp_unresolved := us\<rparr>) c = same_trees S c"
  by (simp_all add: same_trees_def)

text \<open>The symbol of a declaration, and of what a completed instantiation exports.\<close>

definition symbol_at :: "external \<Rightarrow> compiler \<Rightarrow> addr \<Rightarrow> string option" where
  "symbol_at X S k = (case cp_heap S k of None \<Rightarrow> None
     | Some node \<Rightarrow> (case symbolOf (x_fmt X) (cp_containing S) node of Inr name \<Rightarrow> Some name | Inl e \<Rightarrow> None))"

definition symbol_in :: "external \<Rightarrow> compiler \<Rightarrow> addr \<Rightarrow> string" where
  "symbol_in X S k = (case symbol_at X S k of Some name \<Rightarrow> name | None \<Rightarrow> [])"

definition exported_at :: "compiler \<Rightarrow> addr \<Rightarrow> addr option" where
  "exported_at S a = (case cp_instances S a of None \<Rightarrow> None | Some u \<Rightarrow> cp_exported S u)"

definition exported_symbol :: "external \<Rightarrow> compiler \<Rightarrow> addr \<Rightarrow> string" where
  "exported_symbol X S a = (case exported_at S a of Some k \<Rightarrow> symbol_in X S k | None \<Rightarrow> [])"

lemma symbol_same:
  assumes "same_trees S c"
  shows "symbol_at X c = symbol_at X S" "symbol_in X c = symbol_in X S" "exported_symbol X c = exported_symbol X S"
    "exported_at c = exported_at S"
proof -
  show *: "symbol_at X c = symbol_at X S" "exported_at c = exported_at S"
    by (rule ext, use assms in \<open>simp add: same_trees_def symbol_at_def exported_at_def cong: option.case_cong\<close>)+
  then show "symbol_in X c = symbol_in X S" by (simp add: symbol_in_def fun_eq_iff)
  with * show "exported_symbol X c = exported_symbol X S" by (simp add: exported_symbol_def [abs_def] cong: option.case_cong)
qed

section \<open>Lookups\<close>

lemma load_eq: "load h a = Inr t \<longleftrightarrow> h a = Some t"
  by (simp add: load_def split: option.splits)

lemma global_eq: "global name m = Inr g \<longleftrightarrow> m name = Some g"
  by (simp add: global_def split: option.splits)

lemma function_name_eq: "function_name v = Inr name \<longleftrightarrow> v = VFunction name"
  by (cases v) (auto simp: function_name_def)

lemma instance_lookupE:
  assumes "instance_lookup X k s = Inr (v, s')"
  obtains name node m g where "v = VFunction name" "cp_heap s k = Some node" "isFunctionDecl (obj_of node)" "symbol_at X s k = Some name"
    "createFunctionPrototype (x_fmt X) (cp_containing s) node (cp_module s) = Inr (name, m)" "m name = Some g"
    "s' = s\<lparr>cp_module := m,
       cp_dependencies := (if isDeclaration g then List.insert k (cp_dependencies s) else cp_dependencies s),
       cp_source := (cp_source s)(name \<mapsto> k)\<rparr>"
proof -
  from assms obtain node name m g where *: "cp_heap s k = Some node" "isFunctionDecl (obj_of node)"
    "createFunctionPrototype (x_fmt X) (cp_containing s) node (cp_module s) = Inr (name, m)" "m name = Some g"
    "v = VFunction name" and s': "s' = (let s = s\<lparr>cp_module := m\<rparr>;
         s = (if isDeclaration g then s\<lparr>cp_dependencies := List.insert k (cp_dependencies s)\<rparr> else s)
     in s\<lparr>cp_source := (cp_source s)(name \<mapsto> k)\<rparr>)"
    unfolding instance_lookup_def by (auto simp: bindE_eq_Inr load_eq global_eq Let_def split: if_splits)
  moreover have "symbol_at X s k = Some name"
    using *(1) createFunctionPrototype_has(1) [OF *(3)] by (simp add: symbol_at_def)
  ultimately show thesis by (intro that [of name node m g]) (simp_all add: Let_def)
qed

lemma instance_lookup_law:
  assumes "instance_lookup X k s = Inr (v, s')"
  shows "same_trees s s' \<and> v = VFunction (symbol_in X s k)"
  using assms by (elim instance_lookupE) (simp add: symbol_in_def)

text \<open>A completed instantiation is in the cache.\<close>

lemma instantiate_completed:
  assumes "instantiate X n a True s = Inr (u, s')"
  obtains m where "s' = s" "u = Some m" "cp_instances s a = Some m"
proof (cases n)
  case (Suc k)
  show ?thesis
  proof (cases "cp_instances s a")
    case None
    with Suc assms show ?thesis by (simp add: instantiate.simps instantiateWith_def)
  next
    case (Some m)
    with Suc assms show ?thesis by (intro that [of m]) (simp_all add: instantiate.simps instantiateWith_def)
  qed
qed (use assms in \<open>simp add: instantiate.simps\<close>)

lemma instance_instantiate_completed:
  assumes "instance_instantiate (instantiate X n) a True s = Inr (Some k, s')"
  shows "s' = s \<and> exported_at s a = Some k"
proof -
  from assms obtain u t where u: "instantiate X n a True s = Inr (u, t)" and
    c: "(case u of None \<Rightarrow> Inr (None, t)
       | Some u \<Rightarrow> (case cp_exported t u of
           Some e \<Rightarrow> Inr (Some e, t)
         | None \<Rightarrow> bindE (instantiation_of (cp_heap t) a) (\<lambda>(rg, name, decl, es).
             let dn = getName (obj_of decl);
                 e = diagnoseRange ErrorInstantiationNoExport rg [ArgStr (getType name)] (cp_engine t);
                 e = diagnoseAt NoteDeclarationHint dn [ArgStr (getType dn)] e
             in Inr (None, t\<lparr>cp_engine := e\<rparr>)))) = Inr (Some k, s')"
    by (auto simp: instance_instantiate_def bindE_eq_Inr)
  from instantiate_completed [OF u] obtain m where m: "t = s" "u = Some m" "cp_instances s a = Some m" .
  with c show ?thesis by (auto simp: exported_at_def bindE_eq_Inr Let_def split: option.splits)
qed

lemma instance_lookup_instE:
  assumes "instance_lookup_inst X (instantiate X n) a True s = Inr (Some v, s')"
  obtains k where "instance_lookup X k s = Inr (v, s')" "exported_at s a = Some k"
proof -
  from assms obtain k s1 where e: "instance_instantiate (instantiate X n) a True s = Inr (Some k, s1)"
    and l: "instance_lookup X k s1 = Inr (v, s')"
    unfolding instance_lookup_inst_def by (auto simp: bindE_eq_Inr split: option.splits if_splits)
  with instance_instantiate_completed [OF e] that show thesis by blast
qed

lemma instance_lookup_inst_law:
  assumes "instance_lookup_inst X (instantiate X n) a True s = Inr (Some v, s')"
  shows "same_trees s s' \<and> v = VFunction (exported_symbol X s a)"
  using assms by (elim instance_lookup_instE) (auto dest!: instance_lookup_law simp: exported_symbol_def)

interpretation instance_laws: ir_context_laws "instance_context X (instantiate X n)" "same_trees S"
    "symbol_in X S" "exported_symbol X S" for X n S
proof
  show "same_trees S c \<Longrightarrow> lookupGlobal_function (instance_context X (instantiate X n)) k c = Inr (v, c')
      \<Longrightarrow> same_trees S c' \<and> v = VFunction (symbol_in X S k)" for c k v c'
    by (auto simp: instance_context_def symbol_same(2) [of S c] dest!: instance_lookup_law intro: same_trees_trans)
  show "same_trees S c \<Longrightarrow> lookupGlobal_inst (instance_context X (instantiate X n)) a True c = Inr (Some v, c')
      \<Longrightarrow> same_trees S c' \<and> v = VFunction (exported_symbol X S a)" for c a v c'
    by (auto simp: instance_context_def symbol_same(3) [of S c] dest!: instance_lookup_inst_law intro: same_trees_trans)
qed

text \<open>The executor declares what it looks up in its shipment, under the same names.\<close>

lemma onShipment_trees: "onShipment f s = Inr s' \<Longrightarrow> same_trees s s'"
  by (auto simp: onShipment_def bindE_eq_Inr)

lemma requireGlobal_simps [simp]:
  "same_trees S (requireGlobal symbol u s) = same_trees S s"
  "same_trees (requireGlobal symbol u s) S = same_trees s S"
  "cp_heap (requireGlobal symbol u s) = cp_heap s" "cp_containing (requireGlobal symbol u s) = cp_containing s"
  by (simp_all add: requireGlobal_def setGlobalAsUnresolved_def same_trees_def)

lemma executor_lookup_law:
  assumes "executor_lookup X k s = Inr (v, s')"
  shows "same_trees s s' \<and> v = VFunction (symbol_in X s k)"
proof -
  from assms obtain node symbol name m where node: "cp_heap s k = Some node" and
    p: "createFunctionPrototype (x_fmt X) (cp_containing (requireGlobal symbol (UDecl k) s)) node
          (shipment (requireGlobal symbol (UDecl k) s)) = Inr (name, m)"
    and v: "v = VFunction name" "s' = (requireGlobal symbol (UDecl k) s)\<lparr>cp_shipment := Some m\<rparr>"
    unfolding executor_lookup_def by (auto simp: bindE_eq_Inr load_eq Let_def)
  have "symbol_at X s k = Some name"
    using node createFunctionPrototype_has(1) [OF p] by (simp add: symbol_at_def)
  with v show ?thesis by (simp add: symbol_in_def)
qed

lemma declareGlobal_trees: "declareGlobal name s = Inr s' \<Longrightarrow> same_trees s s'"
  by (auto simp: declareGlobal_def bindE_eq_Inr dest!: onShipment_trees intro: same_trees_trans)

lemma executor_lookup_inst_law:
  assumes "executor_lookup_inst X (instantiate X n) a True s = Inr (Some v, s')"
  shows "same_trees s s' \<and> v = VFunction (exported_symbol X s a)"
proof -
  from assms obtain c s1 name where l: "instance_lookup_inst X (instantiate X n) a True s = Inr (Some c, s1)"
    and d: "declareGlobal name s1 = Inr s'" and v: "v = VFunction name" "c = VFunction name"
    by (auto simp: executor_lookup_inst_def bindE_eq_Inr function_name_eq split: option.splits)
  from instance_lookup_inst_law [OF l] declareGlobal_trees [OF d] v show ?thesis
    by (auto intro: same_trees_trans)
qed

interpretation executor_laws: ir_context_laws "mc_ir (executor_context X (instantiate X n))" "same_trees S"
    "symbol_in X S" "exported_symbol X S" for X n S
proof
  show "same_trees S c \<Longrightarrow> lookupGlobal_function (mc_ir (executor_context X (instantiate X n))) k c = Inr (v, c')
      \<Longrightarrow> same_trees S c' \<and> v = VFunction (symbol_in X S k)" for c k v c'
    by (auto simp: executor_context_def symbol_same(2) [of S c] dest!: executor_lookup_law intro: same_trees_trans)
  show "same_trees S c \<Longrightarrow> lookupGlobal_inst (mc_ir (executor_context X (instantiate X n))) a True c = Inr (Some v, c')
      \<Longrightarrow> same_trees S c' \<and> v = VFunction (exported_symbol X S a)" for c a v c'
    by (auto simp: executor_context_def symbol_same(3) [of S c] dest!: executor_lookup_inst_law intro: same_trees_trans)
qed

section \<open>Linking\<close>

text \<open>
  The meaning of the functions of a program, given that of the functions they call, and calls of
  generated code that are answered by that meaning.
\<close>

definition linkage_of :: "external \<Rightarrow> compiler \<Rightarrow> 'w swy_call \<Rightarrow> 'w linkage" where
  "linkage_of X S call = \<lparr>l_heap = cp_heap S, l_fname = symbol_in X S, l_iname = exported_symbol X S, l_call = call\<rparr>"

fun integers :: "rval list \<Rightarrow> i32 list option" where
  "integers [] = Some []"
| "integers (RInt k # vs) = map_option ((#) k) (integers vs)"
| "integers (v # vs) = None"

definition ir_call_of :: "'w swy_call \<Rightarrow> 'w ir_call" where
  "ir_call_of call f vs mem w = (case integers vs of None \<Rightarrow> None
     | Some ks \<Rightarrow> (case call f ks w of None \<Rightarrow> None
         | Some (r, w') \<Rightarrow> Some (case r of Some k \<Rightarrow> RInt k | None \<Rightarrow> RVoid, w')))"

lemma integers_map [simp]: "integers (map RInt ks) = Some ks"
  by (induction ks) simp_all

lemma linkage_of_simps [simp]:
  "l_heap (linkage_of X S call) = cp_heap S" "l_fname (linkage_of X S call) = symbol_in X S"
  "l_iname (linkage_of X S call) = exported_symbol X S" "l_call (linkage_of X S call) = call"
  by (simp_all add: linkage_of_def)

interpretation instance_linked: linked_context "instance_context X (instantiate X n)" "same_trees S"
    "linkage_of X S call" "ir_call_of call" for X n S call
proof (rule linked_context.intro)
  show "ir_context_laws (instance_context X (instantiate X n)) (same_trees S)
      (l_fname (linkage_of X S call)) (l_iname (linkage_of X S call))"
    using instance_laws.ir_context_laws_axioms by simp
qed (simp add: linked_context_axioms_def ir_call_of_def)

section \<open>The cache\<close>

lemma instantiate_caches: "instantiate X n a False s = Inr (Some u, s') \<Longrightarrow> cp_instances s' a = Some u"
  by (cases n) (auto simp: instantiate.simps instantiateWith_def finishInstantiation_def cacheInstantiationOf_def
      bindE_eq_Inr Let_def split: option.splits if_splits)

end
