(* ===== verification/Codegen_Unit.thy ===== *)
theory Codegen_Unit imports Codegen_Laws begin

text \<open>
  The work list of \<^verbatim>\<open>CodegenInstance\<close> on a unit whose functions do not instantiate anything: all of its
  functions are generated, whatever order the hash set has, and a number of rounds that is twice the
  number of top level nodes is enough.
\<close>

section \<open>What lookups add\<close>

definition declares_at :: "external \<Rightarrow> compiler \<Rightarrow> addr \<Rightarrow> string \<Rightarrow> function_type \<Rightarrow> bool" where
  "declares_at X S k name ty \<longleftrightarrow> symbol_at X S k = Some name
     \<and> (\<exists>node. cp_heap S k = Some node \<and> isFunctionDecl (obj_of node) \<and> getFunctionTypeOf node = Inr ty)"

lemma declares_at_unique: "declares_at X S k name ty \<Longrightarrow> declares_at X S k name' ty' \<Longrightarrow> name' = name \<and> ty' = ty"
  by (auto simp: declares_at_def)

lemma declares_at_symbol: "declares_at X S k name ty \<Longrightarrow> symbol_in X S k = name"
  by (simp add: declares_at_def symbol_in_def)

lemma declares_at_same: "same_trees S c \<Longrightarrow> declares_at X c = declares_at X S"
  using symbol_same(1) [of S c X] by (simp add: declares_at_def [abs_def] same_trees_def)

text \<open>The prototypes that lookups add are dependencies.\<close>

definition looked_up :: "external \<Rightarrow> compiler \<Rightarrow> compiler \<Rightarrow> bool" where
  "looked_up X s c \<longleftrightarrow> same_trees s c \<and> cp_generation c = cp_generation s
     \<and> module_le (cp_module s) (cp_module c)
     \<and> set (cp_dependencies s) \<subseteq> set (cp_dependencies c)
     \<and> (distinct (cp_dependencies s) \<longrightarrow> distinct (cp_dependencies c))
     \<and> (\<forall>k \<in> set (cp_dependencies c) - set (cp_dependencies s). \<exists>name ty g.
          declares_at X s k name ty \<and> cp_module c name = Some g \<and> isDeclaration g)
     \<and> (\<forall>name g. cp_module c name = Some g \<longrightarrow> cp_module s name = None \<longrightarrow>
          isDeclaration g \<and> (\<exists>k \<in> set (cp_dependencies c). declares_at X s k name (gl_type g)))"

lemma looked_up_refl [simp]: "looked_up X s s"
  by (auto simp: looked_up_def)

lemma looked_up_trans [trans]:
  assumes "looked_up X s c" and "looked_up X c d"
  shows "looked_up X s d"
proof -
  note a = assms(1) [unfolded looked_up_def] and b = assms(2) [unfolded looked_up_def]
  have same: "declares_at X c = declares_at X s" using a by (intro declares_at_same) simp
  have "\<exists>name ty g. declares_at X s k name ty \<and> cp_module d name = Some g \<and> isDeclaration g"
    if k: "k \<in> set (cp_dependencies d) - set (cp_dependencies s)" for k
  proof (cases "k \<in> set (cp_dependencies c)")
    case True
    with k a obtain name ty g where "declares_at X s k name ty" "cp_module c name = Some g" "isDeclaration g"
      by blast
    with b show ?thesis by (auto simp: module_le_def)
  next
    case False
    with k b show ?thesis by (simp add: same)
  qed
  moreover have "isDeclaration g \<and> (\<exists>k \<in> set (cp_dependencies d). declares_at X s k name (gl_type g))"
    if g: "cp_module d name = Some g" "cp_module s name = None" for name g
  proof (cases "cp_module c name")
    case None
    with g b show ?thesis by (simp add: same)
  next
    case (Some g')
    with b g(1) have "g' = g" by (simp add: module_le_def)
    with Some a g(2) have "isDeclaration g \<and> (\<exists>k \<in> set (cp_dependencies c). declares_at X s k name (gl_type g))"
      by blast
    with b show ?thesis by blast
  qed
  ultimately show ?thesis
    using a b module_le_trans unfolding looked_up_def by (auto intro: same_trees_trans)
qed

lemma createFunctionPrototypeE:
  assumes "createFunctionPrototype fmt containing node m = Inr (name, m')"
  obtains ty where "symbolOf fmt containing node = Inr name" "getFunctionTypeOf node = Inr ty"
    "m' = m \<and> (\<exists>g. m name = Some g \<and> gl_type g = ty) \<or> m name = None \<and> m' = m(name \<mapsto> prototype ty)"
proof -
  from assms obtain ty where "symbolOf fmt containing node = Inr name" "getFunctionTypeOf node = Inr ty"
    "getOrInsertFunction name ty m = Inr m'"
    by (auto simp: createFunctionPrototype_def bindE_eq_Inr)
  with that show thesis by (cases "m name") (auto simp: getOrInsertFunction_def split: if_splits)
qed

lemma lookup_looks_up:
  assumes "instance_lookup X k s = Inr (v, s')"
  shows "looked_up X s s'"
proof -
  from assms obtain name node m g where v: "v = VFunction name" "cp_heap s k = Some node"
    "isFunctionDecl (obj_of node)" "symbol_at X s k = Some name" and
    p: "createFunctionPrototype (x_fmt X) (cp_containing s) node (cp_module s) = Inr (name, m)" "m name = Some g"
    and s': "s' = s\<lparr>cp_module := m,
       cp_dependencies := (if isDeclaration g then List.insert k (cp_dependencies s) else cp_dependencies s),
       cp_source := (cp_source s)(name \<mapsto> k)\<rparr>"
    by (rule instance_lookupE)
  from p(1) obtain ty where ty: "getFunctionTypeOf node = Inr ty" and
    m: "m = cp_module s \<and> (\<exists>g. cp_module s name = Some g \<and> gl_type g = ty)
      \<or> cp_module s name = None \<and> m = (cp_module s)(name \<mapsto> prototype ty)"
    by (rule createFunctionPrototypeE)
  have d: "declares_at X s k name ty" using v ty by (simp add: declares_at_def)
  have new: "isDeclaration g' \<and> nm = name \<and> gl_type g' = ty" if "m nm = Some g'" "cp_module s nm = None" for nm g'
    using m that by (auto simp: prototype_def isDeclaration_def split: if_splits)
  have le: "module_le (cp_module s) m" using m by (auto simp: module_le_def)
  show ?thesis
    using d p(2) le new unfolding looked_up_def by (auto simp: s' split: if_splits)
qed

section \<open>A context in which lookups succeed\<close>

definition consistent :: "external \<Rightarrow> compiler \<Rightarrow> bool" where
  "consistent X S \<longleftrightarrow> (\<forall>k k' name ty ty'. declares_at X S k name ty \<longrightarrow> declares_at X S k' name ty' \<longrightarrow> ty = ty')"

definition typed :: "external \<Rightarrow> compiler \<Rightarrow> bool" where
  "typed X S \<longleftrightarrow> (\<forall>k name ty g. declares_at X S k name ty \<longrightarrow> cp_module S name = Some g \<longrightarrow> gl_type g = ty)"

definition unit_globals :: "external \<Rightarrow> compiler \<Rightarrow> globals" where
  "unit_globals X S = \<lparr>g_heap = cp_heap S,
     g_function = (\<lambda>k. consistent X S \<and> typed X S \<and> (\<exists>name ty. declares_at X S k name ty)),
     g_inst = (\<lambda>a. consistent X S \<and> typed X S \<and>
       (\<exists>u k name ty. cp_instances S a = Some u \<and> cp_exported S u = Some k \<and> declares_at X S k name ty))\<rparr>"

lemma typed_looked_up:
  assumes "looked_up X S c" and "consistent X S" and "typed X S"
  shows "typed X c"
proof -
  have t: "same_trees S c" using assms(1) by (simp add: looked_up_def)
  have "gl_type g = ty" if d: "declares_at X S k name ty" and g: "cp_module c name = Some g" for k name ty g
  proof (cases "cp_module S name")
    case None
    with assms(1) g obtain k' where "declares_at X S k' name (gl_type g)" unfolding looked_up_def by blast
    with d assms(2) show ?thesis unfolding consistent_def by blast
  next
    case (Some g')
    with assms(1) g have "g' = g" by (simp add: looked_up_def module_le_def)
    with d Some assms(3) show ?thesis unfolding typed_def by blast
  qed
  then show ?thesis unfolding typed_def declares_at_same [OF t] by blast
qed

lemma prototype_total:
  assumes "looked_up X S c" and "consistent X S" and "typed X S" and d: "declares_at X S k name ty"
  shows "\<exists>v c'. instance_lookup X k c = Inr (v, c')"
proof -
  have t: "same_trees S c" using assms(1) by (simp add: looked_up_def)
  from d declares_at_same [OF t] obtain node where node: "cp_heap c k = Some node" "isFunctionDecl (obj_of node)"
    "getFunctionTypeOf node = Inr ty" "symbol_at X c k = Some name" "declares_at X c k name ty"
    by (metis declares_at_def)
  from node have sym: "symbolOf (x_fmt X) (cp_containing c) node = Inr name"
    by (auto simp: symbol_at_def split: sum.splits)
  have "gl_type g = ty" if "cp_module c name = Some g" for g
    using typed_looked_up [OF assms(1-3)] node(5) that unfolding typed_def by blast
  then obtain m where m: "createFunctionPrototype (x_fmt X) (cp_containing c) node (cp_module c) = Inr (name, m)"
    using sym node(3) by (cases "cp_module c name") (auto simp: createFunctionPrototype_def getOrInsertFunction_def)
  from createFunctionPrototype_has(3) [OF m] obtain g where "m name = Some g" by blast
  with node(1,2) m show ?thesis by (simp add: instance_lookup_def global_def Let_def)
qed

interpretation unit_laws: total_context "instance_context X (instantiate X (Suc n))" "looked_up X S"
    "symbol_in X S" "exported_symbol X S" "unit_globals X S" for X n S
proof
  have trees: "looked_up X S c \<Longrightarrow> same_trees S c" for c by (simp add: looked_up_def)
  show "looked_up X S c \<Longrightarrow> lookupGlobal_function (instance_context X (instantiate X (Suc n))) k c = Inr (v, c')
      \<Longrightarrow> looked_up X S c' \<and> v = VFunction (symbol_in X S k)" for c k v c'
    using instance_laws.lookup_function trees lookup_looks_up looked_up_trans
    by (simp add: instance_context_def) blast
  show "looked_up X S c \<Longrightarrow> lookupGlobal_inst (instance_context X (instantiate X (Suc n))) a True c = Inr (Some v, c')
      \<Longrightarrow> looked_up X S c' \<and> v = VFunction (exported_symbol X S a)" for c a v c'
    using instance_laws.lookup_inst trees lookup_looks_up looked_up_trans
    by (simp add: instance_context_def) (blast elim: instance_lookup_instE)
  show "\<exists>v c'. lookupGlobal_function (instance_context X (instantiate X (Suc n))) k c = Inr (v, c')"
    if "looked_up X S c" and "g_function (unit_globals X S) k" for c k
    using that prototype_total by (auto simp: instance_context_def unit_globals_def)
  show "\<exists>v c'. lookupGlobal_inst (instance_context X (instantiate X (Suc n))) a True c = Inr (Some v, c')"
    if c: "looked_up X S c" and a: "g_inst (unit_globals X S) a" for c a
  proof -
    from a obtain u k name ty where u: "cp_instances S a = Some u" "cp_exported S u = Some k" "declares_at X S k name ty"
      and ok: "consistent X S" "typed X S"
      by (auto simp: unit_globals_def)
    from prototype_total [OF c ok u(3)] obtain v c' where v: "instance_lookup X k c = Inr (v, c')" by blast
    have same: "cp_instances c = cp_instances S" "cp_exported c = cp_exported S" "cp_heap c = cp_heap S"
      using trees [OF c] by (simp_all add: same_trees_def)
    obtain node where "cp_heap c k = Some node" "getKind node = KindFunctionDecl"
      using u(3) same by (auto simp: declares_at_def isFunctionDecl_def)
    with u(1,2) v same show ?thesis
      by (simp add: instance_context_def instance_lookup_inst_def instance_instantiate_def instantiate.simps instantiateWith_def)
  qed
qed

section \<open>One function\<close>

definition arity :: "ast \<Rightarrow> nat" where
  "arity node = (case node of FunctionDecl a n args ret b \<Rightarrow> length (children args) | _ \<Rightarrow> 0)"

text \<open>The body of a function is the optimised result of a run of the generator on its declaration.\<close>

definition compiled :: "external \<Rightarrow> nat \<Rightarrow> compiler \<Rightarrow> addr \<Rightarrow> ir_function \<Rightarrow> bool" where
  "compiled X n S k b \<longleftrightarrow> (\<exists>node c t. cp_heap S k = Some node \<and> same_trees S c
     \<and> codegenFunction (cp_heap S) (instance_context X (instantiate X n)) node (fc_new (arity node) c) = Inr t
     \<and> b = x_optimize X (fc_builder t))"

lemma compiled_same: "same_trees S c \<Longrightarrow> compiled X n c k b \<Longrightarrow> compiled X n S k b"
  by (auto simp: compiled_def same_trees_def)

definition bodies :: "compiler \<Rightarrow> string \<Rightarrow> ir_function option" where
  "bodies s name = (case cp_module s name of None \<Rightarrow> None | Some g \<Rightarrow> gl_body g)"

text \<open>What generating a function changes, from a state in which it was only declared.\<close>

definition generates :: "external \<Rightarrow> nat \<Rightarrow> addr \<Rightarrow> compiler \<Rightarrow> compiler \<Rightarrow> bool" where
  "generates X n k s s' \<longleftrightarrow> same_trees s s' \<and> cp_generation s' = cp_generation s
     \<and> (distinct (cp_dependencies s) \<longrightarrow> distinct (cp_dependencies s'))
     \<and> set (cp_dependencies s) \<subseteq> set (cp_dependencies s')
     \<and> (\<forall>d \<in> set (cp_dependencies s') - insert k (set (cp_dependencies s)). \<exists>name ty.
          declares_at X s d name ty \<and> bodies s name = None)
     \<and> (\<exists>b. bodies s' (symbol_in X s k) = Some b \<and> compiled X n s k b)
     \<and> (\<forall>name. name \<noteq> symbol_in X s k \<longrightarrow> bodies s' name = bodies s name)
     \<and> (\<forall>name g. cp_module s' name = Some g \<longrightarrow> cp_module s name = None \<longrightarrow>
          (\<exists>d. declares_at X s d name (gl_type g)))
     \<and> (\<forall>name g. cp_module s name = Some g \<longrightarrow> (\<exists>g'. cp_module s' name = Some g' \<and> gl_type g' = gl_type g))"

lemma looked_up_bodies:
  assumes "looked_up X s c"
  shows "bodies c = bodies s"
proof
  fix name
  show "bodies c name = bodies s name"
  proof (cases "cp_module s name")
    case None
    with assms show ?thesis
      by (cases "cp_module c name") (auto simp: looked_up_def bodies_def isDeclaration_def)
  qed (use assms in \<open>auto simp: looked_up_def bodies_def module_le_def\<close>)
qed

lemma function_type_arity: "getFunctionTypeOf node = Inr ty \<Longrightarrow> isFunctionDecl (obj_of node) \<Longrightarrow>
    length (ft_args ty) = arity node"
  by (cases node) (auto simp: arity_def isFunctionDecl_def dest: function_type_args)

lemma unit_globals_same:
  assumes "same_trees S c" and "typed X S" and "typed X c"
  shows "unit_globals X c = unit_globals X S"
  using assms declares_at_same [OF assms(1), of X]
  by (simp add: unit_globals_def consistent_def same_trees_def)

lemma function_code_body [simp]: "function_code (g\<lparr>gl_body := Some f\<rparr>) = f"
  by (simp add: function_code_def)

lemma generateBody_generates:
  assumes s: "bodies s name = None" "cp_module s name = Some g" "declares_at X s k name ty" "gl_type g = ty"
    and node: "cp_heap s k = Some node" "function_ok (unit_globals X s) node" "cp_containing s k = Some u"
    and ok: "consistent X s" "typed X s" "k \<notin> set (cp_generation s)"
  shows "\<exists>s'. generateBody X (instantiate X (Suc n)) k node name s = Inr s' \<and> generates X (Suc n) k s s'"
proof -
  obtain a nm args ret body where nd: "node = FunctionDecl a nm args ret body"
    using node(2) by (cases node) (auto simp: function_ok_def)
  have name: "symbol_in X s k = name" using declares_at_symbol [OF s(3)] .
  have ar: "length (ft_args (gl_type g)) = arity node" "arity node = length (children args)"
    using s(3,4) node(1) function_type_arity by (auto simp: declares_at_def nd arity_def)
  have code: "function_code g = ir_new (arity node)"
    using s(1,2) ar by (simp add: function_code_def bodies_def)
  define g' where "g' = g\<lparr>gl_private := gl_private g \<or> obj_kind u = KindMetaUnit,
      gl_arg_names := map (\<lambda>x. case x of NamedArgumentDecl c m \<Rightarrow> getType m | _ \<Rightarrow> []) (children args),
      gl_body := Some (function_code g)\<rparr>"
  define s1 where "s1 = s\<lparr>cp_generation := k # cp_generation s, cp_module := (cp_module s)(name \<mapsto> g')\<rparr>"
  have s1: "same_trees s s1" by (simp add: s1_def)
  have t1: "typed X s1"
    using ok(2) s(2) unfolding typed_def declares_at_same [OF s1] by (auto simp: s1_def g'_def)
  have "function_ok (unit_globals X s1) node" using node(2) unit_globals_same [OF s1 ok(2) t1] by simp
  from unit_laws.function_total [OF this looked_up_refl nd] obtain t where
    t: "codegenFunction (cp_heap s) (instance_context X (instantiate X (Suc n))) node (fc_new (arity node) s1) = Inr t"
    using ar by (auto simp: unit_globals_def s1_def)
  have good: "looked_up X s1 (fc_context t)"
    by (rule unit_laws.good_function [OF t]) (simp add: fc_new_def)
  define c where "c = fc_context t"
  define s' where "s' = leaveGeneration k (c\<lparr>cp_module := setBody name (x_optimize X (fc_builder t)) (cp_module c)\<rparr>)"
  have gen: "generateBody X (instantiate X (Suc n)) k node name s = Inr s'"
    using s(2) node(3) ok(3) t nd
    by (simp add: generateBody_def global_def inMetaUnit_def argument_names_def enterGeneration_def Let_def
        code fc_new_def s1_def g'_def s'_def c_def)
  note lu = good [folded c_def, unfolded looked_up_def]
  have mc: "cp_module c name = Some g'" using lu by (simp add: module_le_def s1_def)
  have bc: "bodies c nm = bodies s nm" if "nm \<noteq> name" for nm
    using looked_up_bodies [OF good] that by (simp add: c_def s1_def bodies_def)
  have comp: "compiled X (Suc n) s k (x_optimize X (fc_builder t))"
    unfolding compiled_def using node(1) s1 t by blast
  have ds: "declares_at X s1 = declares_at X s" by (rule declares_at_same [OF s1])
  have "generates X (Suc n) k s s'"
    unfolding generates_def name
  proof (intro conjI allI impI ballI)
    show "same_trees s s'" using lu s1 by (auto simp: s'_def leaveGeneration_def intro: same_trees_trans)
    show "cp_generation s' = cp_generation s" using lu ok(3) by (simp add: s'_def leaveGeneration_def s1_def)
    show "distinct (cp_dependencies s')" if "distinct (cp_dependencies s)"
      using lu that by (simp add: s'_def leaveGeneration_def s1_def)
    show "set (cp_dependencies s) \<subseteq> set (cp_dependencies s')"
      using lu by (simp add: s'_def leaveGeneration_def s1_def)
    show "\<exists>nm ty. declares_at X s d nm ty \<and> bodies s nm = None"
      if d: "d \<in> set (cp_dependencies s') - insert k (set (cp_dependencies s))" for d
    proof -
      from d have "d \<in> set (cp_dependencies c) - set (cp_dependencies s1)"
        by (simp add: s'_def leaveGeneration_def s1_def)
      with lu obtain nm ty' g1 where 1: "declares_at X s1 d nm ty'" "cp_module c nm = Some g1" "isDeclaration g1"
        by blast
      then have "nm \<noteq> name" using mc by (auto simp: g'_def isDeclaration_def)
      with 1 bc [of nm] show ?thesis by (auto simp: ds bodies_def isDeclaration_def)
    qed
    show "\<exists>b. bodies s' name = Some b \<and> compiled X (Suc n) s k b"
      using comp mc by (simp add: s'_def leaveGeneration_def bodies_def setBody_def)
    show "bodies s' nm = bodies s nm" if "nm \<noteq> name" for nm
      using bc [OF that] that by (simp add: s'_def leaveGeneration_def bodies_def setBody_def)
    show "\<exists>d. declares_at X s d nm (gl_type g1)" if "cp_module s' nm = Some g1" "cp_module s nm = None" for nm g1
    proof -
      have "nm \<noteq> name" using that(2) s(2) by auto
      with that have "cp_module c nm = Some g1" "cp_module s1 nm = None"
        by (simp_all add: s'_def leaveGeneration_def setBody_def s1_def)
      with lu have "\<exists>d. declares_at X s1 d nm (gl_type g1)" by blast
      then show ?thesis by (simp add: ds)
    qed
    show "\<exists>g2. cp_module s' nm = Some g2 \<and> gl_type g2 = gl_type g1" if "cp_module s nm = Some g1" for nm g1
    proof (cases "nm = name")
      case True
      with that s(2) mc show ?thesis by (simp add: s'_def leaveGeneration_def setBody_def g'_def)
    next
      case False
      with that have "cp_module s1 nm = Some g1" by (simp add: s1_def)
      with lu have "cp_module c nm = Some g1" by (simp add: module_le_def)
      with False show ?thesis by (simp add: s'_def leaveGeneration_def setBody_def)
    qed
  qed
  with gen show ?thesis by blast
qed

lemma looked_up_generates:
  assumes "looked_up X s c" and "set (cp_dependencies c) \<subseteq> insert k (set (cp_dependencies s))"
    and "generates X n k c s'"
  shows "generates X n k s s'"
proof -
  note a = assms(1) [unfolded looked_up_def] and b = assms(3) [unfolded generates_def]
  have t: "same_trees s c" using a by simp
  note same = declares_at_same [OF t, of X] symbol_same(2) [OF t, of X] looked_up_bodies [OF assms(1)]
  have new: "\<exists>d. declares_at X s d name (gl_type g)" if g: "cp_module s' name = Some g" "cp_module s name = None" for name g
  proof (cases "cp_module c name")
    case None
    with g b show ?thesis by (simp add: same)
  next
    case (Some g1)
    with b g(1) have "gl_type g1 = gl_type g" by force
    with Some a g(2) show ?thesis by metis
  qed
  have old: "\<exists>g'. cp_module s' name = Some g' \<and> gl_type g' = gl_type g" if "cp_module s name = Some g" for name g
    using a b that by (simp add: module_le_def)
  have comp: "\<exists>b. bodies s' (symbol_in X s k) = Some b \<and> compiled X n s k b"
    using b compiled_same [OF t] by (auto simp: same)
  show ?thesis
    unfolding generates_def
  proof (intro conjI)
    show "same_trees s s'" using t b by (blast intro: same_trees_trans)
    show "\<forall>d\<in>set (cp_dependencies s') - insert k (set (cp_dependencies s)).
       \<exists>name ty. declares_at X s d name ty \<and> bodies s name = None"
    proof
      fix d
      assume "d \<in> set (cp_dependencies s') - insert k (set (cp_dependencies s))"
      then have "d \<in> set (cp_dependencies s') - insert k (set (cp_dependencies c))" using assms(2) by blast
      with b show "\<exists>name ty. declares_at X s d name ty \<and> bodies s name = None" by (simp add: same)
    qed
  qed (use a b comp new old same in auto)
qed

lemma consume_nothing: "instantiations node = [] \<Longrightarrow> consumeInstantiationsOfFunction f node s = Inr s"
  by (simp add: consumeInstantiationsOfFunction_def consumeAll_eq)

lemma codegenFunctionDecl_step:
  assumes d: "declares_at X s k name ty" and ok: "consistent X s" "typed X s" "k \<notin> set (cp_generation s)"
    and node: "cp_heap s k = Some node" "function_ok (unit_globals X s) node" "cp_containing s k = Some u"
    and plain: "instantiations node = []" "\<not> hasErrors (cp_engine s)"
  shows "\<exists>s'. codegenFunctionDecl X (instantiate X (Suc n)) k s = Inr (Some name, s') \<and>
    (if bodies s name = None then generates X (Suc n) k s s'
     else same_trees s s' \<and> cp_module s' = cp_module s \<and> cp_dependencies s' = cp_dependencies s
       \<and> cp_generation s' = cp_generation s)"
proof -
  from prototype_total [OF looked_up_refl ok(1,2) d] obtain v c where l: "instance_lookup X k s = Inr (v, c)" by blast
  then obtain nm nd m g where v: "v = VFunction nm" and sym: "symbol_at X s k = Some nm" and
    p: "createFunctionPrototype (x_fmt X) (cp_containing s) nd (cp_module s) = Inr (nm, m)" "m nm = Some g" and
    c: "c = s\<lparr>cp_module := m,
       cp_dependencies := (if isDeclaration g then List.insert k (cp_dependencies s) else cp_dependencies s),
       cp_source := (cp_source s)(nm \<mapsto> k)\<rparr>"
    by (rule instance_lookupE)
  have nm: "nm = name" using d sym by (simp add: declares_at_def)
  note lu = lookup_looks_up [OF l]
  have t: "same_trees s c" using lu by (simp add: looked_up_def)
  have bod: "bodies c name = gl_body g" using p(2) by (simp add: bodies_def c nm)
  then have decl: "isDeclaration g \<longleftrightarrow> bodies s name = None"
    using looked_up_bodies [OF lu] by (simp add: isDeclaration_def)
  have heap: "cp_heap c = cp_heap s" "cp_engine c = cp_engine s" "cp_containing c = cp_containing s"
    "cp_generation c = cp_generation s"
    by (simp_all add: c)
  note dc = declares_at_same [OF t, of X]
  have tc: "typed X c" by (rule typed_looked_up [OF lu ok(1,2)])
  show ?thesis
  proof (cases "bodies s name")
    case None
    have g: "gl_type g = ty" using tc d p(2) unfolding typed_def dc by (simp add: c nm)
    have "\<exists>s'. generateBody X (instantiate X (Suc n)) k node name c = Inr s' \<and> generates X (Suc n) k c s'"
    proof (rule generateBody_generates)
      show "bodies c name = None" using None decl bod by (simp add: isDeclaration_def)
      show "cp_module c name = Some g" using p(2) by (simp add: c nm)
      show "consistent X c" using ok(1) by (simp add: consistent_def dc)
      show "function_ok (unit_globals X c) node" using node(2) unit_globals_same [OF t ok(2) tc] by simp
    qed (use d g node ok(3) heap tc in \<open>simp_all add: dc\<close>)
    then obtain s' where s': "generateBody X (instantiate X (Suc n)) k node name c = Inr s'" "generates X (Suc n) k c s'"
      by blast
    have "generates X (Suc n) k s s'" by (rule looked_up_generates [OF lu _ s'(2)]) (auto simp: c)
    moreover have "codegenFunctionDecl X (instantiate X (Suc n)) k s = Inr (Some name, s')"
      using l v p(2) node(1) heap decl None plain s'(1)
      by (simp add: codegenFunctionDecl_def function_name_def global_def c nm consume_nothing)
    ultimately show ?thesis using None by simp
  next
    case (Some b)
    then have "m = cp_module s" using p(1) by (elim createFunctionPrototypeE) (auto simp: bodies_def nm)
    then have "same_trees s c \<and> cp_module c = cp_module s \<and> cp_dependencies c = cp_dependencies s \<and> cp_generation c = cp_generation s"
      using t decl Some by (simp add: c)
    moreover have "codegenFunctionDecl X (instantiate X (Suc n)) k s = Inr (Some name, c)"
      using l v p(2) node(1) heap decl Some
      by (simp add: codegenFunctionDecl_def function_name_def global_def c nm)
    ultimately show ?thesis using Some by simp
  qed
qed

section \<open>The work list\<close>

text \<open>
  A unit with the functions \<open>F\<close> among its top level nodes \<open>D\<close>: all functions there are, with different
  symbols, and the generator succeeds on each.
\<close>

definition plain_unit :: "external \<Rightarrow> compiler \<Rightarrow> addr set \<Rightarrow> addr set \<Rightarrow> bool" where
  "plain_unit X S F D \<longleftrightarrow> finite D \<and> F \<subseteq> D
     \<and> (\<forall>k. k \<in> F \<longleftrightarrow> (\<exists>name ty. declares_at X S k name ty)) \<and> inj_on (symbol_in X S) F
     \<and> (\<forall>k \<in> F. \<exists>node u. cp_heap S k = Some node \<and> cp_containing S k = Some u \<and> instantiations node = []
          \<and> function_ok \<lparr>g_heap = cp_heap S, g_function = (\<lambda>k. k \<in> F), g_inst = (\<lambda>a. False)\<rparr> node)
     \<and> (\<forall>k \<in> D - F. \<exists>node. cp_heap S k = Some node \<and> getKind node \<noteq> KindFunctionDecl
          \<and> getKind node \<noteq> KindMetaInstantiationExpr)
     \<and> cp_instances S = Map.empty \<and> \<not> hasErrors (cp_engine S)"

lemma plain_unitD:
  assumes "plain_unit X S F D"
  shows "finite F" "F \<subseteq> D" "declares_at X S k name ty \<Longrightarrow> k \<in> F"
    "k \<in> F \<Longrightarrow> d \<in> F \<Longrightarrow> symbol_in X S d = symbol_in X S k \<Longrightarrow> d = k"
    "k \<in> D \<Longrightarrow> k \<notin> F \<Longrightarrow> \<exists>node. cp_heap S k = Some node \<and> getKind node \<noteq> KindFunctionDecl
       \<and> getKind node \<noteq> KindMetaInstantiationExpr"
    "finite D" "cp_instances S = Map.empty" "\<not> hasErrors (cp_engine S)"
  using assms unfolding plain_unit_def by (blast dest: inj_onD intro: finite_subset)+

text \<open>Every function is generated, or in the list; what is generated is its code.\<close>

definition unit_inv :: "external \<Rightarrow> nat \<Rightarrow> compiler \<Rightarrow> addr set \<Rightarrow> addr set \<Rightarrow> compiler \<Rightarrow> bool" where
  "unit_inv X n S F D c \<longleftrightarrow> same_trees S c \<and> cp_generation c = []
     \<and> distinct (cp_dependencies c) \<and> set (cp_dependencies c) \<subseteq> D
     \<and> (\<forall>name g. cp_module c name = Some g \<longrightarrow> (\<exists>k \<in> F. declares_at X S k name (gl_type g)))
     \<and> (\<forall>k \<in> F. bodies c (symbol_in X S k) = None \<longrightarrow> k \<in> set (cp_dependencies c))
     \<and> (\<forall>k \<in> F. \<forall>b. bodies c (symbol_in X S k) = Some b \<longrightarrow> compiled X n S k b)"

definition open_functions :: "external \<Rightarrow> compiler \<Rightarrow> addr set \<Rightarrow> compiler \<Rightarrow> addr set" where
  "open_functions X S F c = {k \<in> F. bodies c (symbol_in X S k) = None}"

definition rounds :: "external \<Rightarrow> compiler \<Rightarrow> addr set \<Rightarrow> compiler \<Rightarrow> nat" where
  "rounds X S F c = 2 * card (open_functions X S F c) + card (set (cp_dependencies c) - open_functions X S F c)"

lemma plain_consistent:
  assumes "plain_unit X S F D"
  shows "consistent X S"
proof -
  have "k' = k" if "declares_at X S k name ty" "declares_at X S k' name ty'" for k k' name ty ty'
  proof -
    have "k \<in> F" "k' \<in> F" using plain_unitD(3) [OF assms] that by blast+
    moreover have "symbol_in X S k' = symbol_in X S k" using that by (simp add: declares_at_symbol)
    ultimately show ?thesis by (rule plain_unitD(4) [OF assms])
  qed
  then show ?thesis unfolding consistent_def using declares_at_unique by metis
qed

lemma plain_globals:
  assumes "plain_unit X S F D" and t: "same_trees S c" and ty: "typed X c"
  shows "unit_globals X c = \<lparr>g_heap = cp_heap S, g_function = (\<lambda>k. k \<in> F), g_inst = (\<lambda>a. False)\<rparr>"
proof -
  have "consistent X c" using plain_consistent [OF assms(1)] by (simp add: consistent_def declares_at_same [OF t])
  moreover have "(\<exists>name ty. declares_at X S k name ty) \<longleftrightarrow> k \<in> F" for k
    using assms(1) unfolding plain_unit_def by blast
  ultimately show ?thesis
    using plain_unitD(7) [OF assms(1)] t ty
    by (simp add: unit_globals_def declares_at_same [OF t] same_trees_def)
qed

lemma plain_typed:
  assumes plain: "plain_unit X S F D" and t: "same_trees S c"
    and m: "\<And>name g. cp_module c name = Some g \<Longrightarrow> \<exists>k \<in> F. declares_at X S k name (gl_type g)"
  shows "typed X c"
proof -
  have "gl_type g = ty" if "declares_at X S k name ty" "cp_module c name = Some g" for k name ty g
    using m [OF that(2)] that(1) plain_consistent [OF plain] unfolding consistent_def by blast
  then show ?thesis by (simp add: typed_def declares_at_same [OF t])
qed

text \<open>Generating an open function closes it; the functions it needs are open, and in the list.\<close>

lemma unit_generated:
  assumes plain: "plain_unit X S F D" and inv: "unit_inv X n S F D c" and k: "k \<in> set (cp_dependencies c)" "k \<in> F"
    and gen: "generates X n k (c\<lparr>cp_dependencies := removeAll k (cp_dependencies c)\<rparr>) c'"
    and op: "bodies c (symbol_in X S k) = None"
  shows "unit_inv X n S F D c' \<and> rounds X S F c' < rounds X S F c"
proof -
  define c1 where "c1 = c\<lparr>cp_dependencies := removeAll k (cp_dependencies c)\<rparr>"
  note i = inv [unfolded unit_inv_def] and g = gen [folded c1_def, unfolded generates_def]
  have b1: "bodies c1 = bodies c" by (simp add: c1_def bodies_def fun_eq_iff)
  have deps1: "set (cp_dependencies c1) = set (cp_dependencies c) - {k}" "distinct (cp_dependencies c1)"
    using i by (simp_all add: c1_def distinct_removeAll)
  have t: "same_trees S c1" using i by (simp add: c1_def)
  have t': "same_trees S c'" using t g by (blast intro: same_trees_trans)
  note dc = declares_at_same [OF t, of X] symbol_same(2) [OF t, of X]
  have inj: "d = k" if "d \<in> F" "symbol_in X S d = symbol_in X S k" for d
    using plain_unitD(4) [OF plain k(2) that] .
  have other: "bodies c' (symbol_in X S d) = bodies c (symbol_in X S d)" if "d \<in> F" "d \<noteq> k" for d
    using g inj [OF that(1)] that(2) by (auto simp: dc b1)
  have known: "d \<in> F" if "declares_at X S d nm ty" for d nm ty using plain_unitD(3) [OF plain that] .
  have new: "d \<in> open_functions X S F c" if "d \<in> set (cp_dependencies c')" "d \<noteq> k" "d \<notin> set (cp_dependencies c)" for d
  proof -
    have "d \<in> set (cp_dependencies c') - insert k (set (cp_dependencies c1))" using that deps1 by blast
    with g have "\<exists>name ty. declares_at X c1 d name ty \<and> bodies c1 name = None" by blast
    then have "\<exists>name ty. declares_at X S d name ty \<and> bodies c name = None" by (simp add: dc b1)
    then show ?thesis using known declares_at_symbol by (auto simp: open_functions_def)
  qed
  have opens': "open_functions X S F c' = open_functions X S F c - {k}"
  proof -
    have "bodies c' (symbol_in X S k) \<noteq> None" using g by (auto simp: dc)
    then have "d \<in> open_functions X S F c' \<longleftrightarrow> d \<in> open_functions X S F c - {k}" for d
      by (cases "d = k") (auto simp: open_functions_def other)
    then show ?thesis by blast
  qed
  have kopen: "k \<in> open_functions X S F c" using k(2) op by (simp add: open_functions_def)
  have fin: "finite F" "finite (set (cp_dependencies c))" using plain_unitD(1) [OF plain] by auto
  then have opens: "finite (open_functions X S F c)" by (simp add: open_functions_def)
  have "unit_inv X n S F D c'"
    unfolding unit_inv_def
  proof (intro conjI allI impI ballI)
    show "cp_generation c' = []" using g i by (simp add: c1_def)
    show "distinct (cp_dependencies c')" using g deps1 by simp
    show "set (cp_dependencies c') \<subseteq> D"
      using new i k plain_unitD(2) [OF plain] by (auto simp: open_functions_def)
    show "\<exists>k\<in>F. declares_at X S k nm (gl_type gg)" if m: "cp_module c' nm = Some gg" for nm gg
    proof (cases "cp_module c nm")
      case None
      then have "cp_module c1 nm = None" by (simp add: c1_def)
      with m g have "\<exists>d. declares_at X c1 d nm (gl_type gg)" by blast
      then show ?thesis using known by (auto simp: dc)
    next
      case (Some g1)
      then have "cp_module c1 nm = Some g1" by (simp add: c1_def)
      with m g have "gl_type gg = gl_type g1" by force
      with Some i show ?thesis by auto
    qed
    show "d \<in> set (cp_dependencies c')" if "d \<in> F" "bodies c' (symbol_in X S d) = None" for d
    proof -
      have "d \<in> open_functions X S F c'" using that by (simp add: open_functions_def)
      then have "d \<in> open_functions X S F c - {k}" using opens' by simp
      then have "d \<in> set (cp_dependencies c1)" using i deps1 by (auto simp: open_functions_def)
      then show ?thesis using g by blast
    qed
    show "compiled X n S d b" if "d \<in> F" "bodies c' (symbol_in X S d) = Some b" for d b
    proof (cases "d = k")
      case True
      with that g have "compiled X n c1 k b" by (auto simp: dc)
      then show ?thesis using True compiled_same [OF t] by blast
    next
      case False
      with that other i show ?thesis by auto
    qed
  qed (rule t')
  moreover have "rounds X S F c' < rounds X S F c"
  proof -
    have "set (cp_dependencies c') - open_functions X S F c' \<subseteq> insert k (set (cp_dependencies c) - open_functions X S F c)"
      using new opens' by auto
    then have "card (set (cp_dependencies c') - open_functions X S F c') \<le> Suc (card (set (cp_dependencies c) - open_functions X S F c))"
      using fin by (metis card_insert_le_m1 card_mono card_insert_disjoint finite_Diff finite_insert insert_absorb le_SucI)
    moreover have "card (open_functions X S F c) = Suc (card (open_functions X S F c'))"
      using card_Suc_Diff1 [OF opens kopen] unfolding opens' by (rule sym)
    ultimately show ?thesis by (simp add: rounds_def)
  qed
  ultimately show ?thesis by blast
qed

lemma unit_step:
  assumes plain: "plain_unit X S F D" and inv: "unit_inv X (Suc n) S F D c" and k: "k \<in> set (cp_dependencies c)"
  shows "\<exists>c'. codegenNode X (instantiate X (Suc n)) k (c\<lparr>cp_dependencies := removeAll k (cp_dependencies c)\<rparr>) = Inr (True, c')
    \<and> unit_inv X (Suc n) S F D c' \<and> rounds X S F c' < rounds X S F c"
proof -
  define c1 where "c1 = c\<lparr>cp_dependencies := removeAll k (cp_dependencies c)\<rparr>"
  note i = inv [unfolded unit_inv_def]
  have b1: "bodies c1 = bodies c" by (simp add: c1_def bodies_def fun_eq_iff)
  have deps1: "set (cp_dependencies c1) = set (cp_dependencies c) - {k}" "distinct (cp_dependencies c1)"
    using i by (simp_all add: c1_def distinct_removeAll)
  have t: "same_trees S c1" using i by (simp add: c1_def)
  then have heap: "cp_heap c1 = cp_heap S" "cp_containing c1 = cp_containing S" "cp_engine c1 = cp_engine S"
    by (simp_all add: same_trees_def)
  have fin: "finite F" "finite (set (cp_dependencies c))" using plain_unitD(1) [OF plain] by auto
  have opens: "finite (open_functions X S F c)" using fin by (simp add: open_functions_def)
  have kD: "k \<in> D" using i k by auto
  show ?thesis
  proof (cases "k \<in> F")
    case False
    with plain_unitD(5) [OF plain kD] obtain node where "cp_heap S k = Some node" "getKind node \<noteq> KindFunctionDecl"
      "getKind node \<noteq> KindMetaInstantiationExpr"
      by blast
    then have "codegenNode X (instantiate X (Suc n)) k c1 = Inr (True, c1)" by (simp add: codegenNode_def heap)
    moreover have "unit_inv X (Suc n) S F D c1"
      using i deps1 t b1 False by (auto simp: unit_inv_def c1_def)
    moreover have "rounds X S F c1 < rounds X S F c"
    proof -
      have "set (cp_dependencies c1) - open_functions X S F c1 \<subset> set (cp_dependencies c) - open_functions X S F c"
        using k False deps1 b1 by (auto simp: open_functions_def)
      then have "card (set (cp_dependencies c1) - open_functions X S F c1) < card (set (cp_dependencies c) - open_functions X S F c)"
        using fin by (intro psubset_card_mono) auto
      then show ?thesis by (simp add: rounds_def open_functions_def b1)
    qed
    ultimately show ?thesis by (auto simp: c1_def)
  next
    case True
    with plain obtain name ty node u where d: "declares_at X S k name ty" and
      node: "cp_heap S k = Some node" "cp_containing S k = Some u" "instantiations node = []"
      "function_ok \<lparr>g_heap = cp_heap S, g_function = (\<lambda>k. k \<in> F), g_inst = (\<lambda>a. False)\<rparr> node"
      unfolding plain_unit_def by blast
    have name: "symbol_in X S k = name" using declares_at_symbol [OF d] .
    note dc = declares_at_same [OF t, of X] symbol_same(2) [OF t, of X]
    have ty: "typed X c1" by (rule plain_typed [OF plain t]) (use i in \<open>auto simp: c1_def\<close>)
    have "consistent X c1" using plain_consistent [OF plain] by (simp add: consistent_def dc)
    moreover have "function_ok (unit_globals X c1) node" using node(4) plain_globals [OF plain t ty] by simp
    moreover have "k \<notin> set (cp_generation c1)" using i by (simp add: c1_def)
    moreover have "\<not> hasErrors (cp_engine c1)" using plain_unitD(8) [OF plain] by (simp add: heap)
    ultimately obtain c' where c': "codegenFunctionDecl X (instantiate X (Suc n)) k c1 = Inr (Some name, c')"
      and eff: "if bodies c1 name = None then generates X (Suc n) k c1 c'
        else same_trees c1 c' \<and> cp_module c' = cp_module c1 \<and> cp_dependencies c' = cp_dependencies c1
          \<and> cp_generation c' = cp_generation c1"
      using codegenFunctionDecl_step [of X c1 k name ty node u n] d ty node by (auto simp: dc heap)
    have run: "codegenNode X (instantiate X (Suc n)) k c1 = Inr (True, c')"
    proof -
      have "getKind node = KindFunctionDecl"
        using d node(1) by (auto simp: declares_at_def isFunctionDecl_def)
      with c' node(1) show ?thesis by (simp add: codegenNode_def heap)
    qed
    show ?thesis
    proof (cases "bodies c1 name")
      case (Some b)
      then have e: "same_trees c1 c'" "cp_module c' = cp_module c1" "cp_dependencies c' = cp_dependencies c1"
        "cp_generation c' = cp_generation c1"
        using eff by simp_all
      then have e: "same_trees S c'" "cp_module c' = cp_module c" "cp_dependencies c' = cp_dependencies c1"
        "cp_generation c' = []" "bodies c' = bodies c"
        using same_trees_trans [OF t e(1)] i by (simp_all add: c1_def bodies_def fun_eq_iff)
      have closed: "k \<notin> open_functions X S F c" using Some b1 by (simp add: open_functions_def name)
      have "unit_inv X (Suc n) S F D c'"
        using i e deps1 closed by (auto simp: unit_inv_def open_functions_def)
      moreover have "rounds X S F c' < rounds X S F c"
      proof -
        have "set (cp_dependencies c1) - open_functions X S F c \<subset> set (cp_dependencies c) - open_functions X S F c"
          using k closed deps1 by auto
        then have "card (set (cp_dependencies c1) - open_functions X S F c) < card (set (cp_dependencies c) - open_functions X S F c)"
          using fin by (intro psubset_card_mono) auto
        then show ?thesis by (simp add: rounds_def open_functions_def e)
      qed
      ultimately show ?thesis using run by (auto simp: c1_def)
    next
      case None
      then have gen: "generates X (Suc n) k c1 c'" using eff by simp
      moreover have "bodies c (symbol_in X S k) = None" using None b1 by (simp add: name)
      ultimately show ?thesis using unit_generated [OF plain inv k True] run by (auto simp: c1_def)
    qed
  qed
qed

text \<open>The loop ends, with nothing left to be generated.\<close>

lemma unit_loop:
  assumes "plain_unit X S F D" and "unit_inv X (Suc n) S F D c" and "rounds X S F c \<le> m"
  shows "\<exists>c'. codegenDependencies X (instantiate X (Suc n)) m c = Inr (True, c')
    \<and> unit_inv X (Suc n) S F D c' \<and> cp_dependencies c' = []"
  using assms(2,3)
proof (induction m arbitrary: c)
  case 0
  then have "set (cp_dependencies c) \<subseteq> open_functions X S F c" "open_functions X S F c = {}"
    using plain_unitD(1) [OF assms(1)] by (auto simp: rounds_def open_functions_def)
  then show ?case using 0 by auto
next
  case (Suc m)
  show ?case
  proof (cases "cp_dependencies c = []")
    case False
    define k where "k = first_of (x_hash X) (cp_dependencies c)"
    have "k \<in> set (cp_dependencies c)" using False by (simp add: k_def first_of_mem)
    from unit_step [OF assms(1) Suc.prems(1) this] obtain c1 where c1:
      "codegenNode X (instantiate X (Suc n)) k (c\<lparr>cp_dependencies := removeAll k (cp_dependencies c)\<rparr>) = Inr (True, c1)"
      "unit_inv X (Suc n) S F D c1" "rounds X S F c1 < rounds X S F c"
      by blast
    have "rounds X S F c1 \<le> m" using c1(3) Suc.prems(2) by simp
    from Suc.IH [OF c1(2) this] c1(1) False show ?thesis by (simp add: k_def Let_def)
  qed (use Suc.prems in auto)
qed

text \<open>
  From the state a unit is generated in: its tree is the heap, the module is empty. Every function
  ends up in the module, under its symbol, with its code.
\<close>

theorem codegenUnit_generates:
  assumes plain: "plain_unit X S (set fs) (set (map addr_of (children unit)))"
    and S: "cp_module S = Map.empty" "cp_dependencies S = []" "cp_generation S = []"
    and m: "2 * length (children unit) \<le> m"
  shows "\<exists>s'. codegenUnit X (instantiate X (Suc n)) m unit S = Inr (True, s')
    \<and> (\<forall>name g. cp_module s' name = Some g \<longrightarrow> (\<exists>k \<in> set fs. symbol_at X S k = Some name))
    \<and> (\<forall>k \<in> set fs. \<exists>g b. cp_module s' (symbol_in X S k) = Some g \<and> gl_body g = Some b
        \<and> compiled X (Suc n) S k b)"
proof -
  define F D where "F = set fs" and "D = set (map addr_of (children unit))"
  define c where "c = S\<lparr>cp_dependencies := fold List.insert (map addr_of (children unit)) []\<rparr>"
  have deps: "set (fold List.insert xs ys) = set xs \<union> set ys \<and> (distinct ys \<longrightarrow> distinct (fold List.insert xs ys))"
    for xs ys :: "addr list"
    by (induction xs arbitrary: ys) auto
  have "unit_inv X (Suc n) S F D c"
    using S deps [of "map addr_of (children unit)" "[]"] plain_unitD(2) [OF plain]
    by (auto simp: unit_inv_def c_def bodies_def F_def D_def)
  moreover have "rounds X S F c \<le> m"
  proof -
    have o: "open_functions X S F c \<subseteq> D" "finite D"
      using plain_unitD(2,6) [OF plain] by (auto simp: open_functions_def F_def D_def)
    have d: "set (cp_dependencies c) = D" using deps by (simp add: c_def D_def)
    have "card (D - open_functions X S F c) = card D - card (open_functions X S F c)"
      using o by (intro card_Diff_subset) (auto intro: finite_subset)
    moreover have "card (open_functions X S F c) \<le> card D" using o by (intro card_mono) auto
    moreover have "card D \<le> length (children unit)" unfolding D_def by (metis card_length length_map)
    ultimately show ?thesis using m by (simp add: rounds_def d)
  qed
  ultimately obtain c' where c': "codegenDependencies X (instantiate X (Suc n)) m c = Inr (True, c')"
    "unit_inv X (Suc n) S F D c'" "cp_dependencies c' = []"
    using unit_loop [of X S F D n c m] plain by (auto simp: F_def D_def)
  have "codegenUnit X (instantiate X (Suc n)) m unit S = Inr (True, c')"
    using c'(1) S by (simp add: codegenUnit_def c_def)
  moreover have "\<exists>k \<in> F. symbol_at X S k = Some name" if "cp_module c' name = Some g" for name g
  proof -
    from c'(2) that have "\<exists>k \<in> F. declares_at X S k name (gl_type g)" unfolding unit_inv_def by blast
    then show ?thesis by (auto simp: declares_at_def)
  qed
  moreover have "\<exists>g b. cp_module c' (symbol_in X S k) = Some g \<and> gl_body g = Some b \<and> compiled X (Suc n) S k b"
    if "k \<in> F" for k
    using c'(2,3) that
    by (cases "cp_module c' (symbol_in X S k)") (auto simp: unit_inv_def bodies_def)
  ultimately show ?thesis by (auto simp: F_def)
qed

end
