(* ===== verification/Codegen_Program.thy ===== *)
theory Codegen_Program imports Codegen_Unit begin

text \<open>
  Whole programs: the meaning of the functions of a unit that call each other, the runs of a module
  whose functions call each other, and that a module with the code of the unit computes its meaning.
\<close>

section \<open>Meaning and runs\<close>

text \<open>The functions of the source with a bound on the depth of calls.\<close>

fun program_call :: "external \<Rightarrow> compiler \<Rightarrow> addr list \<Rightarrow> nat \<Rightarrow> 'w swy_call" where
  "program_call X S fs 0 f ks w = None"
| "program_call X S fs (Suc d) f ks w = (case find (\<lambda>k. symbol_at X S k = Some f) fs of
     None \<Rightarrow> None
   | Some k \<Rightarrow> (case cp_heap S k of
       None \<Rightarrow> None
     | Some node \<Rightarrow> if length ks = arity node
         then exec_function (linkage_of X S (program_call X S fs d)) node ks w else None))"

text \<open>The functions of a module with a bound on the depth of calls and the steps of each.\<close>

fun module_call :: "ir_module \<Rightarrow> nat \<Rightarrow> 'w swy_call" where
  "module_call m 0 f ks w = None"
| "module_call m (Suc d) f ks w = (case m f of
     None \<Rightarrow> None
   | Some g \<Rightarrow> (case gl_body g of
       None \<Rightarrow> None
     | Some b \<Rightarrow> (case steps d (ir_code b) (ir_call_of (module_call m d)) ks (entry_config w) of
         Returned r w' \<Rightarrow> Some (r, w') | At b k mc \<Rightarrow> None)))"

section \<open>More calls that are answered\<close>

definition call_le :: "'w swy_call \<Rightarrow> 'w swy_call \<Rightarrow> bool" where
  "call_le c d \<longleftrightarrow> (\<forall>f ks w r. c f ks w = Some r \<longrightarrow> d f ks w = Some r)"

definition ir_call_le :: "'w ir_call \<Rightarrow> 'w ir_call \<Rightarrow> bool" where
  "ir_call_le c d \<longleftrightarrow> (\<forall>f vs mem w r. c f vs mem w = Some r \<longrightarrow> d f vs mem w = Some r)"

lemma ir_call_of_le: "call_le c d \<Longrightarrow> ir_call_le (ir_call_of c) (ir_call_of d)"
  by (auto simp: ir_call_of_def call_le_def ir_call_le_def split: option.splits)

lemma run_instr_le:
  assumes "ir_call_le c d"
    and "run_instr c as n i m = Some m'"
  shows "run_instr d as n i m = Some m'"
  using assms(2) unfolding run_instr_def
  by (cases i) (auto split: option.splits rval.splits dest!: assms(1) [unfolded ir_call_le_def, rule_format])

lemma step_le:
  assumes le: "ir_call_le c d"
    and s: "step code c as x = Some y"
  shows "step code d as x = Some y"
proof (cases x)
  case (At b k m)
  with s have k: "k < length (body code b)" by (auto simp: step_def split: if_splits)
  obtain n i where i: "body code b ! k = (n, i)" by fastforce
  show ?thesis
  proof (cases "\<exists>m'. run_instr c as n i m = Some m'")
    case True
    then obtain m' where m': "run_instr c as n i m = Some m'" by blast
    from run_instr_le [OF le m'] s k i At m' show ?thesis by (cases i) (auto simp: step_def)
  next
    case False
    with s k i At show ?thesis by (cases i) (auto simp: step_def)
  qed
qed (use s in \<open>simp add: step_def\<close>)

lemma steps_le:
  assumes le: "ir_call_le c d"
    and "steps k code c as x = Returned r w"
  shows "steps k code d as x = Returned r w"
  using assms(2)
proof (induction k arbitrary: x)
  case (Suc k)
  show ?case
  proof (cases "step code c as x")
    case None
    with Suc.prems have "x = Returned r w" by simp
    then show ?thesis by (simp add: step_def)
  next
    case (Some y)
    with Suc show ?thesis using step_le [OF le Some] by simp
  qed
qed simp

lemma steps_more:
  "steps k code c as x = Returned r w \<Longrightarrow> k \<le> j \<Longrightarrow> steps j code c as x = Returned r w"
proof (induction j arbitrary: k x)
  case (Suc j)
  show ?case
  proof (cases k)
    case 0
    with Suc.prems show ?thesis by (simp add: step_def)
  next
    case (Suc i)
    with Suc.prems Suc.IH show ?thesis by (auto split: option.splits)
  qed
qed simp

lemma module_call_Suc: "call_le (module_call m d :: 'w swy_call) (module_call m (Suc d))"
proof (induction d)
  case (Suc d)
  have "module_call m (Suc (Suc d)) f ks w = Some r" if c: "module_call m (Suc d) f ks w = Some r" for f ks r and w :: 'w
  proof -
    from c obtain g b where g: "m f = Some g" "gl_body g = Some b" and
      s: "steps d (ir_code b) (ir_call_of (module_call m d)) ks (entry_config w) = Returned (fst r) (snd r)"
      by (auto split: option.splits ir_config.splits)
    have "steps d (ir_code b) (ir_call_of (module_call m (Suc d))) ks (entry_config w) = Returned (fst r) (snd r)"
      using steps_le [OF ir_call_of_le [OF Suc.IH] s] .
    then have "steps (Suc d) (ir_code b) (ir_call_of (module_call m (Suc d))) ks (entry_config w) = Returned (fst r) (snd r)"
      by (rule steps_more) simp
    with g show ?thesis by (simp del: steps.simps)
  qed
  then show ?case by (simp only: call_le_def) blast
qed (simp add: call_le_def)

lemma call_le_trans: "call_le c d \<Longrightarrow> call_le d e \<Longrightarrow> call_le c e"
  by (simp add: call_le_def)

lemma module_call_mono: "d \<le> e \<Longrightarrow> call_le (module_call m d :: 'w swy_call) (module_call m e)"
proof (induction rule: dec_induct)
  case (step e)
  from step.IH show ?case by (rule call_le_trans [OF _ module_call_Suc])
qed (simp add: call_le_def)

text \<open>One step makes one call at most.\<close>

lemma run_instr_one_call:
  assumes "run_instr (ir_call_of c) as n i m = Some m'"
  shows "run_instr (ir_call_of (\<lambda>f ks w. None)) as n i m = Some m' \<or> (\<exists>f ks w r. c f ks w = Some r \<and>
    run_instr (ir_call_of (\<lambda>f' ks' w'. if f' = f \<and> ks' = ks \<and> w' = w then Some r else None)) as n i m = Some m')"
proof (cases i)
  case (Call g vs)
  with assms obtain f rs r w where f: "operand as m g = Some (RFun f)" "operands as m vs = Some rs"
    "ir_call_of c f rs (m_mem m) (m_world m) = Some (r, w)" "m' = set_reg n r (m\<lparr>m_world := w\<rparr>)"
    by (auto simp: run_instr_def split: option.splits rval.splits)
  then obtain ks q where ks: "integers rs = Some ks" "c f ks (m_world m) = Some (q, w)"
    "r = (case q of Some k \<Rightarrow> RInt k | None \<Rightarrow> RVoid)"
    by (auto simp: ir_call_of_def split: option.splits)
  have "run_instr (ir_call_of (\<lambda>f' ks' w'. if f' = f \<and> ks' = ks \<and> w' = m_world m then Some (q, w) else None)) as n i m = Some m'"
    using f ks Call by (simp add: run_instr_def ir_call_of_def)
  with ks(2) show ?thesis by blast
qed (use assms in \<open>simp_all add: run_instr_def\<close>)

lemma step_one_call:
  assumes s: "step code (ir_call_of c) as x = Some y"
  shows "step code (ir_call_of (\<lambda>f ks w. None)) as x = Some y \<or> (\<exists>f ks w r. c f ks w = Some r \<and>
    step code (ir_call_of (\<lambda>f' ks' w'. if f' = f \<and> ks' = ks \<and> w' = w then Some r else None)) as x = Some y)"
proof (cases x)
  case (At b k m)
  with s have k: "k < length (body code b)" by (auto simp: step_def split: if_splits)
  obtain n i where i: "body code b ! k = (n, i)" by fastforce
  show ?thesis
  proof (cases "\<exists>m'. run_instr (ir_call_of c) as n i m = Some m'")
    case True
    then obtain m' where m': "run_instr (ir_call_of c) as n i m = Some m'" by blast
    have y: "step code d as x = Some y" if "run_instr d as n i m = Some m'" for d
      using s k i At m' that by (cases i) (auto simp: step_def)
    from run_instr_one_call [OF m'] show ?thesis using y by blast
  next
    case False
    then have "step code d as x = Some y" for d
      using s k i At by (cases i) (auto simp: step_def)
    then show ?thesis by blast
  qed
qed (use s in \<open>simp add: step_def\<close>)

text \<open>Calls that the module answers at some depth are answered at one depth in a run of many steps.\<close>

lemma steps_module:
  assumes call: "\<And>f ks w r. c f ks w = Some r \<Longrightarrow> \<exists>N. module_call m N f ks w = Some r"
    and "steps k code (ir_call_of c) as x = Returned r w"
  shows "\<exists>N. steps k code (ir_call_of (module_call m N)) as x = Returned r w"
  using assms(2)
proof (induction k arbitrary: x)
  case (Suc k)
  show ?case
  proof (cases "step code (ir_call_of c) as x")
    case None
    with Suc.prems have "x = Returned r w" by simp
    then show ?thesis by (simp add: step_def)
  next
    case (Some y)
    with Suc obtain N where N: "steps k code (ir_call_of (module_call m N)) as y = Returned r w" by auto
    have "\<exists>M. step code (ir_call_of (module_call m M)) as x = Some y"
    proof (cases "\<exists>f ks w r. c f ks w = Some r \<and>
        step code (ir_call_of (\<lambda>f' ks' w'. if f' = f \<and> ks' = ks \<and> w' = w then Some r else None)) as x = Some y")
      case True
      then obtain f ks w0 r0 where one: "c f ks w0 = Some r0"
        "step code (ir_call_of (\<lambda>f' ks' w'. if f' = f \<and> ks' = ks \<and> w' = w0 then Some r0 else None)) as x = Some y"
        by blast
      from call [OF one(1)] obtain M where "module_call m M f ks w0 = Some r0" by blast
      then have "call_le (\<lambda>f' ks' w'. if f' = f \<and> ks' = ks \<and> w' = w0 then Some r0 else None) (module_call m M)"
        by (simp add: call_le_def)
      from step_le [OF ir_call_of_le [OF this] one(2)] show ?thesis by blast
    next
      case False
      have "step code (ir_call_of (\<lambda>f ks w. None)) as x = Some y"
        using step_one_call [OF Some] False by blast
      moreover have "call_le (\<lambda>f ks w. None) (module_call m 0)" by (simp add: call_le_def)
      ultimately show ?thesis using step_le [OF ir_call_of_le] by blast
    qed
    then obtain M where M: "step code (ir_call_of (module_call m M)) as x = Some y" by blast
    have le: "call_le (module_call m N) (module_call m (max N M))" "call_le (module_call m M) (module_call m (max N M))"
      by (simp_all add: module_call_mono)
    from step_le [OF ir_call_of_le [OF le(2)] M] steps_le [OF ir_call_of_le [OF le(1)] N]
    have "steps (Suc k) code (ir_call_of (module_call m (max N M))) as x = Returned r w" by simp
    then show ?thesis by blast
  qed
qed simp

section \<open>The module computes the meaning of the unit\<close>

theorem module_computes:
  fixes w :: 'w
  assumes m: "\<And>k. k \<in> set fs \<Longrightarrow> \<exists>g b. m (symbol_in X S k) = Some g \<and> gl_body g = Some b \<and> compiled X n S k b"
    and branches: "\<And>k node. k \<in> set fs \<Longrightarrow> cp_heap S k = Some node \<Longrightarrow> branches_ok (cp_heap S) node"
    and opt: "\<And>f call as (w :: 'w) r w'. reaches (ir_code f) call as (entry_config w) (Returned r w')
      \<Longrightarrow> reaches (ir_code (x_optimize X f)) call as (entry_config w) (Returned r w')"
    and run: "program_call X S fs d f ks w = Some res"
  shows "\<exists>N. module_call m N f ks w = Some res"
  using run
proof (induction d arbitrary: f ks w res)
  case (Suc d)
  obtain r w' where res: "res = (r, w')" by fastforce
  from Suc.prems obtain k node where k: "find (\<lambda>k. symbol_at X S k = Some f) fs = Some k" "cp_heap S k = Some node"
    and len: "length ks = arity node"
    and x: "exec_function (linkage_of X S (program_call X S fs d)) node ks w = Some (r, w')"
    by (auto simp: res split: option.splits if_splits)
  from k(1) have mem: "k \<in> set fs" "symbol_at X S k = Some f"
    by (auto simp: find_Some_iff)
  then have "symbol_in X S k = f" by (simp add: symbol_in_def)
  with m [OF mem(1)] obtain g b where g: "m f = Some g" "gl_body g = Some b" "compiled X n S k b" by auto
  from g(3) k(2) obtain c t where t: "same_trees S c" "b = x_optimize X (fc_builder t)"
    "codegenFunction (cp_heap S) (instance_context X (instantiate X n)) node (fc_new (arity node) c) = Inr t"
    by (auto simp: compiled_def)
  have "reaches (code_of t @ []) (ir_call_of (program_call X S fs d)) ks (entry_config w) (Returned r w')"
    by (rule instance_linked.function_correct [where S = S]) (use t(1,3) len x branches [OF mem(1) k(2)] in simp_all)
  then have "reaches (ir_code b) (ir_call_of (program_call X S fs d)) ks (entry_config w) (Returned r w')"
    unfolding t(2) by (intro opt) simp
  from reaches_steps [OF this]
  obtain j where "steps j (ir_code b) (ir_call_of (program_call X S fs d)) ks (entry_config w) = Returned r w'" ..
  from steps_module [OF Suc.IH this] obtain N where
    N: "steps j (ir_code b) (ir_call_of (module_call m N)) ks (entry_config w) = Returned r w'" by blast
  have "steps j (ir_code b) (ir_call_of (module_call m (max j N))) ks (entry_config w) = Returned r w'"
    using steps_le [OF ir_call_of_le [OF module_call_mono] N] by simp
  then have "steps (max j N) (ir_code b) (ir_call_of (module_call m (max j N))) ks (entry_config w) = Returned r w'"
    by (rule steps_more) simp
  with g(1,2) res have "module_call m (Suc (max j N)) f ks w = Some res" by simp
  then show ?case by blast
qed simp

end
