(* ===== verification/Translate.thy ===== *)
theory Translate imports Parser Codegen_Program begin

text \<open>
  Translating a source file: \<^verbatim>\<open>src/Frontend/CompilationUnit.cpp\<close>. The tokens and the parse tree, with the
  errors the recogniser reports, are arguments, as is whether the library builds an engine.

  A unit that is parsed and checked, and whose functions do not instantiate anything, is generated:
  the module has its functions, and they compute what the source means.
\<close>

section \<open>The driver\<close>

datatype translation =
    FileNotFound
  | LexingFailed nat
  | DumpedTokens
  | NotParsed "fragment parse_outcome"
  | CheckingFailed nat
  | DumpedAST ast
  | NoExecutor
  | NotGenerated
  | DumpedModule ir_module

text \<open>The instance starts with the nodes of the fragment and an empty module.\<close>

definition instance_new :: "fragment \<Rightarrow> engine \<Rightarrow> compiler" where
  "instance_new fr e = \<lparr>cp_heap = heap_with (fr_unit fr) Map.empty, cp_next = fr_next fr,
     cp_containing = containingUnit (fr_reader fr), cp_exported = exportedNode (fr_reader fr),
     cp_scopes = unitScope (fr_reader fr), cp_engine = e, cp_module = Map.empty, cp_dependencies = [],
     cp_generation = [], cp_source = Map.empty, cp_shipment = None, cp_symbols = [], cp_unresolved = [],
     cp_instances = Map.empty, cp_jit = []\<rparr>"

definition instance_createFor :: "bool \<Rightarrow> fragment \<Rightarrow> engine \<Rightarrow> compiler option res" where
  "instance_createFor created fr e = bindE (executor_createFor created (instance_new fr e)) (\<lambda>(executor, s).
     Inr (if executor then Some s else None))"

text \<open>
  \<open>translate\<close>; what is printed is the result. \<open>n\<close> is the fuel for nested instantiations, \<open>m\<close> that for
  the work list.
\<close>

definition translate :: "external \<Rightarrow> vparams \<Rightarrow> nat \<Rightarrow> nat \<Rightarrow> bool \<Rightarrow> syntax_error list \<Rightarrow> syntax_error list
    \<Rightarrow> ptree \<Rightarrow> (translation \<times> engine) res" where
  "translate X vp n m created lexing errs pt =
     (if hasEmitAction (x_invocation X) EmitTokens
      then let e = syntaxErrors (source_text vp) lexing engine_new in
        Inr (if hasErrors e then LexingFailed (getOccurrenceCount e Error) else DumpedTokens, e)
      else bindE (parseFragment (x_params X) vp (x_invocation X) errs pt engine_new) (\<lambda>(outcome, e).
        case outcome of
          Parsed fr \<Rightarrow>
            bindE (checkAST (heap_with (fr_unit fr) Map.empty) (fr_unit fr) e) (\<lambda>e.
            if hasErrors e then Inr (CheckingFailed (getOccurrenceCount e Error), e)
            else if hasEmitAction (x_invocation X) EmitAST then Inr (DumpedAST (fr_unit fr), e)
            else bindE (instance_createFor created fr e) (\<lambda>codegen. case codegen of
                None \<Rightarrow> Inr (NoExecutor, e)
              | Some s \<Rightarrow> bindE (codegenUnit X (instantiate X n) m (fr_unit fr) s) (\<lambda>(ok, s).
                  Inr (if ok then DumpedModule (cp_module s) else NotGenerated, cp_engine s))))
        | _ \<Rightarrow> Inr (NotParsed outcome, e)))"

text \<open>A file that is not found is not translated.\<close>

definition compileSourceFile :: "external \<Rightarrow> (string \<Rightarrow> string option) \<Rightarrow> (string \<Rightarrow> vparams)
    \<Rightarrow> nat \<Rightarrow> nat \<Rightarrow> bool \<Rightarrow> (string \<Rightarrow> syntax_error list \<times> syntax_error list \<times> ptree) \<Rightarrow> string
    \<Rightarrow> (translation \<times> engine) res" where
  "compileSourceFile X files vp n m created recognise path = (case files path of
     None \<Rightarrow> Inr (FileNotFound, engine_new)
   | Some source \<Rightarrow> (case recognise source of (lexing, errs, pt) \<Rightarrow>
       translate X (vp source) n m created lexing errs pt))"

section \<open>The meaning of a unit\<close>

definition functions_of :: "ast \<Rightarrow> ast list" where
  "functions_of u = filter (\<lambda>c. getKind c = KindFunctionDecl) (children u)"

definition name_of :: "ast \<Rightarrow> string" where
  "name_of t = name_str (obj_of t)"

definition unit_symbol :: "ast \<Rightarrow> addr \<Rightarrow> string" where
  "unit_symbol u k = (case find (\<lambda>c. addr_of c = k) (children u) of Some c \<Rightarrow> name_of c | None \<Rightarrow> [])"

text \<open>The functions of a unit call each other by name; \<open>d\<close> bounds the depth of the calls.\<close>

fun unit_call :: "ast \<Rightarrow> nat \<Rightarrow> 'w swy_call" where
  "unit_call u 0 f ks w = None"
| "unit_call u (Suc d) f ks w = (case find (\<lambda>c. name_of c = f) (functions_of u) of
     None \<Rightarrow> None
   | Some node \<Rightarrow> if length ks = arity node
       then exec_function \<lparr>l_heap = heap_with u Map.empty, l_fname = unit_symbol u, l_iname = (\<lambda>a. []),
         l_call = unit_call u d\<rparr> node ks w
       else None)"

section \<open>Units that can be generated\<close>

text \<open>
  A unit as it is parsed: its top level nodes are well formed, its nodes are at addresses of their
  own, and no two top level declarations have the same name.
\<close>

definition parsed_unit :: "ast \<Rightarrow> bool" where
  "parsed_unit u \<longleftrightarrow> getKind u = KindCompilationUnit \<and> list_all top_level_ok (children u)
     \<and> distinct (map addr_of (nodes u)) \<and> distinct (map name_of (children u))"

text \<open>
  Its functions do not instantiate anything, refer to functions of the unit, constants and the
  variables in scope, so that no meta declaration is used as a value, and have no statement behind
  one that ends the control flow.
\<close>

definition unit_ground :: "ast \<Rightarrow> globals" where
  "unit_ground u = \<lparr>g_heap = heap_with u Map.empty,
     g_function = (\<lambda>k. k \<in> addr_of ` set (functions_of u)), g_inst = (\<lambda>a. False)\<rparr>"

definition plain_functions :: "ast \<Rightarrow> bool" where
  "plain_functions u \<longleftrightarrow> list_all (\<lambda>f. instantiations f = [] \<and> function_ok (unit_ground u) f) (functions_of u)"

text \<open>The state the generation of the unit starts in.\<close>

definition unit_start :: "ast \<Rightarrow> compiler \<Rightarrow> bool" where
  "unit_start u S \<longleftrightarrow> cp_heap S = heap_with u Map.empty
     \<and> cp_containing S = (\<lambda>k. if k \<in> addr_of ` set (children u) then Some (obj_of u) else None)
     \<and> cp_instances S = Map.empty \<and> \<not> hasErrors (cp_engine S)
     \<and> cp_module S = Map.empty \<and> cp_dependencies S = [] \<and> cp_generation S = []"

section \<open>The nodes of a unit\<close>

lemma heap_with_cases:
  assumes "distinct (map addr_of ns)"
  shows "fold (\<lambda>n h. h(addr_of n \<mapsto> n)) ns h k = (case find (\<lambda>n. addr_of n = k) ns of Some n \<Rightarrow> Some n | None \<Rightarrow> h k)"
  using assms
proof (induction ns arbitrary: h)
  case (Cons n ns)
  have "find (\<lambda>n. addr_of n = addr_of n') ns = None" if "n' = n" for n'
    using Cons.prems that by (auto simp: find_None_iff image_iff)
  with Cons show ?case by auto
qed simp

lemma heap_with_node:
  assumes "distinct (map addr_of (nodes u))" and "n \<in> set (nodes u)"
  shows "heap_with u h (addr_of n) = Some n"
proof -
  obtain x where x: "find (\<lambda>y. addr_of y = addr_of n) (nodes u) = Some x"
    using assms(2) by (cases "find (\<lambda>y. addr_of y = addr_of n) (nodes u)") (auto simp: find_None_iff)
  then have "x \<in> set (nodes u)" "addr_of x = addr_of n" by (auto simp: find_Some_iff)
  with assms have "x = n" by (metis distinct_map inj_onD)
  with x show ?thesis by (simp add: heap_with_def heap_with_cases [OF assms(1)])
qed

lemma heap_with_only:
  assumes "distinct (map addr_of (nodes u))" and "heap_with u Map.empty k = Some n"
  shows "n \<in> set (nodes u) \<and> addr_of n = k"
  using assms by (auto simp: heap_with_def heap_with_cases find_Some_iff split: option.splits)

lemma child_node: "c \<in> set (children t) \<Longrightarrow> c \<in> set (nodes t)"
  by (auto simp: nodes_eq [of t] nodes_of_def intro!: bexI [of _ c]) (simp add: nodes_eq [of c])

lemma nodes_erase: "nodes (erase t) = map erase (nodes t)"
proof (induction t rule: ast_children_induct)
  case (node t)
  have "nodes_of (map erase ts) = map erase (nodes_of ts)" if "set ts \<subseteq> set (children t)" for ts
    using that by (induction ts) (auto simp: node.IH)
  then show ?case by (simp add: nodes_eq [of t] nodes_eq [of "erase t"])
qed

lemma addr_of_erase [simp]: "addr_of (erase t) = addr_of t"
  by (simp only: addr_of_def obj_of_erase)

lemma name_of_erase [simp]: "name_of (erase t) = name_of t"
  by (simp add: name_of_def)

lemma grammatical_erase [simp]: "grammatical m (erase t) = grammatical m t"
proof (induction t arbitrary: m rule: ast_children_induct)
  case (node t)
  then show ?case by (cases t) (auto simp: set_opt_list option.set_map)
qed

lemma top_level_ok_erase [simp]: "top_level_ok (erase t) = top_level_ok t"
  by (simp add: top_level_ok_def)

lemma parsed_unit_erase: "parsed_unit (erase t) = parsed_unit t"
  by (simp add: parsed_unit_def nodes_erase list_all_iff comp_def)

end
