(* ===== verification/Translate_Correct.thy ===== *)
theory Translate_Correct imports Translate begin

text \<open>
  The driver does what it is for: a unit that is parsed and checked, and whose functions are plain, is
  generated, and its module computes the meaning of the unit.
\<close>

section \<open>Symbols of a unit\<close>

lemma parsed_unitD:
  assumes "parsed_unit u"
  shows "c \<in> set (children u) \<Longrightarrow> top_level_ok c" "distinct (map addr_of (nodes u))" "distinct (map name_of (children u))"
    "obj_payload (obj_of u) = PCompilationUnit"
    "c \<in> set (children u) \<Longrightarrow> c' \<in> set (children u) \<Longrightarrow> addr_of c = addr_of c' \<Longrightarrow> c = c'"
    "c \<in> set (children u) \<Longrightarrow> c' \<in> set (children u) \<Longrightarrow> name_of c = name_of c' \<Longrightarrow> c = c'"
proof -
  show "c \<in> set (children u) \<Longrightarrow> top_level_ok c" "distinct (map addr_of (nodes u))" "distinct (map name_of (children u))"
    using assms by (auto simp: parsed_unit_def list_all_iff)
  then show "c \<in> set (children u) \<Longrightarrow> c' \<in> set (children u) \<Longrightarrow> addr_of c = addr_of c' \<Longrightarrow> c = c'"
    "c \<in> set (children u) \<Longrightarrow> c' \<in> set (children u) \<Longrightarrow> name_of c = name_of c' \<Longrightarrow> c = c'"
    by (meson child_node distinct_map inj_onD)+
  show "obj_payload (obj_of u) = PCompilationUnit" using assms by (cases u) (simp_all add: parsed_unit_def)
qed

lemma find_map: "find P (map f xs) = map_option f (find (\<lambda>x. P (f x)) xs)"
  by (induction xs) simp_all

lemma find_cong_set: "(\<And>x. x \<in> set xs \<Longrightarrow> P x = Q x) \<Longrightarrow> find P xs = find Q xs"
  by (induction xs) simp_all

lemma unit_heap:
  assumes u: "parsed_unit u" and S: "unit_start u S"
  shows "c \<in> set (children u) \<Longrightarrow> cp_heap S (addr_of c) = Some c"
  using heap_with_node [OF parsed_unitD(2) [OF u] child_node] S by (simp add: unit_start_def)

lemma unit_symbols:
  assumes u: "parsed_unit u" and S: "unit_start u S"
  shows "symbol_at X S k = (case find (\<lambda>c. addr_of c = k) (children u) of Some c \<Rightarrow> Some (name_of c) | None \<Rightarrow> None)"
proof (cases "find (\<lambda>c. addr_of c = k) (children u)")
  case None
  then have "k \<notin> addr_of ` set (children u)" by (auto simp: find_None_iff)
  with S have "cp_containing S k = None" by (simp add: unit_start_def)
  moreover have "cp_heap S k = Some n \<Longrightarrow> addr_of n = k" for n
    using heap_with_only [OF parsed_unitD(2) [OF u]] S by (auto simp: unit_start_def)
  ultimately show ?thesis using None by (auto simp: symbol_at_def symbolOf_def split: option.splits)
next
  case (Some c)
  then have c: "c \<in> set (children u)" "addr_of c = k" by (auto simp: find_Some_iff)
  with S have "cp_containing S k = Some (obj_of u)" by (auto simp: unit_start_def)
  with Some c unit_heap [OF u S c(1)] parsed_unitD(4) [OF u] show ?thesis
    by (simp add: symbol_at_def symbolOf_def mangleNameOf_eq unit_key_def name_of_def name_str_def)
qed

lemma symbol_at_child:
  assumes u: "parsed_unit u" and S: "unit_start u S" and c: "c \<in> set (children u)"
  shows "symbol_at X S (addr_of c) = Some (name_of c)"
proof -
  from c obtain d where d: "find (\<lambda>x. addr_of x = addr_of c) (children u) = Some d"
    by (cases "find (\<lambda>x. addr_of x = addr_of c) (children u)") (auto simp: find_None_iff)
  then have "d \<in> set (children u)" "addr_of d = addr_of c" by (auto simp: find_Some_iff)
  with parsed_unitD(5) [OF u _ c] have "d = c" by simp
  with d show ?thesis by (simp add: unit_symbols [OF u S])
qed

lemma unit_symbol_in:
  assumes u: "parsed_unit u" and S: "unit_start u S"
  shows "symbol_in X S = unit_symbol u"
  by (rule ext) (simp add: symbol_in_def unit_symbols [OF u S] unit_symbol_def split: option.split)

lemma unit_exported: "unit_start u S \<Longrightarrow> exported_symbol X S = (\<lambda>a. [])"
  by (simp add: exported_symbol_def [abs_def] exported_at_def unit_start_def)

lemma functionE:
  assumes u: "parsed_unit u" and "f \<in> set (functions_of u)"
  obtains "f \<in> set (children u)" "isFunctionDecl (obj_of f)" "\<exists>ty. getFunctionTypeOf f = Inr ty"
proof -
  from assms(2) have f: "f \<in> set (children u)" "getKind f = KindFunctionDecl" by (simp_all add: functions_of_def)
  from f(2) obtain a n args ret b where e: "f = FunctionDecl a n args ret b" by (cases f) simp_all
  have "\<exists>ty. typeOf x = Inr ty" if "isAnonymousArgumentDecl (getKind x)" for x
    using that by (cases x) (simp_all add: typeOf_def kind_pred_defs)
  moreover have "grammatical Outside f" using parsed_unitD(1) [OF u f(1)] by (simp add: top_level_ok_def)
  then have "\<forall>x \<in> set (children args). isAnonymousArgumentDecl (getKind x)"
    "\<forall>x. ret = Some x \<longrightarrow> isAnonymousArgumentDecl (getKind x)"
    by (cases args; auto simp: e)+
  ultimately have t: "\<forall>x \<in> set (children args). \<exists>ty. typeOf x = Inr ty" "\<forall>x. ret = Some x \<longrightarrow> (\<exists>ty. typeOf x = Inr ty)"
    by blast+
  have "\<exists>ys. mapE typeOf xs = Inr ys" if "\<forall>x \<in> set xs. \<exists>ty. typeOf x = Inr ty" for xs
    using that by (induction xs) auto
  with t have "\<exists>ty. getFunctionTypeOf f = Inr ty"
    by (cases ret) (force simp: e getFunctionTypeOf_def getFunctionType_def)+
  with f show thesis by (intro that) (simp_all add: isFunctionDecl_def)
qed

lemma unit_declares:
  assumes u: "parsed_unit u" and S: "unit_start u S"
  shows "(\<exists>name ty. declares_at X S k name ty) \<longleftrightarrow> k \<in> addr_of ` set (functions_of u)"
proof
  assume "\<exists>name ty. declares_at X S k name ty"
  then obtain name node where d: "symbol_at X S k = Some name" "cp_heap S k = Some node" "isFunctionDecl (obj_of node)"
    by (auto simp: declares_at_def)
  then obtain c where "find (\<lambda>c. addr_of c = k) (children u) = Some c"
    by (auto simp: unit_symbols [OF u S] split: option.splits)
  then have "c \<in> set (children u)" "addr_of c = k" by (auto simp: find_Some_iff)
  with unit_heap [OF u S] d(2,3) show "k \<in> addr_of ` set (functions_of u)"
    by (auto simp: functions_of_def isFunctionDecl_def)
next
  assume "k \<in> addr_of ` set (functions_of u)"
  then obtain f where f: "f \<in> set (functions_of u)" "k = addr_of f" by blast
  from u f(1) show "\<exists>name ty. declares_at X S k name ty"
    by (rule functionE) (use f(2) unit_heap [OF u S] symbol_at_child [OF u S, of f X] in \<open>auto simp: declares_at_def\<close>)
qed

lemma unit_plain:
  assumes u: "parsed_unit u" and S: "unit_start u S" and plain: "plain_functions u"
  shows "plain_unit X S (set (map addr_of (functions_of u))) (set (map addr_of (children u)))"
proof -
  let ?F = "set (map addr_of (functions_of u))" and ?D = "set (map addr_of (children u))"
  have G: "\<lparr>g_heap = cp_heap S, g_function = (\<lambda>k. k \<in> ?F), g_inst = (\<lambda>a. False)\<rparr> = unit_ground u"
    using S by (simp add: unit_ground_def unit_start_def)
  have fn: "f \<in> set (children u)" if "f \<in> set (functions_of u)" for f
    using that by (simp add: functions_of_def)
  have node: "\<exists>node v. cp_heap S k = Some node \<and> cp_containing S k = Some v \<and> instantiations node = []
      \<and> function_ok (unit_ground u) node" if "k \<in> ?F" for k
  proof -
    from that obtain f where f: "f \<in> set (functions_of u)" "k = addr_of f" by auto
    with plain have "instantiations f = []" "function_ok (unit_ground u) f"
      by (simp_all add: plain_functions_def list_all_iff)
    with f unit_heap [OF u S fn [OF f(1)]] fn [OF f(1)] S show ?thesis by (auto simp: unit_start_def)
  qed
  have other: "\<exists>node. cp_heap S k = Some node \<and> getKind node \<noteq> KindFunctionDecl
      \<and> getKind node \<noteq> KindMetaInstantiationExpr" if "k \<in> ?D - ?F" for k
  proof -
    from that obtain c where c: "c \<in> set (children u)" "k = addr_of c" "c \<notin> set (functions_of u)" by auto
    then have "getKind c \<noteq> KindFunctionDecl" by (simp add: functions_of_def)
    moreover have "getKind c \<noteq> KindMetaInstantiationExpr"
      using parsed_unitD(1) [OF u c(1)] by (auto simp: top_level_ok_def)
    ultimately show ?thesis using unit_heap [OF u S c(1)] c(2) by simp
  qed
  have inj: "inj_on (symbol_in X S) ?F"
  proof (rule inj_onI)
    fix k d assume "k \<in> ?F" "d \<in> ?F" and e: "symbol_in X S k = symbol_in X S d"
    then obtain f g where f: "f \<in> set (children u)" "k = addr_of f" and g: "g \<in> set (children u)" "d = addr_of g"
      using fn by auto
    with e have "name_of f = name_of g" by (simp add: symbol_in_def symbol_at_child [OF u S])
    with parsed_unitD(6) [OF u f(1) g(1)] f g show "k = d" by simp
  qed
  have "?F \<subseteq> ?D" using fn by auto
  with node other inj S unit_declares [OF u S, of X] show ?thesis
    unfolding plain_unit_def G by (simp add: unit_start_def)
qed

lemma unit_program_call:
  assumes u: "parsed_unit u" and S: "unit_start u S"
  shows "program_call X S (map addr_of (functions_of u)) d = unit_call u d"
proof (induction d)
  case (Suc d)
  have L: "linkage_of X S (unit_call u d) = \<lparr>l_heap = heap_with u Map.empty, l_fname = unit_symbol u, l_iname = (\<lambda>a. []),
      l_call = unit_call u d\<rparr>"
    using S [unfolded unit_start_def] by (simp add: linkage_of_def unit_symbol_in [OF u S] unit_exported [OF S])
  have find: "find (\<lambda>c. symbol_at X S (addr_of c) = Some f) (functions_of u) = find (\<lambda>c. name_of c = f) (functions_of u)" for f
    by (rule find_cong_set) (simp add: functions_of_def symbol_at_child [OF u S])
  have heap: "cp_heap S (addr_of node) = Some node" if "find (\<lambda>c. name_of c = f) (functions_of u) = Some node" for f node
    using that by (intro unit_heap [OF u S]) (auto simp: find_Some_iff functions_of_def dest: nth_mem)
  show ?case
    by (intro ext) (auto simp: find_map find Suc L heap split: option.split)
qed (simp add: fun_eq_iff)

section \<open>Generating a unit\<close>

text \<open>The optimiser of the library keeps what a function computes.\<close>

definition optimiser_sound :: "external \<Rightarrow> 'w itself \<Rightarrow> bool" where
  "optimiser_sound X ty \<longleftrightarrow> (\<forall>f call as (w :: 'w) r w'.
     reaches (ir_code f) call as (entry_config w) (Returned r w') \<longrightarrow>
     reaches (ir_code (x_optimize X f)) call as (entry_config w) (Returned r w'))"

text \<open>No condition of a branch is a variable alone, and branches are compound statements.\<close>

definition branches_plain :: "ast \<Rightarrow> bool" where
  "branches_plain u \<longleftrightarrow> list_all (branches_ok (heap_with u Map.empty)) (functions_of u)"

lemma unit_generates:
  assumes u: "parsed_unit u" and S: "unit_start u S" and plain: "plain_functions u"
    and m: "2 * length (children u) \<le> m"
  shows "\<exists>s'. codegenUnit X (instantiate X (Suc n)) m u S = Inr (True, s')
    \<and> dom (cp_module s') = name_of ` set (functions_of u)
    \<and> (\<forall>f g. cp_module s' f = Some g \<longrightarrow> \<not> isDeclaration g)
    \<and> (branches_plain u \<longrightarrow> optimiser_sound X TYPE('w) \<longrightarrow>
        (\<forall>d f ks (w :: 'w) res. unit_call u d f ks w = Some res \<longrightarrow> (\<exists>N. module_call (cp_module s') N f ks w = Some res)))"
proof -
  let ?fs = "map addr_of (functions_of u)"
  have S0: "cp_module S = Map.empty" "cp_dependencies S = []" "cp_generation S = []"
    using S by (simp_all add: unit_start_def)
  obtain s' where s': "codegenUnit X (instantiate X (Suc n)) m u S = Inr (True, s')"
    and dom: "\<And>name g. cp_module s' name = Some g \<Longrightarrow> \<exists>k \<in> set ?fs. symbol_at X S k = Some name"
    and code: "\<And>k. k \<in> set ?fs \<Longrightarrow> \<exists>g b. cp_module s' (symbol_in X S k) = Some g \<and> gl_body g = Some b
        \<and> compiled X (Suc n) S k b"
    using codegenUnit_generates [where n = n, OF unit_plain [OF u S plain] S0 m] by blast
  have fn: "symbol_at X S (addr_of f) = Some (name_of f)" "symbol_in X S (addr_of f) = name_of f"
    if "f \<in> set (functions_of u)" for f
    using that symbol_at_child [OF u S, of f X] by (simp_all add: functions_of_def symbol_in_def)
  have names: "\<exists>f \<in> set (functions_of u). name = name_of f" if "cp_module s' name = Some g" for name g
    using dom [OF that] fn by auto
  have bodies: "\<exists>g b. cp_module s' (name_of f) = Some g \<and> gl_body g = Some b" if "f \<in> set (functions_of u)" for f
    using code [of "addr_of f"] fn(2) [OF that] that by auto
  have dom_eq: "dom (cp_module s') = name_of ` set (functions_of u)"
    using names bodies by (auto simp: dom_def; blast)
  have closed: "\<forall>f g. cp_module s' f = Some g \<longrightarrow> \<not> isDeclaration g"
    using names bodies by (fastforce simp: isDeclaration_def)
  have computes: "\<exists>N. module_call (cp_module s') N f ks w = Some res"
    if br: "branches_plain u" and opt: "optimiser_sound X TYPE('w)" and run: "unit_call u d f ks w = Some res"
    for d f ks res and w :: 'w
  proof (rule module_computes [where X = X and S = S and fs = ?fs and n = "Suc n" and d = d])
    show "program_call X S ?fs d f ks w = Some res" using run by (simp add: unit_program_call [OF u S])
    show "branches_ok (cp_heap S) node" if "k \<in> set ?fs" "cp_heap S k = Some node" for k node
      using that br S unit_heap [OF u S]
      by (auto simp: branches_plain_def list_all_iff functions_of_def unit_start_def)
    show "reaches (ir_code (x_optimize X f)) call as (entry_config w) (Returned r w')"
      if "reaches (ir_code f) call as (entry_config w) (Returned r w')" for f call as r w' and w :: 'w
      using opt that by (simp add: optimiser_sound_def)
  qed (use code in blast)
  show ?thesis
    by (intro exI [of _ s'] conjI s' dom_eq closed impI allI) (rule computes)
qed

section \<open>From the parse tree to the state of the generator\<close>

lemma children_unit_tree: "children (unit_tree allow env (CompilationUnit a cs)) =
    res_tree_list (bind_all (unit_decls allow env (CompilationUnit a cs)) env) (map (Pair Outside) cs)"
  by (simp add: unit_tree_def)

lemma may_declare_fresh: "may_declare shadows_nothing env d \<longleftrightarrow> env (name_str d) = None"
  by (simp add: may_declare_def shadows_nothing_def split: option.splits)

lemma no_top_err: "\<not> top_err shadows_nothing env ds \<Longrightarrow>
    distinct (map name_str ds) \<and> (\<forall>d \<in> set ds. env (name_str d) = None)"
proof (induction ds arbitrary: env)
  case (Cons d ds)
  then have *: "env (name_str d) = None" "\<not> top_err shadows_nothing (env(name_str d \<mapsto> d)) ds"
    by (simp_all add: may_declare_fresh split: if_splits)
  from Cons.IH [OF *(2)] * show ?case by (auto split: if_splits)
qed simp

lemma resolved_unit:
  assumes "unit_ok t" and "getKind t = KindCompilationUnit" and "distinct (map addr_of (nodes t))"
    and "\<not> unit_err shadows_nothing Map.empty t"
  shows "parsed_unit (unit_tree shadows_nothing Map.empty t)"
proof -
  have "distinct (map name_of (children t))"
    using no_top_err [of Map.empty "map obj_of (children t)"] assms(4)
    by (simp add: unit_err_def comp_def name_of_def [abs_def])
  with assms have "parsed_unit t" by (simp add: parsed_unit_def unit_ok_def list_all_iff)
  then have "parsed_unit (erase (unit_tree shadows_nothing Map.empty t))"
    by (simp only: erase_unit_tree parsed_unit_erase)
  then show ?thesis by (simp only: parsed_unit_erase)
qed

lemma denoted_unit_distinct:
  assumes "conforms None (Context R_compilationUnit cs)"
  shows "distinct (map addr_of (nodes (denoted_unit vp cs)))"
proof -
  let ?st = "\<lparr>next_addr = first_address, written = [], v_engine = engine_new\<rparr>"
  have "build vp (Context R_compilationUnit cs) first_address = [denoted_unit vp cs]"
    using build_unit(1) [OF assms, of vp first_address] by (simp add: denoted_unit_def)
  then show ?thesis
    using visit_ok [OF assms, of vp ?st] by (auto simp: occurs_at_def visited_as_def)
qed

text \<open>The unit of a source file without errors.\<close>

definition source_unit :: "vparams \<Rightarrow> ptree list \<Rightarrow> ast" where
  "source_unit vp cs = unit_tree shadows_nothing Map.empty (denoted_unit vp cs)"

lemma executor_created: "\<exists>s. instance_createFor True fr e = Inr (Some s) \<and>
    same_trees (instance_new fr e) s \<and> cp_module s = Map.empty \<and> cp_dependencies s = [] \<and> cp_generation s = []"
  by (simp add: instance_createFor_def executor_createFor_def onShipment_def shipment_def instance_new_def
      createContributeCallbackPrototype_def createReduceCallbackPrototype_def createIntroduceCallbackPrototype_def
      getOrInsertFunction_def callbacks_mangled separator_def same_trees_def)

section \<open>Translating a source file\<close>

text \<open>A source file without errors: what the parser and the semantic analysis accept.\<close>

definition accepted :: "vparams \<Rightarrow> ptree list \<Rightarrow> bool" where
  "accepted vp cs \<longleftrightarrow> complaints vp (Context R_compilationUnit cs) = []
     \<and> \<not> unit_err shadows_nothing Map.empty (denoted_unit vp cs)
     \<and> sema_safe (heap_with (source_unit vp cs) Map.empty) None (source_unit vp cs)
     \<and> tree_fits (heap_with (source_unit vp cs) Map.empty) None (source_unit vp cs)"

lemma source_parsed:
  assumes c: "conforms None (Context R_compilationUnit cs)" and "complaints vp (Context R_compilationUnit cs) = []"
    and "\<not> unit_err shadows_nothing Map.empty (denoted_unit vp cs)"
  shows "parsed_unit (source_unit vp cs)"
proof -
  have "lits_ok vp (Context R_compilationUnit cs)" using quiet_lits_ok [OF c refl] assms(2) by simp
  then have "unit_ok (denoted_unit vp cs)" using build_unit(2) [OF c] by (simp add: denoted_unit_def)
  then show ?thesis
    unfolding source_unit_def
    by (rule resolved_unit) (use denoted_unit_distinct [OF c] assms(3) in \<open>simp_all add: denoted_unit_def\<close>)
qed

lemma fragment_start:
  assumes fr: "fragment_of (denoted_unit vp cs) (source_unit vp cs) fr" and "\<not> hasErrors e"
    and S: "same_trees (instance_new fr e) S" "cp_module S = Map.empty" "cp_dependencies S = []" "cp_generation S = []"
  shows "unit_start (source_unit vp cs) S"
proof -
  let ?t = "denoted_unit vp cs" and ?u = "source_unit vp cs"
  have "erase ?u = erase ?t" by (simp add: source_unit_def erase_unit_tree)
  then have o: "obj_of ?u = obj_of ?t" "map erase (children ?u) = map erase (children ?t)"
    by (metis obj_of_erase, metis children_erase)
  have "addr_of ` set (children ?u) = set (map addr_of (map erase (children ?u)))" by (simp add: image_comp)
  also have "\<dots> = addr_of ` set (children ?t)" by (simp add: o(2) image_comp)
  finally show ?thesis
    using assms o(1) by (simp add: unit_start_def same_trees_def instance_new_def fragment_of_def cong: if_cong)
qed

lemma translate_parsed:
  assumes c: "conforms None (Context R_compilationUnit cs)"
    and emit: "\<not> hasEmitAction (x_invocation X) EmitTokens" "\<not> hasEmitAction (x_invocation X) EmitFlatLayout"
      "\<not> hasEmitAction (x_invocation X) EmitLayout"
  shows "if errs \<noteq> []
    then \<exists>e. translate X vp n m created lexing errs (Context R_compilationUnit cs)
      = Inr (NotParsed (ParseAborted (length errs)), e)
    else if complaints vp (Context R_compilationUnit cs) \<noteq> [] \<or> unit_err shadows_nothing Map.empty (denoted_unit vp cs)
    then \<exists>k e. translate X vp n m created lexing errs (Context R_compilationUnit cs) = Inr (NotParsed (ParseAborted k), e)
    else \<exists>fr e. fragment_of (denoted_unit vp cs) (source_unit vp cs) fr \<and> \<not> hasErrors e
      \<and> parseFragment (x_params X) vp (x_invocation X) errs (Context R_compilationUnit cs) engine_new = Inr (Parsed fr, e)"
proof -
  have e: "\<not> hasErrors engine_new" by (simp add: hasErrors_def engine_new_def)
  from parseFragment_unit [OF c e, of "x_params X" vp "x_invocation X" errs]
  obtain outcome e' where "parseFragment (x_params X) vp (x_invocation X) errs (Context R_compilationUnit cs) engine_new
      = Inr (outcome, e')"
    "if errs \<noteq> [] then outcome = ParseAborted (length errs)
     else if complaints vp (Context R_compilationUnit cs) \<noteq> [] \<or> unit_err shadows_nothing Map.empty (denoted_unit vp cs)
       then \<exists>n. outcome = ParseAborted n
     else (\<exists>fr. outcome = Parsed fr \<and> fragment_of (denoted_unit vp cs) (source_unit vp cs) fr) \<and> \<not> hasErrors e'"
    using emit by (auto simp: source_unit_def split: if_splits)
  with emit show ?thesis by (auto simp: translate_def)
qed

lemma translate_checks:
  assumes c: "conforms None (Context R_compilationUnit cs)"
    and emit: "\<not> hasEmitAction (x_invocation X) EmitTokens" "\<not> hasEmitAction (x_invocation X) EmitFlatLayout"
      "\<not> hasEmitAction (x_invocation X) EmitLayout"
    and quiet: "complaints vp (Context R_compilationUnit cs) = []"
      "\<not> unit_err shadows_nothing Map.empty (denoted_unit vp cs)"
    and safe: "sema_safe (heap_with (source_unit vp cs) Map.empty) None (source_unit vp cs)"
  shows "\<exists>fr e. fragment_of (denoted_unit vp cs) (source_unit vp cs) fr
    \<and> (hasErrors e \<longleftrightarrow> \<not> tree_fits (heap_with (source_unit vp cs) Map.empty) None (source_unit vp cs))
    \<and> getOccurrenceCount e Error = error_complaints (heap_with (source_unit vp cs) Map.empty) (source_unit vp cs)
    \<and> translate X vp n m created lexing [] (Context R_compilationUnit cs) =
       (if hasErrors e then Inr (CheckingFailed (getOccurrenceCount e Error), e)
        else if hasEmitAction (x_invocation X) EmitAST then Inr (DumpedAST (source_unit vp cs), e)
        else bindE (instance_createFor created fr e) (\<lambda>codegen. case codegen of
                None \<Rightarrow> Inr (NoExecutor, e)
              | Some s \<Rightarrow> bindE (codegenUnit X (instantiate X n) m (source_unit vp cs) s) (\<lambda>(ok, s).
                  Inr (if ok then DumpedModule (cp_module s) else NotGenerated, cp_engine s))))"
proof -
  from translate_parsed [OF c emit, of "[]" vp n m created lexing] quiet obtain fr e where
    fr: "fragment_of (denoted_unit vp cs) (source_unit vp cs) fr" "\<not> hasErrors e"
      "parseFragment (x_params X) vp (x_invocation X) [] (Context R_compilationUnit cs) engine_new = Inr (Parsed fr, e)"
    by auto
  have u: "fr_unit fr = source_unit vp cs" using fr(1) by (simp add: fragment_of_def)
  define e' where "e' = complain (tree_complaints (heap_with (source_unit vp cs) Map.empty) None (source_unit vp cs)) e"
  have "checkAST (heap_with (source_unit vp cs) Map.empty) (source_unit vp cs) e = Inr e'"
    unfolding e'_def by (rule checkAST_complains [OF safe])
  moreover have "hasErrors e' \<longleftrightarrow> \<not> tree_fits (heap_with (source_unit vp cs) Map.empty) None (source_unit vp cs)"
    using tree_fits_iff [OF safe] fr(2) by (simp add: e'_def)
  moreover have "getOccurrenceCount e' Error
      = error_complaints (heap_with (source_unit vp cs) Map.empty) (source_unit vp cs)"
    using fr(2) by (simp only: e'_def errors_complain error_complaints_def hasErrors_def not_not add_0)
  ultimately show ?thesis using fr(1,3) u emit
    by (intro exI [of _ fr] exI [of _ e']) (simp add: translate_def del: getOccurrenceCount.simps)
qed

lemma translate_checks_fail:
  assumes c: "conforms None (Context R_compilationUnit cs)"
    and emit: "\<not> hasEmitAction (x_invocation X) EmitTokens" "\<not> hasEmitAction (x_invocation X) EmitFlatLayout"
      "\<not> hasEmitAction (x_invocation X) EmitLayout"
    and quiet: "complaints vp (Context R_compilationUnit cs) = []"
      "\<not> unit_err shadows_nothing Map.empty (denoted_unit vp cs)"
    and unsafe: "\<not> sema_safe (heap_with (source_unit vp cs) Map.empty) None (source_unit vp cs)"
  shows "\<exists>f. translate X vp n m created lexing [] (Context R_compilationUnit cs) = Inl f"
proof -
  from translate_parsed [OF c emit, of "[]" vp n m created lexing] quiet obtain fr e where
    fr: "fragment_of (denoted_unit vp cs) (source_unit vp cs) fr"
      "parseFragment (x_params X) vp (x_invocation X) [] (Context R_compilationUnit cs) engine_new = Inr (Parsed fr, e)"
    by auto
  have u: "fr_unit fr = source_unit vp cs" using fr(1) by (simp add: fragment_of_def)
  obtain f where "checkAST (heap_with (source_unit vp cs) Map.empty) (source_unit vp cs) e = Inl f"
    using checkAST_fails [OF unsafe] by blast
  with fr(2) u emit show ?thesis by (simp add: translate_def)
qed

theorem translate_generates:
  assumes c: "conforms None (Context R_compilationUnit cs)"
    and emit: "hasEmitAction (x_invocation X) EmitNone" and ok: "accepted vp cs"
    and plain: "plain_functions (source_unit vp cs)" and m: "2 * length (children (source_unit vp cs)) \<le> m"
  shows "\<exists>mdl e. translate X vp (Suc n) m True lexing [] (Context R_compilationUnit cs) = Inr (DumpedModule mdl, e)
    \<and> dom mdl = name_of ` set (functions_of (source_unit vp cs))
    \<and> (\<forall>f g. mdl f = Some g \<longrightarrow> \<not> isDeclaration g)
    \<and> (branches_plain (source_unit vp cs) \<longrightarrow> optimiser_sound X TYPE('w) \<longrightarrow>
        (\<forall>d f ks (w :: 'w) res. unit_call (source_unit vp cs) d f ks w = Some res
          \<longrightarrow> (\<exists>N. module_call mdl N f ks w = Some res)))"
proof -
  let ?u = "source_unit vp cs"
  have emits: "\<not> hasEmitAction (x_invocation X) EmitTokens" "\<not> hasEmitAction (x_invocation X) EmitFlatLayout"
    "\<not> hasEmitAction (x_invocation X) EmitLayout" "\<not> hasEmitAction (x_invocation X) EmitAST"
    using emit by (simp_all add: hasEmitAction_def)
  obtain fr e where fr: "fragment_of (denoted_unit vp cs) ?u fr" "\<not> hasErrors e"
    and t: "translate X vp (Suc n) m True lexing [] (Context R_compilationUnit cs) =
      bindE (instance_createFor True fr e) (\<lambda>codegen. case codegen of
                None \<Rightarrow> Inr (NoExecutor, e)
              | Some s \<Rightarrow> bindE (codegenUnit X (instantiate X (Suc n)) m ?u s) (\<lambda>(ok, s).
                  Inr (if ok then DumpedModule (cp_module s) else NotGenerated, cp_engine s)))"
    using translate_checks [OF c emits(1-3), of vp "Suc n" m True lexing] ok emits(4) by (auto simp: accepted_def)
  obtain S where S: "instance_createFor True fr e = Inr (Some S)" "same_trees (instance_new fr e) S"
    "cp_module S = Map.empty" "cp_dependencies S = []" "cp_generation S = []"
    using executor_created by blast
  have start: "unit_start ?u S" by (rule fragment_start [OF fr S(2-5)])
  have "parsed_unit ?u" using ok by (intro source_parsed [OF c]) (simp_all add: accepted_def)
  from unit_generates [OF this start plain m, of X n, where 'w = 'w] obtain s' where
    "codegenUnit X (instantiate X (Suc n)) m ?u S = Inr (True, s')"
    "dom (cp_module s') = name_of ` set (functions_of ?u)" "\<forall>f g. cp_module s' f = Some g \<longrightarrow> \<not> isDeclaration g"
    "branches_plain ?u \<longrightarrow> optimiser_sound X TYPE('w) \<longrightarrow>
        (\<forall>d f ks (w :: 'w) res. unit_call ?u d f ks w = Some res \<longrightarrow> (\<exists>N. module_call (cp_module s') N f ks w = Some res))"
    by blast
  with t S(1) show ?thesis by (intro exI [of _ "cp_module s'"] exI [of _ "cp_engine s'"]) simp
qed

end
