(* ===== verification/Executor_Pull.thy ===== *)
theory Executor_Pull imports Codegen_Laws begin

text \<open>
  Pulling functions out of the module of the instance into a shipment, when everything that is needed
  has been generated. A function that is needed under two keys, as a declaration of the source and as
  a function of the module, is pulled for each of them, and the second time fails.
\<close>

section \<open>States in which everything needed is generated\<close>

text \<open>The function a key of the unresolved set stands for.\<close>

definition required_name :: "external \<Rightarrow> compiler \<Rightarrow> unresolved \<Rightarrow> string option" where
  "required_name X s u = (case u of
     UFunction name \<Rightarrow> Some name | UDecl k \<Rightarrow> symbol_at X s k | UInst a \<Rightarrow> None)"

text \<open>
  Every function of the module has its code, every key stands for a function of the module, and the
  source map leads back to a declaration of the same name.
\<close>

definition all_generated :: "external \<Rightarrow> compiler \<Rightarrow> bool" where
  "all_generated X s \<longleftrightarrow> finite (dom (cp_module s))
     \<and> (\<forall>name g. cp_module s name = Some g \<longrightarrow> \<not> isDeclaration g)
     \<and> (\<forall>u \<in> set (cp_unresolved s). \<exists>name. required_name X s u = Some name \<and> name \<in> dom (cp_module s))
     \<and> (\<forall>name k. cp_source s name = Some k \<longrightarrow> symbol_at X s k = Some name)"

lemma required_same [simp]:
  "required_name X (s\<lparr>cp_unresolved := us\<rparr>) u = required_name X s u"
  "required_name X (s\<lparr>cp_source := src\<rparr>) u = required_name X s u"
  "required_name X (s\<lparr>cp_symbols := ns\<rparr>) u = required_name X s u"
  "required_name X (s\<lparr>cp_shipment := sh\<rparr>) u = required_name X s u"
  "symbol_at X (s\<lparr>cp_unresolved := us\<rparr>) k = symbol_at X s k"
  "symbol_at X (s\<lparr>cp_source := src\<rparr>) k = symbol_at X s k"
  "symbol_at X (s\<lparr>cp_symbols := ns\<rparr>) k = symbol_at X s k"
  "symbol_at X (s\<lparr>cp_shipment := sh\<rparr>) k = symbol_at X s k"
  by (simp_all add: required_name_def symbol_at_def cong: option.case_cong unresolved.case_cong)

section \<open>Faults other than running out of fuel\<close>

lemma not_fuel_intro:
  "m \<noteq> Inl OutOfFuel \<Longrightarrow> (\<And>x. m = Inr x \<Longrightarrow> f x \<noteq> Inl OutOfFuel) \<Longrightarrow> bindE m f \<noteq> Inl OutOfFuel"
  by (auto simp: bindE_eq_Inl)

lemma not_fuel [simp]:
  "load h k \<noteq> Inl OutOfFuel" "global name m \<noteq> Inl OutOfFuel" "assertE b msg \<noteq> Inl OutOfFuel"
  "function_name v \<noteq> Inl OutOfFuel" "getOrInsertFunction name ty m \<noteq> Inl OutOfFuel"
  "symbolOf fmt containing node \<noteq> Inl OutOfFuel" "setGlobalAsResolved name s \<noteq> Inl OutOfFuel"
  by (auto simp: load_def global_def assertE_def function_name_def getOrInsertFunction_def symbolOf_def
      setGlobalAsResolved_def bindE_eq_Inl split: option.splits ir_value.splits payload.splits)

lemma mapE_not_fuel: "(\<And>x. f x \<noteq> Inl OutOfFuel) \<Longrightarrow> mapE f xs \<noteq> Inl OutOfFuel"
  by (induction xs) (auto simp: bindE_eq_Inl)

lemma foldE_not_fuel: "(\<And>x s. f x s \<noteq> Inl OutOfFuel) \<Longrightarrow> foldE f xs s \<noteq> Inl OutOfFuel"
  by (induction xs arbitrary: s) (auto simp: bindE_eq_Inl)

lemma getFunctionTypeOf_not_fuel [simp]: "getFunctionTypeOf node \<noteq> Inl OutOfFuel"
proof -
  have ty: "typeOf t \<noteq> Inl OutOfFuel" for t by (simp add: typeOf_def split: option.splits)
  then have "getFunctionType args ret this \<noteq> Inl OutOfFuel" for args ret this
    using mapE_not_fuel [of typeOf, OF ty]
    by (auto simp: getFunctionType_def bindE_eq_Inl split: option.splits)
  then show ?thesis by (simp add: getFunctionTypeOf_def split: ast.splits)
qed

lemma instance_lookup_not_fuel [simp]: "instance_lookup X k s \<noteq> Inl OutOfFuel"
  by (auto simp: instance_lookup_def createFunctionPrototype_def Let_def bindE_eq_Inl split: if_splits)

lemma declareGlobal_not_fuel [simp]: "declareGlobal name s \<noteq> Inl OutOfFuel"
  by (auto simp: declareGlobal_def onShipment_def cloneFunctionPrototype_def bindE_eq_Inl)

lemma pull_not_fuel [simp]: "pull name s \<noteq> Inl OutOfFuel"
  by (auto simp: pull_def cloneFunctionIntoModule_def onShipment_def bindE_eq_Inl foldE_not_fuel
      split: option.splits)

section \<open>Resolving and pulling one function\<close>

lemma resolve_generated:
  assumes s: "all_generated X s" and u: "required_name X s u = Some name" "name \<in> dom (cp_module s)"
  shows "resolveGlobal X inst u s \<noteq> Inl OutOfFuel"
    and "resolveGlobal X inst u s = Inr (r, s') \<Longrightarrow> r = Some name
      \<and> (\<exists>k. symbol_at X s k = Some name \<and> s' = s\<lparr>cp_source := (cp_source s)(name \<mapsto> k)\<rparr>)"
proof -
  have step: "codegenFunctionDecl X inst k s \<noteq> Inl OutOfFuel
      \<and> (\<forall>r s'. codegenFunctionDecl X inst k s = Inr (r, s')
        \<longrightarrow> r = Some name \<and> s' = s\<lparr>cp_source := (cp_source s)(name \<mapsto> k)\<rparr>)"
    if k: "symbol_at X s k = Some name" for k
  proof (cases "instance_lookup X k s")
    case (Inl e)
    then show ?thesis using instance_lookup_not_fuel [of X k s] by (auto simp: codegenFunctionDecl_def)
  next
    case (Inr vs)
    obtain v t where vt: "instance_lookup X k s = Inr (v, t)" using Inr by (cases vs) auto
    then show ?thesis
    proof (rule instance_lookupE)
      fix n node m g
      assume v: "v = VFunction n" and h: "cp_heap s k = Some node" and n: "symbol_at X s k = Some n"
        and p: "createFunctionPrototype (x_fmt X) (cp_containing s) node (cp_module s) = Inr (n, m)"
        and g: "m n = Some g"
        and t: "t = s\<lparr>cp_module := m,
          cp_dependencies := (if isDeclaration g then List.insert k (cp_dependencies s) else cp_dependencies s),
          cp_source := (cp_source s)(n \<mapsto> k)\<rparr>"
      have n': "n = name" using n k by simp
      with u(2) obtain g' where g': "cp_module s n = Some g'" by auto
      with p have "m = cp_module s"
        by (auto simp: createFunctionPrototype_def getOrInsertFunction_def bindE_eq_Inr split: if_splits)
      moreover have "\<not> isDeclaration g'" using s g' by (auto simp: all_generated_def)
      ultimately show ?thesis using vt v h g g' t n'
        by (simp add: codegenFunctionDecl_def function_name_def global_def)
    qed
  qed
  have "\<exists>k. symbol_at X s k = Some name \<and> resolveGlobal X inst u s = codegenFunctionDecl X inst k s"
    if nomsg: "\<forall>msg. resolveGlobal X inst u s \<noteq> Inl (AssertFailed msg)"
  proof (cases u)
    case (UFunction f)
    obtain k where "cp_source s f = Some k"
      using nomsg UFunction
      by (cases "cp_source s f") (simp_all add: resolveGlobal_def)
    with UFunction u(1) s show ?thesis
      by (intro exI [of _ k]) (simp add: resolveGlobal_def required_name_def all_generated_def)
  next
    case (UDecl k)
    with u(1) show ?thesis by (auto simp: resolveGlobal_def required_name_def)
  qed (use u(1) in \<open>simp add: required_name_def\<close>)
  then have *: "(\<exists>msg. resolveGlobal X inst u s = Inl (AssertFailed msg))
      \<or> (\<exists>k. symbol_at X s k = Some name \<and> resolveGlobal X inst u s = codegenFunctionDecl X inst k s)" by blast
  then show "resolveGlobal X inst u s \<noteq> Inl OutOfFuel" using step by auto
  show "r = Some name \<and> (\<exists>k. symbol_at X s k = Some name \<and> s' = s\<lparr>cp_source := (cp_source s)(name \<mapsto> k)\<rparr>)"
    if r: "resolveGlobal X inst u s = Inr (r, s')"
  proof -
    from * r obtain k where k: "symbol_at X s k = Some name" "codegenFunctionDecl X inst k s = Inr (r, s')" by auto
    from step [OF k(1)] k show ?thesis by blast
  qed
qed

text \<open>What pulling leaves: the function is resolved, and what its code refers to is unresolved or resolved.\<close>

definition pulled :: "string list \<Rightarrow> compiler \<Rightarrow> compiler \<Rightarrow> bool" where
  "pulled names s t \<longleftrightarrow> cp_module t = cp_module s \<and> cp_source t = cp_source s
     \<and> cp_symbols t = cp_symbols s \<and> cp_heap t = cp_heap s \<and> cp_containing t = cp_containing s
     \<and> set (cp_unresolved t) = set (cp_unresolved s)
         \<union> {UFunction n | n. n \<in> set names \<and> n \<notin> set (cp_symbols s)}
     \<and> set names \<subseteq> dom (cp_module s)"

lemma declareGlobals_pulled: "foldE declareGlobal names s = Inr t \<Longrightarrow> pulled names s t"
proof (induction names arbitrary: s)
  case (Cons n names)
  then obtain u where n: "declareGlobal n s = Inr u" and t: "pulled names u t" by auto
  from n have "pulled [n] s u"
    by (auto simp: declareGlobal_def onShipment_def pulled_def requireGlobal_def isGlobalResolved_def
        setGlobalAsUnresolved_def global_eq bindE_eq_Inr split: if_splits)
  with t show ?case by (auto simp: pulled_def)
qed (simp add: pulled_def)

lemma pull_pulled:
  assumes "pull f s = Inr t"
  obtains g code where "cp_module s f = Some g" "gl_body g = Some code" "f \<notin> set (cp_symbols s)"
    "pulled (referenced code) (s\<lparr>cp_symbols := f # cp_symbols s\<rparr>) t"
proof -
  from assms obtain g code s1 where g: "cp_module s f = Some g" "gl_body g = Some code"
    and s1: "f \<notin> set (cp_symbols s)" "cloneFunctionIntoModule f g code (s\<lparr>cp_symbols := f # cp_symbols s\<rparr>) = Inr t"
    by (auto simp: pull_def global_eq setGlobalAsResolved_def isGlobalResolved_def bindE_eq_Inr split: option.splits)
  from s1(2) obtain m u where d: "foldE declareGlobal (referenced code)
      (s\<lparr>cp_symbols := f # cp_symbols s, cp_shipment := Some m\<rparr>) = Inr u"
    and t: "onShipment (\<lambda>m. Inr (m(f \<mapsto> g\<lparr>gl_private := False, gl_body := Some code\<rparr>))) u = Inr t"
    by (auto simp: cloneFunctionIntoModule_def onShipment_def bindE_eq_Inr)
  from declareGlobals_pulled [OF d] t
  have "pulled (referenced code) (s\<lparr>cp_symbols := f # cp_symbols s\<rparr>) t"
    by (auto simp: pulled_def onShipment_def bindE_eq_Inr)
  with g s1(1) show thesis by (rule that)
qed

section \<open>Two keys for one function\<close>

text \<open>
  \<open>f\<close> is going to be pulled when it has been pulled: two keys stand for it, or it is resolved and one
  key still does.
\<close>

definition pulled_again :: "external \<Rightarrow> string \<Rightarrow> compiler \<Rightarrow> bool" where
  "pulled_again X f s \<longleftrightarrow> (\<exists>u \<in> set (cp_unresolved s). required_name X s u = Some f
     \<and> (f \<in> set (cp_symbols s) \<or> (\<exists>v \<in> set (cp_unresolved s). v \<noteq> u \<and> required_name X s v = Some f)))"

lemma required_trees:
  assumes "cp_heap t = cp_heap s" and "cp_containing t = cp_containing s"
  shows "required_name X t = required_name X s" "symbol_at X t = symbol_at X s"
proof -
  show sym: "symbol_at X t = symbol_at X s" by (rule ext) (simp add: symbol_at_def assms cong: option.case_cong)
  show "required_name X t = required_name X s" by (rule ext) (simp add: required_name_def sym cong: unresolved.case_cong)
qed

text \<open>A round of the work list: the key is gone, its function is resolved, and what its code refers to is noted.\<close>

definition pull_step :: "external \<Rightarrow> compiler \<Rightarrow> unresolved \<Rightarrow> string \<Rightarrow> compiler \<Rightarrow> bool" where
  "pull_step X s u name t \<longleftrightarrow> all_generated X t \<and> cp_module t = cp_module s
     \<and> required_name X t = required_name X s
     \<and> cp_symbols t = name # cp_symbols s \<and> name \<notin> set (cp_symbols s)
     \<and> set (cp_unresolved s) - {u} \<subseteq> set (cp_unresolved t)
     \<and> (\<forall>g code f. cp_module s name = Some g \<longrightarrow> gl_body g = Some code \<longrightarrow> f \<in> set (referenced code)
         \<longrightarrow> f \<noteq> name \<longrightarrow> f \<notin> set (cp_symbols s) \<longrightarrow> UFunction f \<in> set (cp_unresolved t))"

lemma round_generated:
  assumes s: "all_generated X s" and u: "u \<in> set (cp_unresolved s)"
    and r: "resolveGlobal X inst u (s\<lparr>cp_unresolved := removeAll u (cp_unresolved s)\<rparr>) = Inr (x, s1)"
  obtains name where "x = Some name" "required_name X s u = Some name" "name \<in> dom (cp_module s)"
    "\<And>t. pull name s1 = Inr t \<Longrightarrow> pull_step X s u name t"
proof -
  let ?s = "s\<lparr>cp_unresolved := removeAll u (cp_unresolved s)\<rparr>"
  from s u obtain name where name: "required_name X s u = Some name" "name \<in> dom (cp_module s)"
    unfolding all_generated_def by blast
  have gen: "all_generated X ?s" using s by (auto simp: all_generated_def)
  from resolve_generated(2) [OF gen _ _ r] name obtain k
    where x: "x = Some name" and k: "symbol_at X s k = Some name" and s1: "s1 = ?s\<lparr>cp_source := (cp_source s)(name \<mapsto> k)\<rparr>"
    by auto
  show thesis
  proof (rule that [OF x name])
    fix t assume "pull name s1 = Inr t"
    then show "pull_step X s u name t"
    proof (rule pull_pulled)
      fix g code
      assume g: "cp_module s1 name = Some g" "gl_body g = Some code" "name \<notin> set (cp_symbols s1)"
        and p: "pulled (referenced code) (s1\<lparr>cp_symbols := name # cp_symbols s1\<rparr>) t"
      note p' = p [unfolded pulled_def s1, simplified]
      have req: "required_name X t = required_name X s" "symbol_at X t = symbol_at X s"
        using p' by (auto intro: required_trees)
      have "all_generated X t"
        using s p' k unfolding all_generated_def req by (auto simp: required_name_def)
      with p' g req show ?thesis by (auto simp: s1 pull_step_def)
    qed
  qed
qed

text \<open>A round fails, or it goes on with fewer functions that are not resolved.\<close>

lemma resolve_round:
  assumes s: "all_generated X s" and ne: "cp_unresolved s \<noteq> []"
  defines "u \<equiv> first_of (x_hash_unresolved X) (cp_unresolved s)"
  obtains (fails) e where "resolveDependencies X inst (Suc n) s = Inl e" "e \<noteq> OutOfFuel"
    | (goes_on) name t where "required_name X s u = Some name" "pull_step X s u name t"
      "resolveDependencies X inst (Suc n) s = resolveDependencies X inst n t"
      "card (dom (cp_module t) - set (cp_symbols t)) < card (dom (cp_module s) - set (cp_symbols s))"
proof -
  let ?s = "s\<lparr>cp_unresolved := removeAll u (cp_unresolved s)\<rparr>"
  have u: "u \<in> set (cp_unresolved s)" unfolding u_def by (rule first_of_mem [OF ne])
  have unfold: "resolveDependencies X inst (Suc n) s = bindE (resolveGlobal X inst u ?s) (\<lambda>(resolved, s).
      case resolved of None \<Rightarrow> Inr (False, s) | Some name \<Rightarrow> bindE (pull name s) (resolveDependencies X inst n))"
    using ne by (simp add: u_def Let_def)
  note resolveDependencies.simps [simp del]
  show thesis
  proof (cases "resolveGlobal X inst u ?s")
    case (Inl e)
    from s u obtain name where "required_name X s u = Some name" "name \<in> dom (cp_module s)"
      unfolding all_generated_def by blast
    moreover have "all_generated X ?s" using s by (auto simp: all_generated_def)
    ultimately have "resolveGlobal X inst u ?s \<noteq> Inl OutOfFuel" by (intro resolve_generated(1)) auto
    with Inl show thesis by (intro fails [of e]) (auto simp: unfold)
  next
    case (Inr xs)
    then obtain x s1 where r: "resolveGlobal X inst u ?s = Inr (x, s1)" by (cases xs) auto
    from round_generated [OF s u r] obtain name where
      x: "x = Some name" "required_name X s u = Some name" "name \<in> dom (cp_module s)"
      and after: "\<And>t. pull name s1 = Inr t \<Longrightarrow> pull_step X s u name t" by blast
    show thesis
    proof (cases "pull name s1")
      case (Inl e)
      with pull_not_fuel [of name s1] r x(1) show thesis by (intro fails [of e]) (auto simp: unfold)
    next
      case (Inr t)
      note t = after [OF Inr]
      have "dom (cp_module t) - set (cp_symbols t) \<subset> dom (cp_module s) - set (cp_symbols s)"
        using t x(3) by (auto simp: pull_step_def)
      moreover have "finite (dom (cp_module s))" using s by (simp add: all_generated_def)
      ultimately show thesis
        using goes_on [OF x(2) t] r x(1) Inr by (simp add: unfold psubset_card_mono)
    qed
  qed
qed

lemma pulled_again_step:
  assumes "pulled_again X f s" and "pull_step X s u name t" and "required_name X s u = Some name"
  shows "pulled_again X f t"
proof -
  note t = assms(2) [unfolded pull_step_def]
  from assms(1) obtain v where v: "v \<in> set (cp_unresolved s)" "required_name X s v = Some f"
    "f \<in> set (cp_symbols s) \<or> (\<exists>w \<in> set (cp_unresolved s). w \<noteq> v \<and> required_name X s w = Some f)"
    by (auto simp: pulled_again_def)
  show ?thesis
  proof (cases "name = f")
    case True
    with t v(3) obtain w where "w \<in> set (cp_unresolved s)" "w \<noteq> u" "required_name X s w = Some f"
      using v(1,2) by metis
    with t True show ?thesis unfolding pulled_again_def by auto
  next
    case False
    then have keep: "w \<in> set (cp_unresolved t)" if "w \<in> set (cp_unresolved s)" "required_name X s w = Some f" for w
      using t that assms(3) by auto
    have names: "cp_symbols t = name # cp_symbols s" "required_name X t = required_name X s" using t by auto
    show ?thesis
      unfolding pulled_again_def names using v keep by (intro bexI [of _ v]) auto
  qed
qed

text \<open>\<open>n\<close> is enough fuel for every function of the module: then it is not the fuel that ends the list.\<close>

definition fails_within :: "external \<Rightarrow> instantiator \<Rightarrow> nat \<Rightarrow> compiler \<Rightarrow> bool" where
  "fails_within X inst n s \<longleftrightarrow> (\<exists>e. resolveDependencies X inst n s = Inl e
     \<and> (card (dom (cp_module s) - set (cp_symbols s)) < n \<longrightarrow> e \<noteq> OutOfFuel))"

lemma pulled_again_fails: "all_generated X s \<Longrightarrow> pulled_again X f s \<Longrightarrow> fails_within X inst n s"
proof (induction n arbitrary: s)
  case 0
  then show ?case by (auto simp: pulled_again_def fails_within_def)
next
  case (Suc n)
  have ne: "cp_unresolved s \<noteq> []" using Suc.prems(2) by (auto simp: pulled_again_def)
  from Suc.prems(1) ne show ?case
  proof (cases rule: resolve_round [where n = n and inst = inst])
    case (goes_on name t)
    have "all_generated X t" using goes_on(2) by (simp add: pull_step_def)
    with Suc.IH [of t] pulled_again_step [OF Suc.prems(2) goes_on(2,1)] have "fails_within X inst n t" by blast
    with goes_on(3,4) show ?thesis by (auto simp: fails_within_def simp del: resolveDependencies.simps)
  qed (auto simp: fails_within_def simp del: resolveDependencies.simps)
qed

text \<open>
  The code of a function that is pulled refers to \<open>f\<close>, whose declaration is one of the keys that are left.
\<close>

lemma pulled_twice:
  assumes s: "all_generated X s"
    and k: "UDecl k \<in> set (cp_unresolved s)" "symbol_at X s k = Some f" "f \<notin> set (cp_symbols s)"
    and g: "required_name X s (first_of (x_hash_unresolved X) (cp_unresolved s)) = Some g" "g \<noteq> f"
    and code: "cp_module s g = Some d" "gl_body d = Some code" "f \<in> set (referenced code)"
  shows "fails_within X inst n s"
proof (cases n)
  case 0
  with k(1) show ?thesis by (auto simp: fails_within_def)
next
  case (Suc m)
  have "cp_unresolved s \<noteq> []" using k(1) by auto
  from s this have "fails_within X inst (Suc m) s"
  proof (cases rule: resolve_round [where n = m and inst = inst])
    case (goes_on name t)
    have "name = g" using goes_on(1) g(1) by simp
    note t = goes_on(2) [unfolded pull_step_def this]
    have f: "UFunction f \<in> set (cp_unresolved t)" using t code g(2) k(3) by blast
    have "UDecl k \<noteq> first_of (x_hash_unresolved X) (cp_unresolved s)"
    proof
      assume "UDecl k = first_of (x_hash_unresolved X) (cp_unresolved s)"
      from g(1) [folded this] g(2) k(2) show False by (simp add: required_name_def)
    qed
    then have k': "UDecl k \<in> set (cp_unresolved t)" using t k(1) by auto
    have req: "required_name X t = required_name X s" "all_generated X t" using t by auto
    have "pulled_again X f t"
      unfolding pulled_again_def req
      by (intro bexI [OF _ k'] conjI disjI2 bexI [OF _ f]) (simp_all add: required_name_def k(2))
    from pulled_again_fails [OF req(2) this] have "fails_within X inst m t" .
    with goes_on(3,4) show ?thesis by (auto simp: fails_within_def simp del: resolveDependencies.simps)
  qed (auto simp: fails_within_def simp del: resolveDependencies.simps)
  with Suc show ?thesis by simp
qed

end
