(* ===== verification/Samples_Codegen.thy ===== *)
theory Samples_Codegen imports Samples Translate_Correct Executor_Pull begin

text \<open>
  Small concrete programs for the code generator: the source file of \<open>Samples\<close> and the environment it is
  translated in, and functions whose code does not do what they say.
\<close>

section \<open>Translating the sample\<close>

definition sample_external :: external where
  "sample_external = \<lparr>x_params = sample_params, x_invocation = sample_invocation, x_fmt = (\<lambda>a. replicate a CHR ''0''),
     x_hash = (\<lambda>xs. 0), x_hash_unresolved = (\<lambda>xs. 0), x_unique = (\<lambda>m name. name), x_optimize = id,
     x_jit = (\<lambda>ms name. Inr [])\<rparr>"

lemma sample_source: "source_unit sample_vparams sample_parse_children = CompilationUnit 0 [resolved_function 1]"
  by (simp only: source_unit_def sample_denotes sample_resolved)

lemma addr_of_simps:
  "addr_of (CompilationUnit a cs) = a" "addr_of (FunctionDecl a n args r b) = a"
  "addr_of (MetaDecl a n args b) = a" "addr_of (MetaContribution a rg cs) = a"
  "addr_of (ArgumentDeclList a cs) = a" "addr_of (AnonymousArgumentDecl a) = a"
  "addr_of (NamedArgumentDecl a n) = a" "addr_of (CompoundStmt a cs) = a"
  "addr_of (ReturnStmt a e) = a" "addr_of (ExpressionStmt a x) = a" "addr_of (IfStmt a x t f) = a"
  "addr_of (DeclRefExpr a n d) = a" "addr_of (IntegerLiteralExpr a l) = a"
  "addr_of (CallOperatorExpr a x es) = a" "addr_of (MetaInstantiationExpr a rg x es) = a"
  "addr_of (UnscopedCompoundStmt a cs) = a" "addr_of (MetaIfStmt a x t f) = a"
  "addr_of (MetaCalculationStmt a t ds) = a"
  by (simp_all only: addr_of_def obj_of.simps obj.sel)

lemma sample_accepted: "accepted sample_vparams sample_parse_children"
  unfolding accepted_def sample_source sample_quiet sample_denotes
  by (simp add: sample_no_error sema_safe_eq tree_fits_eq node_fits_def isIdentifierReserved_def
      named_def resolved_function_def)

lemma sample_functions: "functions_of (source_unit sample_vparams sample_parse_children) = [resolved_function 1]"
  by (simp add: sample_source functions_of_def resolved_function_def)

lemma sample_plain: "plain_functions (source_unit sample_vparams sample_parse_children)"
  unfolding plain_functions_def sample_functions unit_ground_def sample_source
  by (simp add: resolved_function_def instantiations_def nodes_eq is_instantiation_def function_ok_def
      functions_of_def ref_ok_def heap_with_def addr_of_simps) blast

lemma sample_branches: "branches_plain (source_unit sample_vparams sample_parse_children)"
  unfolding branches_plain_def sample_functions
  by (simp add: resolved_function_def branches_ok_def branch_ok_def nodes_eq)

lemma sample_optimiser: "optimiser_sound sample_external TYPE('w)"
  by (simp add: optimiser_sound_def sample_external_def)

lemma sample_meaning:
  "unit_call (source_unit sample_vparams sample_parse_children) 1 ''f'' [k] w = Some (Some k, w)"
  by (simp add: functions_of_def sample_source name_of_def name_str_def getName_def resolved_function_def named_def
      arity_def exec_function_def eval_ref_def argument_scope_def read_value_def enter_scope_def
      heap_with_def nodes_eq addr_of_simps)

section \<open>A variable as a condition\<close>

text \<open>\<^verbatim>\<open>f(int x) int -> { if x { return 1; } else { return 0; } }\<close>\<close>

definition int_literal :: "addr \<Rightarrow> i32 \<Rightarrow> ast" where
  "int_literal a k = IntegerLiteralExpr a (Annotated k \<lparr>getStart = 0, getEnd = 1\<rparr>)"

definition sample_argument :: ast where
  "sample_argument = NamedArgumentDecl 42 (named ''x'')"

definition sample_branch :: ast where
  "sample_branch = FunctionDecl 40 (named ''f'') (ArgumentDeclList 41 [sample_argument])
     (Some (AnonymousArgumentDecl 43)) (CompoundStmt 44
       [IfStmt 45 (DeclRefExpr 46 (named ''x'') (Some 42))
          (CompoundStmt 47 [ReturnStmt 48 (Some (int_literal 49 1))])
          (Some (CompoundStmt 50 [ReturnStmt 51 (Some (int_literal 52 0))]))])"

definition branch_linkage :: "'w linkage" where
  "branch_linkage = \<lparr>l_heap = [42 \<mapsto> sample_argument], l_fname = (\<lambda>k. []), l_iname = (\<lambda>a. []), l_call = (\<lambda>f ks w. None)\<rparr>"

lemmas sample_branch_defs = sample_branch_def sample_argument_def int_literal_def branch_linkage_def

lemma branch_meaning: "exec_function branch_linkage sample_branch [k] w = Some (Some (if k = 0 then 0 else 1), w)"
  by (simp add: sample_branch_defs exec_function_def argument_scope_def enter_scope_def eval_condition_def eval_ref_def
      read_value_def)

definition branch_code :: code where
  "branch_code = [(Some 0, 1, Alloca ''x_framed''), (Some 0, 2, Store (VArg 0) (VInstr 1 True)),
     (Some 3, 4, Ret (VConst 1)), (Some 5, 6, Ret (VConst 0)),
     (Some 0, 7, IsNotNull (VInstr 1 True)), (Some 0, 8, CondBr (VInstr 7 False) 3 5)]"

lemmas function_codegen_defs = codegenFunction_def enterValueScope_def setUpStackFrame_def ir_new_def
  createEntryBlock_def newBlock_def createBlock_def createBlockBefore_def insertAt_def setInsertPoint_def
  buildInstr_def buildVoid_def emit_def codegenDeclRef_def loadMemory_def leaveValueScope_def

lemma branch_generated: "\<exists>t. codegenFunction [42 \<mapsto> sample_argument] cx sample_branch (fc_new 1 c) = Inr t
    \<and> ir_code (fc_builder t) = branch_code"
  by (simp add: sample_branch_defs function_codegen_defs fc_new_def frameArgument_def introduceValue_def
      codegenIfStructure_def closeBranch_def codegenFalseBranch_def isVarDecl_def lookupLocal_def
      load_def isFunctionDecl_def branch_code_def named_def)

lemma branch_runs: "steps 5 branch_code call [k] (entry_config w) = Returned (Some 1) w"
  by (simp add: eval_nat_numeral step_def body_def branch_code_def entry_config_def run_instr_def set_reg_def)

section \<open>Functions that are needed twice\<close>

text \<open>\<^verbatim>\<open>f() -> { } g() -> { f(); }\<close>\<close>

definition sample_callee :: ast where
  "sample_callee = FunctionDecl 60 (named ''f'') (ArgumentDeclList 61 []) None (CompoundStmt 62 [])"

definition sample_calling :: ast where
  "sample_calling = FunctionDecl 70 (named ''g'') (ArgumentDeclList 71 []) None (CompoundStmt 72
     [ExpressionStmt 73 (CallOperatorExpr 74 (DeclRefExpr 75 (named ''f'') (Some 60)) [])])"

definition sample_pair :: compiler where
  "sample_pair = \<lparr>cp_heap = [60 \<mapsto> sample_callee, 70 \<mapsto> sample_calling], cp_next = 80,
     cp_containing = [60 \<mapsto> Obj 0 PCompilationUnit, 70 \<mapsto> Obj 0 PCompilationUnit], cp_exported = Map.empty,
     cp_scopes = Map.empty, cp_engine = engine_new, cp_module = Map.empty, cp_dependencies = [],
     cp_generation = [], cp_source = Map.empty, cp_shipment = None, cp_symbols = [], cp_unresolved = [],
     cp_instances = Map.empty, cp_jit = []\<rparr>"

definition generated :: "code \<Rightarrow> ir_global" where
  "generated c = \<lparr>gl_type = FunctionType VoidTy [], gl_arg_names = [], gl_private = False,
     gl_body = Some \<lparr>arg_size = 0, ir_blocks = [(0, ''entry'')], ir_code = c, insert_point = Some 0,
       ir_next = Suc (length c)\<rparr>\<rparr>"

definition generated_callee :: ir_global where
  "generated_callee = generated [(Some 0, 1, RetVoid)]"

definition generated_calling :: ir_global where
  "generated_calling = generated [(Some 0, 1, Call (VFunction ''f'') []), (Some 0, 2, RetVoid)]"

definition sample_generated :: compiler where
  "sample_generated = sample_pair\<lparr>cp_module := [''f'' \<mapsto> generated_callee, ''g'' \<mapsto> generated_calling],
     cp_source := [''f'' \<mapsto> 60, ''g'' \<mapsto> 70]\<rparr>"

lemmas sample_pair_defs = sample_pair_def sample_callee_def sample_calling_def generated_def
  generated_callee_def generated_calling_def named_def

text \<open>The state in which both functions are needed by a shipment that declares them.\<close>

definition pulling :: "unresolved list \<Rightarrow> string list \<Rightarrow> ir_module \<Rightarrow> compiler" where
  "pulling us names m = sample_generated\<lparr>cp_unresolved := us, cp_symbols := names, cp_shipment := Some m\<rparr>"

lemma pulling_simps [simp]:
  "cp_heap (pulling us names m) = cp_heap sample_pair" "cp_containing (pulling us names m) = cp_containing sample_pair"
  "cp_module (pulling us names m) = [''f'' \<mapsto> generated_callee, ''g'' \<mapsto> generated_calling]"
  "cp_source (pulling us names m) = [''f'' \<mapsto> 60, ''g'' \<mapsto> 70]" "cp_unresolved (pulling us names m) = us"
  "cp_symbols (pulling us names m) = names" "shipment (pulling us names m) = m"
  "pulling us names m\<lparr>cp_unresolved := vs\<rparr> = pulling vs names m"
  "pulling us names m\<lparr>cp_symbols := ns\<rparr> = pulling us ns m"
  "pulling us names m\<lparr>cp_shipment := Some l\<rparr> = pulling us names l"
  "pulling us names m\<lparr>cp_source := [''f'' \<mapsto> 60, ''g'' \<mapsto> 70]\<rparr> = pulling us names m"
  by (simp_all add: pulling_def sample_generated_def shipment_def)

lemma pulling_symbols: "symbol_at sample_external (pulling us names m) 60 = Some ''f''"
    "symbol_at sample_external (pulling us names m) 70 = Some ''g''"
  by (simp_all add: symbol_at_def sample_pair_defs symbolOf_def mangleNameOf_eq unit_key_def getName_def addr_of_simps)

lemma pulling_generated: "all_generated sample_external (pulling [UDecl 70, UDecl 60] [] m)"
  by (auto simp: all_generated_def required_name_def pulling_symbols isDeclaration_def generated_def
      generated_callee_def generated_calling_def split: if_splits)

lemma pulling_code:
  "\<exists>code. gl_body generated_calling = Some code \<and> referenced code = [''f'']"
  by (simp add: generated_calling_def generated_def referenced_def)

lemma pair_required:
  "bindE (executor_lookup X 60 sample_generated) (\<lambda>(v, s). executor_lookup X 70 s) = Inr (VFunction ''g'',
     pulling [UDecl 70, UDecl 60] []
       [''f'' \<mapsto> prototype (FunctionType VoidTy []), ''g'' \<mapsto> prototype (FunctionType VoidTy [])])"
  by (simp add: sample_generated_def sample_pair_defs executor_lookup_def load_def isFunctionDecl_def
      createFunctionPrototype_def symbolOf_def mangleNameOf_eq unit_key_def getFunctionTypeOf_def getFunctionType_def
      getOrInsertFunction_def getName_def addr_of_simps getTypeOfVoid_def requireGlobal_def isGlobalResolved_def
      setGlobalAsUnresolved_def shipment_def pulling_def)

end
