(* ===== verification/Meta_Semantics.thy ===== *)
theory Meta_Semantics imports CodeExecutor Semantics begin

text \<open>
  The meaning of a meta declaration, as the reference its generated code is compared with: running it
  calls back with the nodes it contributes and with the values it introduces. What a callback does
  with the world is a parameter.
\<close>

section \<open>Running a contribution\<close>

type_synonym 'w teller = "jit_call \<Rightarrow> 'w \<Rightarrow> 'w"

definition tell_to :: "'w teller \<Rightarrow> jit_call \<Rightarrow> 'w swy \<Rightarrow> 'w swy" where
  "tell_to tell j s = s\<lparr>sw_world := tell j (sw_world s)\<rparr>"

definition depth_argument :: "depth_level \<Rightarrow> i32" where
  "depth_argument d = (case d of TopLevel \<Rightarrow> 0 | InsideFunctionDecl \<Rightarrow> 1)"

text \<open>The values of declarations are introduced one after the other.\<close>

fun introduce_all :: "'w teller \<Rightarrow> depth_level \<Rightarrow> addr list \<Rightarrow> 'w swy \<Rightarrow> 'w swy option" where
  "introduce_all tell d [] s = Some s"
| "introduce_all tell d (x # xs) s = (case read_var (sw_vars s) x of
     None \<Rightarrow> None
   | Some k \<Rightarrow> introduce_all tell d xs (tell_to tell (JIntroduce x k (depth_argument d)) s))"

definition depth_inside :: "ast_kind \<Rightarrow> depth_level \<Rightarrow> depth_level" where
  "depth_inside k d = (if k = KindFunctionDecl then InsideFunctionDecl else d)"

definition close_node :: "'w teller \<Rightarrow> ast \<Rightarrow> 'w swy \<Rightarrow> 'w swy" where
  "close_node tell t s = (if isNodeRequiringReduceMarker (obj_of t) then tell_to tell JReduce s else s)"

fun exec_meta :: "'w teller \<Rightarrow> 'w linkage \<Rightarrow> depth_level \<Rightarrow> ast \<Rightarrow> 'w swy \<Rightarrow> 'w outcome option" where
  "exec_meta tell L d (MetaDecl a n args c) s = None"
| "exec_meta tell L d (MetaIfStmt a c t f) s = (case eval_condition L c s of
     Some (p, s) \<Rightarrow> if p then exec_meta tell L d t s
       else (case f of Some e \<Rightarrow> exec_meta tell L d e s | None \<Rightarrow> Some (Continue s))
   | None \<Rightarrow> None)"
| "exec_meta tell L d (MetaCalculationStmt a st exported) s = (case exec_stmt L st s of
     Some (Continue s) \<Rightarrow> map_option Continue (introduce_all tell d exported s)
   | x \<Rightarrow> x)"
| "exec_meta tell L d (MetaContribution a rg cs) s = exec_seq (exec_meta tell L d) cs s"
| "exec_meta tell L d t s =
     (case exec_seq (exec_meta tell L (depth_inside (getKind t) d)) (children t)
         (tell_to tell (JContribute (addr_of t)) s) of
        Some (Continue s) \<Rightarrow> Some (Continue (close_node tell t s))
      | x \<Rightarrow> x)"

definition meta_argument_addrs :: "ast \<Rightarrow> addr list" where
  "meta_argument_addrs args = map addr_of (filter (\<lambda>x. getKind x = KindNamedArgumentDecl) (children args))"

definition exec_meta_function ::
    "'w teller \<Rightarrow> 'w linkage \<Rightarrow> ast \<Rightarrow> i32 list \<Rightarrow> 'w \<Rightarrow> (i32 option \<times> 'w) option" where
  "exec_meta_function tell L node ks w = (case node of
     MetaDecl a n args c \<Rightarrow>
       (case introduce_all tell TopLevel (meta_argument_addrs args)
           \<lparr>sw_vars = [argument_scope Map.empty (children args) ks], sw_world = w\<rparr> of
          Some s \<Rightarrow> (case exec_meta tell L TopLevel c s of
              Some (Continue s) \<Rightarrow> Some (None, sw_world s)
            | Some (Return r w) \<Rightarrow> Some (r, w)
            | None \<Rightarrow> None)
        | None \<Rightarrow> None)
   | _ \<Rightarrow> None)"

section \<open>Nodes that are contributed as they are\<close>

definition meta_node :: "ast \<Rightarrow> bool" where
  "meta_node t \<longleftrightarrow> getKind t \<in> {KindMetaDecl, KindMetaIfStmt, KindMetaCalculationStmt, KindMetaContribution}"

lemma meta_node_cases [case_names decl branch calculation contribution plain]:
  obtains (decl) a n args c where "t = MetaDecl a n args c"
  | (branch) a c x f where "t = MetaIfStmt a c x f"
  | (calculation) a st ds where "t = MetaCalculationStmt a st ds"
  | (contribution) a rg cs where "t = MetaContribution a rg cs"
  | (plain) "\<not> meta_node t"
  by (cases t) (auto simp: meta_node_def)

lemma exec_meta_plain:
  "\<not> meta_node t \<Longrightarrow> exec_meta tell L d t s =
     (case exec_seq (exec_meta tell L (depth_inside (getKind t) d)) (children t)
         (tell_to tell (JContribute (addr_of t)) s) of
        Some (Continue s) \<Rightarrow> Some (Continue (close_node tell t s))
      | x \<Rightarrow> x)"
  by (cases t; hypsubst) (simp_all add: meta_node_def del: children.simps)

lemma codegenMeta_plain:
  "\<not> meta_node t \<Longrightarrow> codegenMeta h cx t b s =
     contributeAround cx t (\<lambda>b s.
       foldE (\<lambda>c (current, s). case current of None \<Rightarrow> Inl NullDeref | Some b \<Rightarrow> codegenMeta h cx c b s)
         (children t) (Some b, s)) b s"
  by (cases t; hypsubst) (simp_all add: meta_node_def del: children.simps)

text \<open>
  A contribution without meta statements makes the calls that replay its layout.
\<close>

definition layout_calls :: "layout \<Rightarrow> jit_call list" where
  "layout_calls l = map (\<lambda>x. case x of Some n \<Rightarrow> JContribute (obj_addr n) | None \<Rightarrow> JReduce) l"

definition tell_all :: "'w teller \<Rightarrow> jit_call list \<Rightarrow> 'w swy \<Rightarrow> 'w swy" where
  "tell_all tell js s = fold (tell_to tell) js s"

lemma exec_seq_all:
  assumes "\<And>c s. c \<in> set cs \<Longrightarrow> f c s = Some (Continue (g c s))"
  shows "exec_seq f cs s = Some (Continue (fold g cs s))"
  using assms by (induction cs arbitrary: s) simp_all

lemma fold_tell_layouts:
  "fold (\<lambda>c. tell_all tell (layout_calls (flatten c))) cs s = tell_all tell (layout_calls (flattens cs)) s"
  by (induction cs arbitrary: s) (simp_all add: tell_all_def layout_calls_def)

lemma exec_meta_replays:
  assumes "\<forall>x \<in> set (nodes t). \<not> meta_node x"
  shows "exec_meta tell L d t s = Some (Continue (tell_all tell (layout_calls (flatten t)) s))"
  using assms
proof (induction t arbitrary: d s rule: ast_children_induct)
  case (node t)
  have t: "\<not> meta_node t" and below: "\<And>c x. c \<in> set (children t) \<Longrightarrow> x \<in> set (nodes c) \<Longrightarrow> \<not> meta_node x"
    using node.prems by (auto simp: nodes_eq [of t] nodes_of_def)
  have "exec_seq (exec_meta tell L (depth_inside (getKind t) d)) (children t) s1
      = Some (Continue (tell_all tell (layout_calls (flattens (children t))) s1))" for s1
    using node.IH below unfolding fold_tell_layouts [symmetric] by (intro exec_seq_all) blast
  then show ?case
    by (simp add: exec_meta_plain [OF t] flatten_eq [of t] layout_calls_def tell_all_def close_node_def
        isNodeRequiringReduceMarker_def)
qed

lemma contribution_replays:
  assumes "\<And>c x. c \<in> set cs \<Longrightarrow> x \<in> set (nodes c) \<Longrightarrow> \<not> meta_node x"
  shows "exec_meta tell L d (MetaContribution a rg cs) s = Some (Continue (tell_all tell (layout_calls (flattens cs)) s))"
proof -
  have "exec_meta tell L d c s = Some (Continue (tell_all tell (layout_calls (flatten c)) s))" if "c \<in> set cs" for c s
    by (rule exec_meta_replays) (use assms that in blast)
  then show ?thesis unfolding fold_tell_layouts [symmetric] by (simp add: exec_seq_all)
qed

lemma callback_of_calls [simp]:
  "h a = Some x \<Longrightarrow> callback_of h (JContribute a) = Inr (ContributeNode (obj_of x))"
  "callback_of h JReduce = Inr ReduceNode"
  by (simp_all add: callback_of_def load_def)

lemma layout_calls_replay:
  assumes "\<forall>x \<in> set (nodes t). h (addr_of x) = Some x"
  shows "mapE (callback_of h) (layout_calls (flatten t)) = Inr (replay (flatten t))"
proof -
  have "mapE (callback_of h) (layout_calls l) = Inr (replay l)"
    if "\<forall>n. Some n \<in> set l \<longrightarrow> (\<exists>x. h (obj_addr n) = Some x \<and> obj_of x = n)" for l
    using that
  proof (induction l)
    case (Cons y l)
    then have IH: "mapE (callback_of h) (layout_calls l) = Inr (replay l)" by simp
    show ?case
    proof (cases y)
      case (Some n)
      with Cons.prems obtain x where "h (obj_addr n) = Some x" "obj_of x = n" by auto
      with Some IH show ?thesis by (simp add: layout_calls_def replay_def)
    qed (use IH in \<open>simp add: layout_calls_def replay_def\<close>)
  qed (simp add: layout_calls_def replay_def)
  moreover have "\<exists>x. h (obj_addr n) = Some x \<and> obj_of x = n" if "Some n \<in> set (flatten t)" for n
    using that assms
  proof (induction t rule: ast_children_induct)
    case (node t)
    then show ?case
      by (auto simp: flatten_eq [of t] flattens_def nodes_eq [of t] nodes_of_def split: if_splits)
  qed
  ultimately show ?thesis by blast
qed

end
