(* ===== verification/Meta_Frame.thy ===== *)
theory Meta_Frame imports Codegen_Correct Meta_Semantics begin

text \<open>
  What the generator of a meta function leaves alone: calls of the callbacks are straight code, the
  cursor comes back to where it was, and the code of a contribution goes on in some block.
\<close>

section \<open>Calls of the callbacks\<close>

abbreviation cursor_of :: "'c metacodegen \<Rightarrow> cursor" where
  "cursor_of s \<equiv> snd (fc_context s)"

abbreviation with_context :: "'c metacodegen \<Rightarrow> 'c \<Rightarrow> cursor \<Rightarrow> 'c metacodegen" where
  "with_context s c cur \<equiv> s\<lparr>fc_context := (c, cur)\<rparr>"

lemma moveCursor_eq:
  "moveCursor f s = Inr s' \<longleftrightarrow> (\<exists>cur. f (cursor_of s) = Inr cur \<and> s' = with_context s (fst (fc_context s)) cur)"
  by (cases "fc_context s") (auto simp: moveCursor_def bindE_eq_Inr)

lemma declareCallback_eq:
  "declareCallback cx f s = Inr s' \<longleftrightarrow>
     (\<exists>c. mc_module cx f (fst (fc_context s)) = Inr c \<and> s' = with_context s c (cursor_of s))"
  by (cases "fc_context s") (auto simp: declareCallback_def bindE_eq_Inr)

lemma getContextArgument_eq: "getContextArgument s = Inr v \<Longrightarrow> v = VContext"
  by (auto simp: getContextArgument_def bindE_eq_Inr)

lemma createContributeNodeE:
  assumes "createContributeNode cx a s = Inr s'"
  obtains c v t where "mc_module cx createContributeCallbackPrototype (fst (fc_context s)) = Inr c"
    and "buildInstr (IntToPtr (VPointer a)) True (with_context s c (cursor_of s)) = (v, t)"
    and "s' = buildVoid (Call (VFunction callback_contribute) [VContext, v]) t"
proof -
  from assms obtain c where c: "mc_module cx createContributeCallbackPrototype (fst (fc_context s)) = Inr c"
    and rest: "bindE (getContextArgument (with_context s c (cursor_of s))) (\<lambda>context.
      let (ptr, s) = getPointerToNode a (with_context s c (cursor_of s))
      in Inr (buildVoid (Call (VFunction callback_contribute) [context, ptr]) s)) = Inr s'"
    by (auto simp: createContributeNode_def bindE_eq_Inr declareCallback_eq)
  obtain v t where v: "buildInstr (IntToPtr (VPointer a)) True (with_context s c (cursor_of s)) = (v, t)"
    by fastforce
  with rest have "s' = buildVoid (Call (VFunction callback_contribute) [VContext, v]) t"
    by (auto simp: bindE_eq_Inr getPointerToNode_def getPointerConstant_def dest!: getContextArgument_eq)
  with that c v show thesis by blast
qed

lemma createReduceNodeE:
  assumes "createReduceNode cx s = Inr s'"
  obtains c where "mc_module cx createReduceCallbackPrototype (fst (fc_context s)) = Inr c"
    and "s' = buildVoid (Call (VFunction callback_reduce) [VContext]) (with_context s c (cursor_of s))"
  using assms
  by (auto simp: createReduceNode_def bindE_eq_Inr declareCallback_eq dest!: getContextArgument_eq)

lemma getDepth_eq: "getDepth cur = depth_argument (c_depth cur)"
  by (simp add: getDepth_def depth_argument_def)

lemma createIntroduceNodeE:
  assumes "createIntroduceNode cx d v s = Inr s'"
  obtains c p t q u where "mc_module cx createIntroduceCallbackPrototype (fst (fc_context s)) = Inr c"
    and "buildInstr (IntToPtr (VPointer d)) True (with_context s c (cursor_of s)) = (p, t)"
    and "buildInstr (PointerCast v) True t = (q, u)"
    and "s' = buildVoid (Call (VFunction callback_introduce)
          [VContext, p, q, VConst (depth_argument (c_depth (cursor_of u)))]) u"
proof -
  from assms obtain c where c: "mc_module cx createIntroduceCallbackPrototype (fst (fc_context s)) = Inr c"
    and rest: "bindE (getContextArgument (with_context s c (cursor_of s))) (\<lambda>context.
      let (nodePtr, s) = getPointerToNode d (with_context s c (cursor_of s));
          (valuePtr, s) = buildInstr (PointerCast v) True s;
          level = VConst (getDepth (cursor_of s))
      in Inr (buildVoid (Call (VFunction callback_introduce) [context, nodePtr, valuePtr, level]) s)) = Inr s'"
    by (auto simp: createIntroduceNode_def bindE_eq_Inr declareCallback_eq)
  obtain p t where p: "buildInstr (IntToPtr (VPointer d)) True (with_context s c (cursor_of s)) = (p, t)"
    by fastforce
  obtain q u where q: "buildInstr (PointerCast v) True t = (q, u)" by fastforce
  from rest p q have "s' = buildVoid (Call (VFunction callback_introduce)
      [VContext, p, q, VConst (depth_argument (c_depth (cursor_of u)))]) u"
    by (auto simp: bindE_eq_Inr getPointerToNode_def getPointerConstant_def getDepth_eq dest!: getContextArgument_eq)
  with that c p q show thesis by blast
qed

lemma context_buildInstr [simp]:
  "buildInstr i p s = (v, s') \<Longrightarrow> fc_context s' = fc_context s" "fc_context (buildVoid i s) = fc_context s"
  by (auto simp: builder_simps)

text \<open>Straight code that leaves the cursor where it is.\<close>

definition steady :: "'c metacodegen \<Rightarrow> 'c metacodegen \<Rightarrow> bool" where
  "steady s s' \<longleftrightarrow> straight s s' \<and> cursor_of s' = cursor_of s"

lemma steady_refl [simp]: "steady s s"
  by (simp add: steady_def)

lemma steady_trans [trans]: "steady s t \<Longrightarrow> steady t u \<Longrightarrow> steady s u"
  unfolding steady_def by (metis straight_trans)

lemma steady_context [simp]: "steady s (with_context s c (cursor_of s))"
  by (simp add: steady_def)

lemma steady_build: "buildInstr i p s = (v, s') \<Longrightarrow> steady s s'"
  by (simp add: steady_def straight_build)

lemma steady_buildVoid [simp]: "steady s (buildVoid i s)"
  by (simp add: steady_def)

lemma steady_contribute: "createContributeNode cx a s = Inr s' \<Longrightarrow> steady s s'"
  by (elim createContributeNodeE) (metis steady_build steady_buildVoid steady_context steady_trans)

lemma steady_reduce: "createReduceNode cx s = Inr s' \<Longrightarrow> steady s s'"
  by (elim createReduceNodeE) (metis steady_buildVoid steady_context steady_trans)

lemma steady_introduce: "createIntroduceNode cx d v s = Inr s' \<Longrightarrow> steady s s'"
  by (elim createIntroduceNodeE) (metis steady_build steady_buildVoid steady_context steady_trans)

lemma introduceValues_simps [simp]:
  "introduceValues cx [] s = Inr s"
  "introduceValues cx (d # ds) s =
     bindE (lookupLocal d s) (\<lambda>v. bindE (createIntroduceNode cx d v s) (introduceValues cx ds))"
  by (simp_all add: introduceValues_def bindE_assoc)

lemma steady_introduceValues: "introduceValues cx ds s = Inr s' \<Longrightarrow> steady s s'"
proof (induction ds arbitrary: s)
  case (Cons d ds)
  then show ?case by (auto simp: bindE_eq_Inr dest!: steady_introduce intro: steady_trans)
qed simp

section \<open>The cursor\<close>

lemma cursor_balanced: "cursor_descend k cur = Inr cur1 \<Longrightarrow> cursor_ascend k cur1 = Inr cur2 \<Longrightarrow> cur2 = cur"
  by (auto simp: cursor_defs bindE_eq_Inr split: option.splits)

lemma cursor_descend_depth: "cursor_descend k cur = Inr cur1 \<Longrightarrow> c_depth cur1 = depth_inside k (c_depth cur)"
  by (auto simp: cursor_defs bindE_eq_Inr depth_inside_def split: option.splits elim!: transitionDepth.elims)

lemma contributeAroundE:
  assumes "contributeAround cx t inner b s = Inr (r, s')"
  obtains cur s1 s2 s3 cur' where "cursor_descend (getKind t) (cursor_of s) = Inr cur"
    and "createContributeNode cx (addr_of t) (with_context s (fst (fc_context s)) cur) = Inr s1"
    and "inner b s1 = Inr (r, s2)"
    and "(if isNodeRequiringReduceMarker (obj_of t) then createReduceNode cx s2 else Inr s2) = Inr s3"
    and "cursor_ascend (getKind t) (cursor_of s3) = Inr cur'" and "s' = with_context s3 (fst (fc_context s3)) cur'"
  using assms by (auto simp: contributeAround_def bindE_eq_Inr moveCursor_eq)


section \<open>Contributions\<close>

lemma createRegionAfter_simps:
  assumes "createRegionAfter b name s = (b', t)" and "point_of s = Some b"
  shows "b' = next_of s" "next_of t = Suc (Suc (next_of s))"
    "code_of t = code_of s @ [(Some b, Suc (next_of s), Br b')]" "point_of t = Some b'"
    "fc_values t = fc_values s" "fc_context t = fc_context s"
  using assms by (auto simp: createRegionAfter_def builder_simps moveAfter_def Let_def)

lemma codegenCalculationE:
  assumes "codegenCalculation h cx st ds b s = Inr (r, s')"
  obtains b' s1 c s2 where "createRegionAfter b ''meta_calculation'' s = (b', s1)"
    and "codegenStmt h (with_cursor (mc_ir cx)) st b' s1 = Inr (Some c, s2)"
    and "introduceValues cx ds s2 = Inr s'" and "r = Some c"
proof -
  obtain b' s1 where b: "createRegionAfter b ''meta_calculation'' s = (b', s1)" by fastforce
  with assms obtain q s2 where c: "codegenStmt h (with_cursor (mc_ir cx)) st b' s1 = Inr (q, s2)" and q: "q \<noteq> None"
    and i: "introduceValues cx ds s2 = Inr s'" and r: "r = q"
    by (auto simp: codegenCalculation_def bindE_eq_Inr assertE_eq_Inr)
  from q obtain d where "q = Some d" by blast
  with b c i r that show thesis by simp
qed

abbreviation gen_children ::
    "(ast \<Rightarrow> 'c supplier) \<Rightarrow> ast list \<Rightarrow> block option \<times> 'c fcodegen \<Rightarrow> (block option \<times> 'c fcodegen) res" where
  "gen_children F \<equiv> foldE (\<lambda>c (current, s). case current of None \<Rightarrow> Inl NullDeref | Some b \<Rightarrow> F c b s)"

text \<open>A contribution never ends the control flow: a return is the end of a branch of a calculation only.\<close>

definition going_on :: "'c supplier \<Rightarrow> bool" where
  "going_on f \<longleftrightarrow> (\<forall>b s r s'. f b s = Inr (r, s') \<longrightarrow> r \<noteq> None)"

lemma going_onD: "going_on f \<Longrightarrow> f b s = Inr (r, s') \<Longrightarrow> \<exists>c. r = Some c"
  unfolding going_on_def by (meson not_Some_eq)

lemma going_on_seq:
  assumes "\<And>c. c \<in> set cs \<Longrightarrow> going_on (F c)" and "gen_children F cs (Some b, s) = Inr (r, s')"
  shows "r \<noteq> None"
  using assms
proof (induction cs arbitrary: b s)
  case (Cons c cs)
  from Cons.prems(2) obtain q t where c: "F c b s = Inr (q, t)" and cs: "gen_children F cs (q, t) = Inr (r, s')"
    by (auto simp: bindE_eq_Inr)
  have "going_on (F c)" using Cons.prems(1) by simp
  then obtain d where "q = Some d" using going_onD [of "F c", OF _ c] by blast
  then show ?case using Cons.IH [OF Cons.prems(1)] cs by simp
qed auto

lemma closeBranch_going: "closeBranch (Some c) k s = (k', s') \<Longrightarrow> k' \<noteq> None"
  by (auto simp: closeBranch_def split: prod.splits)

lemma falseBranch_going: "codegenFalseBranch g (Some q) s = Inr (f, k', s') \<Longrightarrow> k' \<noteq> None"
proof (cases g)
  case (Some f')
  assume *: "codegenFalseBranch g (Some q) s = Inr (f, k', s')"
  obtain b s1 where b: "newBlockBefore q ''false_block'' s = (b, s1)" by fastforce
  with * Some obtain r s2 where "closeBranch r (Some q) s2 = (k', s')"
    by (auto simp: codegenFalseBranch_def bindE_eq_Inr split: prod.splits)
  then show ?thesis by (cases r) (auto dest: closeBranch_going)
qed (auto simp: codegenFalseBranch_def split: prod.splits)

lemma going_on_if:
  assumes "going_on f"
  shows "going_on (\<lambda>b s. codegenIfStructure h cx b c f g s)"
  unfolding going_on_def
proof (intro allI impI)
  fix b s r s'
  assume "codegenIfStructure h cx b c f g s = Inr (r, s')"
  then obtain tb s1 rt s2 k1 s3 fb k2 s4 v s5 p s6
    where 1: "newBlock ''true_block'' s = (tb, s1)" "f tb (insertAt tb s1) = Inr (rt, s2)"
      "closeBranch rt None s2 = (k1, s3)" and 2: "codegenFalseBranch g k1 s3 = Inr (fb, k2, s4)"
      and 3: "codegenExpr h cx c (insertAt b s4) = Inr (v, s5)"
      "buildInstr (IsNotNull v) False s5 = (p, s6)" and r: "r = k2"
      "s' = (case k2 of Some q \<Rightarrow> insertAt q (buildVoid (CondBr p tb fb) s6)
                      | None \<Rightarrow> buildVoid (CondBr p tb fb) s6)"
    by (rule codegenIfStructureE)
  obtain c where "rt = Some c" using going_onD [OF assms 1(2)] by blast
  with 1(3) obtain q where "k1 = Some q" using closeBranch_going by (metis not_Some_eq)
  with 2 r(1) show "r \<noteq> None" using falseBranch_going by blast
qed

lemma going_on_meta: "going_on (\<lambda>b s. codegenMeta h cx t b s)"
proof (induction t rule: ast_children_induct)
  case (node t)
  show ?case
  proof (cases t rule: meta_node_cases)
    case (branch a c x f)
    have "going_on (\<lambda>b s. codegenIfStructure h (with_cursor (mc_ir cx)) b c (\<lambda>b s. codegenMeta h cx x b s)
        (map_option (\<lambda>g b s. codegenMeta h cx g b s) f) s)"
      by (rule going_on_if) (use node.IH branch in simp)
    with branch show ?thesis by simp
  next
    case (calculation a st ds)
    then show ?thesis by (auto simp: going_on_def elim: codegenCalculationE)
  next
    case (contribution a rg cs)
    then show ?thesis
      using going_on_seq [of cs "codegenMeta h cx"] node.IH unfolding going_on_def by simp
  next
    case plain
    show ?thesis
      unfolding going_on_def
    proof (intro allI impI)
      fix b s r s'
      assume "codegenMeta h cx t b s = Inr (r, s')"
      then obtain s1 s2 where "gen_children (codegenMeta h cx) (children t) (Some b, s1) = Inr (r, s2)"
        unfolding codegenMeta_plain [OF plain] by (rule contributeAroundE)
      then show "r \<noteq> None" by (rule going_on_seq [rotated]) (rule node.IH)
    qed
  qed (simp add: going_on_def)
qed

text \<open>A block, with straight code before and after.\<close>

lemma straight_block:
  assumes "straight s t" and "left_at b t (Some c) u" and "straight u s'" and "point_of s = Some b"
  shows "left_at b s (Some c) s'"
proof -
  have "next_of s \<le> next_of t" "fc_values t = fc_values s" "grown b s t"
    using assms(1,4) by (auto simp: straight_def straight_grown)
  moreover have u: "point_of u = Some c" "c < next_of u" "c = b \<or> next_of t \<le> c" "grown b t u"
    using assms(2) by (auto simp: left_at_def)
  moreover have "grown c u s'" "next_of u \<le> next_of s'" "point_of s' = Some c" "fc_values s' = fc_values u"
    using assms(3) u by (auto simp: straight_def straight_grown)
  moreover have "grown b s u" using calculation by (auto intro: grown_trans)
  moreover have "grown b s s'"
    by (rule grown_trans [of b s u c s']) (use calculation in auto)
  ultimately show ?thesis using assms(2) by (auto simp: left_at_def)
qed

lemma contributeAround_parts:
  assumes "contributeAround cx t inner b s = Inr (r, s')"
  obtains s1 s2 where "straight s s1" and "inner b s1 = Inr (r, s2)" and "straight s2 s'"
    and "c_depth (cursor_of s1) = depth_inside (getKind t) (c_depth (cursor_of s))"
    and "cursor_of s2 = cursor_of s1 \<Longrightarrow> cursor_of s' = cursor_of s"
    and "createContributeNode cx (addr_of t) (with_context s (fst (fc_context s)) (cursor_of s1)) = Inr s1"
    and "\<exists>s3. (if isNodeRequiringReduceMarker (obj_of t) then createReduceNode cx s2 else Inr s2) = Inr s3
      \<and> s' = with_context s3 (fst (fc_context s3)) (cursor_of s')"
  using assms
proof (rule contributeAroundE)
  fix cur s1 s2 s3 cur'
  assume d: "cursor_descend (getKind t) (cursor_of s) = Inr cur"
    and c: "createContributeNode cx (addr_of t) (with_context s (fst (fc_context s)) cur) = Inr s1"
    and i: "inner b s1 = Inr (r, s2)"
    and e: "(if isNodeRequiringReduceMarker (obj_of t) then createReduceNode cx s2 else Inr s2) = Inr s3"
    and a: "cursor_ascend (getKind t) (cursor_of s3) = Inr cur'" and s': "s' = with_context s3 (fst (fc_context s3)) cur'"
  have 1: "steady (with_context s (fst (fc_context s)) cur) s1" by (rule steady_contribute [OF c])
  have 3: "steady s2 s3" using e by (auto simp: steady_reduce split: if_splits)
  have cur: "cursor_of s1 = cur" "cursor_of s3 = cursor_of s2" using 1 3 by (simp_all add: steady_def)
  show thesis
  proof (rule that [OF _ i])
    show "straight s s1" using 1 straight_trans [OF straight_context] by (auto simp: steady_def)
    show "straight s2 s'" unfolding s' using 3 straight_trans [OF _ straight_context] by (auto simp: steady_def)
    show "cursor_of s' = cursor_of s" if "cursor_of s2 = cursor_of s1"
      using cursor_balanced [OF d, of cur'] a cur that s' by simp
    show "c_depth (cursor_of s1) = depth_inside (getKind t) (c_depth (cursor_of s))"
      using cursor_descend_depth [OF d] cur by simp
    show "createContributeNode cx (addr_of t) (with_context s (fst (fc_context s)) (cursor_of s1)) = Inr s1"
      using c cur by simp
    show "\<exists>s3. (if isNodeRequiringReduceMarker (obj_of t) then createReduceNode cx s2 else Inr s2) = Inr s3
        \<and> s' = with_context s3 (fst (fc_context s3)) (cursor_of s')"
      using e s' by auto
  qed
qed

lemma region_left:
  assumes "createRegionAfter b name s = (b', t)" and "left_at b' t (Some c) u" and "point_of s = Some b"
  shows "left_at b s (Some c) u"
proof -
  note r = createRegionAfter_simps [OF assms(1,3)]
  have g: "grown b s t" unfolding grown_def placed_def using r(2,3) by auto
  have u: "grown b' t u" "next_of t \<le> next_of u" "c = b' \<or> next_of t \<le> c"
    using left_atD(1,2,7) [OF assms(2)] by auto
  have "b' = b \<or> next_of s \<le> b' \<and> b' < next_of u" using r(1,2) u(2) by simp
  then have "grown b s u" by (rule grown_trans [OF g u(1)])
  moreover have "c = b \<or> next_of s \<le> c" using u(3) r(1,2) by auto
  ultimately show ?thesis using left_atD(3-6) [OF assms(2)] r(5) unfolding left_at_def by simp
qed

lemma framed_meta: "framed (\<lambda>b s. codegenMeta h cx t b s)"
proof (induction t rule: ast_children_induct)
  case (node t)
  show ?case
  proof (cases t rule: meta_node_cases)
    case (branch a c x f)
    have "framed (\<lambda>b s. codegenIfStructure h (with_cursor (mc_ir cx)) b c (\<lambda>b s. codegenMeta h cx x b s)
        (map_option (\<lambda>g b s. codegenMeta h cx g b s) f) s)"
      by (rule framed_if) (use node.IH branch in auto)
    with branch show ?thesis by simp
  next
    case (calculation a st ds)
    show ?thesis
      unfolding framed_def
    proof (intro allI impI)
      fix b s r s'
      assume t: "codegenMeta h cx t b s = Inr (r, s')" and b: "point_of s = Some b" "b < next_of s"
      from t calculation obtain b' s1 c s2 where r: "createRegionAfter b ''meta_calculation'' s = (b', s1)"
        and st: "codegenStmt h (with_cursor (mc_ir cx)) st b' s1 = Inr (Some c, s2)"
        and i: "introduceValues cx ds s2 = Inr s'" and rc: "r = Some c"
        by (auto elim: codegenCalculationE)
      note rs = createRegionAfter_simps [OF r b(1)]
      have "left_at b' s1 (Some c) s2" by (rule stmt_frame [OF st]) (use rs in simp_all)
      then have "left_at b' s1 (Some c) s'"
        by (rule straight_block [OF straight_refl]) (use steady_introduceValues [OF i] rs in \<open>simp_all add: steady_def\<close>)
      then show "left_at b s r s'" unfolding rc by (rule region_left [OF r _ b(1)])
    qed
  next
    case (contribution a rg cs)
    then show ?thesis
      using framed_seq [of cs "codegenMeta h cx"] node.IH unfolding framed_def by simp
  next
    case plain
    show ?thesis
      unfolding framed_def
    proof (intro allI impI)
      fix b s r s'
      assume t: "codegenMeta h cx t b s = Inr (r, s')" and b: "point_of s = Some b" "b < next_of s"
      from t [unfolded codegenMeta_plain [OF plain]] obtain s1 s2 where s1: "straight s s1"
        and i: "gen_children (codegenMeta h cx) (children t) (Some b, s1) = Inr (r, s2)" and s2: "straight s2 s'"
        by (rule contributeAround_parts)
      obtain c where c: "r = Some c" using going_onD [OF going_on_meta t] by blast
      have "left_at b s1 r s2"
        by (rule framed_seq [OF _ i]) (use node.IH s1 b in \<open>auto simp: straight_def\<close>)
      with c show "left_at b s r s'" using straight_block [OF s1 _ s2 b(1)] by simp
    qed
  qed (simp add: framed_def)
qed

section \<open>Scopes\<close>

text \<open>
  The variables of a calculation belong to the scope of the meta function. One that is declared in a
  branch has no slot in the other branch, so that calculations in branches must not declare any.
\<close>

fun declares_nothing :: "ast \<Rightarrow> bool" where
  "declares_nothing (UnscopedCompoundStmt a cs) = list_all declares_nothing cs"
| "declares_nothing (DeclStmt a n e) = False"
| "declares_nothing (IfStmt a c t f) = (declares_nothing t
     \<and> (case f of None \<Rightarrow> True | Some e \<Rightarrow> declares_nothing e))"
| "declares_nothing t = True"

fun meta_ok :: "heap \<Rightarrow> bool \<Rightarrow> ast \<Rightarrow> bool" where
  "meta_ok h inner (MetaDecl a n args c) = meta_ok h inner c"
| "meta_ok h inner (MetaIfStmt a c t f) = (\<not> place h c \<and> meta_ok h True t
     \<and> (case f of None \<Rightarrow> True | Some e \<Rightarrow> meta_ok h True e))"
| "meta_ok h inner (MetaCalculationStmt a st ds) = (branches_ok h st \<and> (inner \<longrightarrow> declares_nothing st))"
| "meta_ok h inner t = list_all (meta_ok h inner) (children t)"

lemma meta_ok_plain: "\<not> meta_node t \<Longrightarrow> meta_ok h inner t = list_all (meta_ok h inner) (children t)"
  by (cases t; hypsubst) (simp_all add: meta_node_def del: children.simps)

lemma closeBranch_values: "closeBranch r k s = (k', s') \<Longrightarrow> fc_values s' = fc_values s"
  by (cases r; cases k) (auto simp: closeBranch_def lazyContinue_def builder_simps)

lemma scoped_falseBranch:
  assumes "codegenFalseBranch g k s = Inr (fb, k', s')" and "\<And>f. g = Some f \<Longrightarrow> scoped f"
  shows "fc_values s' = fc_values s"
proof (cases g)
  case None
  with assms(1) show ?thesis by (cases k) (auto simp: codegenFalseBranch_def lazyContinue_def builder_simps)
next
  case (Some f)
  define made where "made = (case k of Some p \<Rightarrow> newBlockBefore p ''false_block'' s | None \<Rightarrow> newBlock ''false_block'' s)"
  obtain b s1 where b: "made = (b, s1)" by fastforce
  have s1: "b = next_of s" "next_of s1 = Suc (next_of s)" "fc_values s1 = fc_values s"
    using b by (auto simp: made_def builder_simps split: option.splits)
  from assms(1) Some b obtain r s2 where "f b (insertAt b s1) = Inr (r, s2)" and c: "closeBranch r k s2 = (k', s')"
    by (auto simp: codegenFalseBranch_def made_def [symmetric] bindE_eq_Inr split: prod.splits)
  then have "fc_values s2 = fc_values s1" using assms(2) [OF Some] s1 by (simp add: scoped_def)
  with closeBranch_values [OF c] s1 show ?thesis by simp
qed

lemma scoped_if:
  assumes "scoped f" and "\<And>g'. g = Some g' \<Longrightarrow> scoped g'"
  shows "scoped (\<lambda>b s. codegenIfStructure h cx b c f g s)"
  unfolding scoped_def
proof (intro allI impI)
  fix b s r s'
  assume "codegenIfStructure h cx b c f g s = Inr (r, s')"
  then obtain tb s1 rt s2 k1 s3 fb k2 s4 v s5 p s6
    where 1: "newBlock ''true_block'' s = (tb, s1)" "f tb (insertAt tb s1) = Inr (rt, s2)"
      "closeBranch rt None s2 = (k1, s3)" and 2: "codegenFalseBranch g k1 s3 = Inr (fb, k2, s4)"
      and 3: "codegenExpr h cx c (insertAt b s4) = Inr (v, s5)"
      "buildInstr (IsNotNull v) False s5 = (p, s6)" and r: "r = k2"
      "s' = (case k2 of Some q \<Rightarrow> insertAt q (buildVoid (CondBr p tb fb) s6)
                      | None \<Rightarrow> buildVoid (CondBr p tb fb) s6)"
    by (rule codegenIfStructureE)
  have "fc_values s2 = fc_values s" using assms(1) 1(2) newBlock_simps [OF 1(1)] by (simp add: scoped_def)
  then have "fc_values s4 = fc_values s" using scoped_falseBranch [OF 2 assms(2)] closeBranch_values [OF 1(3)] by simp
  moreover have "straight (insertAt b s4) s6" using straight_expr [OF 3(1)] straight_build [OF 3(2)] by (rule straight_trans)
  ultimately show "fc_values s' = fc_values s"
    using r(2) by (simp add: straight_def builder_simps split: option.splits)
qed

lemma scoped_seq:
  assumes "\<And>c. c \<in> set cs \<Longrightarrow> scoped (F c) \<and> framed (F c)"
    and "gen_children F cs (Some b, s) = Inr (r, s')" and "point_of s = Some b" and "b < next_of s"
  shows "fc_values s' = fc_values s"
  using assms
proof (induction cs arbitrary: b s)
  case (Cons c cs)
  from Cons.prems(2) obtain q t where c: "F c b s = Inr (q, t)" and cs: "gen_children F cs (q, t) = Inr (r, s')"
    by (auto simp: bindE_eq_Inr)
  have F: "scoped (F c)" "framed (F c)" using Cons.prems(1) by simp_all
  note l = framedD [OF F(2) c Cons.prems(3,4)]
  have "fc_values s' = fc_values t"
  proof (cases q)
    case None
    with cs show ?thesis by (cases cs) auto
  next
    case (Some d)
    with l show ?thesis using Cons.IH [OF Cons.prems(1)] cs left_atD(5,6) [of b s "Some d" t d] by simp
  qed
  moreover have "fc_values t = fc_values s" using F(1) c Cons.prems(3,4) unfolding scoped_def by blast
  ultimately show ?case by simp
qed auto

lemma scoped_stmt: "declares_nothing st \<Longrightarrow> scoped (\<lambda>b s. codegenStmt h cx st b s)"
proof (induction st rule: ast_children_induct)
  case (node st)
  show ?case
  proof (cases st)
    case (CompoundStmt a cs)
    then show ?thesis using compound_values [of h cx st] unfolding scoped_def by simp
  next
    case (UnscopedCompoundStmt a cs)
    have ok: "scoped (codegenStmt h cx c) \<and> framed (codegenStmt h cx c)" if "c \<in> set cs" for c
      using that node UnscopedCompoundStmt framed_stmt [of h cx c] by (simp add: list_all_iff)
    show ?thesis
      unfolding scoped_def UnscopedCompoundStmt codegenStmt.simps
      by (intro allI impI) (rule scoped_seq [OF ok])
  next
    case (IfStmt a c x f)
    have "scoped (\<lambda>b s. codegenIfStructure h cx b c (\<lambda>b s. codegenStmt h cx x b s)
        (map_option (\<lambda>g b s. codegenStmt h cx g b s) f) s)"
      by (rule scoped_if) (use node IfStmt in auto)
    with IfStmt show ?thesis by simp
  next
    case (ExpressionStmt a e)
    then show ?thesis by (auto simp: scoped_def bindE_eq_Inr straight_def dest!: straight_expr)
  next
    case (ReturnStmt a e)
    have "fc_values s' = fc_values s" if "codegenStmt h cx st b s = Inr (r, s')" for b s r s'
    proof (cases e)
      case (Some y)
      with that ReturnStmt obtain v t w u where y: "codegenExpr h cx y s = Inr (v, t)"
        and l: "loadMemory v t = (w, u)" and s': "s' = buildVoid (Ret w) u"
        by (metis codegenStmt_returnE)
      from straight_expr [OF y] straight_loadMemory [OF l] s' show ?thesis
        by (simp add: straight_def builder_simps)
    qed (use that ReturnStmt in \<open>auto simp: builder_simps\<close>)
    then show ?thesis unfolding scoped_def by blast
  qed (use node.prems in \<open>simp_all add: scoped_def\<close>)
qed

lemma scoped_calculation:
  assumes "declares_nothing st"
  shows "scoped (\<lambda>b s. codegenCalculation h cx st ds b s)"
  unfolding scoped_def
proof (intro allI impI)
  fix b s r s'
  assume t: "codegenCalculation h cx st ds b s = Inr (r, s')" and b: "point_of s = Some b" "b < next_of s"
  from t obtain b' s1 c s2 where r: "createRegionAfter b ''meta_calculation'' s = (b', s1)"
    and st: "codegenStmt h (with_cursor (mc_ir cx)) st b' s1 = Inr (Some c, s2)"
    and i: "introduceValues cx ds s2 = Inr s'"
    by (rule codegenCalculationE)
  note rs = createRegionAfter_simps [OF r b(1)]
  have "fc_values s2 = fc_values s1"
    using scoped_stmt [OF assms, of h "with_cursor (mc_ir cx)"] st rs unfolding scoped_def by simp
  then show "fc_values s' = fc_values s"
    using rs(5) steady_introduceValues [OF i] by (simp add: steady_def straight_def)
qed

lemma scoped_meta: "meta_ok h True t \<Longrightarrow> scoped (\<lambda>b s. codegenMeta h cx t b s)"
proof (induction t rule: ast_children_induct)
  case (node t)
  show ?case
  proof (cases t rule: meta_node_cases)
    case (branch a c x f)
    have "scoped (\<lambda>b s. codegenIfStructure h (with_cursor (mc_ir cx)) b c (\<lambda>b s. codegenMeta h cx x b s)
        (map_option (\<lambda>g b s. codegenMeta h cx g b s) f) s)"
      by (rule scoped_if) (use node branch in auto)
    with branch show ?thesis by simp
  next
    case (calculation a st ds)
    with node.prems scoped_calculation [of st h cx ds] show ?thesis by simp
  next
    case (contribution a rg cs)
    have ok: "scoped (codegenMeta h cx c) \<and> framed (codegenMeta h cx c)" if "c \<in> set cs" for c
      using that node contribution framed_meta [of h cx c] by (simp add: list_all_iff)
    show ?thesis
      unfolding scoped_def contribution codegenMeta.simps
      by (intro allI impI) (rule scoped_seq [OF ok])
  next
    case plain
    have ok: "scoped (codegenMeta h cx c)" if "c \<in> set (children t)" for c
      using that node meta_ok_plain [OF plain, of h True] by (simp add: list_all_iff)
    show ?thesis
      unfolding scoped_def
    proof (intro allI impI)
      fix b s r s'
      assume t: "codegenMeta h cx t b s = Inr (r, s')" and b: "point_of s = Some b" "b < next_of s"
      from t [unfolded codegenMeta_plain [OF plain]] obtain s1 s2 where s1: "straight s s1"
        and i: "gen_children (codegenMeta h cx) (children t) (Some b, s1) = Inr (r, s2)" and s2: "straight s2 s'"
        by (rule contributeAround_parts)
      have "fc_values s2 = fc_values s1"
        by (rule scoped_seq [OF _ i]) (use ok framed_meta s1 b in \<open>auto simp: straight_def\<close>)
      with s1 s2 show "fc_values s' = fc_values s" by (simp add: straight_def)
    qed
  qed (simp add: scoped_def)
qed

end
