(* ===== verification/Meta_Correct.thy ===== *)
theory Meta_Correct imports Meta_Frame Codegen_Laws begin

text \<open>
  The code generated for a meta declaration makes the calls that running the declaration means. The
  cursor of the generator is a part of its context; at each point it is the one the meaning is given
  for.
\<close>

section \<open>The contract\<close>

locale meta_context = linked_context "mc_ir cx" good L ct
  for cx :: "'c module_context" and good :: "'c \<Rightarrow> bool" and L :: "'w linkage" and ct :: "'w ir_call" +
  fixes tell :: "'w teller"
  assumes module_good: "good c \<Longrightarrow> mc_module cx f c = Inr c' \<Longrightarrow> good c'"
    and call_contribute: "ct callback_contribute [RContext, RNode a] mem w = Some (RVoid, tell (JContribute a) w)"
    and call_reduce: "ct callback_reduce [RContext] mem w = Some (RVoid, tell JReduce w)"
    and call_introduce: "mem q = Some k \<Longrightarrow> ct callback_introduce [RContext, RNode a, RSlot q, RInt d] mem w
      = Some (RVoid, tell (JIntroduce a k d) w)"
begin

definition good_at :: "cursor \<Rightarrow> 'c \<times> cursor \<Rightarrow> bool" where
  "good_at cur x \<longleftrightarrow> good (fst x) \<and> snd x = cur"

lemma good_at_simps [simp]: "good_at cur (c, cur') \<longleftrightarrow> good c \<and> cur' = cur"
  by (simp add: good_at_def)

sublocale gen: linked_context "with_cursor (mc_ir cx)" "good_at cur" L ct for cur
proof
  show "good_at cur x \<Longrightarrow> lookupGlobal_function (with_cursor (mc_ir cx)) k x = Inr (v, x')
      \<Longrightarrow> good_at cur x' \<and> v = VFunction (l_fname L k)" for x k v x'
    by (cases x) (auto simp: with_cursor_def bindE_eq_Inr dest: lookup_function)
  show "good_at cur x \<Longrightarrow> lookupGlobal_inst (with_cursor (mc_ir cx)) a True x = Inr (Some v, x')
      \<Longrightarrow> good_at cur x' \<and> v = VFunction (l_iname L a)" for x a v x'
    by (cases x) (auto simp: with_cursor_def bindE_eq_Inr dest: lookup_inst)
  show "ct f (map RInt ks) mem w = (case l_call L f ks w of
      None \<Rightarrow> None
    | Some (r, w') \<Rightarrow> Some (case r of Some k \<Rightarrow> RInt k | None \<Rightarrow> RVoid, w'))" for f ks mem w
    by (rule call_linked)
qed

section \<open>Calls of the callbacks\<close>

text \<open>Straight code that changes the state of the source as \<open>f\<close> does.\<close>

definition does :: "'c metacodegen \<Rightarrow> 'c metacodegen \<Rightarrow> ('w swy \<Rightarrow> 'w swy option) \<Rightarrow> bool" where
  "does s s' f \<longleftrightarrow> straight s s' \<and> (good (fst (fc_context s)) \<longrightarrow> good (fst (fc_context s')))
     \<and> (\<forall>b as m sw sw'. point_of s = Some b \<longrightarrow> sims s m sw \<longrightarrow> f sw = Some sw' \<longrightarrow>
          (\<exists>m'. runs ct as b s s' m m' \<and> sims s' m' sw'))"

lemma doesD:
  assumes "does s s' f"
  shows "straight s s'" "good (fst (fc_context s)) \<Longrightarrow> good (fst (fc_context s'))"
    "point_of s = Some b \<Longrightarrow> sims s m sw \<Longrightarrow> f sw = Some sw' \<Longrightarrow> \<exists>m'. runs ct as b s s' m m' \<and> sims s' m' sw'"
  using assms unfolding does_def by blast+

lemma does_refl [simp]: "does s s Some"
  unfolding does_def by (auto intro: runs_refl)

lemma does_context:
  "(good (fst (fc_context s)) \<Longrightarrow> good c) \<Longrightarrow> does s (with_context s c cur) Some"
  unfolding does_def by (auto intro: runs_refl)

lemma does_trans:
  assumes "does s t f" and "does t u g"
  shows "does s u (\<lambda>sw. Option.bind (f sw) g)"
  unfolding does_def
proof (intro conjI impI allI)
  show "straight s u" using doesD(1) [OF assms(1)] doesD(1) [OF assms(2)] by (rule straight_trans)
  show "good (fst (fc_context u))" if "good (fst (fc_context s))"
    using that doesD(2) assms by blast
  fix b as m sw sw'
  assume b: "point_of s = Some b" and sim: "sims s m sw" and "Option.bind (f sw) g = Some sw'"
  then obtain sw1 where f: "f sw = Some sw1" and g: "g sw1 = Some sw'" by (auto simp: bind_eq_Some_conv)
  obtain m1 where m1: "runs ct as b s t m m1" "sims t m1 sw1" using doesD(3) [OF assms(1) b sim f] by blast
  have "point_of t = Some b" using doesD(1) [OF assms(1)] b by (simp add: straight_def)
  then obtain m2 where "runs ct as b t u m1 m2" "sims u m2 sw'" using doesD(3) [OF assms(2) _ m1(2) g] by blast
  then show "\<exists>m'. runs ct as b s u m m' \<and> sims u m' sw'"
    using runs_trans [OF m1(1) _ doesD(1) [OF assms(2)]] by blast
qed

text \<open>An instruction that computes a value, and one that calls.\<close>

lemma build_does:
  assumes "buildInstr i p s = (v, s')" and "point_of s = Some b" and "sims s m sw"
    and "run_instr ct as (next_of s) i m = Some (set_reg (next_of s) r m)"
  shows "runs ct as b s s' m (set_reg (next_of s) r m)" "sims s' (set_reg (next_of s) r m) sw"
    "v = VInstr (next_of s) p" "next_of s' = Suc (next_of s)" "straight s s'" "point_of s' = Some b"
    "fc_context s' = fc_context s"
proof -
  note b = runs_build [OF assms(1,2,4)]
  show s: "straight s s'" by (rule straight_build [OF assms(1)])
  then have "fc_values s' = fc_values s" by (simp add: straight_def)
  then show "sims s' (set_reg (next_of s) r m) sw"
    using b(3) sim_set_reg [OF assms(3), of "next_of s" r] by simp
  show "runs ct as b s s' m (set_reg (next_of s) r m)" "v = VInstr (next_of s) p" "next_of s' = Suc (next_of s)"
    by (fact b)+
  show "point_of s' = Some b" using s assms(2) by (simp add: straight_def)
  show "fc_context s' = fc_context s" by (rule context_buildInstr(1) [OF assms(1)])
qed

lemma call_does:
  assumes "point_of s = Some b" and "sims s m sw" and "operands as m vs = Some rs"
    and "ct g rs (m_mem m) (m_world m) = Some (RVoid, tell j (m_world m))"
  shows "\<exists>m'. runs ct as b s (buildVoid (Call (VFunction g) vs) s) m m'
    \<and> sims (buildVoid (Call (VFunction g) vs) s) m' (tell_to tell j sw)"
proof -
  define m1 where "m1 = m\<lparr>m_world := tell j (m_world m)\<rparr>"
  have run: "run_instr ct as (next_of s) (Call (VFunction g) vs) m = Some (set_reg (next_of s) RVoid m1)"
    by (simp add: run_instr_def assms(3,4) m1_def)
  have "sims s m1 (tell_to tell j sw)"
    using assms(2) by (simp add: sim_def live_def m1_def tell_to_def)
  from sim_set_reg [OF this order_refl, of RVoid]
  have "sim (fc_values s) (Suc (next_of s)) (set_reg (next_of s) RVoid m1) (tell_to tell j sw)" .
  moreover have "fc_values (buildVoid (Call (VFunction g) vs) s) = fc_values s"
    "next_of (buildVoid (Call (VFunction g) vs) s) = Suc (next_of s)"
    by (simp_all add: builder_simps)
  ultimately show ?thesis using runs_buildVoid [OF assms(1) run] by auto
qed

lemma contribute_does:
  assumes "createContributeNode cx a s = Inr s'"
  shows "does s s' (\<lambda>sw. Some (tell_to tell (JContribute a) sw))"
proof -
  from assms obtain c v t where c: "mc_module cx createContributeCallbackPrototype (fst (fc_context s)) = Inr c"
    and v: "buildInstr (IntToPtr (VPointer a)) True (with_context s c (cursor_of s)) = (v, t)"
    and s': "s' = buildVoid (Call (VFunction callback_contribute) [VContext, v]) t"
    by (rule createContributeNodeE)
  have st: "straight (with_context s c (cursor_of s)) t" by (rule straight_build [OF v])
  have "does (with_context s c (cursor_of s)) s' (\<lambda>sw. Some (tell_to tell (JContribute a) sw))"
    unfolding does_def
  proof (intro conjI impI allI)
    show "straight (with_context s c (cursor_of s)) s'"
      using straight_trans [OF st] by (simp add: s')
    show "good (fst (fc_context (with_context s c (cursor_of s)))) \<Longrightarrow> good (fst (fc_context s'))"
      using context_buildInstr(1) [OF v] by (simp add: s')
    fix b as m sw sw'
    assume b: "point_of (with_context s c (cursor_of s)) = Some b"
      and sim: "sims (with_context s c (cursor_of s)) m sw" and sw': "Some (tell_to tell (JContribute a) sw) = Some sw'"
    have "run_instr ct as (next_of (with_context s c (cursor_of s))) (IntToPtr (VPointer a)) m
        = Some (set_reg (next_of (with_context s c (cursor_of s))) (RNode a) m)"
      by (simp add: run_instr_def)
    note p = build_does [OF v b sim this ]
    obtain m2 where "runs ct as b t s' (set_reg (next_of s) (RNode a) m) m2" "sims s' m2 sw'"
      using call_does [OF p(6,2), of as "[VContext, v]" "[RContext, RNode a]" callback_contribute "JContribute a"] p(3) sw'
      by (auto simp: s' call_contribute)
    moreover have "straight t s'" by (simp add: s')
    ultimately show "\<exists>m'. runs ct as b (with_context s c (cursor_of s)) s' m m' \<and> sims s' m' sw'"
      using runs_trans [OF p(1)] by auto
  qed
  with does_trans [OF does_context [of s c "cursor_of s"] this] module_good [OF _ c] show ?thesis by simp
qed

lemma reduce_does:
  assumes "createReduceNode cx s = Inr s'"
  shows "does s s' (\<lambda>sw. Some (tell_to tell JReduce sw))"
proof -
  from assms obtain c where c: "mc_module cx createReduceCallbackPrototype (fst (fc_context s)) = Inr c"
    and s': "s' = buildVoid (Call (VFunction callback_reduce) [VContext]) (with_context s c (cursor_of s))"
    by (rule createReduceNodeE)
  have "does (with_context s c (cursor_of s)) s' (\<lambda>sw. Some (tell_to tell JReduce sw))"
    unfolding does_def s'
  proof (intro conjI impI allI)
    fix b as m sw sw'
    assume "point_of (with_context s c (cursor_of s)) = Some b"
      and "sims (with_context s c (cursor_of s)) m sw" and "Some (tell_to tell JReduce sw) = Some sw'"
    then show "\<exists>m'. runs ct as b (with_context s c (cursor_of s))
          (buildVoid (Call (VFunction callback_reduce) [VContext]) (with_context s c (cursor_of s))) m m'
        \<and> sims (buildVoid (Call (VFunction callback_reduce) [VContext]) (with_context s c (cursor_of s))) m' sw'"
      using call_does [of "with_context s c (cursor_of s)" b m sw as "[VContext]" "[RContext]" callback_reduce JReduce]
      by (auto simp: call_reduce)
  qed simp_all
  with does_trans [OF does_context [of s c "cursor_of s"] this] module_good [OF _ c] show ?thesis by simp
qed

definition introduce_one :: "depth_level \<Rightarrow> addr \<Rightarrow> 'w swy \<Rightarrow> 'w swy option" where
  "introduce_one d x sw = map_option (\<lambda>k. tell_to tell (JIntroduce x k (depth_argument d)) sw) (read_var (sw_vars sw) x)"

lemma introduce_does:
  assumes "createIntroduceNode cx d v s = Inr s'" and "lookupLocal d s = Inr v"
  shows "does s s' (introduce_one (c_depth (cursor_of s)) d)"
proof -
  let ?s = "\<lambda>c. with_context s c (cursor_of s)"
  from assms(1) obtain c p t q u where c: "mc_module cx createIntroduceCallbackPrototype (fst (fc_context s)) = Inr c"
    and p: "buildInstr (IntToPtr (VPointer d)) True (?s c) = (p, t)"
    and q: "buildInstr (PointerCast v) True t = (q, u)"
    and s': "s' = buildVoid (Call (VFunction callback_introduce)
          [VContext, p, q, VConst (depth_argument (c_depth (cursor_of u)))]) u"
    by (rule createIntroduceNodeE)
  have st: "straight (?s c) t" "straight t u" using straight_build p q by blast+
  have cur: "fc_context u = (c, cursor_of s)"
    using context_buildInstr(1) [OF p] context_buildInstr(1) [OF q] by simp
  have look: "lookup_values (fc_values s) d = Some v" using assms(2) by (auto simp: lookupLocal_def split: option.splits)
  have "does (?s c) s' (introduce_one (c_depth (cursor_of s)) d)"
    unfolding does_def
  proof (intro conjI impI allI)
    show "straight (?s c) s'" using straight_trans [OF straight_trans [OF st]] by (simp add: s')
    show "good (fst (fc_context (?s c))) \<Longrightarrow> good (fst (fc_context s'))" using cur by (simp add: s')
    fix b as m sw sw'
    assume b: "point_of (?s c) = Some b" and sim: "sims (?s c) m sw"
      and sw': "introduce_one (c_depth (cursor_of s)) d sw = Some sw'"
    have sim0: "sims s m sw" using sim by simp
    obtain k where k: "v = VInstr (slot_number v) True" "slot_number v < next_of s"
      "m_regs m (slot_number v) = Some (RSlot (slot_number v))" "m_mem m (slot_number v) = Some k"
      "read_var (sw_vars sw) d = Some k"
      by (rule sim_lookup [OF sim0 look])
    define m1 where "m1 = set_reg (next_of (?s c)) (RNode d) m"
    have "run_instr ct as (next_of (?s c)) (IntToPtr (VPointer d)) m = Some (set_reg (next_of (?s c)) (RNode d) m)"
      by (simp add: run_instr_def)
    note P = build_does [OF p b sim this, folded m1_def]
    have "operand as m1 v = Some (RSlot (slot_number v))"
      by (subst k(1)) (use k(2,3) in \<open>simp add: m1_def set_reg_def\<close>)
    then have "run_instr ct as (next_of t) (PointerCast v) m1 = Some (set_reg (next_of t) (RSlot (slot_number v)) m1)"
      by (simp add: run_instr_def)
    note Q = build_does [OF q P(6,2) this]
    define m2 where "m2 = set_reg (next_of t) (RSlot (slot_number v)) m1"
    have ops: "operands as m2 [VContext, p, q, VConst (depth_argument (c_depth (cursor_of u)))]
        = Some [RContext, RNode d, RSlot (slot_number v), RInt (depth_argument (c_depth (cursor_of s)))]"
      using P(3,4) Q(3) cur by (simp add: m2_def m1_def set_reg_def)
    have mem: "m_mem m2 (slot_number v) = Some k" using k(4) by (simp add: m2_def m1_def set_reg_def)
    note call = call_introduce [of "m_mem m2" "slot_number v" k d "depth_argument (c_depth (cursor_of s))" "m_world m2",
      OF mem]
    have "sw' = tell_to tell (JIntroduce d k (depth_argument (c_depth (cursor_of s)))) sw"
      using sw' k(5) by (simp add: introduce_one_def)
    then obtain m3 where m3: "runs ct as b u s' m2 m3" "sims s' m3 sw'"
      using call_does [OF Q(6) Q(2) [folded m2_def] ops call] by (auto simp: s')
    have "runs ct as b (?s c) u m m2" using runs_trans [OF P(1) Q(1) Q(5)] by (simp add: m2_def)
    moreover have "straight u s'" by (simp add: s')
    ultimately show "\<exists>m'. runs ct as b (?s c) s' m m' \<and> sims s' m' sw'" using runs_trans m3 by blast
  qed
  with does_trans [OF does_context [of s c "cursor_of s"] this] module_good [OF _ c] show ?thesis by simp
qed

lemma introduceValues_does:
  "introduceValues cx ds s = Inr s' \<Longrightarrow> does s s' (introduce_all tell (c_depth (cursor_of s)) ds)"
proof (induction ds arbitrary: s)
  case (Cons d ds)
  then obtain v t where v: "lookupLocal d s = Inr v" and t: "createIntroduceNode cx d v s = Inr t"
    and ds: "introduceValues cx ds t = Inr s'"
    by (auto simp: bindE_eq_Inr)
  have "cursor_of t = cursor_of s" using steady_introduce [OF t] by (simp add: steady_def)
  with does_trans [OF introduce_does [OF t v] Cons.IH [OF ds]]
  have "does s s' (\<lambda>sw. Option.bind (introduce_one (c_depth (cursor_of s)) d sw)
      (introduce_all tell (c_depth (cursor_of s)) ds))" by simp
  moreover have "(\<lambda>sw. Option.bind (introduce_one (c_depth (cursor_of s)) d sw)
      (introduce_all tell (c_depth (cursor_of s)) ds)) = introduce_all tell (c_depth (cursor_of s)) (d # ds)"
    by (rule ext) (simp add: introduce_one_def split: option.splits)
  ultimately show ?case by (simp only:)
next
  case Nil
  moreover have "introduce_all tell (c_depth (cursor_of s)) [] = Some" by (rule ext) simp
  ultimately show ?case by simp
qed

text \<open>The code around that of the children.\<close>

lemma around_does:
  assumes "contributeAround cx t inner b s = Inr (r, s')"
  obtains s1 s2 where "does s s1 (\<lambda>sw. Some (tell_to tell (JContribute (addr_of t)) sw))"
    and "inner b s1 = Inr (r, s2)" and "does s2 s' (\<lambda>sw. Some (close_node tell t sw))"
    and "c_depth (cursor_of s1) = depth_inside (getKind t) (c_depth (cursor_of s))"
    and "cursor_of s2 = cursor_of s1 \<Longrightarrow> cursor_of s' = cursor_of s"
using assms
proof (rule contributeAround_parts)
  fix s1 s2
  assume i: "inner b s1 = Inr (r, s2)"
    and d: "c_depth (cursor_of s1) = depth_inside (getKind t) (c_depth (cursor_of s))"
    and cur: "cursor_of s2 = cursor_of s1 \<Longrightarrow> cursor_of s' = cursor_of s"
    and c: "createContributeNode cx (addr_of t) (with_context s (fst (fc_context s)) (cursor_of s1)) = Inr s1"
    and e: "\<exists>s3. (if isNodeRequiringReduceMarker (obj_of t) then createReduceNode cx s2 else Inr s2) = Inr s3
      \<and> s' = with_context s3 (fst (fc_context s3)) (cursor_of s')"
  have 1: "does s s1 (\<lambda>sw. Some (tell_to tell (JContribute (addr_of t)) sw))"
    using does_trans [OF does_context contribute_does [OF c]] by simp
  from e obtain s3 where s3: "(if isNodeRequiringReduceMarker (obj_of t) then createReduceNode cx s2 else Inr s2) = Inr s3"
    and s': "s' = with_context s3 (fst (fc_context s3)) (cursor_of s')" by blast
  have "does s2 s3 (\<lambda>sw. Some (close_node tell t sw))"
  proof (cases "isNodeRequiringReduceMarker (obj_of t)")
    case True
    with s3 reduce_does [of s2 s3] show ?thesis by (simp add: close_node_def)
  next
    case False
    with s3 show ?thesis using does_refl [of s2] by (simp add: close_node_def)
  qed
  from does_trans [OF this does_context [of s3 "fst (fc_context s3)" "cursor_of s'"]]
  have "does s2 s' (\<lambda>sw. Some (close_node tell t sw))" by (simp flip: s')
  then show thesis by (rule that [OF 1 i _ d cur])
qed

section \<open>Contributions\<close>

lemma good_meta: "gen.keeps_good cur (\<lambda>b s. codegenMeta h cx t b s)"
proof (induction t arbitrary: cur rule: ast_children_induct)
  case (node t)
  show ?case
  proof (cases t rule: meta_node_cases)
    case (branch a c x f)
    have "gen.keeps_good cur (\<lambda>b s. codegenIfStructure h (with_cursor (mc_ir cx)) b c (\<lambda>b s. codegenMeta h cx x b s)
        (map_option (\<lambda>g b s. codegenMeta h cx g b s) f) s)"
      by (rule gen.good_if) (use node.IH branch in auto)
    with branch show ?thesis by simp
  next
    case (calculation a st ds)
    show ?thesis
      unfolding gen.keeps_good_def
    proof (intro allI impI)
      fix b s r s'
      assume t: "codegenMeta h cx t b s = Inr (r, s')" and good: "good_at cur (fc_context s)"
      from t calculation obtain b' s1 c s2 where r: "createRegionAfter b ''meta_calculation'' s = (b', s1)"
        and st: "codegenStmt h (with_cursor (mc_ir cx)) st b' s1 = Inr (Some c, s2)"
        and i: "introduceValues cx ds s2 = Inr s'"
        by (auto elim: codegenCalculationE)
      have "fc_context s1 = fc_context s" using r by (auto simp: createRegionAfter_def builder_simps moveAfter_def Let_def)
      then have "good_at cur (fc_context s2)"
        using gen.good_stmt [of cur h st] st good unfolding gen.keeps_good_def by metis
      then show "good_at cur (fc_context s')"
        using doesD(2) [OF introduceValues_does [OF i]] steady_introduceValues [OF i] by (simp add: good_at_def steady_def)
    qed
  next
    case (contribution a rg cs)
    then show ?thesis
      using gen.good_seq [of cs cur "codegenMeta h cx"] node.IH unfolding gen.keeps_good_def by simp
  next
    case plain
    show ?thesis
      unfolding gen.keeps_good_def
    proof (intro allI impI)
      fix b s r s'
      assume t: "codegenMeta h cx t b s = Inr (r, s')" and good: "good_at cur (fc_context s)"
      from t [unfolded codegenMeta_plain [OF plain]]
      show "good_at cur (fc_context s')"
      proof (rule around_does)
        fix s1 s2
        assume 1: "does s s1 (\<lambda>sw. Some (tell_to tell (JContribute (addr_of t)) sw))"
          and i: "gen_children (codegenMeta h cx) (children t) (Some b, s1) = Inr (r, s2)"
          and 2: "does s2 s' (\<lambda>sw. Some (close_node tell t sw))"
          and cur: "cursor_of s2 = cursor_of s1 \<Longrightarrow> cursor_of s' = cursor_of s"
        have "good_at (cursor_of s1) (fc_context s1)" using doesD(2) [OF 1] good by (simp add: good_at_def)
        then have "good_at (cursor_of s1) (fc_context s2)"
          by (rule gen.good_seq [OF _ i, rotated]) (rule node.IH)
        then show "good_at cur (fc_context s')" using doesD(2) [OF 2] cur good by (simp add: good_at_def)
      qed
    qed
  qed (simp add: gen.keeps_good_def)
qed

lemma branch_gen_meta: "meta_ok h True t \<Longrightarrow> gen.branch_gen cur (\<lambda>b s. codegenMeta h cx t b s)"
  by (simp add: gen.branch_gen_def framed_meta scoped_meta good_meta)

lemma does_before:
  assumes "does s t f" and "point_of s = Some b" and "sims s m sw" and "f sw = Some sw1"
    and "grown b t u" and "\<And>m1. sims t m1 sw1 \<Longrightarrow> arrives ct as b t r u m1 x"
  shows "arrives ct as b s r u m x"
proof -
  obtain m1 where m1: "runs ct as b s t m m1" "sims t m1 sw1" using doesD(3) [OF assms(1-4)] by blast
  obtain xs where "code_of u = code_of t @ xs" using grown_code [OF assms(5)] by blast
  with computes_arrives [OF m1] show ?thesis by (rule arrives_seq) (rule assms(6))
qed

lemma does_after:
  assumes "arrives ct as b s (Some c) t m x" and "point_of t = Some c" and "does t u f"
    and "case x of Continue sw \<Rightarrow> map_option Continue (f sw) = Some y | Return k w \<Rightarrow> y = Return k w"
  shows "arrives ct as b s (Some c) u m y"
proof -
  obtain xs where xs: "code_of u = code_of t @ xs" using doesD(1) [OF assms(3)] by (auto simp: straight_def)
  show ?thesis
  proof (cases x)
    case (Continue sw)
    with assms(4) obtain sw' where f: "f sw = Some sw'" and y: "y = Continue sw'" by auto
    show ?thesis
    proof (rule arrives_seq [OF assms(1) [unfolded Continue] xs])
      fix m' assume "sims t m' sw"
      from doesD(3) [OF assms(3,2) this f] obtain m2 where "runs ct as c t u m' m2" "sims u m2 sw'" by blast
      then show "arrives ct as c t (Some c) u m' y" unfolding y by (rule computes_arrives)
    qed
  next
    case (Return k w)
    with assms(1,4) xs show ?thesis by (auto intro: arrives_return_more)
  qed
qed

text \<open>A region starts behind a jump from the block before.\<close>

lemma region_arrives:
  assumes "createRegionAfter b name s = (b', t)" and "point_of s = Some b" and "b < next_of s"
    and "numbered s" and "sims s m sw"
  shows "arrives ct as b s (Some b') t m (Continue sw)"
proof -
  note r = createRegionAfter_simps [OF assms(1,2)]
  have "body (code_of t) b' = []" using numbered_body [OF assms(4)] assms(3) r by simp
  moreover have "reaches (code_of t @ more) ct as (At b (length (body (code_of s) b)) m) (At b' 0 m)" for more
    by (rule reaches_br [where n = "Suc (next_of s)" and post = "body more b"]) (simp add: r(3))
  moreover have "sims t m sw" using sim_mono [OF assms(5), of "next_of t"] r(2,5) by simp
  ultimately show ?thesis by (auto simp: arrives_def)
qed

lemma calculation_correct:
  assumes "branches_ok (l_heap L) st" and "codegenCalculation (l_heap L) cx st ds b s = Inr (r, s')"
    and "point_of s = Some b" and "b < next_of s" and "numbered s" and "good_at cur (fc_context s)"
    and "sims s m sw" and "exec_meta tell L (c_depth cur) (MetaCalculationStmt a st ds) sw = Some x"
  shows "arrives ct as b s r s' m x"
proof -
  from assms(2) obtain b' s1 c s2 where r: "createRegionAfter b ''meta_calculation'' s = (b', s1)"
    and st: "codegenStmt (l_heap L) (with_cursor (mc_ir cx)) st b' s1 = Inr (Some c, s2)"
    and i: "introduceValues cx ds s2 = Inr s'" and c: "r = Some c"
    by (rule codegenCalculationE)
  note rs = createRegionAfter_simps [OF r assms(3)]
  have b': "point_of s1 = Some b'" "b' < next_of s1" using rs by simp_all
  note l = stmt_frame [OF st b']
  have "grown b s s1" unfolding grown_def placed_def using rs(2,3) by auto
  then have n1: "numbered s1" by (rule numbered_grown [OF assms(5) _ assms(4)])
  have g1: "good_at cur (fc_context s1)" using assms(6) rs(6) by simp
  have "good_at cur (fc_context s2)"
    using gen.good_stmt [of cur "l_heap L" st] st g1 unfolding gen.keeps_good_def by blast
  then have d2: "cursor_of s2 = cur" by (simp add: good_at_def)
  from assms(8) obtain y where y: "exec_stmt L st sw = Some y"
    and x: "case y of Continue sw1 \<Rightarrow> map_option Continue (introduce_all tell (c_depth cur) ds sw1) = Some x
      | Return k w \<Rightarrow> x = Return k w"
    by (auto split: option.splits outcome.splits)
  have point: "point_of s2 = Some c" using left_atD(5) [OF l] by simp
  have grown: "grown b' s1 s'"
    using left_atD(1,2,6,7) [OF l] straight_grown [OF _ point, of s'] steady_introduceValues [OF i] rs(2)
    by (auto simp: steady_def straight_def intro: grown_trans)
  obtain xs where xs: "code_of s' = code_of s1 @ xs" using grown_code [OF grown] by blast
  show ?thesis
  proof (rule arrives_seq [OF region_arrives [OF r assms(3-5,7)] xs])
    fix m1 assume "sims s1 m1 sw"
    then have "arrives ct as b' s1 (Some c) s2 m1 y"
      by (rule gen.branch_correctD [OF gen.stmt_correct [OF assms(1), of cur] st b' n1 g1 _ y])
    then show "arrives ct as b' s1 r s' m1 x"
      unfolding c by (rule does_after [OF _ point introduceValues_does [OF i] x [folded d2]])
  qed
qed

lemma meta_correct:
  "meta_ok (l_heap L) inner t \<Longrightarrow>
    gen.branch_correct cur (\<lambda>b s. codegenMeta (l_heap L) cx t b s) (exec_meta tell L (c_depth cur) t)"
proof (induction t arbitrary: inner cur rule: ast_children_induct)
  case (node t)
  show ?case
    unfolding gen.branch_correct_def
  proof (intro allI impI)
    fix b s r s' as m sw x
    assume t: "codegenMeta (l_heap L) cx t b s = Inr (r, s')" and b: "point_of s = Some b" "b < next_of s"
      and num: "numbered s" and good: "good_at cur (fc_context s)" and sim: "sims s m sw"
      and x: "exec_meta tell L (c_depth cur) t sw = Some x"
    show "arrives ct as b s r s' m x"
    proof (cases t rule: meta_node_cases)
      case (branch a c y f)
      from x branch obtain p sw1 where p: "eval_condition L c sw = Some (p, sw1)"
        by (auto split: option.splits)
      have x': "if_meaning p (exec_meta tell L (c_depth cur) y) (map_option (exec_meta tell L (c_depth cur)) f) sw1 = Some x"
        using x branch p by (cases f; cases p) (simp_all add: if_meaning_def)
      have ok: "\<not> place (l_heap L) c" "meta_ok (l_heap L) True y" "\<And>z. f = Some z \<Longrightarrow> meta_ok (l_heap L) True z"
        using node.prems branch by auto
      show ?thesis
      proof (rule gen.if_correct [OF _ b num good sim p ok(1) branch_gen_meta [OF ok(2)] _ _ x'])
        show "codegenIfStructure (l_heap L) (with_cursor (mc_ir cx)) b c (\<lambda>b s. codegenMeta (l_heap L) cx y b s)
            (map_option (\<lambda>g b s. codegenMeta (l_heap L) cx g b s) f) s = Inr (r, s')"
          using t branch by simp
        show "gen.branch_correct cur (\<lambda>b s. codegenMeta (l_heap L) cx y b s) (exec_meta tell L (c_depth cur) y)"
          using node.IH [OF _ ok(2)] branch by simp
        show "rel_option (\<lambda>g x. gen.branch_gen cur g \<and> gen.branch_correct cur g x)
            (map_option (\<lambda>g b s. codegenMeta (l_heap L) cx g b s) f) (map_option (exec_meta tell L (c_depth cur)) f)"
          using node.IH branch ok(3) branch_gen_meta by (cases f) auto
      qed
    next
      case (calculation a st ds)
      have "branches_ok (l_heap L) st" using node.prems calculation by simp
      then show ?thesis
        using calculation_correct [OF _ _ b num good sim, of st ds r s' a x] t x calculation by simp
    next
      case (contribution a rg cs)
      have "framed (codegenMeta (l_heap L) cx c) \<and> gen.keeps_good cur (codegenMeta (l_heap L) cx c)
          \<and> gen.branch_correct cur (codegenMeta (l_heap L) cx c) (exec_meta tell L (c_depth cur) c)" if "c \<in> set cs" for c
        using that node.IH [of c inner cur] node.prems contribution framed_meta [of "l_heap L" cx c]
          good_meta [of cur "l_heap L" c] by (simp add: list_all_iff)
      then show ?thesis
        by (rule gen.seq_correct [OF _ _ b num good sim]) (use t x contribution in simp_all)
    next
      case plain
      have ok: "meta_ok (l_heap L) inner c" if "c \<in> set (children t)" for c
        using that node.prems meta_ok_plain [OF plain, of "l_heap L" inner] by (simp add: list_all_iff)
      from t [unfolded codegenMeta_plain [OF plain]] show ?thesis
      proof (rule around_does)
        fix s1 s2
        assume 1: "does s s1 (\<lambda>sw. Some (tell_to tell (JContribute (addr_of t)) sw))"
          and i: "gen_children (codegenMeta (l_heap L) cx) (children t) (Some b, s1) = Inr (r, s2)"
          and 2: "does s2 s' (\<lambda>sw. Some (close_node tell t sw))"
          and d: "c_depth (cursor_of s1) = depth_inside (getKind t) (c_depth (cursor_of s))"
        have cur: "cursor_of s = cur" "good (fst (fc_context s))" using good by (simp_all add: good_at_def)
        have g1: "good_at (cursor_of s1) (fc_context s1)" using doesD(2) [OF 1 cur(2)] by (simp add: good_at_def)
        have b1: "point_of s1 = Some b" "b < next_of s1" using doesD(1) [OF 1] b by (auto simp: straight_def)
        have n1: "numbered s1" by (rule numbered_grown [OF num straight_grown [OF doesD(1) [OF 1] b(1)] b(2)])
        have l: "left_at b s1 r s2" by (rule framed_seq [OF framed_meta i b1])
        obtain c where c: "r = Some c" using going_onD [OF going_on_meta t] by blast
        have p2: "point_of s2 = Some c" using left_atD(5) [OF l] c by simp
        from x obtain y where y: "exec_seq (exec_meta tell L (c_depth (cursor_of s1))) (children t)
            (tell_to tell (JContribute (addr_of t)) sw) = Some y"
          and xy: "case y of Continue sw \<Rightarrow> map_option Continue (Some (close_node tell t sw)) = Some x
            | Return k w \<Rightarrow> x = Return k w"
          unfolding exec_meta_plain [OF plain] d cur(1) by (auto split: option.splits outcome.splits)
        have gr: "grown b s1 s'"
          using left_atD(1) [OF l] straight_grown [OF doesD(1) [OF 2] p2] left_atD(6,7) [OF l c] doesD(1) [OF 2]
          by (auto simp: straight_def intro: grown_trans)
        show ?thesis
        proof (rule does_before [OF 1 b(1) sim refl gr])
          fix m1 assume sim1: "sims s1 m1 (tell_to tell (JContribute (addr_of t)) sw)"
          have "framed (codegenMeta (l_heap L) cx z) \<and> gen.keeps_good (cursor_of s1) (codegenMeta (l_heap L) cx z)
              \<and> gen.branch_correct (cursor_of s1) (codegenMeta (l_heap L) cx z)
                  (exec_meta tell L (c_depth (cursor_of s1)) z)" if "z \<in> set (children t)" for z
            using node.IH [OF that ok [OF that]] framed_meta [of "l_heap L" cx z]
              good_meta [of "cursor_of s1" "l_heap L" z] by simp
          then have "arrives ct as b s1 r s2 m1 y"
            by (rule gen.seq_correct [OF _ i b1 n1 g1 sim1 y])
          then show "arrives ct as b s1 r s' m1 x"
            unfolding c by (rule does_after [OF _ p2 2 xy])
        qed
      qed
    qed (use t in simp)
  qed
qed

section \<open>Meta functions\<close>

lemma meta_function_correct:
  assumes "codegenMetaFunction (l_heap L) cx node (mg_new (Suc (length ks)) c) = Inr s'" and "good c"
    and "meta_ok (l_heap L) False node" and "exec_meta_function tell L node ks w = Some (r, w')"
  shows "reaches (code_of s') ct (k # ks) (entry_config w) (Returned r w')"
proof -
  from assms(1) obtain a nm args t where node: "node = MetaDecl a nm args t"
    by (cases node) (auto simp: codegenMetaFunction_def)
  define n where "n = Suc (length ks)"
  define top where "top = \<lparr>c_depth = TopLevel, c_meta = InsideMetaDecl\<rparr>"
  define s0 where "s0 = enterValueScope (mg_new n c)"
  obtain b s1 where b: "newBlock ''entry'' s0 = (b, s1)" by fastforce
  have b0: "b = 0" "next_of s1 = 1" "code_of s1 = []" "fc_values s1 = [Map.empty]" "fc_context s1 = (c, top)"
    "arg_size (fc_builder s1) = n" "ir_blocks (fc_builder s0) = []" "arg_size (fc_builder s0) = n"
    using b by (auto simp: s0_def builder_simps mg_new_def fc_new_def ir_new_def top_def)
  have stack: "setUpStackFrame (children args) False True s0 = (if Suc (length (children args)) = n
      then bindE (foldE (frameArgument False) (zip (map VArg [1 ..< n]) (children args)) (insertAt 0 s1)) (\<lambda>s. Inr (0, s))
      else Inl (AssertFailed ''The given arguments must have the same count as the llvm::Function!''))"
    using b b0 by (simp add: setUpStackFrame_def createEntryBlock_def arg_size_insertAt)
  from assms(1) have "bindE (setUpStackFrame (children args) False True s0) (\<lambda>(b, s).
      bindE (introduceValues cx (meta_argument_addrs args) s) (\<lambda>s.
      bindE (codegenMeta (l_heap L) cx t b s) (\<lambda>(current, s).
      bindE (assertE (current \<noteq> None) ''Always expect a valid control flow here!'') (\<lambda>_.
      Inr (leaveValueScope (buildVoid RetVoid s)))))) = Inr s'"
    by (simp add: codegenMetaFunction_def node s0_def n_def meta_argument_addrs_def Let_def del: introduceValues_simps)
  then obtain b2 s2 where st: "setUpStackFrame (children args) False True s0 = Inr (b2, s2)"
    and rest: "bindE (introduceValues cx (meta_argument_addrs args) s2) (\<lambda>s.
      bindE (codegenMeta (l_heap L) cx t b2 s) (\<lambda>(current, s).
      bindE (assertE (current \<noteq> None) ''Always expect a valid control flow here!'') (\<lambda>_.
      Inr (leaveValueScope (buildVoid RetVoid s))))) = Inr s'"
    by (elim bindE_InrE) auto
  from st stack have len: "length (children args) = length ks" and b2: "b2 = 0"
    and frame: "foldE (frameArgument False) (zip (map VArg [1 ..< n]) (children args)) (insertAt 0 s1) = Inr s2"
    by (auto simp: bindE_eq_Inr n_def split: if_splits)
  from rest obtain s3 where i: "introduceValues cx (meta_argument_addrs args) s2 = Inr s3"
    and "bindE (codegenMeta (l_heap L) cx t b2 s3) (\<lambda>(current, s).
      bindE (assertE (current \<noteq> None) ''Always expect a valid control flow here!'') (\<lambda>_.
      Inr (leaveValueScope (buildVoid RetVoid s)))) = Inr s'"
    by (rule bindE_InrE)
  then obtain q s4 where t: "codegenMeta (l_heap L) cx t 0 s3 = Inr (Some q, s4)"
    and s': "s' = leaveValueScope (buildVoid RetVoid s4)"
    unfolding b2 by (auto simp: bindE_eq_Inr simp del: codegenMeta.simps)
  define m :: "'w machine" where "m = \<lparr>m_regs = Map.empty, m_mem = Map.empty, m_world = w\<rparr>"
  define sw where "sw = \<lparr>sw_vars = [argument_scope Map.empty (children args) ks], sw_world = w\<rparr>"
  have sim0: "sims (insertAt 0 s1) m \<lparr>sw_vars = [Map.empty], sw_world = w\<rparr>"
    using b0 by (simp add: sim_def slots_def live_def abs_vars_def abs_scope_def m_def fun_eq_iff)
  have drop1: "drop 1 (k # ks) = ks" by simp
  have n: "n = 1 + length (children args)" using len by (simp add: n_def)
  obtain m2 where m2: "runs ct (k # ks) 0 (insertAt 0 s1) s2 m m2" "sims s2 m2 sw"
    "point_of s2 = Some 0" "\<exists>xs. code_of s2 = code_of (insertAt 0 s1) @ map (Pair (Some 0)) xs"
    "next_of (insertAt 0 s1) \<le> next_of s2" "fc_context s2 = fc_context (insertAt 0 s1)"
    using gen.frame_arguments [OF frame [unfolded n] insertAt_simps(1) drop1 len [symmetric] sim0]
    unfolding sw_def by blast
  have lt: "0 < next_of s2" using m2(5) b0 by simp
  have num: "numbered s2" using m2(4) lt b0 by (auto simp: numbered_def)
  have cur: "cursor_of s2 = top" "good (fst (fc_context s2))" using m2(6) b0(5) assms(2) by simp_all
  from assms(4) node obtain sw3 x where sw3: "introduce_all tell TopLevel (meta_argument_addrs args) sw = Some sw3"
    and x: "exec_meta tell L TopLevel t sw3 = Some x"
    and rx: "(r, w') = (case x of Continue s \<Rightarrow> (None, sw_world s) | Return r w \<Rightarrow> (r, w))"
    by (auto simp: exec_meta_function_def sw_def split: option.splits outcome.splits)
  have top: "c_depth top = TopLevel" by (simp add: top_def)
  note D = introduceValues_does [OF i, unfolded cur(1) top]
  have p3: "point_of s3 = Some 0" "0 < next_of s3" using doesD(1) [OF D] m2(3) lt by (auto simp: straight_def)
  have n3: "numbered s3" by (rule numbered_grown [OF num straight_grown [OF doesD(1) [OF D] m2(3)] lt])
  have g3: "good_at top (fc_context s3)"
    using doesD(2) [OF D cur(2)] steady_introduceValues [OF i] cur(1) by (simp add: good_at_def steady_def)
  have ok: "meta_ok (l_heap L) False t" using assms(3) node by simp
  note l = framedD [OF framed_meta t p3]
  have arr: "arrives ct (k # ks) 0 s2 (Some q) s4 m2 x"
  proof (rule does_before [OF D m2(3,2) sw3 left_atD(1) [OF l]])
    fix m3 assume "sims s3 m3 sw3"
    then show "arrives ct (k # ks) 0 s3 (Some q) s4 m3 x"
      by (rule gen.branch_correctD [OF meta_correct [OF ok] t p3 n3 g3 _ x [folded top]])
  qed
  have point: "point_of s4 = Some q" using left_atD(5) [OF l] by simp
  have code: "code_of s' = code_of s4 @ [(Some q, next_of s4, RetVoid)]" using s' point by (simp add: builder_simps)
  have "\<exists>xs. code_of s' = code_of s2 @ xs"
    using grown_code [OF left_atD(1) [OF l]] doesD(1) [OF D] code by (auto simp: straight_def)
  then have start: "reaches (code_of s') ct (k # ks) (entry_config w) (At 0 (length (body (code_of s2) 0)) m2)"
    using m2(1) b0(3) unfolding runs_def entry_config_def m_def by auto
  show ?thesis
  proof (cases x)
    case (Return r1 w1)
    with arr rx code have "reaches (code_of s') ct (k # ks) (At 0 (length (body (code_of s2) 0)) m2) (Returned r w')"
      by (auto simp: arrives_def)
    with start show ?thesis by (rule reaches_trans)
  next
    case (Continue sw4)
    with arr obtain m4 where m4: "sims s4 m4 sw4" "\<And>cs. reaches (code_of s4 @ cs) ct (k # ks)
        (At 0 (length (body (code_of s2) 0)) m2) (At q (length (body (code_of s4) q)) m4)"
      by (auto simp: arrives_def)
    have "reaches (code_of s') ct (k # ks) (At q (length (body (code_of s4) q)) m4) (Returned None (m_world m4))"
      by (rule reaches_ret_void [where n = "next_of s4" and post = "[]"]) (simp add: code)
    moreover have "reaches (code_of s') ct (k # ks) (At 0 (length (body (code_of s2) 0)) m2)
        (At q (length (body (code_of s4) q)) m4)"
      using m4(2) by (simp add: code)
    moreover have "r = None" "w' = m_world m4" using rx Continue m4(1) by (simp_all add: sim_def)
    ultimately show ?thesis using start by (metis reaches_trans)
  qed
qed

end

section \<open>The executor\<close>

text \<open>Calls of the callbacks are told to the world; other calls are answered by their meaning.\<close>

definition meta_call_of :: "'w teller \<Rightarrow> 'w swy_call \<Rightarrow> 'w ir_call" where
  "meta_call_of tell call f vs mem w = (case vs of
     RContext # us \<Rightarrow>
       (if f = callback_contribute then
          (case us of [RNode a] \<Rightarrow> Some (RVoid, tell (JContribute a) w) | _ \<Rightarrow> None)
        else if f = callback_reduce then
          (case us of [] \<Rightarrow> Some (RVoid, tell JReduce w) | _ \<Rightarrow> None)
        else if f = callback_introduce then
          (case us of [RNode a, RSlot q, RInt d] \<Rightarrow>
             map_option (\<lambda>k. (RVoid, tell (JIntroduce a k d) w)) (mem q) | _ \<Rightarrow> None)
        else None)
   | _ \<Rightarrow> ir_call_of call f vs mem w)"

lemma callbacks_differ:
  "callback_contribute \<noteq> callback_reduce" "callback_contribute \<noteq> callback_introduce"
  "callback_reduce \<noteq> callback_introduce"
  by (simp_all add: callbacks_mangled)

interpretation executor_linked: meta_context "executor_context X (instantiate X n)" "same_trees S"
    "linkage_of X S call" "meta_call_of tell call" tell for X n S call tell
proof (rule meta_context.intro)
  show "linked_context (mc_ir (executor_context X (instantiate X n))) (same_trees S) (linkage_of X S call)
      (meta_call_of tell call)"
  proof (rule linked_context.intro)
    show "ir_context_laws (mc_ir (executor_context X (instantiate X n))) (same_trees S)
        (l_fname (linkage_of X S call)) (l_iname (linkage_of X S call))"
      using executor_laws.ir_context_laws_axioms by simp
    show "linked_context_axioms (linkage_of X S call) (meta_call_of tell call)"
    proof
      show "meta_call_of tell call f (map RInt ks) mem w = (case l_call (linkage_of X S call) f ks w of
          None \<Rightarrow> None
        | Some (r, w') \<Rightarrow> Some (case r of Some k \<Rightarrow> RInt k | None \<Rightarrow> RVoid, w'))" for f ks mem w
        by (cases ks) (simp_all add: meta_call_of_def ir_call_of_def)
    qed
  qed
  show "meta_context_axioms (executor_context X (instantiate X n)) (same_trees S) (meta_call_of tell call) tell"
  proof
    show "same_trees S c'" if "same_trees S c" and "mc_module (executor_context X (instantiate X n)) f c = Inr c'" for c f c'
      using that onShipment_trees [of f c c'] by (auto simp: executor_context_def intro: same_trees_trans)
  qed (use callbacks_differ in \<open>auto simp: meta_call_of_def\<close>)
qed

lemmas meta_function_runs = executor_linked.meta_function_correct [unfolded linkage_of_simps]

end
