(* ===== verification/Codegen_Refused.thy ===== *)
theory Codegen_Refused imports Meta_Correct "HOL-Library.Multiset" begin

text \<open>
  What keeps code from being generated: a name or an instantiation in it that the generator has no value
  for. One is a meta declaration that is used as a value. Another is an instantiation that the dependency
  analysis of a meta declaration leaves out: a condition or a calculation below a branch of a meta
  condition is generated like any other, but the instantiations in it are not instantiated before.
\<close>

section \<open>Roots below branches\<close>

fun nested_roots :: "ast \<Rightarrow> ast list" where
  "nested_roots t =
     (if getKind t = KindMetaCalculationStmt then []
      else if getKind t = KindMetaIfStmt then concat (map evaluated_roots (tl (children t)))
      else concat (map nested_roots (children t)))"

declare nested_roots.simps [simp del]

text \<open>The names and instantiations the code of a node refers to: not those inside another instantiation.\<close>

definition refers :: "ast \<Rightarrow> bool" where
  "refers t \<longleftrightarrow> is_instantiation t \<or> getKind t = KindDeclRefExpr"

fun referred :: "ast \<Rightarrow> ast list" where
  "referred t = (if refers t then [t] else concat (map referred (children t)))"

declare referred.simps [simp del]

lemma referred_child:
  "\<not> refers t \<Longrightarrow> set (referred t) = (\<Union>c \<in> set (children t). set (referred c))"
  by (simp add: referred.simps [of t])

lemma referred_node: "i \<in> set (referred t) \<Longrightarrow> i \<in> set (nodes t)"
proof (induction t rule: ast_children_induct)
  case (node t)
  then show ?case
    by (auto simp: referred.simps [of t] nodes_eq [of t] nodes_of_def split: if_splits)
qed

lemma addr_of_inst: "addr_of (MetaInstantiationExpr a rg d es) = a"
  by (simp only: addr_of_def obj_of.simps obj.sel)

text \<open>An evaluated root is one the analysis looks at or a nested one.\<close>

lemma mset_concat_map_add:
  "(\<And>c. c \<in> set cs \<Longrightarrow> mset (f c) = mset (g c) + mset (h c)) \<Longrightarrow>
   mset (concat (map f cs)) = mset (concat (map g cs)) + mset (concat (map h cs))"
  by (induction cs) auto

lemma evaluated_split:
  "mset (evaluated_roots t) = mset (case meta_part t of Some rs \<Rightarrow> rs | None \<Rightarrow> meta_roots t) + mset (nested_roots t)"
proof (induction t rule: ast_children_induct)
  case (node t)
  show ?case
  proof (cases "meta_part t")
    case None
    then show ?thesis
      using mset_concat_map_add [OF node.IH, of "children t"]
      by (simp add: meta_part_eq evaluated_roots.simps [of t] meta_roots.simps [of t] nested_roots.simps [of t]
          split: if_splits)
  next
    case (Some rs)
    then show ?thesis
      by (auto simp: meta_part_eq evaluated_roots.simps [of t] nested_roots.simps [of t] split: if_splits)
  qed
qed

lemma nested_evaluated: "set (nested_roots t) \<subseteq> set (evaluated_roots t)"
  using evaluated_split [of t] by (metis mset_subset_eq_add_right set_mset_mono set_mset_mset)

text \<open>Evaluated roots are different parts of the tree.\<close>

lemma mset_concat_map_mono:
  "(\<And>c. c \<in> set cs \<Longrightarrow> mset (f c) \<subseteq># mset (g c)) \<Longrightarrow> mset (concat (map f cs)) \<subseteq># mset (concat (map g cs))"
  by (induction cs) (auto intro: subset_mset.add_mono)

lemma nodes_concat: "nodes t = t # concat (map nodes (children t))"
proof -
  have "nodes_of ts = concat (map nodes ts)" for ts by (induction ts) simp_all
  then show ?thesis by (simp add: nodes_eq [of t])
qed

lemma evaluated_nodes: "mset (concat (map nodes (evaluated_roots t))) \<subseteq># mset (nodes t)"
proof (induction t rule: ast_children_induct)
  case (node t)
  have concat: "concat (map nodes (concat (map f cs))) = concat (map (\<lambda>c. concat (map nodes (f c))) cs)"
    for f :: "ast \<Rightarrow> ast list" and cs by (induction cs) simp_all
  have below: "mset (concat (map nodes (concat (map evaluated_roots cs)))) \<subseteq># mset (concat (map nodes cs))"
    if "set cs \<subseteq> set (children t)" for cs
    unfolding concat using that by (intro mset_concat_map_mono node.IH) auto
  consider (calculation) "getKind t = KindMetaCalculationStmt" | (branch) "getKind t = KindMetaIfStmt"
    | (other) "getKind t \<noteq> KindMetaCalculationStmt" "getKind t \<noteq> KindMetaIfStmt" by blast
  then show ?case
  proof cases
    case branch
    then obtain c cs where cs: "children t = c # cs" by (cases t) auto
    have "mset (nodes c) + mset (concat (map nodes (concat (map evaluated_roots cs))))
        \<subseteq># mset (nodes c) + mset (concat (map nodes cs))"
      by (intro subset_mset.add_left_mono below) (auto simp: cs)
    also have "\<dots> \<subseteq># mset (nodes t)" by (simp add: nodes_concat [of t] cs)
    finally show ?thesis using branch by (simp add: evaluated_roots.simps [of t] cs)
  next
    case other
    have "mset (concat (map nodes (concat (map evaluated_roots (children t))))) \<subseteq># mset (nodes t)"
      using below [of "children t"] by (auto simp: nodes_concat [of t] intro: subset_mset.order_trans)
    with other show ?thesis by (simp add: evaluated_roots.simps [of t])
  qed (simp add: evaluated_roots.simps [of t])
qed

lemma nested_not_consumed:
  assumes "distinct (map addr_of (nodes t))" and "meta_part t = None"
    and "r \<in> set (nested_roots t)" and "i \<in> set (nodes r)"
  shows "i \<notin> set (meta_instantiations t)"
proof
  assume "i \<in> set (meta_instantiations t)"
  then obtain q where q: "q \<in> set (meta_roots t)" "i \<in> set (nodes q)"
    by (auto simp: meta_instantiations_def instantiations_def)
  let ?all = "concat (map nodes (meta_roots t)) @ concat (map nodes (nested_roots t))"
  have split: "mset (evaluated_roots t) = mset (meta_roots t) + mset (nested_roots t)"
    using evaluated_split [of t] assms(2) by simp
  have "mset (concat (map nodes xs)) = (\<Sum>x \<in># mset xs. mset (nodes x))" for xs by (induction xs) simp_all
  then have "mset ?all = mset (concat (map nodes (evaluated_roots t)))" by (simp add: split)
  with evaluated_nodes [of t] have "mset ?all \<subseteq># mset (nodes t)" by simp
  moreover have "distinct (nodes t)" using assms(1) by (simp add: distinct_map)
  ultimately have "count (mset ?all) i \<le> 1"
    by (metis distinct_count_atmost_1 le_trans mset_subset_eq_count order_refl zero_le)
  moreover have "1 \<le> count (mset (concat (map nodes (meta_roots t)))) i"
    "1 \<le> count (mset (concat (map nodes (nested_roots t)))) i"
    using q assms(3,4) by (auto simp: Suc_le_eq count_greater_zero_iff)
  ultimately show False by simp
qed

section \<open>What the generator asks for\<close>

text \<open>If the generator has no value for a name or an instantiation, nothing that refers to it is generated.\<close>

context ir_context_laws
begin

definition refuses :: "heap \<Rightarrow> ast \<Rightarrow> bool" where
  "refuses h i \<longleftrightarrow> (\<forall>s v s'. good_state s \<longrightarrow> codegenExpr h cx i s \<noteq> Inr (v, s'))"

definition never :: "'c supplier \<Rightarrow> bool" where
  "never f \<longleftrightarrow> (\<forall>b s r s'. good_state s \<longrightarrow> f b s \<noteq> Inr (r, s'))"

lemma expr_refused:
  assumes "refuses h i"
  shows "i \<in> set (referred t) \<Longrightarrow> good_state s \<Longrightarrow> codegenExpr h cx t s \<noteq> Inr (v, s')"
proof (induction t arbitrary: s v s' rule: ast_children_induct)
  case (node t)
  show ?case
  proof
    assume g: "codegenExpr h cx t s = Inr (v, s')"
    show False
    proof (cases "refers t")
      case True
      then have "i = t" using node.prems(1) by (simp add: referred.simps [of t])
      with g assms node.prems(2) show False unfolding refuses_def by blast
    next
      case False
      with node.prems(1) obtain x where x: "x \<in> set (children t)" "i \<in> set (referred x)"
        by (auto simp: referred_child)
      note IH = node.IH [OF x(1) x(2)]
      show False
      proof (cases t)
        case (BinaryOperatorExpr a b l r)
        with g obtain y s1 z s2 where "codegenExpr h cx l s = Inr (y, s1)" "codegenExpr h cx r s1 = Inr (z, s2)"
          by (auto simp: bindE_eq_Inr)
        with IH x BinaryOperatorExpr node.prems(2) good_expr show False by auto
      next
        case (CallOperatorExpr a c es)
        with g obtain y s1 args s2 where c: "codegenExpr h cx c s = Inr (y, s1)"
          and es: "mapS (\<lambda>e s. bindE (codegenExpr h cx e s) (\<lambda>(v, s). Inr (loadMemory v s))) es s1 = Inr (args, s2)"
          by (auto simp: bindE_eq_Inr)
        have s1: "good_state s1" using good_expr [OF c node.prems(2)] .
        have "mapS (\<lambda>e s. bindE (codegenExpr h cx e s) (\<lambda>(v, s). Inr (loadMemory v s))) fs u \<noteq> Inr (ws, u')"
          if "x \<in> set fs" "good_state u" for fs u ws u'
          using that
        proof (induction fs arbitrary: u ws)
          case (Cons f fs)
          show ?case
          proof
            assume m: "mapS (\<lambda>e s. bindE (codegenExpr h cx e s) (\<lambda>(v, s). Inr (loadMemory v s))) (f # fs) u = Inr (ws, u')"
            then obtain w u1 w1 u2 ws' where f: "codegenExpr h cx f u = Inr (w, u1)" "loadMemory w u1 = (w1, u2)"
              and fs: "mapS (\<lambda>e s. bindE (codegenExpr h cx e s) (\<lambda>(v, s). Inr (loadMemory v s))) fs u2 = Inr (ws', u')"
              by (auto simp: bindE_eq_Inr)
            have "good_state u2" using good_expr [OF f(1) Cons.prems(2)] context_build(3) [OF f(2)] by simp
            with fs Cons.IH have "x \<noteq> f \<Longrightarrow> False" using Cons.prems(1) by auto
            with f(1) IH Cons.prems(2) show False by blast
          qed
        qed simp
        with es s1 c IH x CallOperatorExpr node.prems(2) show False by auto
      qed (use g x False in \<open>auto simp: refers_def is_instantiation_def\<close>)
    qed
  qed
qed

lemma never_if:
  assumes "never f \<or> (\<exists>g'. g = Some g' \<and> never g') \<or> i \<in> set (referred c) \<and> refuses h i"
    and "keeps_good f" and "\<And>g'. g = Some g' \<Longrightarrow> keeps_good g'"
  shows "never (\<lambda>b s. codegenIfStructure h cx b c f g s)"
  unfolding never_def
proof (intro allI impI notI)
  fix b s r s'
  assume s: "good_state s" and "codegenIfStructure h cx b c f g s = Inr (r, s')"
  from this(2) obtain tb s1 rt s2 k1 s3 fb k2 s4 v s5 p s6
    where 1: "newBlock ''true_block'' s = (tb, s1)" "f tb (insertAt tb s1) = Inr (rt, s2)"
      "closeBranch rt None s2 = (k1, s3)" and 2: "codegenFalseBranch g k1 s3 = Inr (fb, k2, s4)"
      and 3: "codegenExpr h cx c (insertAt b s4) = Inr (v, s5)"
    by (rule codegenIfStructureE)
  have s1: "good_state (insertAt tb s1)" using s newBlock_simps(6) [OF 1(1)] by simp
  then have s2: "good_state s2" using assms(2) 1(2) unfolding keeps_good_def by blast
  then have s3: "good_state s3" using context_closeBranch [OF 1(3)] by simp
  have s4: "good_state (insertAt b s4)" using good_falseBranch [OF 2 assms(3) s3] by simp
  from assms(1) consider "never f" | g' where "g = Some g'" "never g'"
    | "i \<in> set (referred c)" "refuses h i" by blast
  then show False
  proof cases
    case 1
    with s1 \<open>f tb (insertAt tb s1) = Inr (rt, s2)\<close> show False unfolding never_def by blast
  next
    case (2 g')
    define made where "made = (case k1 of Some p \<Rightarrow> newBlockBefore p ''false_block'' s3 | None \<Rightarrow> newBlock ''false_block'' s3)"
    obtain b' t where b': "made = (b', t)" by fastforce
    have "good_state (insertAt b' t)" using b' s3 by (auto simp: made_def builder_simps split: option.splits)
    moreover obtain r' t' where "g' b' (insertAt b' t) = Inr (r', t')"
      using \<open>codegenFalseBranch g k1 s3 = Inr (fb, k2, s4)\<close> 2(1) b'
      by (auto simp: codegenFalseBranch_def made_def [symmetric] bindE_eq_Inr split: prod.splits)
    ultimately show False using 2(2) unfolding never_def by blast
  next
    case 3
    with expr_refused s4 \<open>codegenExpr h cx c (insertAt b s4) = Inr (v, s5)\<close> show False by blast
  qed
qed

lemma never_seq:
  assumes "\<And>c. c \<in> set cs \<Longrightarrow> keeps_good (F c)" and "x \<in> set cs" and "never (F x)" and "good_state s"
  shows "foldE (\<lambda>c (current, s). case current of None \<Rightarrow> Inl NullDeref | Some b \<Rightarrow> F c b s) cs (q, s) \<noteq> Inr (r, s')"
  using assms
proof (induction cs arbitrary: q s)
  case (Cons c cs)
  show ?case
  proof
    assume "foldE (\<lambda>c (current, s). case current of None \<Rightarrow> Inl NullDeref | Some b \<Rightarrow> F c b s) (c # cs) (q, s) = Inr (r, s')"
    then obtain b q1 s1 where c: "F c b s = Inr (q1, s1)"
      and cs: "foldE (\<lambda>c (current, s). case current of None \<Rightarrow> Inl NullDeref | Some b \<Rightarrow> F c b s) cs (q1, s1) = Inr (r, s')"
      by (auto simp: bindE_eq_Inr split: option.splits)
    have "keeps_good (F c)" using Cons.prems(1) by simp
    with c Cons.prems(4) have s1: "good_state s1" unfolding keeps_good_def by blast
    show False
    proof (cases "x = c")
      case True
      with c Cons.prems(3,4) show False unfolding never_def by blast
    next
      case False
      then show False using Cons.IH [OF Cons.prems(1) _ Cons.prems(3) s1] cs Cons.prems(2) by auto
    qed
  qed
qed simp

lemma stmt_refused:
  assumes i: "refuses h i"
  shows "i \<in> set (referred t) \<Longrightarrow> never (\<lambda>b s. codegenStmt h cx t b s)"
proof (induction t rule: ast_children_induct)
  case (node t)
  have expr: "codegenExpr h cx e s \<noteq> Inr (v, s')" if "i \<in> set (referred e)" "good_state s" for e s v s'
    by (rule expr_refused [OF i that])
  show ?case
  proof (cases "refers t")
    case True
    then show ?thesis by (cases t) (simp_all add: refers_def is_instantiation_def never_def)
  next
    case False
    with node.prems obtain x where x: "x \<in> set (children t)" "i \<in> set (referred x)"
      by (auto simp: referred_child)
    note IH = node.IH [OF x]
    show ?thesis
    proof (cases t)
      case (CompoundStmt a cs)
      have "codegenStmt h cx t b s \<noteq> Inr (r, s')" if "good_state s" for b s r s'
      proof
        assume "codegenStmt h cx t b s = Inr (r, s')"
        with CompoundStmt obtain u where "foldE (\<lambda>c (current, s). case current of None \<Rightarrow> Inl NullDeref
            | Some b \<Rightarrow> codegenStmt h cx c b s) cs (Some b, enterValueScope s) = Inr (r, u)"
          by (auto simp: bindE_eq_Inr)
        then show False
          using never_seq [of cs "codegenStmt h cx" x "enterValueScope s" "Some b" r u] good_stmt IH x CompoundStmt that
          by simp
      qed
      then show ?thesis unfolding never_def by blast
    next
      case (UnscopedCompoundStmt a cs)
      then show ?thesis
        using never_seq [of cs "codegenStmt h cx" x] good_stmt IH x unfolding never_def by simp
    next
      case (ReturnStmt a e)
      with x obtain y where "e = Some y" "x = y" by (cases e) auto
      with ReturnStmt x show ?thesis
        unfolding never_def by (auto elim!: codegenStmt_returnE simp del: codegenStmt.simps dest: expr)
    next
      case (ExpressionStmt a e)
      with x show ?thesis unfolding never_def by (auto simp: bindE_eq_Inr dest: expr)
    next
      case (DeclStmt a n e)
      with x show ?thesis
        unfolding never_def by (auto elim!: codegenStmt_declE simp del: codegenStmt.simps dest: expr)
    next
      case (IfStmt a c t1 f1)
      have "never (\<lambda>b s. codegenIfStructure h cx b c (\<lambda>b s. codegenStmt h cx t1 b s)
          (map_option (\<lambda>g b s. codegenStmt h cx g b s) f1) s)"
      proof (rule never_if)
        show "never (\<lambda>b s. codegenStmt h cx t1 b s)
            \<or> (\<exists>g'. map_option (\<lambda>g b s. codegenStmt h cx g b s) f1 = Some g' \<and> never g')
            \<or> i \<in> set (referred c) \<and> refuses h i"
          using IH x IfStmt i by (cases f1) auto
      qed (use good_stmt in auto)
      with IfStmt show ?thesis by simp
    qed (use False in \<open>simp_all add: never_def refers_def is_instantiation_def\<close>)
  qed
qed

lemma function_refused:
  assumes "refuses h i" and "i \<in> set (referred t)" and "good_state s"
  shows "codegenFunction h cx (FunctionDecl a n args ret t) s \<noteq> Inr s'"
proof
  assume "codegenFunction h cx (FunctionDecl a n args ret t) s = Inr s'"
  then obtain b s1 r s2 where "setUpStackFrame (children args) False False (enterValueScope s) = Inr (b, s1)"
    and t: "codegenStmt h cx t b s1 = Inr (r, s2)"
    by (auto simp: codegenFunction_def Let_def bindE_eq_Inr)
  then have "good_state s1" using good_frame assms(3) by simp
  with stmt_refused [OF assms(1,2)] t show False unfolding never_def by blast
qed

end

section \<open>Meta declarations\<close>

context meta_context
begin

lemma meta_refused:
  assumes i: "\<And>cur. gen.refuses cur h i" and call: "i \<in> set (referred r)"
  shows "r \<in> set (evaluated_roots t) \<Longrightarrow> gen.never cur (\<lambda>b s. codegenMeta h cx t b s)"
proof (induction t arbitrary: cur rule: ast_children_induct)
  case (node t)
  show ?case
  proof (cases t rule: meta_node_cases)
    case decl
    then show ?thesis by (simp add: gen.never_def)
  next
    case (branch a c x f)
    have "gen.never cur (\<lambda>b s. codegenIfStructure h (with_cursor (mc_ir cx)) b c (\<lambda>b s. codegenMeta h cx x b s)
        (map_option (\<lambda>g b s. codegenMeta h cx g b s) f) s)"
    proof (rule gen.never_if)
      have "r = c \<or> r \<in> set (evaluated_roots x) \<or> (\<exists>g. f = Some g \<and> r \<in> set (evaluated_roots g))"
        using node.prems unfolding evaluated_roots.simps [of t] using branch by (cases f) auto
      then show "gen.never cur (\<lambda>b s. codegenMeta h cx x b s)
          \<or> (\<exists>g'. map_option (\<lambda>g b s. codegenMeta h cx g b s) f = Some g' \<and> gen.never cur g')
          \<or> i \<in> set (referred c) \<and> gen.refuses cur h i"
        using node.IH branch i call by auto
    qed (use good_meta in auto)
    with branch show ?thesis by simp
  next
    case (calculation a st ds)
    have "r = t" using node.prems unfolding evaluated_roots.simps [of t] using calculation by simp
    then have "i \<in> set (referred t)" using call by simp
    then have st: "i \<in> set (referred st)"
      unfolding referred.simps [of t] using calculation by (simp add: refers_def is_instantiation_def)
    show ?thesis
      unfolding gen.never_def
    proof (intro allI impI notI)
      fix b s q s'
      assume good: "good_at cur (fc_context s)" and "codegenMeta h cx t b s = Inr (q, s')"
      then obtain b' s1 c s2 where r: "createRegionAfter b ''meta_calculation'' s = (b', s1)"
        and g: "codegenStmt h (with_cursor (mc_ir cx)) st b' s1 = Inr (Some c, s2)"
        using calculation by (auto elim: codegenCalculationE)
      have "fc_context s1 = fc_context s" using r by (auto simp: createRegionAfter_def builder_simps moveAfter_def Let_def)
      with gen.stmt_refused [OF i st] g good show False unfolding gen.never_def by metis
    qed
  next
    case (contribution a rg cs)
    obtain x where x: "x \<in> set cs" "r \<in> set (evaluated_roots x)"
      using node.prems unfolding evaluated_roots.simps [of t] using contribution by auto
    with contribution node.IH [of x cur] show ?thesis
      using gen.never_seq [of cs cur "codegenMeta h cx" x] good_meta unfolding gen.never_def by simp
  next
    case plain
    then obtain x where x: "x \<in> set (children t)" "r \<in> set (evaluated_roots x)"
      using node.prems by (auto simp: evaluated_roots.simps [of t] meta_node_def)
    show ?thesis
      unfolding gen.never_def
    proof (intro allI impI notI)
      fix b s q s'
      assume good: "good_at cur (fc_context s)" and "codegenMeta h cx t b s = Inr (q, s')"
      from this(2) [unfolded codegenMeta_plain [OF plain]]
      show False
      proof (rule around_does)
        fix s1 s2
        assume 1: "does s s1 (\<lambda>sw. Some (tell_to tell (JContribute (addr_of t)) sw))"
          and j: "gen_children (codegenMeta h cx) (children t) (Some b, s1) = Inr (q, s2)"
        have "good_at (cursor_of s1) (fc_context s1)" using doesD(2) [OF 1] good by (simp add: good_at_def)
        with gen.never_seq [of "children t" "cursor_of s1" "codegenMeta h cx" x s1 "Some b" q s2]
          good_meta node.IH [OF x] x(1) j show False by blast
      qed
    qed
  qed
qed

lemma gen_refuses:
  assumes "\<And>c v c'. good c \<Longrightarrow> lookupGlobal_inst (mc_ir cx) (addr_of i) True c \<noteq> Inr (Some v, c')"
    and "is_instantiation i"
  shows "gen.refuses cur h i"
proof -
  obtain a rg d es where i: "i = MetaInstantiationExpr a rg d es"
    using assms(2) by (cases i) (auto simp: is_instantiation_def)
  show ?thesis
    using assms(1) unfolding gen.refuses_def i addr_of_inst
    by (auto simp: with_cursor_def good_at_def bindE_eq_Inr split: option.splits prod.splits)
qed

lemma meta_function_refused:
  assumes refused: "\<And>c v c'. good c \<Longrightarrow> lookupGlobal_inst (mc_ir cx) (addr_of i) True c \<noteq> Inr (Some v, c')"
    and inst: "is_instantiation i" and call: "i \<in> set (referred r)" and r: "r \<in> set (evaluated_roots c)" and good: "good g"
  shows "codegenMetaFunction h cx (MetaDecl a n args c) (mg_new k g) \<noteq> Inr s'"
proof
  let ?top = "\<lparr>c_depth = TopLevel, c_meta = InsideMetaDecl\<rparr>"
  assume "codegenMetaFunction h cx (MetaDecl a n args c) (mg_new k g) = Inr s'"
  then obtain b s1 s2 q s3 where
    frame: "setUpStackFrame (children args) False True (enterValueScope (mg_new k g)) = Inr (b, s1)"
    and v: "introduceValues cx (map addr_of (filter (\<lambda>x. getKind x = KindNamedArgumentDecl) (children args))) s1 = Inr s2"
    and t: "codegenMeta h cx c b s2 = Inr (q, s3)"
    by (auto simp: codegenMetaFunction_def Let_def bindE_eq_Inr simp del: codegenMeta.simps)
  have "good_at ?top (fc_context (enterValueScope (mg_new k g)))" using good by (simp add: good_at_def mg_new_def fc_new_def)
  then have s1: "good_at ?top (fc_context s1)" by (rule gen.good_frame [OF frame])
  then have "good_at ?top (fc_context s2)"
    using doesD(2) [OF introduceValues_does [OF v]] steady_introduceValues [OF v] by (simp add: good_at_def steady_def)
  with meta_refused [OF gen_refuses [OF refused inst] call r, of ?top] t show False unfolding gen.never_def by blast
qed

end

text \<open>A function that uses a meta declaration as a value is not generated.\<close>

lemma meta_value_refused:
  assumes "h k = Some (MetaDecl m dn ps c)" and "DeclRefExpr r i (Some k) \<in> set (referred t)"
  shows "codegenFunction h (instance_context X (instantiate X j)) (FunctionDecl a n args ret t) s \<noteq> Inr s'"
proof (rule instance_laws.function_refused [OF _ assms(2) same_trees_refl])
  show "instance_laws.refuses X j (fc_context s) h (DeclRefExpr r i (Some k))"
    unfolding instance_laws.refuses_def
    by (simp add: codegenDeclRef_def assms(1) isFunctionDecl_def isVarDecl_def)
qed

text \<open>
  The executor: an instantiation that is not completed when a meta function that refers to it is
  generated violates an assertion, so that the function is not generated.
\<close>

lemma instance_incomplete:
  assumes "cp_instances c a = None"
  shows "executor_lookup_inst X (instantiate X n) a True c \<noteq> Inr (Some v, c')"
  using assms
  by (cases n) (auto simp: executor_lookup_inst_def instance_lookup_inst_def instance_instantiate_def
      instantiate.simps instantiateWith_def bindE_eq_Inr)

lemma executor_refused:
  assumes "i \<in> set (referred r)" and "r \<in> set (evaluated_roots c)" and "is_instantiation i" and "cp_instances S (addr_of i) = None"
  shows "codegenMetaFunction h (executor_context X (instantiate X n)) (MetaDecl a m args c) (mg_new k S) \<noteq> Inr s'"
proof -
  have "lookupGlobal_inst (mc_ir (executor_context X (instantiate X n))) (addr_of i) True d \<noteq> Inr (Some v, d')"
    if "same_trees S d" for d v d'
    using that assms(4) instance_incomplete [of d "addr_of i" X n v d'] by (simp add: executor_context_def same_trees_def)
  from executor_linked.meta_function_refused [OF this assms(3,1,2) same_trees_refl] show ?thesis by blast
qed

end
