(* ===== verification/Samples_Meta.thy ===== *)
theory Samples_Meta imports Samples_Codegen Codegen_Refused begin

text \<open>
  A small concrete meta declaration and the code it is compiled to.
\<close>

text \<open>\<^verbatim>\<open>g<n> -> { meta if n == 7 { meta { n = 8 } f() -> { } } }\<close>\<close>

definition sample_parameter :: ast where
  "sample_parameter = NamedArgumentDecl 92 (named ''n'')"

definition sample_inner :: ast where
  "sample_inner = FunctionDecl 97 (named ''f'') (ArgumentDeclList 98 []) None (CompoundStmt 99 [])"

definition sample_test :: ast where
  "sample_test = BinaryOperatorExpr 94 (Annotated OperatorEqual \<lparr>getStart = 0, getEnd = 1\<rparr>)
     (DeclRefExpr 95 (named ''n'') (Some 92)) (int_literal 96 7)"

definition sample_assignment :: ast where
  "sample_assignment = MetaCalculationStmt 102 (UnscopedCompoundStmt 103 [ExpressionStmt 104
     (BinaryOperatorExpr 105 (Annotated OperatorAssign \<lparr>getStart = 0, getEnd = 1\<rparr>)
       (DeclRefExpr 106 (named ''n'') (Some 92)) (int_literal 107 8))]) []"

definition sample_meta :: ast where
  "sample_meta = MetaDecl 90 (named ''g'') (ArgumentDeclList 91 [sample_parameter])
     (MetaContribution 93 \<lparr>getStart = 0, getEnd = 1\<rparr> [MetaIfStmt 100 sample_test
        (MetaContribution 101 \<lparr>getStart = 0, getEnd = 1\<rparr> [sample_assignment, sample_inner]) None])"

definition sample_compiler :: compiler where
  "sample_compiler = sample_pair\<lparr>cp_heap := [92 \<mapsto> sample_parameter]\<rparr>"

lemmas sample_declaration_defs = sample_meta_def sample_parameter_def sample_inner_def sample_test_def
  sample_assignment_def int_literal_def

lemma sample_declaration_ok: "meta_ok (cp_heap sample_compiler) False sample_meta"
  by (simp add: sample_declaration_defs sample_compiler_def sample_pair_def branches_ok_def branch_ok_def nodes_eq)

definition recording :: "jit_call list teller" where
  "recording j js = js @ [j]"

lemma sample_meta_meaning:
  "exec_meta_function recording (linkage_of X sample_compiler call) sample_meta [k] [] =
     Some (None, if k = 7
       then [JIntroduce 92 k 0, JContribute 97, JContribute 98, JReduce, JContribute 99, JReduce, JReduce]
       else [JIntroduce 92 k 0])"
  by (simp add: sample_declaration_defs sample_compiler_def exec_meta_function_def meta_argument_addrs_def argument_scope_def
      tell_to_def recording_def depth_argument_def eval_condition_def eval_ref_def eval_operator_def
      read_value_def run_operator_def depth_inside_def close_node_def isNodeRequiringReduceMarker_def kind_pred_defs addr_of_simps)


text \<open>\<^verbatim>\<open>g<> -> { meta if f<> { meta { h<> } } }\<close>\<close>

definition sample_nested :: ast where
  "sample_nested = MetaDecl 29 (named ''g'') (ArgumentDeclList 28 []) (sample_meta_if [sample_calculation])"

lemma sample_nested_facts:
  "distinct (map addr_of (nodes sample_nested))"
  "sample_calculation \<in> set (nested_roots (sample_meta_if [sample_calculation]))"
  "sample_instantiation 37 ''h'' \<in> set (referred sample_calculation)"
  "is_instantiation (sample_instantiation 37 ''h'')"
proof -
  show "distinct (map addr_of (nodes sample_nested))"
    unfolding sample_nested_def sample_dependency_defs by (simp add: nodes_eq addr_of_simps)
  show "sample_calculation \<in> set (nested_roots (sample_meta_if [sample_calculation]))"
    unfolding sample_dependency_defs by (simp add: nested_roots.simps evaluated_roots.simps)
  show "sample_instantiation 37 ''h'' \<in> set (referred sample_calculation)"
    unfolding sample_dependency_defs by (simp add: referred.simps refers_def is_instantiation_def)
  show "is_instantiation (sample_instantiation 37 ''h'')"
    by (simp add: sample_instantiation_def is_instantiation_def)
qed

text \<open>Evaluation from left to right: what follows a computation is left alone until its result is there.\<close>

lemma bindE_weak: "m = m' \<Longrightarrow> bindE m f = bindE m' f"
  by simp

lemma contributeAround_weak: "s = s' \<Longrightarrow> contributeAround cx t f b s = contributeAround cx t f b s'"
  by simp

lemma codegenIfStructure_weak: "s = s' \<Longrightarrow> codegenIfStructure h cx b c f g s = codegenIfStructure h cx b c f g s'"
  by simp

lemmas meta_codegen_defs = mg_new_def codegenMetaFunction_def fc_new_def frameArgument_def introduceValue_def
  createIntroduceNode_def declareCallback_def executor_context_def onShipment_def shipment_def
  createIntroduceCallbackPrototype_def createReduceCallbackPrototype_def createContributeCallbackPrototype_def
  getOrInsertFunction_def getContextArgument_def getPointerToNode_def contributeAround_def createContributeNode_def
  createReduceNode_def moveCursor_def cursor_defs
  codegenCalculation_def createRegionAfter_def moveAfter_def

lemma sample_compiler_simps:
  "cp_heap sample_compiler = [92 \<mapsto> sample_parameter]" "cp_shipment sample_compiler = None"
  by (simp_all add: sample_compiler_def sample_pair_def)

lemma sample_meta_generated:
  "\<exists>t. codegenMetaFunction (cp_heap sample_compiler) (executor_context X inst) sample_meta (mg_new (Suc (Suc 0)) sample_compiler) = Inr t"
  by (simp add: sample_declaration_defs sample_compiler_simps meta_codegen_defs function_codegen_defs
      codegenIfStructure_def closeBranch_def codegenFalseBranch_def lazyContinue_def isVarDecl_def lookupLocal_def load_def
      isFunctionDecl_def isNodeRequiringReduceMarker_def kind_pred_defs
      codegenOperator_def isArithmetic_def isComparison_def callbacks_differ callbacks_differ [symmetric]
      prototype_def addr_of_simps del: context_buildInstr(1) instance_laws.context_build(1,3)
      cong: bindE_weak contributeAround_weak codegenIfStructure_weak)

end
