(* ===== verification/Reader_Layout.thy ===== *)
theory Reader_Layout imports Reader_Inverse Reader_Progress begin

text \<open>
  Reading gives a tree with the layout that was read, for any layout, well formed or not, whose reading
  returns: what is consumed is, element by element, the layout of the tree that is returned.
\<close>

section \<open>What the parts of a method consume\<close>

definition lays :: "ast consumer \<Rightarrow> bool" where
  "lays one \<longleftrightarrow> (\<forall>s t s'. one s = Inr (t, s') \<longrightarrow> remaining s = flatten t @ remaining s')"

lemma laysI: "(\<And>s t s'. one s = Inr (t, s') \<Longrightarrow> remaining s = flatten t @ remaining s') \<Longrightarrow> lays one"
  by (simp add: lays_def)

lemma laysD: "lays one \<Longrightarrow> one s = Inr (t, s') \<Longrightarrow> remaining s = flatten t @ remaining s'"
  by (simp add: lays_def)

lemma peek_Inr: "peek s = Inr x \<Longrightarrow> \<exists>xs. remaining s = x # xs"
  by (simp add: peek_remaining split: list.splits)

lemma shift_Inr:
  assumes "shift s = Inr (x, s')"
  shows "remaining s = x # remaining s'"
proof -
  from assms obtain xs where xs: "remaining s = x # xs"
    unfolding shift_def by (elim bindE_InrE) (auto dest!: peek_Inr)
  from shift_remaining [OF xs] assms xs show ?thesis by simp
qed

lemma shiftAs_Inr:
  "shiftAs P s = Inr (n, s') \<Longrightarrow> remaining s = Some n # remaining s' \<and> P (obj_kind n)"
  by (auto simp: shiftAs_def shiftNode_def bindE_eq_Inr dest!: shift_Inr split: option.splits if_splits)

lemma leaveShift_Inr:
  "leaveShift n s = Inr s' \<Longrightarrow>
   remaining s = (if isRequiringReduceMarker (obj_kind n) then [None] else []) @ remaining s'"
proof (cases "isRequiringReduceMarker (obj_kind n)")
  case True
  assume "leaveShift n s = Inr s'"
  with True obtain x where "shouldReduce s = Inr True" "shift s = Inr (x, s')"
    by (auto simp: leaveShift_def isNodeRequiringReduceMarker_def reduce_def bindE_eq_Inr)
  moreover from this have "x = None"
    by (auto simp: shouldReduce_def shift_def bindE_eq_Inr)
  ultimately show ?thesis using True by (auto dest: shift_Inr)
qed (simp add: leaveShift_def isNodeRequiringReduceMarker_def)

text \<open>Scopes, modes, declarations and diagnostics leave what is to be read alone.\<close>

lemma introduce_keeps: "introduce p d s = Inr s' \<Longrightarrow> remaining s' = remaining s"
  by (auto simp: introduce_def insertDecl_def rejectDecl_def report_def bindE_eq_Inr split: if_splits option.splits)

lemma lookup_keeps: "lookup p i s = Inr (d, s') \<Longrightarrow> remaining s' = remaining s"
  by (auto simp: lookup_def report_def bindE_eq_Inr split: option.splits)

lemma introduceScope_keeps:
  assumes "introduceScope p parent s = Inr s'"
  shows "remaining s' = remaining s"
proof -
  have visit: "remaining t' = remaining t" if "introduceScope_visit p parent child t = Inr t'" for child t t'
    using that by (auto simp: introduceScope_visit_def Let_def bindE_eq_Inr dest!: introduce_keeps
        split: if_splits payload.splits option.splits)
  from assms obtain ns where "foldE (introduceScope_visit p parent) ns s = Inr s'"
    by (auto simp: introduceScope_def crawlCurrentScope_def bindE_eq_Inr)
  then show ?thesis by (rule foldE_invariant [where P = "\<lambda>t. remaining t = remaining s"]) (auto dest: visit)
qed

lemmas keeps = introduce_keeps lookup_keeps introduceScope_keeps

lemma scope_keeps:
  "enterTemporaryScope s = Inr s' \<Longrightarrow> remaining s' = remaining s"
  "enterInplaceScope s = Inr s' \<Longrightarrow> remaining s' = remaining s"
  "enterConsistentScope c s = Inr s' \<Longrightarrow> remaining s' = remaining s"
  "leaveScope s = Inr s' \<Longrightarrow> remaining s' = remaining s"
  "leaveConsistentScope d s = Inr s' \<Longrightarrow> remaining s' = remaining s"
  "leaveMode s = Inr s' \<Longrightarrow> remaining s' = remaining s"
  "enterMetaDeclMode s = Inr s' \<Longrightarrow> remaining s' = remaining s"
  "enterMetaComputationMode s = Inr s' \<Longrightarrow> remaining s' = remaining s"
  by (auto simp: enterTemporaryScope_def enterInplaceScope_def enterConsistentScope_def leaveScope_def
      leaveConsistentScope_def mode_defs bindE_eq_Inr)

section \<open>Loops and dispatch\<close>

lemma flattens_append_simps [simp]: "flattens [] = []" "flattens (t # ts) = flatten t @ flattens ts"
  by (simp_all add: flattens_def)

lemma while_lays:
  assumes "lays one"
  shows "consumeWhile one s = Inr (ts, s') \<Longrightarrow> remaining s = flattens ts @ remaining s'"
proof -
  have "consume_loop m one s = Inr (ts, s') \<Longrightarrow> remaining s = flattens ts @ remaining s'" for m s ts
  proof (induction m arbitrary: s ts)
    case (Suc m)
    then show ?case by (auto simp: bindE_eq_Inr split: if_splits dest!: laysD [OF assms])
  qed simp
  then show "consumeWhile one s = Inr (ts, s') \<Longrightarrow> remaining s = flattens ts @ remaining s'"
    by (simp only: consumeWhile_def)
qed

lemma unless_lays:
  "lays one \<Longrightarrow> consumeUnlessReduce one s = Inr (t, s') \<Longrightarrow> remaining s = flattens (opt_list t) @ remaining s'"
  by (auto simp: consumeUnlessReduce_def bindE_eq_Inr split: if_splits dest: laysD)

lemma dispatch_lays:
  assumes "\<And>k. lays (call k)"
  shows "lays (consume_any call)" "lays (consumeExpecting P call)" "lays (consumeStmt call)"
    "lays (consumeExpr call)" "lays (consumeTopLevelDecl call)" "lays (consumeConstantExpr call)"
proof -
  show "lays (consume_any call)"
    by (rule laysI) (auto simp: consume_any_def bindE_eq_Inr dest!: laysD [OF assms])
  have expecting: "lays (consumeExpecting Q call)" for Q
    by (rule laysI) (auto simp: consumeExpecting_def bindE_eq_Inr split: if_splits dest!: laysD [OF assms])
  then show "lays (consumeExpecting P call)" .
  show "lays (consumeStmt call)" "lays (consumeExpr call)" "lays (consumeTopLevelDecl call)"
    "lays (consumeConstantExpr call)"
    using expecting
    by (auto simp: lays_def consumeStmt_def consumeExpr_def consumeTopLevelDecl_def consumeConstantExpr_def bindE_eq_Inr)
qed

section \<open>The methods\<close>

text \<open>The object of a node of a known class.\<close>

lemma obj_of_kind:
  "KindCompilationUnit = obj_kind n \<Longrightarrow> obj_kind n = KindCompilationUnit \<and> n = Obj (obj_addr n) PCompilationUnit"
  "KindMetaUnit = obj_kind n \<Longrightarrow> obj_kind n = KindMetaUnit \<and> n = Obj (obj_addr n) (PMetaUnit (meta_instantiation_of n))"
  "KindFunctionDecl = obj_kind n \<Longrightarrow> obj_kind n = KindFunctionDecl \<and> n = Obj (obj_addr n) (PFunctionDecl (getName n))"
  "KindMetaDecl = obj_kind n \<Longrightarrow> obj_kind n = KindMetaDecl \<and> n = Obj (obj_addr n) (PMetaDecl (getName n))"
  "KindMetaContribution = obj_kind n \<Longrightarrow> obj_kind n = KindMetaContribution \<and> n = Obj (obj_addr n) (PMetaContribution (payload_range n))"
  "KindArgumentDeclList = obj_kind n \<Longrightarrow> obj_kind n = KindArgumentDeclList \<and> n = Obj (obj_addr n) PArgumentDeclList"
  "KindNamedArgumentDecl = obj_kind n \<Longrightarrow> obj_kind n = KindNamedArgumentDecl \<and> n = Obj (obj_addr n) (PNamedArgumentDecl (getName n))"
  "KindGlobalConstantDecl = obj_kind n \<Longrightarrow> obj_kind n = KindGlobalConstantDecl \<and> n = Obj (obj_addr n) (PGlobalConstantDecl (getName n))"
  "KindUnscopedCompoundStmt = obj_kind n \<Longrightarrow> obj_kind n = KindUnscopedCompoundStmt \<and> n = Obj (obj_addr n) PUnscopedCompoundStmt"
  "KindCompoundStmt = obj_kind n \<Longrightarrow> obj_kind n = KindCompoundStmt \<and> n = Obj (obj_addr n) PCompoundStmt"
  "KindReturnStmt = obj_kind n \<Longrightarrow> obj_kind n = KindReturnStmt \<and> n = Obj (obj_addr n) PReturnStmt"
  "KindExpressionStmt = obj_kind n \<Longrightarrow> obj_kind n = KindExpressionStmt \<and> n = Obj (obj_addr n) PExpressionStmt"
  "KindDeclStmt = obj_kind n \<Longrightarrow> obj_kind n = KindDeclStmt \<and> n = Obj (obj_addr n) (PDeclStmt (getName n))"
  "KindIfStmt = obj_kind n \<Longrightarrow> obj_kind n = KindIfStmt \<and> n = Obj (obj_addr n) PIfStmt"
  "KindMetaIfStmt = obj_kind n \<Longrightarrow> obj_kind n = KindMetaIfStmt \<and> n = Obj (obj_addr n) PMetaIfStmt"
  "KindMetaCalculationStmt = obj_kind n \<Longrightarrow> obj_kind n = KindMetaCalculationStmt \<and> n = Obj (obj_addr n) PMetaCalculationStmt"
  "KindDeclRefExpr = obj_kind n \<Longrightarrow> obj_kind n = KindDeclRefExpr \<and> n = Obj (obj_addr n) (PDeclRefExpr (payload_ident n))"
  "KindCallOperatorExpr = obj_kind n \<Longrightarrow> obj_kind n = KindCallOperatorExpr \<and> n = Obj (obj_addr n) PCallOperatorExpr"
  "KindMetaInstantiationExpr = obj_kind n \<Longrightarrow> obj_kind n = KindMetaInstantiationExpr \<and> n = Obj (obj_addr n) (PMetaInstantiationExpr (payload_range n))"
  by (cases n; cases "obj_payload n"; simp add: obj_kind_def meta_instantiation_of_def getName_def
      payload_range_def payload_ident_def)+

lemma flatten_unit_simps:
  "flatten (CompilationUnit a cs) = Some (Obj a PCompilationUnit) # flattens cs @ [None]"
  "flatten (MetaUnit a i cs) = Some (Obj a (PMetaUnit i)) # flattens cs @ [None]"
  by (simp_all add: flatten_eq kind_pred_defs)

lemma unitBody_lays:
  assumes "\<And>k. lays (call k)" and "consumeUnitBody p call parent n s = Inr (cs, s')"
    and "isRequiringReduceMarker (obj_kind n)"
  shows "remaining s = flattens cs @ None # remaining s'"
  using assms(2,3)
  by (auto simp: consumeUnitBody_def Let_def bindE_eq_Inr
      dest!: scope_keeps keeps while_lays [OF dispatch_lays(5) [OF assms(1)]] leaveShift_Inr)

text \<open>The methods of nodes without children.\<close>

lemma leaf_lays:
  "lays consumeIntegerLiteralExpr" "lays consumeBooleanLiteralExpr"
proof -
  show "lays consumeIntegerLiteralExpr"
  proof (rule laysI)
    fix s t s'
    assume "consumeIntegerLiteralExpr s = Inr (t, s')"
    then obtain n l where "shiftAs ((=) KindIntegerLiteralExpr) s = Inr (n, s')"
      "obj_payload n = PIntegerLiteralExpr l" "t = IntegerLiteralExpr (obj_addr n) l"
      unfolding consumeIntegerLiteralExpr_def by (elim bindE_InrE) (auto split: payload.split_asm prod.split_asm)
    then show "remaining s = flatten t @ remaining s'"
      by (cases n) (auto simp: flatten_simps dest!: shiftAs_Inr)
  qed
  show "lays consumeBooleanLiteralExpr"
  proof (rule laysI)
    fix s t s'
    assume "consumeBooleanLiteralExpr s = Inr (t, s')"
    then obtain n l where "shiftAs ((=) KindBooleanLiteralExpr) s = Inr (n, s')"
      "obj_payload n = PBooleanLiteralExpr l" "t = BooleanLiteralExpr (obj_addr n) l"
      unfolding consumeBooleanLiteralExpr_def by (elim bindE_InrE) (auto split: payload.split_asm prod.split_asm)
    then show "remaining s = flatten t @ remaining s'"
      by (cases n) (auto simp: flatten_simps dest!: shiftAs_Inr)
  qed
qed

lemma binary_lays:
  assumes "\<And>k. lays (call k)"
  shows "lays (consumeBinaryOperatorExpr call)"
proof (rule laysI)
  fix s t s'
  assume "consumeBinaryOperatorExpr call s = Inr (t, s')"
  then obtain n s1 l s2 r b where "shiftAs ((=) KindBinaryOperatorExpr) s = Inr (n, s1)"
    "consumeExpr call s1 = Inr (l, s2)" "consumeExpr call s2 = Inr (r, s')"
    "obj_payload n = PBinaryOperatorExpr b" "t = BinaryOperatorExpr (obj_addr n) b l r"
    unfolding consumeBinaryOperatorExpr_def
    by (elim bindE_InrE) (auto elim!: bindE_InrE split: payload.split_asm prod.split_asm)
  then show "remaining s = flatten t @ remaining s'"
    by (cases n) (auto simp: flatten_simps dest!: shiftAs_Inr laysD [OF dispatch_lays(4) [OF assms]])
qed

lemma argument_lays:
  assumes "\<And>k. lays (call k)"
  shows "lays (consumeAnonymousArgumentDecl call)"
proof (rule laysI)
  fix s t s'
  assume r: "consumeAnonymousArgumentDecl call s = Inr (t, s')"
  then obtain named where named: "peekIs ((=) KindNamedArgumentDecl) s = Inr named"
    by (auto simp: consumeAnonymousArgumentDecl_def)
  show "remaining s = flatten t @ remaining s'"
  proof (cases named)
    case True
    with r named show ?thesis by (simp add: consumeAnonymousArgumentDecl_def laysD [OF assms])
  next
    case False
    with r named obtain n where n: "shiftAs isAnonymousArgumentDecl s = Inr (n, s')" "t = AnonymousArgumentDecl (obj_addr n)"
      by (auto simp: consumeAnonymousArgumentDecl_def)
    have "remaining s = Some n # remaining s'" "isAnonymousArgumentDecl (obj_kind n)"
      using shiftAs_Inr [OF n(1)] by simp_all
    moreover from this named False have "obj_kind n \<noteq> KindNamedArgumentDecl"
      by (auto simp: peekIs_def peekNode_def peek_remaining)
    ultimately show ?thesis
      using n(2) by (cases n; cases "obj_payload n") (simp_all add: flatten_simps obj_kind_def kind_pred_defs)
  qed
qed

text \<open>A method over a table of methods that read what they return.\<close>

lemma methods_lay:
  assumes "\<And>k. lays (call k)"
  shows "lays (consumeMethod p call k)"
proof (rule laysI)
  fix s t s'
  assume r: "consumeMethod p call k s = Inr (t, s')"
  note call = laysD [OF assms] laysD [OF dispatch_lays(3) [OF assms]] laysD [OF dispatch_lays(4) [OF assms]]
    laysD [OF dispatch_lays(6) [OF assms]]
    while_lays [OF dispatch_lays(1) [OF assms]] while_lays [OF dispatch_lays(3) [OF assms]]
    while_lays [OF dispatch_lays(4) [OF assms]] while_lays [OF assms]
    unless_lays [OF dispatch_lays(3) [OF assms]] unless_lays [OF dispatch_lays(4) [OF assms]] unless_lays [OF assms]
    scope_keeps keeps leaveShift_Inr unitBody_lays [OF assms]
  note simple = laysD [OF leaf_lays(1)] laysD [OF leaf_lays(2)] laysD [OF binary_lays [OF assms]]
    laysD [OF argument_lays [OF assms]]
  show "remaining s = flatten t @ remaining s'"
  proof (cases "k \<in> {KindIntegerLiteralExpr, KindBooleanLiteralExpr, KindBinaryOperatorExpr, KindAnonymousArgumentDecl}")
    case True
    with r show ?thesis by (auto dest: simple)
  next
    case False
    with r show ?thesis
      by (cases k) (auto simp: method_defs consumeErroneousExpr_def
          bindE_eq_Inr Let_def flatten_simps flatten_unit_simps kind_pred_defs
          split: if_splits option.splits dest!: call shiftAs_Inr obj_of_kind)
  qed
qed

theorem consumeKind_lays: "lays (consumeKind p n k)"
proof (induction n arbitrary: k)
  case (Suc n)
  then show ?case using methods_lay [of "consumeKind p n" p k] by (simp add: lays_def)
qed (simp add: lays_def)

end
