(* ===== verification/Samples_Instance.thy ===== *)
theory Samples_Instance imports Samples_Meta Reader_Layout begin

text \<open>
  A whole instantiation, from the code of the meta declaration to the unit that is kept.
\<close>

text \<open>\<^verbatim>\<open>g<> -> { g() -> { } }\<close> and its instantiation \<^verbatim>\<open>g<>\<close>\<close>

definition sample_body :: "addr \<Rightarrow> ast" where
  "sample_body a = FunctionDecl a (named ''g'') (ArgumentDeclList (Suc a) []) None (CompoundStmt (Suc (Suc a)) [])"

definition sample_template :: ast where
  "sample_template = MetaDecl 90 (named ''g'') (ArgumentDeclList 91 [])
     (MetaContribution 93 \<lparr>getStart = 0, getEnd = 1\<rparr> [sample_body 97])"

definition sample_use :: ast where
  "sample_use = MetaInstantiationExpr 80 \<lparr>getStart = 0, getEnd = 1\<rparr> (DeclRefExpr 81 (named ''g'') (Some 90)) []"

definition template_heap :: heap where
  "template_heap = [80 \<mapsto> sample_use, 90 \<mapsto> sample_template, 97 \<mapsto> sample_body 97,
     98 \<mapsto> ArgumentDeclList 98 [], 99 \<mapsto> CompoundStmt 99 []]"

definition template_scope :: scope_chain where
  "template_scope = [AllocatedScope True [(''g'', obj_of sample_template)]]"

definition template_compiler :: compiler where
  "template_compiler = \<lparr>cp_heap = template_heap, cp_next = 200,
     cp_containing = [90 \<mapsto> Obj 0 PCompilationUnit], cp_exported = Map.empty,
     cp_scopes = [0 \<mapsto> template_scope], cp_engine = engine_new, cp_module = Map.empty, cp_dependencies = [],
     cp_generation = [], cp_source = Map.empty, cp_shipment = None, cp_symbols = [], cp_unresolved = [],
     cp_instances = Map.empty, cp_jit = []\<rparr>"

text \<open>The engine runs the code of the declaration, which contributes its function.\<close>

definition running_external :: external where
  "running_external = sample_external\<lparr>x_jit := (\<lambda>ms name.
     Inr [JContribute 97, JContribute 98, JReduce, JContribute 99, JReduce, JReduce])\<rparr>"

lemmas template_defs = sample_template_def sample_body_def sample_use_def template_heap_def template_compiler_def

lemma not_callback: "''g'' \<noteq> callback_contribute" "''g'' \<noteq> callback_reduce"
    "callback_contribute \<noteq> ''g''" "callback_reduce \<noteq> ''g''"
  by (simp_all add: callbacks_mangled separator_def)

lemma template_code:
  assumes "cp_shipment S = Some [''g'' \<mapsto> g]"
  shows "\<exists>t m. codegenMetaFunction h (executor_context X inst) sample_template (mg_new (Suc 0) S) = Inr t
    \<and> fst (fc_context t) = S\<lparr>cp_shipment := Some m\<rparr> \<and> dom m = {''g'', callback_contribute, callback_reduce} \<and> m ''g'' = Some g"
  using assms
  by (simp add: template_defs meta_codegen_defs function_codegen_defs not_callback
      isNodeRequiringReduceMarker_def kind_pred_defs callbacks_differ callbacks_differ [symmetric]
      prototype_def addr_of_simps del: context_buildInstr(1) instance_laws.context_build(1,3)
      cong: bindE_weak contributeAround_weak)
    (rule exI, rule conjI, rule refl, auto simp: not_callback)

text \<open>The compiler with a shipment, a list of symbols and modules of the engine.\<close>

definition template_with :: "ir_module \<Rightarrow> compiler" where
  "template_with m = template_compiler\<lparr>cp_shipment := Some m, cp_symbols := [''g'']\<rparr>"

lemma template_with_simps [simp]:
  "cp_heap (template_with m) = template_heap" "cp_shipment (template_with m) = Some m"
  "cp_unresolved (template_with m) = []" "cp_instances (template_with m) = Map.empty"
  "cp_symbols (template_with m) = [''g'']" "cp_jit (template_with m) = []" "shipment (template_with m) = m"
  "template_with m\<lparr>cp_shipment := Some l\<rparr> = template_with l"
  "template_compiler\<lparr>cp_shipment := Some m, cp_symbols := [''g'']\<rparr> = template_with m"
  by (simp_all add: template_with_def template_compiler_def shipment_def)

lemma template_simps [simp]:
  "cp_heap template_compiler = template_heap" "cp_shipment template_compiler = None"
  "cp_symbols template_compiler = []" "cp_containing template_compiler = [90 \<mapsto> Obj 0 PCompilationUnit]"
  "\<not> hasErrors (cp_engine template_compiler)" "shipment template_compiler = Map.empty"
  "cp_instances template_compiler = Map.empty"
  by (simp_all add: template_compiler_def hasErrors_def engine_new_def shipment_def)

lemma template_prototype:
  "symbolOf fmt [90 \<mapsto> Obj 0 PCompilationUnit] sample_template = Inr ''g''"
  "getFunctionTypeOf sample_template = Inr (FunctionType VoidTy [ContextPtrTy])"
  "consumeInstantiationsOfMeta f sample_template s = Inr s"
  by (simp_all add: template_defs symbolOf_def mangleNameOf_eq unit_key_def getName_def named_def getFunctionTypeOf_def
      getFunctionType_def getTypeOfVoid_def getTypeOfContextPtr_def addr_of_simps
      consumeInstantiationsOfMeta_def consumeAllMeta_eq meta_instantiations_def meta_roots.simps meta_part_def)

lemma mg_new_code: "(mg_new n c)\<lparr>fc_builder := ir_new n\<rparr> = mg_new n c"
  by (simp add: mg_new_def fc_new_def)

lemma template_generated:
  "\<exists>m. codegenMetaDecl X inst sample_template template_compiler = Inr (Some ''g'', template_with m)
     \<and> dom m = {''g'', callback_contribute, callback_reduce}"
proof -
  let ?p = "prototype (FunctionType VoidTy [ContextPtrTy])"
  obtain t m where t: "codegenMetaFunction template_heap (executor_context X inst) sample_template
      (mg_new (Suc 0) (template_with [''g'' \<mapsto> ?p])) = Inr t"
    and c: "fst (fc_context t) = template_with m" and m: "dom m = {''g'', callback_contribute, callback_reduce}" "m ''g'' = Some ?p"
    using template_code [of "template_with [''g'' \<mapsto> ?p]" ?p template_heap X inst] by auto
  have g: "global ''g'' [''g'' \<mapsto> ?p] = Inr ?p" "length (ft_args (gl_type ?p)) = Suc 0" "function_code ?p = ir_new (Suc 0)"
    by (simp_all add: global_def function_code_def prototype_def)
  have gen: "generateMeta (codegenMetaFunction template_heap (executor_context X inst) sample_template) ''g''
      (template_with [''g'' \<mapsto> ?p]) = Inr (template_with (setBody ''g'' (fc_builder t) m))"
    unfolding generateMeta_def template_with_simps(7) g bindE_Inr mg_new_code t c
    by (simp add: onShipment_def)
  have p: "createFunctionPrototype (x_fmt X) [90 \<mapsto> Obj 0 PCompilationUnit] sample_template Map.empty
      = Inr (''g'', [''g'' \<mapsto> ?p])"
    by (simp add: createFunctionPrototype_def template_prototype getOrInsertFunction_def)
  have "codegenMetaDecl X inst sample_template template_compiler
      = Inr (Some ''g'', template_with (setBody ''g'' (fc_builder t) m))"
    unfolding codegenMetaDecl_def template_simps template_prototype p bindE_Inr Let_def
    by (simp add: isGlobalResolved_def setGlobalAsResolved_def gen)
  moreover have "dom (setBody ''g'' (fc_builder t) m) = dom m"
    using m by (auto simp: setBody_def split: if_splits)
  ultimately show ?thesis using m(1) by (intro exI [of _ "setBody ''g'' (fc_builder t) m"] conjI) simp_all
qed

text \<open>The jump pad calls the function of the declaration.\<close>

lemma template_instantiation:
  "instantiation_of template_heap 80 = Inr (\<lparr>getStart = 0, getEnd = 1\<rparr>, named ''g'', sample_template, [])"
  by (simp add: instantiation_of_def template_heap_def sample_use_def load_def)

lemma jumpPad_code:
  "\<exists>t. codegenJumpPad h cx callee [] (mg_new (Suc 0) S) = Inr t \<and> fst (fc_context t) = S"
  by (simp add: codegenJumpPad_def mg_new_def fc_new_def ir_new_def createEntryBlock_def enterValueScope_def
      leaveValueScope_def assertE_def builder_simps buildVoid_def buildInstr_def emit_def newBlock_def
      createBlock_def insertAt_def setInsertPoint_def)

lemma template_jumpPad:
  assumes "dom m = {''g'', callback_contribute, callback_reduce}"
  shows "\<exists>name l. createJumpPadTo X inst 80 f (template_with m) = Inr (name, template_with l)"
proof -
  define name where "name = ''jumppad_'' @ getType (named ''g'') @ ''_'' @ mangleNameOfInstantiation (x_fmt X) 80 []"
  have "name \<notin> {''g'', callback_contribute, callback_reduce}"
    by (simp add: name_def named_def callbacks_mangled separator_def)
  then have n: "m name = None" by (simp only: assms [symmetric] domIff not_not)
  let ?p = "prototype (FunctionType VoidTy [ContextPtrTy])"
  let ?S = "template_with (m(name \<mapsto> ?p))"
  obtain t where t: "codegenJumpPad template_heap (executor_context X inst) f [] (mg_new (Suc 0) ?S) = Inr t"
    "fst (fc_context t) = ?S"
    using jumpPad_code [of template_heap "executor_context X inst" f ?S] by (elim exE conjE) (rule that)
  have g: "global name (m(name \<mapsto> ?p)) = Inr ?p" "length (ft_args (gl_type ?p)) = Suc 0" "function_code ?p = ir_new (Suc 0)"
    by (simp_all add: global_def function_code_def prototype_def)
  have gen: "generateMeta (codegenJumpPad template_heap (executor_context X inst) f []) name ?S
      = Inr (template_with (setBody name (fc_builder t) (m(name \<mapsto> ?p))))"
    unfolding generateMeta_def template_with_simps(7) g bindE_Inr mg_new_code t
    by (simp add: onShipment_def)
  have "createJumpPadTo X inst 80 f (template_with m)
      = Inr (name, template_with (setBody name (fc_builder t) (m(name \<mapsto> ?p))))"
    unfolding createJumpPadTo_def template_with_simps template_instantiation bindE_Inr prod.case Let_def name_def [symmetric]
    using n gen by (simp add: onShipment_def createFunction_def getTypeOfVoid_def getTypeOfContextPtr_def)
  then show ?thesis by (intro exI)
qed

text \<open>The run contributes a copy of the function.\<close>

lemma template_replay: "mapE (callback_of template_heap) [JContribute 97, JContribute 98, JReduce, JContribute 99, JReduce, JReduce]
    = Inr (replay (flatten (sample_body 97)))"
  by (simp add: template_heap_def sample_body_def callback_of_def load_def replay_def flatten_simps)

lemma template_run:
  assumes "cp_heap s = template_heap" and "cp_next s = 200" and "cp_engine s = engine_new"
  shows "runMetaFunction running_external 80 name s
    = Inr (flatten (MetaUnit 200 80 [sample_body 201]), s\<lparr>cp_next := 204, cp_engine := engine_new\<rparr>)"
proof -
  have jit: "x_jit running_external ms name = Inr [JContribute 97, JContribute 98, JReduce, JContribute 99, JReduce, JReduce]"
    for ms name by (simp add: running_external_def)
  show ?thesis
    unfolding runMetaFunction_def assms template_instantiation bindE_Inr prod.case Let_def allocate_on_def jit
      template_replay run_replay
    by (simp add: directWrite_def sample_body_def flatten_simps flatten_unit_simps isNodeRequiringReduceMarker_def
        kind_pred_defs markReduce_def appended_def)
qed

text \<open>What was contributed is read over the scope of the source file; the unit may export \<open>g\<close> again.\<close>

abbreviation template_unit :: ast where
  "template_unit \<equiv> MetaUnit 200 80 [sample_body 201]"

lemma template_unit_facts:
  "unit_ok template_unit" "map addr_of (nodes template_unit) = [200 ..< 204]"
  "env_of template_scope = [''g'' \<mapsto> obj_of sample_template]" "scope_addrs template_scope = {90}"
  by (simp_all add: sample_body_def unit_ok_def top_level_ok_def kind_pred_defs nodes_eq addr_of_def upt_conv_Cons
      env_of_def template_scope_def fun_eq_iff scope_addrs_def sample_template_def)

lemma template_resolved:
  "unit_tree (shadows_instantiated (named ''g'') (obj_of sample_template)) (env_of template_scope) template_unit
     = template_unit"
  "\<not> unit_err (shadows_instantiated (named ''g'') (obj_of sample_template)) (env_of template_scope) template_unit"
  unfolding template_unit_facts(3)
  by (simp_all add: sample_body_def sample_template_def unit_tree_def unit_err_def unit_decls_def
      may_declare_def shadows_instantiated_def res_tree_simps res_decls_simps res_err_simps named_def isMetaDecl_def
      declares_def clashes_def name_str_def getName_def Let_def)

lemma template_read:
  assumes "cp_heap s = template_heap" and "cp_containing s = [90 \<mapsto> Obj 0 PCompilationUnit]"
    and "cp_scopes s = [0 \<mapsto> template_scope]" and "cp_exported s = Map.empty" and "\<not> hasErrors (cp_engine s)"
  shows "\<exists>s'. readMetaUnit X (flatten template_unit) s = Inr (template_unit, s') \<and> \<not> hasErrors (cp_engine s')
    \<and> cp_instances s' = cp_instances s"
proof -
  let ?r = "meta_reader (flatten template_unit) s" and ?p = "(x_params X)\<lparr>inst_view := view_of template_heap\<rparr>"
  have set: "addr_of ` set (nodes template_unit) = set [200 ..< 204]" by (metis template_unit_facts(2) set_map)
  have r: "remaining ?r = flatten template_unit @ []" "top_mode (modeStack ?r) = Outside"
    "\<not> isInAnyScope ?r \<or> scope_isConsistent (currentScope ?r)"
    "exportedNode ?r 200 = None" "inst_view ?p 80 = Some (named ''g'', Some (obj_of sample_template))"
    "isMetaDecl (obj_of sample_template)" "containingUnit ?r (obj_addr (obj_of sample_template)) = Some (Obj 0 PCompilationUnit)"
    "isUnitNode (obj_kind (Obj 0 PCompilationUnit))" "unitScope ?r (obj_addr (Obj 0 PCompilationUnit)) = Some template_scope"
    "\<not> hasErrors (engine_of ?r)"
    using assms
    by (simp_all add: meta_reader_def reader_new_def builder_new_def builder_state.defs remaining_def isInAnyScope_def
        view_of_def template_heap_def sample_use_def sample_template_def isMetaDecl_def)
  have new: "addr_of ` set (nodes template_unit) \<inter> insert (obj_addr (obj_of sample_template)) (scope_addrs template_scope) = {}"
    unfolding set template_unit_facts(4) by (simp add: sample_template_def)
  have dist: "distinct (map addr_of (nodes template_unit))" unfolding template_unit_facts(2) by simp
  from consumeMetaUnit_unit [OF template_unit_facts(1) dist r(1-9) new] r(10) template_resolved
  obtain r' where "consumeKind ?p (reader_fuel ?r) KindMetaUnit ?r = Inr (template_unit, r')"
    "\<not> hasErrors (engine_of r')" by auto
  then show ?thesis by (simp add: readMetaUnit_def assms(1))
qed

lemma template_checked: "checkAST h template_unit e = Inr e"
  by (simp add: checkAST_safe sema_safe_eq tree_complaints.simps sample_body_def reserved_name_def
      isIdentifierReserved_def named_def)

lemma template_instantiated:
  "\<exists>s'. instantiate running_external (Suc 0) 80 False template_compiler = Inr (Some 200, s')"
proof -
  let ?inst = "instantiate running_external 0"
  obtain m where m: "codegenMetaDecl running_external ?inst sample_template template_compiler
      = Inr (Some ''g'', template_with m)" "dom m = {''g'', callback_contribute, callback_reduce}"
    using template_generated [of running_external ?inst] by (elim exE conjE) (rule that)
  obtain pad l where pad: "createJumpPadTo running_external ?inst 80 ''g'' (template_with m) = Inr (pad, template_with l)"
    using template_jumpPad [OF m(2), of running_external ?inst "''g''"] by (elim exE) (rule that)
  let ?s = "(template_with l)\<lparr>cp_jit := [l], cp_shipment := None\<rparr>"
  have ship: "shipToJIT running_external ?inst 0 (template_with l) = Inr (True, ?s)"
    by (simp add: shipToJIT_def)
  have s: "cp_heap ?s = template_heap" "cp_next ?s = 200" "cp_engine ?s = engine_new"
    by (simp_all add: template_with_def template_compiler_def)
  let ?t = "?s\<lparr>cp_next := 204, cp_engine := engine_new\<rparr>"
  have t: "cp_heap ?t = template_heap" "cp_containing ?t = [90 \<mapsto> Obj 0 PCompilationUnit]"
    "cp_scopes ?t = [0 \<mapsto> template_scope]" "cp_exported ?t = Map.empty" "\<not> hasErrors (cp_engine ?t)"
    "cp_instances ?t = Map.empty"
    by (simp_all add: template_with_def template_compiler_def hasErrors_def engine_new_def)
  obtain u where u: "readMetaUnit running_external (flatten template_unit) ?t = Inr (template_unit, u)"
    "\<not> hasErrors (cp_engine u)" "cp_instances u = Map.empty"
    using template_read [OF t(1-5), of running_external] t(6) by auto
  have "finishInstantiation running_external 80 (flatten template_unit) ?t
      = Inr (Some 200, u\<lparr>cp_engine := cp_engine u, cp_instances := [80 \<mapsto> 200]\<rparr>)"
    using u by (simp add: finishInstantiation_def template_checked cacheInstantiationOf_def addr_of_def)
  then have "instantiate running_external (Suc 0) 80 False template_compiler
      = Inr (Some 200, u\<lparr>cp_engine := cp_engine u, cp_instances := [80 \<mapsto> 200]\<rparr>)"
    using m(1) pad ship template_run [OF s, of pad]
    by (simp add: instantiate.simps instantiateWith_def template_instantiation sample_template_def)
  then show ?thesis by blast
qed

end
