(* ===== verification/Driver.thy ===== *)
theory Driver imports Translate begin

text \<open>
  The program around the translation: \<^verbatim>\<open>src/Main.cpp\<close> (its options and its exit status),
  \<^verbatim>\<open>src/Frontend/CompilerInstance.cpp\<close> (the machines a compiler instance needs) and
  \<^verbatim>\<open>src/Tooling/TokenDumper.cpp\<close> (what is dumped of the tokens). The parsing of the command line, the
  registry of targets and the YAML writer belong to LLVM, the vocabulary of the tokens to ANTLR: they
  are arguments.
\<close>

section \<open>Options\<close>

type_synonym 'a option_table = "('a \<times> string) list"

definition emit_options :: "emit_action option_table" where
  "emit_options = [(EmitTokens, ''emit-tokens''), (EmitFlatLayout, ''emit-flat-layout''),
     (EmitLayout, ''emit-layout''), (EmitAST, ''emit-ast'')]"

definition level_options :: "opt_level option_table" where
  "level_options = [(OptDebug, ''O0''), (O1, ''O1''), (O2, ''O2''), (O3, ''O3'')]"

definition verbose_options :: "verbose_flag option_table" where
  "verbose_options = [(VAll, ''verbose''), (VShipments, ''vshipments''), (VInstantiations, ''vinst''),
     (VInstantiatedLayout, ''vinst-layout''), (VInstantiatedAST, ''vinst-ast''), (VInstantiatedExports, ''vinst-exports'')]"

definition default_input :: "string \<Rightarrow> string" where
  "default_input source_directory = source_directory @ ''/lang/main.swy''"

text \<open>
  The values the library finds in the arguments: one alternative of a table, or the given default;
  the bits of all alternatives that are there; the positional argument.
\<close>

record command_line =
  cl_emit :: "emit_action option_table \<Rightarrow> emit_action \<Rightarrow> string list \<Rightarrow> emit_action"
  cl_level :: "opt_level option_table \<Rightarrow> opt_level \<Rightarrow> string list \<Rightarrow> opt_level"
  cl_bits :: "verbose_flag option_table \<Rightarrow> string list \<Rightarrow> 32 word"
  cl_positional :: "string \<Rightarrow> string list \<Rightarrow> string"

definition invocation_new :: invocation where
  "invocation_new = \<lparr>emitAction = EmitNone, optLevel = OptDebug, verboseFlags = 0\<rparr>"

definition setOptLevel :: "opt_level \<Rightarrow> invocation \<Rightarrow> invocation" where
  "setOptLevel l i = i\<lparr>optLevel := l\<rparr>"

text \<open>The invocation \<open>main\<close> sets up. An enumeration without an initial value starts with its first element.\<close>

definition main_invocation :: "command_line \<Rightarrow> string list \<Rightarrow> invocation" where
  "main_invocation cl argv =
     setVerboseFlags (cl_bits cl verbose_options argv)
       (setOptLevel (cl_level cl level_options OptDebug argv)
         (setEmitAction (cl_emit cl emit_options EmitNone argv) invocation_new))"

section \<open>The compiler instance\<close>

text \<open>
  The targets of the library: a triple is unknown, with an error, or names a target that makes a
  machine for a processor and its features, which may fail.
\<close>

record 'm target_registry =
  lookupTarget :: "string \<Rightarrow> string + (string \<Rightarrow> string \<Rightarrow> string \<Rightarrow> 'm option)"
  getHostCPUName :: string
  defaultTargetTriple :: string

definition createTargetMachine :: "'m target_registry \<Rightarrow> string \<Rightarrow> bool \<Rightarrow> 'm option \<times> string list" where
  "createTargetMachine R triple isNative = (case lookupTarget R triple of
     Inl error \<Rightarrow> (None, [''Failed to initialize target: '' @ [CHR 0x27] @ triple @ [CHR 0x27] @ '' ('' @ error @ '')!''])
   | Inr create \<Rightarrow> (create triple (if isNative then getHostCPUName R else ''generic'') '''', []))"

record 'm compiler_instance =
  in_invocation :: invocation
  in_targetMachine :: 'm
  in_hostMachine :: 'm

definition compiler_instance_create ::
    "'m target_registry \<Rightarrow> invocation \<Rightarrow> 'm compiler_instance option \<times> string list" where
  "compiler_instance_create R ci =
     (let (targetMachine, log1) = createTargetMachine R (defaultTargetTriple R) False;
          (hostMachine, log2) = createTargetMachine R (defaultTargetTriple R) True
      in (case (targetMachine, hostMachine) of
            (Some target, Some host) \<Rightarrow>
              Some \<lparr>in_invocation = ci, in_targetMachine = target, in_hostMachine = host\<rparr>
          | _ \<Rightarrow> None, log1 @ log2))"

section \<open>The program\<close>

text \<open>
  The exit status, and what the translation gave if there was one. \<open>broken\<close> is whether the standard
  file descriptors could not be repaired.
\<close>

definition swy_main :: "bool \<Rightarrow> command_line \<Rightarrow> 'm target_registry \<Rightarrow> string
    \<Rightarrow> (invocation \<Rightarrow> string \<Rightarrow> (translation \<times> engine) res) \<Rightarrow> string list
    \<Rightarrow> (nat \<times> translation option) res" where
  "swy_main broken cl R source_directory compile argv =
     (if broken then Inr (1, None)
      else (case fst (compiler_instance_create R (main_invocation cl argv)) of
          None \<Rightarrow> Inr (0, None)
        | Some compiler \<Rightarrow>
            bindE (compile (in_invocation compiler) (cl_positional cl (default_input source_directory) argv))
              (\<lambda>(outcome, e). Inr (0, Some outcome))))"

definition swy_program :: "bool \<Rightarrow> command_line \<Rightarrow> 'm target_registry \<Rightarrow> string \<Rightarrow> external
    \<Rightarrow> (string \<Rightarrow> string option) \<Rightarrow> (string \<Rightarrow> vparams) \<Rightarrow> nat \<Rightarrow> nat \<Rightarrow> bool
    \<Rightarrow> (string \<Rightarrow> syntax_error list \<times> syntax_error list \<times> ptree) \<Rightarrow> string list
    \<Rightarrow> (nat \<times> translation option) res" where
  "swy_program broken cl R source_directory X files vp n m created recognise =
     swy_main broken cl R source_directory
       (\<lambda>ci. compileSourceFile (X\<lparr>x_invocation := ci\<rparr>) files vp n m created recognise)"

text \<open>A compilation that failed is not reported by the exit status.\<close>

lemma exit_status:
  "swy_program broken cl R dir X files vp n m created recognise argv = Inr (status, outcome) \<Longrightarrow>
     status = (if broken then 1 else 0)"
  by (auto simp: swy_program_def swy_main_def bindE_eq_Inr split: if_splits option.splits)

text \<open>The flags of the invocation are those of the command line, all of them with \<^verbatim>\<open>-verbose\<close>.\<close>

lemma main_verbose:
  "hasVerboseFlag (main_invocation cl argv) f \<longleftrightarrow>
     (let bits = cl_bits cl verbose_options argv in bit bits (verbose_bit f) \<or> bit bits (verbose_bit VAll))"
  by (simp add: main_invocation_def hasVerboseFlag_set Let_def)

lemma main_emit: "hasEmitAction (main_invocation cl argv) (cl_emit cl emit_options EmitNone argv)"
  by (simp add: main_invocation_def hasEmitAction_def setVerboseFlags_def setOptLevel_def setEmitAction_def Let_def)

text \<open>Without a machine for the default target no source file is opened.\<close>

lemma no_machine:
  assumes "lookupTarget R (defaultTargetTriple R) = Inl error"
  shows "swy_program False cl R dir X files vp n m created recognise argv = Inr (0, None)"
    "length (snd (compiler_instance_create R ci)) = 2"
  using assms by (simp_all add: swy_program_def swy_main_def compiler_instance_create_def createTargetMachine_def)

section \<open>Tokens\<close>

text \<open>A token of the library: its kind is a number, its position that of its first character.\<close>

record antlr_token =
  tk_type :: nat
  tk_text :: string
  tk_line :: nat
  tk_offset :: nat

record simple_token =
  st_line :: nat
  st_offset :: nat
  st_kind :: string
  st_text :: string

definition createTokenFrom :: "(nat \<Rightarrow> string) \<Rightarrow> antlr_token \<Rightarrow> simple_token" where
  "createTokenFrom symbolicName t = \<lparr>st_line = tk_line t, st_offset = tk_offset t,
     st_kind = symbolicName (tk_type t), st_text = tk_text t\<rparr>"

text \<open>The fields the YAML writer is given, in this order.\<close>

datatype yaml_scalar = YString string | YNumber nat

definition token_mapping :: "simple_token \<Rightarrow> (string \<times> yaml_scalar) list" where
  "token_mapping t = [(''kind'', YString (st_kind t)), (''text'', YString (st_text t)),
     (''line'', YNumber (st_line t)), (''offset'', YNumber (st_offset t))]"

text \<open>The stream ends with the end of file, which is not dumped; taking it off an empty stream is undefined.\<close>

definition dumpTokens :: "(nat \<Rightarrow> string) \<Rightarrow> antlr_token list \<Rightarrow> (string \<times> yaml_scalar) list list res" where
  "dumpTokens symbolicName allTokens =
     (if allTokens = [] then Inl OutOfBounds
      else Inr (map (\<lambda>t. token_mapping (createTokenFrom symbolicName t)) (butlast allTokens)))"

text \<open>Every token but the last is dumped, with its text and its position.\<close>

lemma dumpTokens_recovers:
  assumes "dumpTokens symbolicName (ts @ [eof]) = Inr ys"
  shows "map (\<lambda>y. map_of y ''text'') ys = map (\<lambda>t. Some (YString (tk_text t))) ts"
    "map (\<lambda>y. (map_of y ''line'', map_of y ''offset'')) ys
      = map (\<lambda>t. (Some (YNumber (tk_line t)), Some (YNumber (tk_offset t)))) ts"
  using assms by (auto simp: dumpTokens_def token_mapping_def createTokenFrom_def)

end
