(* ===== verification/Memory.thy ===== *)
theory Memory imports Diagnostics "HOL-Library.Multiset" begin

text \<open>
  The memory the syntax trees live in and the helpers that guard it: \<^verbatim>\<open>src/AST/ASTContext\<close> (fragments that
  are destroyed with the context, pooled strings), \<^verbatim>\<open>src/Support/Nullable.hpp\<close> (pointers that may or
  must not be null) and \<^verbatim>\<open>src/Support/ScopeLeaveAction.hpp\<close> (actions that are run once, when the
  holder that owns them goes out of scope).
\<close>

section \<open>The context of a tree\<close>

text \<open>
  The library's allocator gives fresh addresses. The context remembers the fragments whose
  destructors do something, and the strings it has copied, by their characters.
\<close>

record tree_context =
  tc_next :: nat
  tc_allocated :: "nat list"
  tc_pool :: "string \<Rightarrow> nat option"
  tc_chars :: "nat \<Rightarrow> string option"

definition tree_context_new :: tree_context where
  "tree_context_new = \<lparr>tc_next = 0, tc_allocated = [], tc_pool = Map.empty, tc_chars = Map.empty\<rparr>"

definition allocate_fragment :: "bool \<Rightarrow> tree_context \<Rightarrow> nat \<times> tree_context" where
  "allocate_fragment isNotTrivialDestructible c = (tc_next c,
     c\<lparr>tc_next := Suc (tc_next c),
       tc_allocated := (if isNotTrivialDestructible then tc_allocated c @ [tc_next c] else tc_allocated c)\<rparr>)"

text \<open>The destructors are called in the order of the allocations.\<close>

definition destroy_context :: "(nat \<Rightarrow> 's \<Rightarrow> 's res) \<Rightarrow> tree_context \<Rightarrow> 's \<Rightarrow> 's res" where
  "destroy_context destructor c = foldE destructor (tc_allocated c)"

definition poolString :: "string \<Rightarrow> tree_context \<Rightarrow> nat \<times> tree_context" where
  "poolString str c = (case tc_pool c str of
     Some ref \<Rightarrow> (ref, c)
   | None \<Rightarrow> (let ref = tc_next c in
       (ref, c\<lparr>tc_next := Suc ref, tc_chars := (tc_chars c)(ref \<mapsto> str), tc_pool := (tc_pool c)(str \<mapsto> ref)\<rparr>)))"

definition pool_ok :: "tree_context \<Rightarrow> bool" where
  "pool_ok c \<longleftrightarrow> (\<forall>str ref. tc_pool c str = Some ref \<longrightarrow> tc_chars c ref = Some str)
     \<and> (\<forall>a. tc_next c \<le> a \<longrightarrow> tc_chars c a = None) \<and> distinct (tc_allocated c)
     \<and> (\<forall>a \<in> set (tc_allocated c). a < tc_next c \<and> tc_chars c a = None)"

lemma pool_okD:
  assumes "pool_ok c"
  shows "tc_pool c str = Some ref \<Longrightarrow> tc_chars c ref = Some str" "tc_chars c (tc_next c) = None"
    "tc_chars c ref = Some str \<Longrightarrow> ref < tc_next c" "tc_next c \<notin> set (tc_allocated c)"
  using assms by (auto simp: pool_ok_def not_less [symmetric])

lemma pool_ok_new: "pool_ok tree_context_new"
  by (simp add: pool_ok_def tree_context_new_def)

lemma pool_ok_allocate:
  assumes "pool_ok c" shows "pool_ok (snd (allocate_fragment b c))"
  using assms pool_okD(2,4) [OF assms]
  by (cases b) (auto simp: pool_ok_def allocate_fragment_def less_Suc_eq)

lemma pool_ok_pool:
  assumes "pool_ok c" shows "pool_ok (snd (poolString str c))"
proof (cases "tc_pool c str")
  case None
  define d where "d = snd (poolString str c)"
  have d: "tc_next d = Suc (tc_next c)" "tc_chars d = (tc_chars c)(tc_next c \<mapsto> str)"
    "tc_pool d = (tc_pool c)(str \<mapsto> tc_next c)" "tc_allocated d = tc_allocated c"
    using None by (simp_all add: d_def poolString_def Let_def)
  have "tc_pool d s = Some ref \<Longrightarrow> tc_chars d ref = Some s" for s ref
    using pool_okD(1-3) [OF assms] d by (auto split: if_splits)
  moreover have "tc_next d \<le> a \<Longrightarrow> tc_chars d a = None" for a
    using assms d(1,2) by (simp add: pool_ok_def)
  moreover have "\<forall>a \<in> set (tc_allocated d). a < tc_next d \<and> tc_chars d a = None"
    using assms pool_okD(4) [OF assms] d by (auto simp: pool_ok_def less_Suc_eq)
  ultimately show ?thesis using assms unfolding d_def [symmetric] by (simp add: pool_ok_def d(4))
qed (use assms in \<open>simp add: poolString_def\<close>)

text \<open>
  A pooled string keeps its characters while others are pooled, and equal strings share a reference:
  references can be compared instead of characters.
\<close>

lemma poolString_chars:
  assumes "pool_ok c" shows "tc_chars (snd (poolString str c)) (fst (poolString str c)) = Some str"
  using pool_okD(1) [OF assms] by (auto simp: poolString_def Let_def split: option.splits)

lemma poolString_keeps:
  assumes "pool_ok c" and "tc_chars c ref = Some s" shows "tc_chars (snd (poolString str c)) ref = Some s"
proof -
  have "ref < tc_next c" by (rule pool_okD(3) [OF assms])
  with assms(2) show ?thesis by (simp add: poolString_def Let_def split: option.splits)
qed

lemma poolString_eq_iff:
  assumes "pool_ok c"
  shows "fst (poolString s (snd (poolString t c))) = fst (poolString t c) \<longleftrightarrow> s = t"
proof -
  define d where "d = snd (poolString t c)"
  have d: "pool_ok d" unfolding d_def by (rule pool_ok_pool [OF assms])
  have "tc_chars d (fst (poolString t c)) = Some t" unfolding d_def by (rule poolString_chars [OF assms])
  then have "tc_chars (snd (poolString s d)) (fst (poolString t c)) = Some t" by (rule poolString_keeps [OF d])
  moreover have "tc_chars (snd (poolString s d)) (fst (poolString s d)) = Some s" by (rule poolString_chars [OF d])
  moreover have "fst (poolString t d) = fst (poolString t c)"
    by (simp add: d_def poolString_def Let_def split: option.splits)
  ultimately show ?thesis unfolding d_def [symmetric] by auto
qed

section \<open>Pointers\<close>

definition requiresNonNull :: "'a option \<Rightarrow> 'a res" where
  "requiresNonNull ptr = bindE (assertE (ptr \<noteq> None) ''Require the pointer to be non null!'')
     (\<lambda>_. case ptr of Some p \<Rightarrow> Inr p | None \<Rightarrow> Inl NullDeref)"

text \<open>A nullable is a pointer and a container of at most one element.\<close>

datatype 'a nullable = Nullable (pointer_of: "'a option")

definition nullable_empty :: "'a nullable \<Rightarrow> bool" where
  "nullable_empty n \<longleftrightarrow> pointer_of n = None"

definition nullable_deref :: "'a nullable \<Rightarrow> 'a res" where
  "nullable_deref n = requiresNonNull (pointer_of n)"

text \<open>The elements between \<open>begin()\<close> and \<open>end()\<close>.\<close>

definition nullable_elements :: "'a nullable \<Rightarrow> 'a option list" where
  "nullable_elements n = (if \<not> nullable_empty n then [pointer_of n] else [])"

definition nullable_map :: "('a \<Rightarrow> 'b nullable res) \<Rightarrow> 'a nullable \<Rightarrow> 'b nullable res" where
  "nullable_map f n = (if \<not> nullable_empty n then bindE (nullable_deref n) f else Inr (Nullable None))"

definition static_nullable_cast :: "('a \<Rightarrow> 'b) \<Rightarrow> 'a nullable \<Rightarrow> 'b option res" where
  "static_nullable_cast cast n =
     (if \<not> nullable_empty n then bindE (nullable_deref n) (\<lambda>p. Inr (Some (cast p))) else Inr None)"

text \<open>Pointers that must not be null; one that is not initialised is null with assertions.\<close>

datatype 'a non_null = NonNull "'a option"

definition non_null_default :: "'a non_null" where
  "non_null_default = NonNull None"

definition non_null_new :: "'a option \<Rightarrow> 'a non_null res" where
  "non_null_new ptr = bindE (requiresNonNull ptr) (\<lambda>p. Inr (NonNull (Some p)))"

fun non_null_deref :: "'a non_null \<Rightarrow> 'a res" where
  "non_null_deref (NonNull ptr) = requiresNonNull ptr"

lemma requiresNonNull_eq: "requiresNonNull ptr = (case ptr of Some p \<Rightarrow> Inr p
    | None \<Rightarrow> Inl (AssertFailed ''Require the pointer to be non null!''))"
  by (cases ptr) (simp_all add: requiresNonNull_def assertE_def bindE_def)

text \<open>Looping over a nullable visits what \<open>map\<close> would be given, and never dereferences null.\<close>

lemma nullable_elements_deref:
  "mapE requiresNonNull (nullable_elements n) = Inr (case pointer_of n of None \<Rightarrow> [] | Some p \<Rightarrow> [p])"
  by (cases "pointer_of n") (simp_all add: nullable_elements_def nullable_empty_def requiresNonNull_eq)

lemma nullable_map_compose:
  "bindE (nullable_map (\<lambda>x. Inr (Nullable (Some (f x)))) n) (nullable_map g) = nullable_map (\<lambda>x. g (f x)) n"
  by (cases n; cases "pointer_of n")
    (simp_all add: nullable_map_def nullable_empty_def nullable_deref_def requiresNonNull_eq)

lemma non_null_round: "bindE (non_null_new ptr) non_null_deref = requiresNonNull ptr"
  by (cases ptr) (simp_all add: non_null_new_def requiresNonNull_eq)

section \<open>Actions when a scope is left\<close>

text \<open>An action is run by the holder that owns it. Moving it takes the ownership away from the source.\<close>

record 's leave_action =
  leaveAction :: "'s \<Rightarrow> 's res"
  owner :: ownership

definition leave_action_new :: "('s \<Rightarrow> 's res) \<Rightarrow> 's leave_action" where
  "leave_action_new f = \<lparr>leaveAction = f, owner = ownership_new\<rparr>"

definition leave_action_move :: "'s leave_action \<Rightarrow> 's leave_action \<times> 's leave_action" where
  "leave_action_move right = (case ownership_move (owner right) of
     (new, old) \<Rightarrow> (right\<lparr>owner := new\<rparr>, right\<lparr>owner := old\<rparr>))"

definition leave_action_destroy :: "'s leave_action \<Rightarrow> 's \<Rightarrow> 's res" where
  "leave_action_destroy x s = (if hasOwnership (owner x) then leaveAction x s else Inr s)"

text \<open>
  However often an action is moved, and whatever order its holders are destroyed in, it is run exactly
  once. \<open>holders n x\<close> are the objects after \<open>n\<close> moves, the last one first.
\<close>

fun holders :: "nat \<Rightarrow> 's leave_action \<Rightarrow> 's leave_action list" where
  "holders 0 x = [x]"
| "holders (Suc n) x = (case leave_action_move x of (new, old) \<Rightarrow> holders n new @ [old])"

lemma leave_action_run_once:
  assumes "hasOwnership (owner x)" and "mset ys = mset (holders n x)"
  shows "foldE leave_action_destroy ys s = leaveAction x s"
proof -
  have once: "\<exists>y zs. mset (holders n x) = add_mset y (mset zs) \<and> hasOwnership (owner y) \<and> leaveAction y = leaveAction x
      \<and> (\<forall>z \<in> set zs. \<not> hasOwnership (owner z))"
    using assms(1)
  proof (induction n arbitrary: x)
    case 0
    then show ?case by (intro exI [of _ x] exI [of _ "[]"]) simp
  next
    case (Suc n)
    obtain new old where m: "leave_action_move x = (new, old)" by fastforce
    then have "hasOwnership (owner new)" "leaveAction new = leaveAction x" "\<not> hasOwnership (owner old)"
      using Suc.prems by (auto simp: leave_action_move_def ownership_move_def)
    moreover obtain y zs where "mset (holders n new) = add_mset y (mset zs)" "hasOwnership (owner y)"
      "leaveAction y = leaveAction new" "\<forall>z \<in> set zs. \<not> hasOwnership (owner z)"
      using Suc.IH calculation(1) by blast
    ultimately show ?case using m by (intro exI [of _ y] exI [of _ "zs @ [old]"]) auto
  qed
  then obtain y zs where y: "mset ys = add_mset y (mset zs)" "hasOwnership (owner y)" "leaveAction y = leaveAction x"
    "\<forall>z \<in> set zs. \<not> hasOwnership (owner z)" using assms(2) by auto
  have skip: "foldE leave_action_destroy us t = Inr t" if "\<forall>z \<in> set us. \<not> hasOwnership (owner z)" for us t
    using that by (induction us) (simp_all add: leave_action_destroy_def)
  have "y \<in> set ys" using y(1) by (metis set_mset_mset union_single_eq_member)
  then obtain as bs where ys: "ys = as @ y # bs" by (auto simp: in_set_conv_decomp)
  with y(1) have "mset (as @ bs) = mset zs" by simp
  then have "\<forall>z \<in> set (as @ bs). \<not> hasOwnership (owner z)" using y(4) by (metis set_mset_mset)
  then show ?thesis using skip [of as s] skip [of bs] y(2,3) ys
    by (cases "leaveAction x s") (simp_all add: foldE_append leave_action_destroy_def)
qed

end
