(* ===== verification/Nodes.thy ===== *)
theory Nodes imports Memory begin

text \<open>
  The classes of \<^verbatim>\<open>src/AST/AST.hpp\<close> as they are in memory: objects whose fields are pointers, some of them
  null until a setter is called, and the dispatch on their class of \<^verbatim>\<open>src/AST/ASTTraversal.hpp\<close>. The other
  theories use the finished trees of \<open>AST\<close>; here the objects the constructors and setters build are
  shown to be these trees.
\<close>

section \<open>Objects\<close>

text \<open>Pointers to nodes, null is \<open>None\<close>. The base classes \<open>UnitASTNode\<close> and \<open>TopLevelASTNode\<close> are records.\<close>

type_synonym node_ptr = "addr option"

record unit_part =
  up_scope :: "addr non_null"
  up_children :: "node_ptr list"

record toplevel_part =
  tp_containingUnit :: "addr non_null"

datatype node_object =
    CompilationUnitNode unit_part
  | MetaUnitNode unit_part toplevel_part "addr non_null" "addr nullable" \<comment> \<open>instantiation, exported node\<close>
  | FunctionDeclNode toplevel_part ident "addr non_null" "addr nullable" node_ptr \<comment> \<open>arguments, return type, body\<close>
  | MetaDeclNode toplevel_part ident "addr non_null" "addr nullable" \<comment> \<open>arguments, contribution\<close>
  | MetaContributionNode source_range "node_ptr list"
  | ArgumentDeclListNode "node_ptr list"
  | AnonymousArgumentDeclNode
  | NamedArgumentDeclNode ident
  | GlobalConstantDeclNode toplevel_part ident "addr non_null"
  | UnscopedCompoundStmtNode "node_ptr list"
  | CompoundStmtNode "node_ptr list"
  | ReturnStmtNode "addr nullable"
  | ExpressionStmtNode "addr non_null"
  | DeclStmtNode ident "addr non_null"
  | IfStmtNode "addr non_null" "addr non_null" "addr nullable" \<comment> \<open>condition, branches\<close>
  | MetaIfStmtNode "addr non_null" "addr non_null" "addr nullable"
  | MetaCalculationStmtNode "addr non_null" "node_ptr list" \<comment> \<open>statement, exported declarations\<close>
  | DeclRefExprNode ident "addr nullable"
  | IntegerLiteralExprNode "(i32, source_range) annotated"
  | BooleanLiteralExprNode "(bool, source_range) annotated"
  | ErroneousExprNode
  | BinaryOperatorExprNode "(bin_op, source_range) annotated" "addr non_null" "addr non_null"
  | CallOperatorExprNode "addr non_null" "node_ptr list" \<comment> \<open>callee, arguments\<close>
  | MetaInstantiationExprNode "addr non_null" "node_ptr list" source_range \<comment> \<open>declaration, arguments\<close>

text \<open>The constructors, from the arguments they are given.\<close>

abbreviation unset :: "'a nullable" where
  "unset \<equiv> Nullable None"

abbreviation fresh_unit_part :: unit_part where
  "fresh_unit_part \<equiv> \<lparr>up_scope = non_null_default, up_children = []\<rparr>"

abbreviation fresh_toplevel :: toplevel_part where
  "fresh_toplevel \<equiv> \<lparr>tp_containingUnit = non_null_default\<rparr>"

fun construct :: "payload \<Rightarrow> node_object" where
  "construct PCompilationUnit = CompilationUnitNode fresh_unit_part"
| "construct (PMetaUnit i) = MetaUnitNode fresh_unit_part fresh_toplevel (NonNull (Some i)) unset"
| "construct (PFunctionDecl n) = FunctionDeclNode fresh_toplevel n non_null_default unset None"
| "construct (PMetaDecl n) = MetaDeclNode fresh_toplevel n non_null_default unset"
| "construct (PMetaContribution r) = MetaContributionNode r []"
| "construct PArgumentDeclList = ArgumentDeclListNode []"
| "construct PAnonymousArgumentDecl = AnonymousArgumentDeclNode"
| "construct (PNamedArgumentDecl n) = NamedArgumentDeclNode n"
| "construct (PGlobalConstantDecl n) = GlobalConstantDeclNode fresh_toplevel n non_null_default"
| "construct PUnscopedCompoundStmt = UnscopedCompoundStmtNode []"
| "construct PCompoundStmt = CompoundStmtNode []"
| "construct PReturnStmt = ReturnStmtNode unset"
| "construct PExpressionStmt = ExpressionStmtNode non_null_default"
| "construct (PDeclStmt n) = DeclStmtNode n non_null_default"
| "construct PIfStmt = IfStmtNode non_null_default non_null_default unset"
| "construct PMetaIfStmt = MetaIfStmtNode non_null_default non_null_default unset"
| "construct PMetaCalculationStmt = MetaCalculationStmtNode non_null_default []"
| "construct (PDeclRefExpr n) = DeclRefExprNode n unset"
| "construct (PIntegerLiteralExpr l) = IntegerLiteralExprNode l"
| "construct (PBooleanLiteralExpr l) = BooleanLiteralExprNode l"
| "construct PErroneousExpr = ErroneousExprNode"
| "construct (PBinaryOperatorExpr b) = BinaryOperatorExprNode b non_null_default non_null_default"
| "construct PCallOperatorExpr = CallOperatorExprNode non_null_default []"
| "construct (PMetaInstantiationExpr r) = MetaInstantiationExprNode non_null_default [] r"

section \<open>Setters\<close>

text \<open>
  A setter of a class is undefined on objects of other classes, which the types of the code exclude.
  Assigning a pointer to a \<open>NonNull\<close> asserts that it is not null, assigning it to a \<open>Nullable\<close> does not.
\<close>

definition setScope :: "node_ptr \<Rightarrow> node_object \<Rightarrow> node_object res" where
  "setScope scope x = bindE (non_null_new scope) (\<lambda>scope. case x of
     CompilationUnitNode u \<Rightarrow> Inr (CompilationUnitNode (u\<lparr>up_scope := scope\<rparr>))
   | MetaUnitNode u t i e \<Rightarrow> Inr (MetaUnitNode (u\<lparr>up_scope := scope\<rparr>) t i e)
   | _ \<Rightarrow> Inl BadCast)"

definition setContainingUnit :: "node_ptr \<Rightarrow> node_object \<Rightarrow> node_object res" where
  "setContainingUnit node x = bindE (non_null_new node) (\<lambda>node. case x of
     MetaUnitNode u t i e \<Rightarrow> Inr (MetaUnitNode u (t\<lparr>tp_containingUnit := node\<rparr>) i e)
   | FunctionDeclNode t n a r b \<Rightarrow> Inr (FunctionDeclNode (t\<lparr>tp_containingUnit := node\<rparr>) n a r b)
   | MetaDeclNode t n a c \<Rightarrow> Inr (MetaDeclNode (t\<lparr>tp_containingUnit := node\<rparr>) n a c)
   | GlobalConstantDeclNode t n e \<Rightarrow> Inr (GlobalConstantDeclNode (t\<lparr>tp_containingUnit := node\<rparr>) n e)
   | _ \<Rightarrow> Inl BadCast)"

definition setExportedNode :: "node_ptr \<Rightarrow> node_object \<Rightarrow> node_object res" where
  "setExportedNode node x = (case x of
     MetaUnitNode u t i e \<Rightarrow> Inr (MetaUnitNode u t i (Nullable node))
   | _ \<Rightarrow> Inl BadCast)"

text \<open>\<open>addChild\<close> of \<open>UnitASTNode\<close> and of \<open>MetaContributionASTNode\<close>.\<close>

definition addUnitChild :: "node_ptr \<Rightarrow> node_object \<Rightarrow> node_object res" where
  "addUnitChild child x = (case x of
     CompilationUnitNode u \<Rightarrow> Inr (CompilationUnitNode (u\<lparr>up_children := up_children u @ [child]\<rparr>))
   | MetaUnitNode u t i e \<Rightarrow> Inr (MetaUnitNode (u\<lparr>up_children := up_children u @ [child]\<rparr>) t i e)
   | _ \<Rightarrow> Inl BadCast)"

definition addChild :: "node_ptr \<Rightarrow> node_object \<Rightarrow> node_object res" where
  "addChild node x = (case x of
     MetaContributionNode r cs \<Rightarrow> Inr (MetaContributionNode r (cs @ [node]))
   | _ \<Rightarrow> Inl BadCast)"

definition setArgDeclList :: "node_ptr \<Rightarrow> node_object \<Rightarrow> node_object res" where
  "setArgDeclList arguments x = bindE (non_null_new arguments) (\<lambda>arguments. case x of
     FunctionDeclNode t n a r b \<Rightarrow> Inr (FunctionDeclNode t n arguments r b)
   | MetaDeclNode t n a c \<Rightarrow> Inr (MetaDeclNode t n arguments c)
   | _ \<Rightarrow> Inl BadCast)"

definition setReturnType :: "node_ptr \<Rightarrow> node_object \<Rightarrow> node_object res" where
  "setReturnType returnType x = (case x of
     FunctionDeclNode t n a r b \<Rightarrow>
       bindE (assertE (nullable_empty r) ''Return Type already set!'') (\<lambda>_.
       Inr (FunctionDeclNode t n a (Nullable returnType) b))
   | _ \<Rightarrow> Inl BadCast)"

definition setBody_node :: "node_ptr \<Rightarrow> node_object \<Rightarrow> node_object res" where
  "setBody_node body x = (case x of
     FunctionDeclNode t n a r b \<Rightarrow> Inr (FunctionDeclNode t n a r body)
   | _ \<Rightarrow> Inl BadCast)"

definition addArgument :: "node_ptr \<Rightarrow> node_object \<Rightarrow> node_object res" where
  "addArgument argument x = (case x of
     ArgumentDeclListNode as \<Rightarrow> Inr (ArgumentDeclListNode (as @ [argument]))
   | _ \<Rightarrow> Inl BadCast)"

definition setMetaContribution :: "node_ptr \<Rightarrow> node_object \<Rightarrow> node_object res" where
  "setMetaContribution contribution x = (case x of
     MetaDeclNode t n a c \<Rightarrow> Inr (MetaDeclNode t n a (Nullable contribution))
   | _ \<Rightarrow> Inl BadCast)"

definition addStatement :: "node_ptr \<Rightarrow> node_object \<Rightarrow> node_object res" where
  "addStatement statement x = (case x of
     UnscopedCompoundStmtNode ss \<Rightarrow> Inr (UnscopedCompoundStmtNode (ss @ [statement]))
   | CompoundStmtNode ss \<Rightarrow> Inr (CompoundStmtNode (ss @ [statement]))
   | _ \<Rightarrow> Inl BadCast)"

text \<open>\<open>setExpression\<close> of the return statement takes null, that of the other classes does not.\<close>

definition setExpression_return :: "node_ptr \<Rightarrow> node_object \<Rightarrow> node_object res" where
  "setExpression_return expr x = (case x of
     ReturnStmtNode e \<Rightarrow> Inr (ReturnStmtNode (Nullable expr))
   | _ \<Rightarrow> Inl BadCast)"

definition setExpression :: "node_ptr \<Rightarrow> node_object \<Rightarrow> node_object res" where
  "setExpression expression x = bindE (non_null_new expression) (\<lambda>expression. case x of
     GlobalConstantDeclNode t n e \<Rightarrow> Inr (GlobalConstantDeclNode t n expression)
   | ExpressionStmtNode e \<Rightarrow> Inr (ExpressionStmtNode expression)
   | DeclStmtNode n e \<Rightarrow> Inr (DeclStmtNode n expression)
   | IfStmtNode e t f \<Rightarrow> Inr (IfStmtNode expression t f)
   | MetaIfStmtNode e t f \<Rightarrow> Inr (MetaIfStmtNode expression t f)
   | _ \<Rightarrow> Inl BadCast)"

definition setTrueBranch :: "node_ptr \<Rightarrow> node_object \<Rightarrow> node_object res" where
  "setTrueBranch branch x = bindE (non_null_new branch) (\<lambda>branch. case x of
     IfStmtNode e t f \<Rightarrow> Inr (IfStmtNode e branch f)
   | MetaIfStmtNode e t f \<Rightarrow> Inr (MetaIfStmtNode e branch f)
   | _ \<Rightarrow> Inl BadCast)"

definition setFalseBranch :: "node_ptr \<Rightarrow> node_object \<Rightarrow> node_object res" where
  "setFalseBranch branch x = (case x of
     IfStmtNode e t f \<Rightarrow> Inr (IfStmtNode e t (Nullable branch))
   | MetaIfStmtNode e t f \<Rightarrow> Inr (MetaIfStmtNode e t (Nullable branch))
   | _ \<Rightarrow> Inl BadCast)"

definition setStmt :: "node_ptr \<Rightarrow> node_object \<Rightarrow> node_object res" where
  "setStmt stmt x = bindE (non_null_new stmt) (\<lambda>stmt. case x of
     MetaCalculationStmtNode s ds \<Rightarrow> Inr (MetaCalculationStmtNode stmt ds)
   | _ \<Rightarrow> Inl BadCast)"

definition addExportedDecl :: "node_ptr \<Rightarrow> node_object \<Rightarrow> node_object res" where
  "addExportedDecl decl x = (case x of
     MetaCalculationStmtNode s ds \<Rightarrow> Inr (MetaCalculationStmtNode s (ds @ [decl]))
   | _ \<Rightarrow> Inl BadCast)"

definition setDecl :: "node_ptr \<Rightarrow> node_object \<Rightarrow> node_object res" where
  "setDecl decl x = (case x of
     DeclRefExprNode n d \<Rightarrow> Inr (DeclRefExprNode n (Nullable decl))
   | _ \<Rightarrow> Inl BadCast)"

definition isResolved :: "node_object \<Rightarrow> bool res" where
  "isResolved x = (case x of
     DeclRefExprNode n d \<Rightarrow> Inr (\<not> nullable_empty d)
   | _ \<Rightarrow> Inl BadCast)"

definition setInstantiatedDecl :: "node_ptr \<Rightarrow> node_object \<Rightarrow> node_object res" where
  "setInstantiatedDecl decl x = bindE (non_null_new decl) (\<lambda>decl. case x of
     MetaInstantiationExprNode d as r \<Rightarrow> Inr (MetaInstantiationExprNode decl as r)
   | _ \<Rightarrow> Inl BadCast)"

definition addInstantiationArgument :: "node_ptr \<Rightarrow> node_object \<Rightarrow> node_object res" where
  "addInstantiationArgument node x = (case x of
     MetaInstantiationExprNode d as r \<Rightarrow> Inr (MetaInstantiationExprNode d (as @ [node]) r)
   | _ \<Rightarrow> Inl BadCast)"

definition setLeftExpr :: "node_ptr \<Rightarrow> node_object \<Rightarrow> node_object res" where
  "setLeftExpr left x = bindE (non_null_new left) (\<lambda>left. case x of
     BinaryOperatorExprNode b l r \<Rightarrow> Inr (BinaryOperatorExprNode b left r)
   | _ \<Rightarrow> Inl BadCast)"

definition setRightExpr :: "node_ptr \<Rightarrow> node_object \<Rightarrow> node_object res" where
  "setRightExpr right x = bindE (non_null_new right) (\<lambda>right. case x of
     BinaryOperatorExprNode b l r \<Rightarrow> Inr (BinaryOperatorExprNode b l right)
   | _ \<Rightarrow> Inl BadCast)"

definition setCallee :: "node_ptr \<Rightarrow> node_object \<Rightarrow> node_object res" where
  "setCallee callee x = bindE (non_null_new callee) (\<lambda>callee. case x of
     CallOperatorExprNode c es \<Rightarrow> Inr (CallOperatorExprNode callee es)
   | _ \<Rightarrow> Inl BadCast)"

definition addExpression :: "node_ptr \<Rightarrow> node_object \<Rightarrow> node_object res" where
  "addExpression expr x = (case x of
     CallOperatorExprNode c es \<Rightarrow> Inr (CallOperatorExprNode c (es @ [expr]))
   | _ \<Rightarrow> Inl BadCast)"

lemmas setter_defs = setScope_def setContainingUnit_def setExportedNode_def addUnitChild_def addChild_def
  setArgDeclList_def setReturnType_def setBody_node_def addArgument_def setMetaContribution_def addStatement_def
  setExpression_return_def setExpression_def setTrueBranch_def setFalseBranch_def setStmt_def addExportedDecl_def
  setDecl_def setInstantiatedDecl_def addInstantiationArgument_def setLeftExpr_def setRightExpr_def setCallee_def
  addExpression_def

section \<open>The class and the children of an object\<close>

fun node_kind :: "node_object \<Rightarrow> ast_kind" where
  "node_kind (CompilationUnitNode u) = KindCompilationUnit"
| "node_kind (MetaUnitNode u t i e) = KindMetaUnit"
| "node_kind (FunctionDeclNode t n a r b) = KindFunctionDecl"
| "node_kind (MetaDeclNode t n a c) = KindMetaDecl"
| "node_kind (MetaContributionNode r cs) = KindMetaContribution"
| "node_kind (ArgumentDeclListNode as) = KindArgumentDeclList"
| "node_kind AnonymousArgumentDeclNode = KindAnonymousArgumentDecl"
| "node_kind (NamedArgumentDeclNode n) = KindNamedArgumentDecl"
| "node_kind (GlobalConstantDeclNode t n e) = KindGlobalConstantDecl"
| "node_kind (UnscopedCompoundStmtNode ss) = KindUnscopedCompoundStmt"
| "node_kind (CompoundStmtNode ss) = KindCompoundStmt"
| "node_kind (ReturnStmtNode e) = KindReturnStmt"
| "node_kind (ExpressionStmtNode e) = KindExpressionStmt"
| "node_kind (DeclStmtNode n e) = KindDeclStmt"
| "node_kind (IfStmtNode e t f) = KindIfStmt"
| "node_kind (MetaIfStmtNode e t f) = KindMetaIfStmt"
| "node_kind (MetaCalculationStmtNode s ds) = KindMetaCalculationStmt"
| "node_kind (DeclRefExprNode n d) = KindDeclRefExpr"
| "node_kind (IntegerLiteralExprNode l) = KindIntegerLiteralExpr"
| "node_kind (BooleanLiteralExprNode l) = KindBooleanLiteralExpr"
| "node_kind ErroneousExprNode = KindErroneousExpr"
| "node_kind (BinaryOperatorExprNode b l r) = KindBinaryOperatorExpr"
| "node_kind (CallOperatorExprNode c es) = KindCallOperatorExpr"
| "node_kind (MetaInstantiationExprNode d as r) = KindMetaInstantiationExpr"

text \<open>
  The \<open>children()\<close> members: fields that must not be null are dereferenced in the order they are listed,
  the body of a function is pushed as it is, and the elements of a vector are not looked at. Classes
  without such a member have no children.
\<close>

definition deref_list :: "addr non_null list \<Rightarrow> node_ptr list res" where
  "deref_list ps = mapE (\<lambda>p. bindE (non_null_deref p) (\<lambda>a. Inr (Some a))) ps"

fun node_children :: "node_object \<Rightarrow> node_ptr list res" where
  "node_children (CompilationUnitNode u) = Inr (up_children u)"
| "node_children (MetaUnitNode u t i e) = Inr (up_children u)"
| "node_children (FunctionDeclNode t n a r b) =
     bindE (deref_list [a]) (\<lambda>seq. Inr (seq @ nullable_elements r @ [b]))"
| "node_children (MetaDeclNode t n a c) =
     bindE (deref_list [a]) (\<lambda>seq. bindE (nullable_deref c) (\<lambda>c. Inr (seq @ [Some c])))"
| "node_children (MetaContributionNode r cs) = Inr cs"
| "node_children (ArgumentDeclListNode as) = Inr as"
| "node_children (GlobalConstantDeclNode t n e) = deref_list [e]"
| "node_children (UnscopedCompoundStmtNode ss) = Inr ss"
| "node_children (CompoundStmtNode ss) = Inr ss"
| "node_children (ReturnStmtNode e) = Inr (nullable_elements e)"
| "node_children (ExpressionStmtNode e) = deref_list [e]"
| "node_children (DeclStmtNode n e) = deref_list [e]"
| "node_children (IfStmtNode e t f) = bindE (deref_list [e, t]) (\<lambda>seq. Inr (seq @ nullable_elements f))"
| "node_children (MetaIfStmtNode e t f) = bindE (deref_list [e, t]) (\<lambda>seq. Inr (seq @ nullable_elements f))"
| "node_children (MetaCalculationStmtNode s ds) = deref_list [s]"
| "node_children (BinaryOperatorExprNode b l r) = deref_list [l, r]"
| "node_children (CallOperatorExprNode c es) = bindE (deref_list [c]) (\<lambda>seq. Inr (seq @ es))"
| "node_children (MetaInstantiationExprNode d as r) = bindE (deref_list [d]) (\<lambda>seq. Inr (seq @ as))"
| "node_children _ = Inr []"

section \<open>Dispatch on the class\<close>

text \<open>\<open>classof\<close> of each class: which kinds of node it accepts. Only one class has a subclass of its own.\<close>

definition classof :: "ast_kind \<Rightarrow> node_object \<Rightarrow> bool" where
  "classof k node \<longleftrightarrow> (if k = KindAnonymousArgumentDecl
     then node_kind node = KindAnonymousArgumentDecl \<or> node_kind node = KindNamedArgumentDecl
     else node_kind node = k)"

text \<open>The callback is called for the node, cast to the class its kind is registered for.\<close>

definition traverseNode :: "(ast_kind \<Rightarrow> node_object \<Rightarrow> 'a res) \<Rightarrow> node_object \<Rightarrow> 'a res" where
  "traverseNode callback node = (let k = node_kind node in
     bindE (assertE (classof k node) ''cast<Ty>() argument of incompatible type!'') (\<lambda>_. callback k node))"

definition traverseNodeExpecting ::
    "(ast_kind \<Rightarrow> bool) \<Rightarrow> (ast_kind \<Rightarrow> node_object \<Rightarrow> 'a res) \<Rightarrow> node_object \<Rightarrow> 'a res" where
  "traverseNodeExpecting predicate callback = traverseNode (\<lambda>k promoted.
     if predicate k then callback k promoted else Inl (Unreachable ''Expected the node to match the predicate!''))"

text \<open>The callback has effects only: a state is passed through.\<close>

definition traverseNodeIf ::
    "(ast_kind \<Rightarrow> bool) \<Rightarrow> (ast_kind \<Rightarrow> node_object \<Rightarrow> 's \<Rightarrow> 's res) \<Rightarrow> node_object \<Rightarrow> 's \<Rightarrow> 's res" where
  "traverseNodeIf predicate callback node s = traverseNode (\<lambda>k promoted.
     if predicate k then callback k promoted s else Inr s) node"

definition stmt_classof :: "node_object \<Rightarrow> bool res" where
  "stmt_classof node = traverseNode (\<lambda>k promoted. Inr (isStmtNode k)) node"

definition expr_classof :: "node_object \<Rightarrow> bool res" where
  "expr_classof node = traverseNode (\<lambda>k promoted. Inr (isExprNode k)) node"

text \<open>Dispatch never fails, and calls the callback for the class of the node.\<close>

lemma traverse_simps [simp]:
  "traverseNode f node = f (node_kind node) node"
  "traverseNodeExpecting p f node = (if p (node_kind node) then f (node_kind node) node
     else Inl (Unreachable ''Expected the node to match the predicate!''))"
  "traverseNodeIf p g node s = (if p (node_kind node) then g (node_kind node) node s else Inr s)"
  "stmt_classof node = Inr (isStmtNode (node_kind node))"
  "expr_classof node = Inr (isExprNode (node_kind node))"
  by (simp_all add: traverseNode_def traverseNodeExpecting_def traverseNodeIf_def stmt_classof_def
      expr_classof_def classof_def Let_def)

section \<open>Building a tree\<close>

text \<open>
  The calls the layout reader makes on the object of a node, in the order of its consume functions; the
  pointers are those the consume functions of the children return.
\<close>

definition ptr :: "ast \<Rightarrow> node_ptr" where
  "ptr t = Some (addr_of t)"

fun node_calls :: "ast \<Rightarrow> (node_object \<Rightarrow> node_object res) list" where
  "node_calls (CompilationUnit a cs) = map (\<lambda>c. addUnitChild (ptr c)) cs"
| "node_calls (MetaUnit a i cs) = map (\<lambda>c. addUnitChild (ptr c)) cs"
| "node_calls (FunctionDecl a n args r b) =
     setArgDeclList (ptr args) # map (\<lambda>r. setReturnType (ptr r)) (opt_list r) @ [setBody_node (ptr b)]"
| "node_calls (MetaDecl a n args c) = [setArgDeclList (ptr args), setMetaContribution (ptr c)]"
| "node_calls (MetaContribution a rg cs) = map (\<lambda>c. addChild (ptr c)) cs"
| "node_calls (ArgumentDeclList a cs) = map (\<lambda>c. addArgument (ptr c)) cs"
| "node_calls (GlobalConstantDecl a n e) = [setExpression (ptr e)]"
| "node_calls (UnscopedCompoundStmt a cs) = map (\<lambda>c. addStatement (ptr c)) cs"
| "node_calls (CompoundStmt a cs) = map (\<lambda>c. addStatement (ptr c)) cs"
| "node_calls (ReturnStmt a e) = map (\<lambda>e. setExpression_return (ptr e)) (opt_list e)"
| "node_calls (ExpressionStmt a e) = [setExpression (ptr e)]"
| "node_calls (DeclStmt a n e) = [setExpression (ptr e)]"
| "node_calls (IfStmt a c t f) =
     setExpression (ptr c) # setTrueBranch (ptr t) # map (\<lambda>f. setFalseBranch (ptr f)) (opt_list f)"
| "node_calls (MetaIfStmt a c t f) =
     setExpression (ptr c) # setTrueBranch (ptr t) # map (\<lambda>f. setFalseBranch (ptr f)) (opt_list f)"
| "node_calls (MetaCalculationStmt a s ds) = map (\<lambda>d. addExportedDecl (Some d)) ds @ [setStmt (ptr s)]"
| "node_calls (DeclRefExpr a n d) = map (\<lambda>d. setDecl (Some d)) (opt_list d)"
| "node_calls (BinaryOperatorExpr a b l r) = [setLeftExpr (ptr l), setRightExpr (ptr r)]"
| "node_calls (CallOperatorExpr a c es) = setCallee (ptr c) # map (\<lambda>e. addExpression (ptr e)) es"
| "node_calls (MetaInstantiationExpr a rg d es) =
     setInstantiatedDecl (ptr d) # map (\<lambda>e. addInstantiationArgument (ptr e)) es"
| "node_calls _ = []"

definition build_node :: "ast \<Rightarrow> node_object res" where
  "build_node t = foldE (\<lambda>call. call) (node_calls t) (construct (obj_payload (obj_of t)))"

type_synonym node_store = "addr \<Rightarrow> node_object option"

fun build_tree :: "ast \<Rightarrow> node_store \<Rightarrow> node_store res" where
  "build_tree t h = bindE (foldE build_tree (children t) h) (\<lambda>h. bindE (build_node t) (\<lambda>x. Inr (h(addr_of t \<mapsto> x))))"

declare build_tree.simps [simp del]

text \<open>What an object is worth as a node of a tree: its class, the arguments of its constructor and its children.\<close>

fun node_payload :: "node_object \<Rightarrow> payload res" where
  "node_payload (CompilationUnitNode u) = Inr PCompilationUnit"
| "node_payload (MetaUnitNode u t i e) = bindE (non_null_deref i) (\<lambda>i. Inr (PMetaUnit i))"
| "node_payload (FunctionDeclNode t n a r b) = Inr (PFunctionDecl n)"
| "node_payload (MetaDeclNode t n a c) = Inr (PMetaDecl n)"
| "node_payload (MetaContributionNode r cs) = Inr (PMetaContribution r)"
| "node_payload (ArgumentDeclListNode as) = Inr PArgumentDeclList"
| "node_payload AnonymousArgumentDeclNode = Inr PAnonymousArgumentDecl"
| "node_payload (NamedArgumentDeclNode n) = Inr (PNamedArgumentDecl n)"
| "node_payload (GlobalConstantDeclNode t n e) = Inr (PGlobalConstantDecl n)"
| "node_payload (UnscopedCompoundStmtNode ss) = Inr PUnscopedCompoundStmt"
| "node_payload (CompoundStmtNode ss) = Inr PCompoundStmt"
| "node_payload (ReturnStmtNode e) = Inr PReturnStmt"
| "node_payload (ExpressionStmtNode e) = Inr PExpressionStmt"
| "node_payload (DeclStmtNode n e) = Inr (PDeclStmt n)"
| "node_payload (IfStmtNode e t f) = Inr PIfStmt"
| "node_payload (MetaIfStmtNode e t f) = Inr PMetaIfStmt"
| "node_payload (MetaCalculationStmtNode s ds) = Inr PMetaCalculationStmt"
| "node_payload (DeclRefExprNode n d) = Inr (PDeclRefExpr n)"
| "node_payload (IntegerLiteralExprNode l) = Inr (PIntegerLiteralExpr l)"
| "node_payload (BooleanLiteralExprNode l) = Inr (PBooleanLiteralExpr l)"
| "node_payload ErroneousExprNode = Inr PErroneousExpr"
| "node_payload (BinaryOperatorExprNode b l r) = Inr (PBinaryOperatorExpr b)"
| "node_payload (CallOperatorExprNode c es) = Inr PCallOperatorExpr"
| "node_payload (MetaInstantiationExprNode d as r) = Inr (PMetaInstantiationExpr r)"

definition stands_for :: "node_object \<Rightarrow> ast \<Rightarrow> bool" where
  "stands_for x t \<longleftrightarrow> node_kind x = getKind t \<and> node_payload x = Inr (obj_payload (obj_of t))
     \<and> node_children x = Inr (map ptr (children t))"

lemma constructed: "node_kind (construct p) = kind_of_payload p" "node_payload (construct p) = Inr p"
  by (cases p; simp add: requiresNonNull_eq)+

text \<open>Adding to the vector of a class, element by element.\<close>

lemma foldE_adds:
  assumes "\<And>xs y. add y (C xs) = Inr (C (xs @ [y]))"
  shows "foldE (\<lambda>call. call) (map (\<lambda>c. add (g c)) cs @ rest) (C xs) = foldE (\<lambda>call. call) rest (C (xs @ map g cs))"
  using assms by (induction cs arbitrary: xs) simp_all

lemma adds_done:
  assumes "\<And>xs y. add y (C xs) = Inr (C (xs @ [y]))"
  shows "foldE (\<lambda>call. call) (map (\<lambda>c. add (g c)) cs) (C xs) = Inr (C (xs @ map g cs))"
  using foldE_adds [of add C g cs "[]" xs] assms by simp

lemma vector_adds [simp]:
  "foldE (\<lambda>call. call) (map (\<lambda>c. addUnitChild (ptr c)) cs) (CompilationUnitNode u)
    = Inr (CompilationUnitNode (u\<lparr>up_children := up_children u @ map ptr cs\<rparr>))"
  "foldE (\<lambda>call. call) (map (\<lambda>c. addUnitChild (ptr c)) cs) (MetaUnitNode u t i e)
    = Inr (MetaUnitNode (u\<lparr>up_children := up_children u @ map ptr cs\<rparr>) t i e)"
  "foldE (\<lambda>call. call) (map (\<lambda>c. addChild (ptr c)) cs) (MetaContributionNode r xs) = Inr (MetaContributionNode r (xs @ map ptr cs))"
  "foldE (\<lambda>call. call) (map (\<lambda>c. addArgument (ptr c)) cs) (ArgumentDeclListNode xs) = Inr (ArgumentDeclListNode (xs @ map ptr cs))"
  "foldE (\<lambda>call. call) (map (\<lambda>c. addStatement (ptr c)) cs) (UnscopedCompoundStmtNode xs)
    = Inr (UnscopedCompoundStmtNode (xs @ map ptr cs))"
  "foldE (\<lambda>call. call) (map (\<lambda>c. addStatement (ptr c)) cs) (CompoundStmtNode xs) = Inr (CompoundStmtNode (xs @ map ptr cs))"
  "foldE (\<lambda>call. call) (map (\<lambda>d. addExportedDecl (Some d)) ds @ calls) (MetaCalculationStmtNode s xs)
    = foldE (\<lambda>call. call) calls (MetaCalculationStmtNode s (xs @ map Some ds))"
  "foldE (\<lambda>call. call) (map (\<lambda>e. addExpression (ptr e)) cs) (CallOperatorExprNode c xs) = Inr (CallOperatorExprNode c (xs @ map ptr cs))"
  "foldE (\<lambda>call. call) (map (\<lambda>e. addInstantiationArgument (ptr e)) cs) (MetaInstantiationExprNode d xs rg)
    = Inr (MetaInstantiationExprNode d (xs @ map ptr cs) rg)"
  using adds_done [of addUnitChild "\<lambda>cs. CompilationUnitNode (u\<lparr>up_children := cs\<rparr>)" ptr cs "up_children u"]
    adds_done [of addUnitChild "\<lambda>cs. MetaUnitNode (u\<lparr>up_children := cs\<rparr>) t i e" ptr cs "up_children u"]
    adds_done [of addChild "MetaContributionNode r" ptr cs xs] adds_done [of addArgument ArgumentDeclListNode ptr cs xs]
    adds_done [of addStatement UnscopedCompoundStmtNode ptr cs xs] adds_done [of addStatement CompoundStmtNode ptr cs xs]
    foldE_adds [of addExportedDecl "MetaCalculationStmtNode s" Some ds calls xs]
    adds_done [of addExpression "CallOperatorExprNode c" ptr cs xs]
    adds_done [of addInstantiationArgument "\<lambda>xs. MetaInstantiationExprNode d xs rg" ptr cs xs]
  by (simp_all add: setter_defs)

text \<open>The calls of the reader never fail, and the object they leave stands for the node.\<close>

lemmas pointer_simps = non_null_new_def requiresNonNull_eq nullable_deref_def nullable_elements_def nullable_empty_def
  deref_list_def non_null_default_def

lemma ptr_simps: "non_null_new (ptr t) = Inr (NonNull (ptr t))" "requiresNonNull (ptr t) = Inr (addr_of t)"
  "Some (addr_of t) = ptr t" "ptr t \<noteq> None" "nullable_deref (Nullable (ptr t)) = Inr (addr_of t)"
  by (simp_all add: ptr_def pointer_simps)

lemmas build_simps = build_node_def stands_for_def setArgDeclList_def setMetaContribution_def setExpression_def
  setExpression_return_def setBody_node_def setReturnType_def setTrueBranch_def setFalseBranch_def setCallee_def
  setInstantiatedDecl_def setLeftExpr_def setRightExpr_def setStmt_def setDecl_def nullable_elements_def
  nullable_empty_def deref_list_def ptr_simps

lemma node_built: "\<exists>x. build_node t = Inr x \<and> stands_for x t"
proof (cases t)
  case (FunctionDecl a n args r b)
  then show ?thesis by (cases r) (simp_all add: build_simps)
next
  case (ReturnStmt a e)
  then show ?thesis by (cases e) (simp_all add: build_simps)
next
  case (IfStmt a c t f)
  then show ?thesis by (cases f) (simp_all add: build_simps)
next
  case (MetaIfStmt a c t f)
  then show ?thesis by (cases f) (simp_all add: build_simps)
next
  case (DeclRefExpr a n d)
  then show ?thesis by (cases d) (simp_all add: build_simps)
next
  case (MetaUnit a i cs)
  then show ?thesis by (simp add: build_simps requiresNonNull_eq)
qed (simp_all add: build_simps)

text \<open>
  The reader also links units, scopes, exported nodes and the declarations of references; whenever this
  happens, the object goes on to stand for the node.
\<close>

lemma links_kept:
  "setScope p x = Inr y \<Longrightarrow> node_kind y = node_kind x \<and> node_payload y = node_payload x \<and> node_children y = node_children x"
  "setContainingUnit p x = Inr y \<Longrightarrow> node_kind y = node_kind x \<and> node_payload y = node_payload x \<and> node_children y = node_children x"
  "setExportedNode p x = Inr y \<Longrightarrow> node_kind y = node_kind x \<and> node_payload y = node_payload x \<and> node_children y = node_children x"
  "setDecl p x = Inr y \<Longrightarrow> node_kind y = node_kind x \<and> node_payload y = node_payload x \<and> node_children y = node_children x"
  "addExportedDecl p x = Inr y \<Longrightarrow> node_kind y = node_kind x \<and> node_payload y = node_payload x \<and> node_children y = node_children x"
  by (cases p; cases x; auto simp: setScope_def setContainingUnit_def setExportedNode_def setDecl_def
      addExportedDecl_def pointer_simps)+

lemma links_keep_node:
  assumes "stands_for x t"
    and "y \<in> {z. setScope p x = Inr z \<or> setContainingUnit p x = Inr z \<or> setExportedNode p x = Inr z
      \<or> setDecl p x = Inr z \<or> addExportedDecl p x = Inr z}"
  shows "stands_for y t"
  using assms links_kept [of p x y] by (auto simp: stands_for_def)

text \<open>The return type of a function can be set once; null is refused by every field that must not be null.\<close>

lemma return_type_once:
  "\<lbrakk>setReturnType (Some a) x = Inr y; setReturnType p y = Inr z\<rbrakk> \<Longrightarrow> False"
  by (auto simp: setReturnType_def nullable_empty_def split: node_object.splits)

lemma null_refused:
  "setScope None x \<noteq> Inr y" "setContainingUnit None x \<noteq> Inr y" "setArgDeclList None x \<noteq> Inr y"
  "setExpression None x \<noteq> Inr y" "setTrueBranch None x \<noteq> Inr y" "setStmt None x \<noteq> Inr y"
  "setInstantiatedDecl None x \<noteq> Inr y" "setLeftExpr None x \<noteq> Inr y" "setRightExpr None x \<noteq> Inr y"
  "setCallee None x \<noteq> Inr y"
  by (simp_all add: setter_defs pointer_simps)

text \<open>
  The children of an object that was only constructed: none where the class keeps them in a vector, and a
  failed assertion where it has a field that must be set first.
\<close>

lemma children_of_constructed:
  "node_children (construct p) = (if kind_of_payload p \<in> {KindCompilationUnit, KindMetaUnit, KindMetaContribution,
      KindArgumentDeclList, KindUnscopedCompoundStmt, KindCompoundStmt, KindReturnStmt} \<or> \<not> hasChildren (kind_of_payload p)
    then Inr [] else Inl (AssertFailed ''Require the pointer to be non null!''))"
  by (cases p) (simp_all add: pointer_simps)

text \<open>Assembling a tree: every node of it has an object that stands for it, and no other object is touched.\<close>

lemma build_tree_step:
  "build_tree t h = bindE (foldE build_tree (children t) h) (\<lambda>h. bindE (build_node t) (\<lambda>x. Inr (h(addr_of t \<mapsto> x))))"
  by (rule build_tree.simps)

definition stored :: "node_store \<Rightarrow> ast \<Rightarrow> bool" where
  "stored h t \<longleftrightarrow> (\<exists>x. h (addr_of t) = Some x \<and> stands_for x t)"

lemma assembled_parts:
  assumes "\<And>c h. c \<in> set cs \<Longrightarrow> distinct (map addr_of (nodes c)) \<Longrightarrow> \<exists>h'. build_tree c h = Inr h'
      \<and> (\<forall>u \<in> set (nodes c). stored h' u) \<and> (\<forall>a. a \<notin> addr_of ` set (nodes c) \<longrightarrow> h' a = h a)"
    and "distinct (map addr_of (nodes_of cs))"
  shows "\<exists>h'. foldE build_tree cs h = Inr h' \<and> (\<forall>u \<in> set (nodes_of cs). stored h' u)
      \<and> (\<forall>a. a \<notin> addr_of ` set (nodes_of cs) \<longrightarrow> h' a = h a)"
  using assms
proof (induction cs arbitrary: h)
  case Nil
  then show ?case by simp
next
  case (Cons c cs)
  have d: "distinct (map addr_of (nodes c))" "distinct (map addr_of (nodes_of cs))" using Cons.prems(2) by simp_all
  from Cons.prems(1) [of c h] d(1) obtain h1 where h1: "build_tree c h = Inr h1" "\<forall>u \<in> set (nodes c). stored h1 u"
    "\<forall>a. a \<notin> addr_of ` set (nodes c) \<longrightarrow> h1 a = h a" by auto
  have "\<exists>h'. foldE build_tree cs h1 = Inr h' \<and> (\<forall>u \<in> set (nodes_of cs). stored h' u)
      \<and> (\<forall>a. a \<notin> addr_of ` set (nodes_of cs) \<longrightarrow> h' a = h1 a)"
    by (rule Cons.IH [OF _ d(2)]) (simp add: Cons.prems(1))
  then obtain h2 where h2: "foldE build_tree cs h1 = Inr h2" "\<forall>u \<in> set (nodes_of cs). stored h2 u"
    "\<forall>a. a \<notin> addr_of ` set (nodes_of cs) \<longrightarrow> h2 a = h1 a" by blast
  have "h2 (addr_of u) = h1 (addr_of u)" if "u \<in> set (nodes c)" for u
    using Cons.prems(2) h2(3) that by auto
  with h1(2) have "\<forall>u \<in> set (nodes c). stored h2 u" by (simp add: stored_def)
  with h1(1,3) h2 show ?case by (simp add: ball_Un image_Un)
qed

lemma assembled:
  "distinct (map addr_of (nodes t)) \<Longrightarrow> \<exists>h'. build_tree t h = Inr h' \<and> (\<forall>u \<in> set (nodes t). stored h' u)
    \<and> (\<forall>a. a \<notin> addr_of ` set (nodes t) \<longrightarrow> h' a = h a)"
proof (induction t arbitrary: h rule: ast_children_induct)
  case (node t)
  have d: "distinct (map addr_of (nodes_of (children t)))" "addr_of t \<notin> addr_of ` set (nodes_of (children t))"
    using node.prems by (simp_all add: nodes_eq [of t])
  from assembled_parts [OF node.IH d(1)] obtain h1 where h1: "foldE build_tree (children t) h = Inr h1"
    "\<forall>u \<in> set (nodes_of (children t)). stored h1 u"
    "\<forall>a. a \<notin> addr_of ` set (nodes_of (children t)) \<longrightarrow> h1 a = h a" by blast
  obtain x where x: "build_node t = Inr x" "stands_for x t" using node_built by blast
  have "stored (h1(addr_of t \<mapsto> x)) u" if "u \<in> set (nodes t)" for u
  proof (cases "u = t")
    case False
    with that have "u \<in> set (nodes_of (children t))" by (simp add: nodes_eq [of t])
    moreover from this d(2) have "addr_of u \<noteq> addr_of t" by (metis imageI)
    ultimately show ?thesis using h1(2) by (simp add: stored_def)
  qed (use x in \<open>simp add: stored_def\<close>)
  with h1 x(1) show ?case by (simp add: build_tree_step [of t] nodes_eq [of t])
qed

end
