(* ===== verification/Spec2Isabelle.thy ===== *)
theory Spec2Isabelle imports Samples_Instance Driver Nodes begin

text \<open>
  swy is a compiler for a small language of integer functions with meta declarations: templates of
  top level nodes that are instantiated with integer arguments at compile time. A source file is
  parsed by ANTLR; a visitor writes the nodes of the syntax tree into a layout, a flat preorder
  listing with reduce markers; a layout reader builds the tree from the layout, introduces the
  declarations into scopes and resolves the references. The tree is checked, and its functions are
  generated from a work list into an LLVM module. Instantiating a meta declaration generates a meta
  function, ships it with the functions it calls to an execution engine and runs it; its callbacks
  write a new layout that the same reader reads into a meta unit, which exports the function the
  instantiation stands for.

  Theories and the code they model:
   \<^item> \<open>Prelude\<close>: results with faults (failed assertions, null dereferences, reads out of bounds,
     exhausted fuel), loops over lists that may fault, and a weakest precondition for results.
   \<^item> \<open>AST\<close>: \<^verbatim>\<open>src/AST/AST.hpp\<close>, \<^verbatim>\<open>AST.inl\<close>, \<^verbatim>\<open>AST.cpp\<close>, \<^verbatim>\<open>ASTPredicate.hpp\<close>. A node carries the address
     it is allocated at; a pointer to a node that is not a child is such an address.
   \<^item> \<open>Memory\<close>: \<^verbatim>\<open>src/AST/ASTContext\<close>, \<^verbatim>\<open>src/Support/Nullable.hpp\<close>, \<^verbatim>\<open>ScopeLeaveAction.hpp\<close>: fragments
     and pooled strings, whose references are equal exactly for equal strings, pointers that may or must
     not be null, and actions that are run once. The other theories use options, strings and addresses.
   \<^item> \<open>Nodes\<close>: the classes of \<^verbatim>\<open>src/AST/AST.hpp\<close> as objects with pointers, their setters, and the dispatch of
     \<^verbatim>\<open>src/AST/ASTTraversal.hpp\<close>; the calls the layout reader makes assemble the trees of \<open>AST\<close>.
   \<^item> \<open>Diagnostics\<close>: \<^verbatim>\<open>src/Diag\<close> and \<^verbatim>\<open>src/Support/Ownership.hpp\<close>. The engine is its counters and the
     list of printed messages.
   \<^item> \<open>Cursor\<close>: \<^verbatim>\<open>src/AST/ASTCursor\<close> and the depth stack of \<^verbatim>\<open>src/Parse/BasicParser\<close>.
   \<^item> \<open>Scope\<close>: \<^verbatim>\<open>src/AST/ASTScope\<close>; the locale \<open>scope_contract\<close> is what the builder relies on.
   \<^item> \<open>Builder\<close>: \<^verbatim>\<open>src/Parse/BasicASTBuilder\<close>; \<open>Layout\<close> and \<open>Reader\<close>: \<^verbatim>\<open>src/Parse/ASTLayout\<close>. The state of
     the reader extends the state of the builder as the class does; a scope guard is an enter and a
     leave operation around the body it guards.
   \<^item> \<open>Reader_Frame\<close>, \<open>Reader_Progress\<close>: what every consume function keeps of the state, and its
     termination. \<open>Grammar\<close>: which trees the classes and the grammar allow. \<open>Resolve\<close>: resolution as
     a function on trees and environments, the specification of the reader. \<open>Reader_RoundTrip\<close>,
     \<open>Reader_Inverse\<close>, \<open>Reader_Units\<close>: the reader implements it on every layout of such a tree.
     \<open>Reader_Footprint\<close>: which nodes know the unit they are contained in afterwards. \<open>Reader_Layout\<close>: on
     any layout at all, what the reader has consumed is the layout of the tree it returns.
   \<^item> \<open>Visitor\<close>: \<^verbatim>\<open>src/Parse/LocalScopeVisitor\<close>, \<^verbatim>\<open>BasicTreeVisitor\<close>, \<^verbatim>\<open>BasicTreeSupport\<close>. \<open>Visitor_Layout\<close>,
     \<open>Visitor_Trees\<close>: the tree a parse tree denotes, and that the visitor writes its layout.
   \<^item> \<open>Tooling\<close>: \<^verbatim>\<open>src/Tooling/ASTDumper\<close> and \<^verbatim>\<open>src/AST/ASTStringer\<close>.
   \<^item> \<open>Parser\<close>: \<^verbatim>\<open>src/Parse/ASTParser\<close>, \<^verbatim>\<open>src/Diag/DiagnosticListener\<close>, \<^verbatim>\<open>src/Frontend/CompilerInvocation\<close>.
   \<^item> \<open>Sema\<close>: \<^verbatim>\<open>src/Sema/SemaAnalysis\<close> and the traversal of \<^verbatim>\<open>src/AST/ASTVisitor.hpp\<close>, with the complaints about
     a tree as a function of the tree, and \<open>sema_safe\<close>, which holds exactly of the trees on which the
     analysis returns: it dereferences null at an instantiation of anything but a meta declaration.
     \<open>Dependency\<close>: \<^verbatim>\<open>src/Sema/DependencyAnalysis\<close>.
   \<^item> \<open>Mangling\<close>: \<^verbatim>\<open>src/Codegen/NameMangeling\<close>. \<open>Shapes\<close>: copies of trees and the addresses of their
     nodes. \<open>Cloner\<close>: \<^verbatim>\<open>src/AST/ASTCloner\<close> and the node contributor of \<^verbatim>\<open>src/Codegen/CodeExecutor.cpp\<close>.
   \<^item> \<open>IR\<close>: the calls of the IR builder a generator makes, as a list; \<open>IR_Exec\<close>: what the blocks they
     build do when they are run. \<open>Semantics\<close>: what a function of the source means.
   \<^item> \<open>FunctionCodegen\<close>: \<^verbatim>\<open>src/Codegen/FunctionCodegen\<close>. \<open>Codegen_Frame\<close>: what generating a statement adds
     to a function under construction. \<open>Codegen_Context\<close>: the locale \<open>ir_context_laws\<close>, what a generator
     relies on of its context. \<open>Codegen_Sim\<close>, \<open>Codegen_Correct\<close>: the code of a function computes its
     meaning. \<open>Codegen_Total\<close>: functions for which the generator succeeds.
   \<^item> \<open>CodegenBase\<close>, \<open>MetaCodegen\<close>, \<open>CodegenInstance\<close>, \<open>CodeExecutor\<close>: the files of these names in
     \<^verbatim>\<open>src/Codegen\<close>. The state of the instance and the executor is one record; the call of the executor
     by the instance is an argument of the instance's operations, and \<open>instantiate\<close> ties the knot.
   \<^item> \<open>Codegen_Laws\<close>: both contexts keep the laws of \<open>ir_context_laws\<close>. \<open>Codegen_Unit\<close>: the work list
     generates every function of a unit. \<open>Codegen_Program\<close>: a module with this code computes the
     meaning of the unit.
   \<^item> \<open>Meta_Semantics\<close>: what a meta declaration means: the calls of the callbacks it makes, which for a
     tree that is contributed as it is are those of the tree's layout. \<open>Meta_Frame\<close>: what generating a
     meta declaration adds to a function, with cursors that return to where they were. \<open>Meta_Correct\<close>: the
     code of a meta function makes the calls its declaration means; the locale \<open>meta_context\<close> extends the
     one of the function generator, whose lemmas on sequences and branches it instantiates. \<open>Codegen_Refused\<close>: expressions that
     the generators refuse wherever they are: instantiations that have not been completed, and meta
     declarations that are used as values.
   \<^item> \<open>Executor_Pull\<close>: pulling the functions of a shipment when one of them is needed under two keys.
   \<^item> \<open>Translate\<close>: \<^verbatim>\<open>src/Frontend/CompilationUnit.cpp\<close>, the whole pipeline; \<open>Translate_Correct\<close>: its result.
   \<^item> \<open>Driver\<close>: \<^verbatim>\<open>src/Main.cpp\<close> with its options and exit status, \<^verbatim>\<open>src/Frontend/CompilerInstance.cpp\<close>,
     and the fields \<^verbatim>\<open>src/Tooling/TokenDumper.cpp\<close> dumps of each token.
   \<^item> \<open>Samples\<close>, \<open>Samples_Codegen\<close>, \<open>Samples_Meta\<close>, \<open>Samples_Instance\<close>: the concrete inputs of the
     witnesses. The last one carries out an instantiation, from the empty table of instances to the unit.

  Fuel. The consume functions call each other through the class of the next node; the reader has as
  fuel the number of layout elements that are left and two, and \<open>reader_terminates\<close> shows that this
  is enough for every layout. The crawl and the dumper have the length of the layout as fuel. The
  work list of the instance has a number of rounds as fuel; \<open>program_generated\<close> shows that two for
  each top level node are enough when nothing is instantiated. Instantiations nest as deep as the
  program says, which may be forever: \<open>instantiate\<close> takes this depth, and the number of functions
  that are pulled for a shipment, as fuel, and without enough of it the result is a fault of its own.
  The meaning of a program bounds the depth of its calls, the run of a module the steps of each call.

  Parameters. The recogniser ANTLR generates (a parse tree is an input, together with the syntax
  errors its listener gets) and the vocabulary of its tokens, the edit distance, integer conversion,
  pointer printing and hash map order of the library, its command line parser and its registry of
  target machines, whether it builds an execution engine, the passes that optimise a function, and
  which callbacks a run of the engine makes. \<open>meta_declaration_runs\<close> says which callbacks the generated
  code itself makes when its blocks are run; it asks that calculations in the branches of a meta
  condition declare variables only in blocks of their own and that conditions are not variables or
  assignments of variables (\<open>meta_ok\<close>), since the code of such a condition takes the true branch
  whatever the variable holds.

  Side conditions. \<open>program_computes\<close> and \<open>program_generated\<close> are about programs that instantiate nothing
  (\<open>plain_functions\<close>), and leave out two kinds of programs that are accepted and crash the generator:
  those with statements behind one that ends the control flow (\<open>dead_code_crashes\<close>) and those that use
  a meta declaration as a value (\<open>meta_value_crashes\<close>). The first one also leaves out conditions that are
  a variable or an assignment of one (\<open>branches_plain\<close>), which the code never tests
  (\<open>plain_condition_taken\<close>).

  Not modelled: message formatting, YAML output, verbose output and logging, the registration of
  library passes, data layouts, and the LLVM types beyond integers, pointers to stack slots,
  functions and the context. What is left of the sources are the declarations of classes, the
  includes, and templates that select overloads at compile time. The run of a module (\<open>IR_Exec\<close>) covers what the
  generators emit; it is not a model of LLVM.
\<close>

section \<open>Translating a source file\<close>



text \<open>
  C2. Generating a plain program succeeds, whatever order the hash sets have and with two rounds
  of the work list for each top level node: the module has the functions of the source, each under
  its name, and every one of them has a body.
\<close>

theorem program_generated:
  fixes vp cs
  defines "u \<equiv> source_unit vp cs"
  assumes "conforms None (Context R_compilationUnit cs)" and "hasEmitAction (x_invocation X) EmitNone"
    and "accepted vp cs" and "plain_functions u" and "2 * length (children u) \<le> m"
  shows "\<exists>mdl e. translate X vp (Suc n) m True lexing [] (Context R_compilationUnit cs) = Inr (DumpedModule mdl, e)
    \<and> dom mdl = name_of ` set (functions_of u) \<and> (\<forall>f g. mdl f = Some g \<longrightarrow> \<not> isDeclaration g)"
proof -
  from translate_generates [OF assms(2-6) [unfolded u_def], of n lexing] obtain mdl e where
    "translate X vp (Suc n) m True lexing [] (Context R_compilationUnit cs) = Inr (DumpedModule mdl, e)"
    "dom mdl = name_of ` set (functions_of u)" "\<forall>f g. mdl f = Some g \<longrightarrow> \<not> isDeclaration g"
    unfolding u_def by (elim exE conjE)
  then show ?thesis by (intro exI [of _ mdl] exI [of _ e] conjI)
qed

theorem program_generated_witness:
  "\<exists>mdl e. translate sample_external sample_vparams 1 2 True [] [] (Context R_compilationUnit sample_parse_children)
      = Inr (DumpedModule mdl, e) \<and> dom mdl = {''f''} \<and> (\<forall>f g. mdl f = Some g \<longrightarrow> gl_body g \<noteq> None)"
proof -
  have e: "hasEmitAction (x_invocation sample_external) EmitNone"
    "2 * length (children (source_unit sample_vparams sample_parse_children)) \<le> 2"
    by (simp_all add: sample_external_def sample_invocation_def hasEmitAction_def sample_source)
  from program_generated [OF sample_conforms e(1) sample_accepted sample_plain e(2), of 0 "[]"]
  show ?thesis
    unfolding sample_functions isDeclaration_def One_nat_def
    by (simp add: resolved_function_def name_of_def name_str_def getName_def named_def)
qed

text \<open>
  C3. The stages of translating a source file. Syntax errors, then literals and types the visitor
  rejects and names that are unknown or declared twice, stop it after parsing. Then an
  instantiation whose reference is not a meta declaration, or a call of something that has no
  name, makes the checks fail instead of reporting it. Then calls and instantiations that do not
  fit stop it after checking, with the number of errors the checks complain about; then the tree
  is dumped if that was asked for.
\<close>

theorem translation_stages:
  fixes vp cs
  defines "u \<equiv> source_unit vp cs" and "pt \<equiv> Context R_compilationUnit cs"
  assumes c: "conforms None (Context R_compilationUnit cs)"
    and emit: "\<not> hasEmitAction (x_invocation X) EmitTokens" "\<not> hasEmitAction (x_invocation X) EmitFlatLayout"
      "\<not> hasEmitAction (x_invocation X) EmitLayout"
  shows "if errs \<noteq> [] then \<exists>e. translate X vp n m created lexing errs pt = Inr (NotParsed (ParseAborted (length errs)), e)
    else if complaints vp pt \<noteq> [] \<or> unit_err shadows_nothing Map.empty (denoted_unit vp cs)
      then \<exists>k e. translate X vp n m created lexing errs pt = Inr (NotParsed (ParseAborted k), e)
    else if \<not> sema_safe (heap_with u Map.empty) None u
      then \<exists>f. translate X vp n m created lexing errs pt = Inl f
    else if \<not> tree_fits (heap_with u Map.empty) None u
      then 0 < error_complaints (heap_with u Map.empty) u \<and> (\<exists>e. translate X vp n m created lexing errs pt
        = Inr (CheckingFailed (error_complaints (heap_with u Map.empty) u), e))
    else hasEmitAction (x_invocation X) EmitAST \<longrightarrow>
      (\<exists>e. translate X vp n m created lexing errs pt = Inr (DumpedAST u, e) \<and> \<not> hasErrors e)"
proof (cases "errs = [] \<and> complaints vp pt = [] \<and> \<not> unit_err shadows_nothing Map.empty (denoted_unit vp cs)")
  case True
  note quiet = True
  show ?thesis
  proof (cases "sema_safe (heap_with u Map.empty) None u")
    case True
    from translate_checks [OF c emit _ _ True [unfolded u_def], where n = n and m = m and created = created
        and lexing = lexing] quiet True
    show ?thesis unfolding u_def pt_def hasErrors_def by (auto simp del: getOccurrenceCount.simps)
  next
    case False
    with translate_checks_fail [OF c emit, of vp n m created lexing] quiet
    show ?thesis unfolding u_def pt_def by auto
  qed
next
  case False
  with translate_parsed [OF c emit, of errs vp n m created lexing] show ?thesis unfolding pt_def by auto
qed

theorem translation_stages_witness:
  "\<exists>e. translate (sample_external\<lparr>x_invocation := sample_invocation\<lparr>emitAction := EmitAST\<rparr>\<rparr>) sample_vparams 0 0 True []
      [] (Context R_compilationUnit sample_parse_children) = Inr (DumpedAST (CompilationUnit 0 [resolved_function 1]), e)"
proof -
  let ?X = "sample_external\<lparr>x_invocation := sample_invocation\<lparr>emitAction := EmitAST\<rparr>\<rparr>"
  have a: "sema_safe (heap_with (source_unit sample_vparams sample_parse_children) Map.empty) None
      (source_unit sample_vparams sample_parse_children)"
    "tree_fits (heap_with (source_unit sample_vparams sample_parse_children) Map.empty) None
      (source_unit sample_vparams sample_parse_children)"
    "\<not> unit_err shadows_nothing Map.empty (denoted_unit sample_vparams sample_parse_children)"
    using sample_accepted by (simp_all add: accepted_def)
  have e: "\<not> hasEmitAction (x_invocation ?X) EmitTokens" "\<not> hasEmitAction (x_invocation ?X) EmitFlatLayout"
    "\<not> hasEmitAction (x_invocation ?X) EmitLayout" "hasEmitAction (x_invocation ?X) EmitAST"
    by (simp_all add: hasEmitAction_def)
  from translation_stages [OF sample_conforms e(1-3), where errs = "[]" and vp = sample_vparams and n = 0 and m = 0
      and created = True and lexing = "[]"] a e(4)
  show ?thesis by (auto simp: sample_quiet sample_source)
qed

text \<open>
  C4. Running the code that is generated for a meta declaration. If the declaration, given its
  integer arguments, ends with a sequence of calls of the callbacks for contributing, reducing and
  introducing nodes, then the code ends with exactly these calls in this order, and with the same
  effects of the functions its calculations call. The first argument of the code stands for the
  context. Neither a condition of the declaration nor one in its calculations is a variable or an
  assignment of a variable, and a calculation below a branch of a meta condition declares no
  variable outside a block of its own; calculations that are not below a branch may declare any.
\<close>

theorem meta_declaration_runs:
  assumes generated: "codegenMetaFunction (cp_heap S) (executor_context X (instantiate X n)) node (mg_new (Suc (length ks)) S) = Inr t"
    and ok: "meta_ok (cp_heap S) False node"
    and meaning: "exec_meta_function tell (linkage_of X S call) node ks w = Some (r, w')"
  shows "\<exists>k. steps k (ir_code (fc_builder t)) (meta_call_of tell call) (context # ks) (entry_config w) = Returned r w'"
  by (rule reaches_steps [OF meta_function_runs [OF generated same_trees_refl ok meaning]])

theorem meta_declaration_runs_witness:
  "\<exists>t k. codegenMetaFunction (cp_heap sample_compiler) (executor_context sample_external (instantiate sample_external 1))
        sample_meta (mg_new 2 sample_compiler) = Inr t
    \<and> steps k (ir_code (fc_builder t)) (meta_call_of recording (\<lambda>f ks w. None)) [0, 7] (entry_config [])
      = Returned None [JIntroduce 92 7 0, JContribute 97, JContribute 98, JReduce, JContribute 99, JReduce, JReduce]"
proof -
  obtain t where t: "codegenMetaFunction (cp_heap sample_compiler)
      (executor_context sample_external (instantiate sample_external 1)) sample_meta (mg_new 2 sample_compiler) = Inr t"
    using sample_meta_generated unfolding Suc_1 [unfolded One_nat_def] by blast
  from meta_declaration_runs [of sample_compiler sample_external 1 sample_meta "[7]" t recording "\<lambda>f ks w. None" "[]" None _ 0]
    t sample_declaration_ok sample_meta_meaning [of sample_external "\<lambda>f ks w. None" 7]
  show ?thesis by (auto simp: numeral_2_eq_2)
qed

section \<open>Parsing and reading\<close>

text \<open>
  C5. Parsing a source file end to end. With syntax errors, or with a literal or a type the
  visitor objects to, there is no result and errors are logged; with an emit action the layout is
  dumped; otherwise the result is exactly the tree the parse tree denotes, resolved by lexical
  scoping, and there is none if a name is unknown or declared twice.
\<close>

theorem parse_compilation_unit:
  fixes vp cs
  assumes "conforms None (Context R_compilationUnit cs)" and "\<not> hasErrors e"
  defines "t \<equiv> denoted_unit vp cs" and "pt \<equiv> Context R_compilationUnit cs"
  shows "\<exists>outcome e'. parse p vp ci errs pt e = Inr (outcome, e') \<and>
    (if errs \<noteq> [] then outcome = ParseAborted (length errs)
     else if complaints vp pt \<noteq> [] then \<exists>n. outcome = ParseAborted n
     else if hasEmitAction ci EmitFlatLayout then outcome = DumpedFlatLayout (dumpFlatLayout (flatten t))
     else if hasEmitAction ci EmitLayout then outcome = DumpedLayout (structure_of t)
     else if unit_err shadows_nothing Map.empty t then \<exists>n. outcome = ParseAborted n
     else outcome = Parsed (unit_tree shadows_nothing Map.empty t) \<and> \<not> hasErrors e')"
  unfolding assms(3,4) by (rule parse_unit [OF assms(1,2)])

theorem parse_compilation_unit_witness:
  "\<exists>e'. parse sample_params sample_vparams sample_invocation []
       (Context R_compilationUnit sample_parse_children) engine_new
     = Inr (Parsed (CompilationUnit 0 [resolved_function 1]), e') \<and> \<not> hasErrors e'"
  using parse_compilation_unit [OF sample_conforms, of engine_new sample_params sample_vparams
      sample_invocation "[]"]
  by (simp add: sample_quiet sample_denotes sample_resolved sample_no_error sample_invocation_def
      hasEmitAction_def hasErrors_def engine_new_def)

text \<open>
  C6. Reading the layout of a compilation unit returns the tree that was written, with every
  reference resolved to the declaration lexical scoping gives it; errors are reported exactly for
  unknown and for twice declared names; the scope of the unit holds exactly its top level
  declarations; and nothing after the unit is consumed.
\<close>

theorem read_compilation_unit:
  fixes a cs
  defines "t \<equiv> CompilationUnit a cs"
  assumes "unit_ok t" and "distinct (map addr_of (nodes t))"
  shows "\<exists>s. readCompilationUnit p e (flatten t @ rest) = Inr (unit_tree shadows_nothing Map.empty t, s)
    \<and> (hasErrors (engine_of s) \<longleftrightarrow> hasErrors e \<or> unit_err shadows_nothing Map.empty t)
    \<and> unitScope s a = Some (push_all (unit_decls shadows_nothing Map.empty t) (createConsistent []))
    \<and> remaining s = rest \<and> currentScope s = [] \<and> modeStack s = []"
  using readCompilationUnit_unit [of a cs p e rest] assms by simp

theorem read_compilation_unit_witness:
  "\<exists>s. readCompilationUnit sample_params engine_new (flatten (CompilationUnit 0 sample_children))
     = Inr (CompilationUnit 0 [resolved_function 1], s) \<and> \<not> hasErrors (engine_of s)"
  using read_compilation_unit [OF sample_unit_ok sample_distinct, of sample_params engine_new "[]"]
  by (auto simp: sample_resolved sample_no_error hasErrors_def engine_new_def)

text \<open>
  C7. Reading the layout of an instantiated meta unit resolves it over the scope of the unit its
  meta declaration is in; its nodes may shadow that very meta declaration under its name and
  nothing else; the reader is left as it was.
\<close>

theorem read_meta_unit:
  fixes a i cs
  defines "t \<equiv> MetaUnit a i cs"
  assumes "unit_ok t" and "distinct (map addr_of (nodes t))"
    and "remaining s = flatten t @ rest" and "top_mode (modeStack s) = Outside"
    and "\<not> isInAnyScope s \<or> scope_isConsistent (currentScope s)"
    and "exportedNode s a = None"
    and "inst_view p i = Some (name, Some decl)" and "isMetaDecl decl"
    and "containingUnit s (obj_addr decl) = Some u" and "isUnitNode (obj_kind u)"
    and "unitScope s (obj_addr u) = Some sc"
    and "addr_of ` set (nodes t) \<inter> insert (obj_addr decl) (scope_addrs sc) = {}"
  shows "\<exists>s'. consumeKind p (reader_fuel s) KindMetaUnit s
      = Inr (unit_tree (shadows_instantiated name decl) (env_of sc) t, s')
    \<and> (hasErrors (engine_of s') \<longleftrightarrow> hasErrors (engine_of s)
        \<or> unit_err (shadows_instantiated name decl) (env_of sc) t)
    \<and> remaining s' = rest \<and> currentScope s' = currentScope s \<and> modeStack s' = modeStack s"
  using consumeMetaUnit_unit [of a i cs s rest p name decl u sc] assms by blast

theorem read_meta_unit_witness:
  "\<exists>s'. consumeKind sample_meta_params (reader_fuel sample_meta_state) KindMetaUnit sample_meta_state
     = Inr (MetaUnit 10 9 [resolved_function 11], s') \<and> \<not> hasErrors (engine_of s')"
  using read_meta_unit [of 10 9 "[sample_function 11]" sample_meta_state "[]" sample_meta_params
      "named ''f''" sample_decl "Obj 4 PCompilationUnit" sample_meta_scope]
  by (auto simp add: sample_meta_facts sample_meta_tree sample_meta_no_error sample_meta_ok
      sample_meta_distinct)

text \<open>
  C8. Reading terminates on every layout, well formed or not: the reader of any node class never
  runs out of its fuel, which is the number of layout elements that are left and two.
\<close>

theorem reader_terminates:
  "consumeKind p (reader_fuel s) k s \<noteq> Inl OutOfFuel"
proof -
  have "wpE (tol True) (consumeKind p (reader_fuel s) k s) (\<lambda>(t, s'). moves s s')"
    using consumeKind_ok [of True "reader_fuel s" p]
    by (auto simp: calls_ok_def call_cost_def reader_fuel_def)
  then show ?thesis by (cases "consumeKind p (reader_fuel s) k s") auto
qed

text \<open>
  C9. Whatever layout is read, a reader that returns has consumed at least one element and none
  past the end, its stack of modes is the one it started with, and its scopes are those it started
  with, with declarations added to the innermost one only.
\<close>

theorem reader_balanced:
  assumes "consumeKind p n k s = Inr (t, s')"
  shows "layout_of s' = layout_of s \<and> pos s < pos s' \<and> pos s' \<le> length (layout_of s)
    \<and> modeStack s' = modeStack s \<and> chain_ext (currentScope s) (currentScope s')"
proof -
  have "wpE (tol False) (consumeKind p n k s) (\<lambda>(t, s'). moves s s')"
    using consumeKind_ok [of False n p] by (auto simp: calls_ok_def)
  with assms show ?thesis by (simp add: moves_def frame_def)
qed

theorem reader_balanced_witness:
  "\<exists>t s'. readCompilationUnit sample_params engine_new (flatten (CompilationUnit 0 sample_children))
     = Inr (t, s') \<and> 0 < pos s' \<and> modeStack s' = []"
proof -
  obtain t s' where r: "readCompilationUnit sample_params engine_new
      (flatten (CompilationUnit 0 sample_children)) = Inr (t, s')"
    using readCompilationUnit_unit [OF sample_unit_ok sample_distinct, of sample_params engine_new "[]"]
    by auto
  from reader_balanced [OF r [unfolded readCompilationUnit_def Let_def]] r show ?thesis
    by (simp add: reader_new_def builder_new_def builder_state.defs)
qed

section \<open>Writing\<close>

text \<open>
  C10. The visitor of a conforming compilation unit appends to its layout exactly the layout of
  the tree the parse tree denotes, allocates its nodes at consecutive addresses in the order they
  are written, and reports the diagnostics of the parse tree in order.
\<close>

theorem visitor_writes_unit:
  assumes "conforms None (Context R_compilationUnit cs)"
  shows "\<exists>st'. visit vp (Context R_compilationUnit cs) st = Inr st'
    \<and> written st' = written st
        @ flatten (CompilationUnit (next_addr st) (build_all vp cs (Suc (next_addr st))))
    \<and> map addr_of (nodes (CompilationUnit (next_addr st) (build_all vp cs (Suc (next_addr st)))))
        = [next_addr st ..< next_addr st']
    \<and> v_engine st' = v_engine (v_report (complaints vp (Context R_compilationUnit cs)) st)"
  using visit_ok [OF assms, of vp st] build_unit(1) [OF assms, of vp "next_addr st"]
  by (auto simp: visited_as_def occurs_at_def)

theorem visitor_writes_unit_witness:
  "\<exists>st'. visit sample_vparams (Context R_compilationUnit sample_parse_children)
      \<lparr>next_addr = 0, written = [], v_engine = engine_new\<rparr> = Inr st'
    \<and> written st' = flatten (CompilationUnit 0 sample_children)"
  using visitor_writes_unit [OF sample_conforms, of sample_vparams
      "\<lparr>next_addr = 0, written = [], v_engine = engine_new\<rparr>"] sample_denotes
  by (auto simp: denoted_unit_def first_address_def)

text \<open>
  C11. A conforming compilation unit whose integer literals fit denotes a syntax tree that obeys
  the grammar of syntax trees, with meta declarations, meta conditions and meta calculations only
  where the depth stack of the parser admits them.
\<close>

theorem denoted_unit_grammatical:
  assumes "conforms None (Context R_compilationUnit cs)" and "lits_ok vp (Context R_compilationUnit cs)"
  shows "unit_ok (CompilationUnit n (build_all vp cs (Suc n)))"
  by (rule build_unit(2) [OF assms])

theorem denoted_unit_grammatical_witness: "unit_ok (CompilationUnit 0 sample_children)"
  using denoted_unit_grammatical [OF sample_conforms, of sample_vparams 0] sample_denotes
    quiet_lits_ok [OF sample_conforms refl sample_quiet]
  by (simp add: denoted_unit_def first_address_def)

text \<open>
  C12. Whatever layout is read, well formed or not: if reading a node of any class returns, the
  elements it has consumed are, one by one, the layout of the tree it returns. Nothing is skipped
  or read twice, every object is in the tree with its own address and arguments, and every reduce
  marker closes the node that needs it.
\<close>

theorem reading_preserves_layout:
  assumes "consumeKind p n k s = Inr (t, s')"
  shows "remaining s = flatten t @ remaining s'"
  by (rule laysD [OF consumeKind_lays assms])

theorem reading_preserves_layout_witness:
  "\<exists>t s'. readCompilationUnit sample_params engine_new (flatten (CompilationUnit 0 sample_children) @ [None]) = Inr (t, s')
     \<and> flatten t = flatten (CompilationUnit 0 sample_children)"
proof -
  obtain t s' where r: "readCompilationUnit sample_params engine_new
      (flatten (CompilationUnit 0 sample_children) @ [None]) = Inr (t, s')" "remaining s' = [None]"
    using readCompilationUnit_unit [OF sample_unit_ok sample_distinct, of sample_params engine_new "[None]"] by auto
  from reading_preserves_layout [OF r(1) [unfolded readCompilationUnit_def Let_def]] r
  show ?thesis by (simp add: remaining_def reader_new_def builder_new_def builder_state.defs)
qed

section \<open>Scopes\<close>

text \<open>
  C13. Looking up a name inside a scope never fails: it gives the innermost visible declaration,
  changes no state but the diagnostics, and reports an error exactly if the name is unknown.
\<close>

theorem lookup_in_scope:
  assumes "currentScope s \<noteq> []"
  shows "\<exists>t. lookup p i s = Inr (lookupIdentifier (getType i) (currentScope s), t)
    \<and> currentScope t = currentScope s \<and> modeStack t = modeStack s
    \<and> (hasErrors (engine_of t) \<longleftrightarrow>
        hasErrors (engine_of s) \<or> lookupIdentifier (getType i) (currentScope s) = None)"
  using lookup_total [OF assms, of p i] lookup_result by metis

theorem lookup_in_scope_witness:
  "\<exists>t. lookup sample_params (named ''f'') ((builder_new engine_new)\<lparr>currentScope := sample_meta_scope\<rparr>)
     = Inr (Some sample_decl, t) \<and> \<not> hasErrors (engine_of t)"
  using lookup_in_scope [of "(builder_new engine_new)\<lparr>currentScope := sample_meta_scope\<rparr>"
      sample_params "named ''f''"]
  by (auto simp add: sample_meta_scope_def named_def builder_new_def hasErrors_def engine_new_def)

text \<open>
  C14. Introducing a declaration whose name is not visible, outside the uncomputed part of a meta
  declaration, makes exactly that name denote the declaration and reports nothing.
\<close>

theorem introduce_fresh:
  assumes "isAllowedToIntroduceDecls s" and "has_allocated (currentScope s)"
    and "lookupIdentifier (name_str d) (currentScope s) = None"
  shows "\<exists>s'. introduce p d s = Inr s' \<and> engine_of s' = engine_of s
    \<and> (\<forall>k. lookupIdentifier k (currentScope s')
          = (if k = name_str d then Some d else lookupIdentifier k (currentScope s)))"
proof -
  from assms(2,3) obtain c where c: "scope_insert (name_str d) d (currentScope s) = Inr c"
    using scope_insert_fresh by blast
  have "currentScope s \<noteq> []" using assms(2) by auto
  with assms c chain.ins_look [OF c] show ?thesis
    by (simp add: introduce_defs isInAnyScope_def assertE_def)
qed

theorem introduce_fresh_witness:
  "\<exists>s'. introduce sample_params (Obj 7 (PFunctionDecl (named ''g'')))
      ((builder_new engine_new)\<lparr>currentScope := sample_meta_scope\<rparr>) = Inr s'
    \<and> lookupIdentifier ''g'' (currentScope s') = Some (Obj 7 (PFunctionDecl (named ''g'')))
    \<and> lookupIdentifier ''f'' (currentScope s') = Some sample_decl"
  using introduce_fresh [of "(builder_new engine_new)\<lparr>currentScope := sample_meta_scope\<rparr>"
      "Obj 7 (PFunctionDecl (named ''g''))" sample_params]
  by (auto simp: sample_meta_scope_def named_def builder_new_def mode_defs name_str_def getName_def)

text \<open>
  C15. Introducing a second declaration of a visible function, variable or constant is rejected:
  an error and a note are reported and no scope changes.
\<close>

theorem introduce_clash:
  assumes "isAllowedToIntroduceDecls s" and "currentScope s \<noteq> []"
    and "lookupIdentifier (name_str d) (currentScope s) = Some prev"
    and "\<not> isMetaDecl prev" and "obj_addr prev \<noteq> obj_addr d"
  shows "\<exists>s'. introduce p d s = Inr s' \<and> currentScope s' = currentScope s
    \<and> getOccurrenceCount (engine_of s') Error = Suc (getOccurrenceCount (engine_of s) Error)
    \<and> getOccurrenceCount (engine_of s') Note = Suc (getOccurrenceCount (engine_of s) Note)"
  using assms
  by (simp add: introduce_defs isInAnyScope_def assertE_def diagnoseAt_def
      getOccurrenceCount_diagnoseRange del: getOccurrenceCount.simps)

theorem introduce_clash_witness:
  "\<exists>s'. introduce sample_params (Obj 8 (PFunctionDecl (named ''g'')))
      ((builder_new engine_new)\<lparr>currentScope :=
         [AllocatedScope True [(''g'', Obj 7 (PFunctionDecl (named ''g'')))]]\<rparr>) = Inr s'
    \<and> getOccurrenceCount (engine_of s') Error = 1"
  using introduce_clash [of "(builder_new engine_new)\<lparr>currentScope :=
         [AllocatedScope True [(''g'', Obj 7 (PFunctionDecl (named ''g'')))]]\<rparr>"
      "Obj 8 (PFunctionDecl (named ''g''))" "Obj 7 (PFunctionDecl (named ''g''))" sample_params]
  by (auto simp: named_def builder_new_def mode_defs name_str_def getName_def isMetaDecl_def
      engine_new_def)

text \<open>
  C16. Inserting a list of new declarations under distinct names succeeds, and afterwards each of
  these names denotes its declaration while every other name denotes what it did before.
\<close>

theorem insert_all_new:
  assumes "has_allocated c" and "distinct (map fst kds)"
    and "\<forall>k \<in> fst ` set kds. lookupIdentifier k c = None"
  shows "\<exists>c'. foldE (\<lambda>(k, d). scope_insert k d) kds c = Inr c'
    \<and> (\<forall>j. lookupIdentifier j c' = (case map_of kds j of Some d \<Rightarrow> Some d | None \<Rightarrow> lookupIdentifier j c))"
  using chain.ins_all_fresh [OF assms] chain.ins_all_look [OF _ assms(2)] by blast

theorem insert_all_new_witness:
  "\<exists>c'. foldE (\<lambda>(k, d). scope_insert k d) [(''a'', sample_decl), (''b'', sample_decl)]
      [AllocatedScope True []] = Inr c'
    \<and> (\<forall>j. lookupIdentifier j c' = (case map_of [(''a'', sample_decl), (''b'', sample_decl)] j of
        Some d \<Rightarrow> Some d | None \<Rightarrow> None))"
  using insert_all_new [of "[AllocatedScope True []]" "[(''a'', sample_decl), (''b'', sample_decl)]"]
  by simp

text \<open>
  C17. The declaration suggested for an unknown name. It is one that some name denotes, so it is
  visible and not shadowed, and that name is below the threshold of the edit distance and at least
  as near as every other visible name; nothing is suggested only if no visible name is below the
  threshold. Each scope keeps its names in a string map, and the order the map is iterated in does
  not matter.
\<close>

theorem similar_declaration_nearest:
  assumes "\<And>es. set (order es) = set es" and "\<forall>c es. AllocatedScope c es \<in> set fs \<longrightarrow> distinct (map fst es)"
  shows "case similarTo ed order str fs of
      None \<Rightarrow> \<forall>k. lookupIdentifier k fs \<noteq> None \<longrightarrow> THRESHOLD \<le> ed str k
    | Some d \<Rightarrow> \<exists>k. lookupIdentifier k fs = Some d \<and> ed str k < THRESHOLD
        \<and> (\<forall>k'. lookupIdentifier k' fs \<noteq> None \<longrightarrow> ed str k \<le> ed str k')"
  using similarTo_spec [OF assms, of ed str] by (cases "similarTo ed order str fs") (auto simp: similar_at_def)

theorem similar_declaration_nearest_witness:
  "\<exists>d. similarTo (\<lambda>x y. if x = y then 0 else 1) rev ''g''
      [AllocatedScope False [(''f'', Obj 5 PCompilationUnit)], AllocatedScope True [(''f'', sample_decl)]] = Some d
    \<and> d = Obj 5 PCompilationUnit"
proof -
  let ?fs = "[AllocatedScope False [(''f'', Obj 5 PCompilationUnit)], AllocatedScope True [(''f'', sample_decl)]]"
  from similar_declaration_nearest [where order = rev and ed = "\<lambda>x y. if x = y then 0 else 1" and str = "''g''"
      and fs = ?fs]
  show ?thesis by (cases "similarTo (\<lambda>x y. if x = y then 0 else 1) rev ''g'' ?fs")
    (auto simp: THRESHOLD_def split: if_splits)
qed

text \<open>
  C18. The objects of a tree. Constructing an object for every node and making the calls of the
  setters the layout reader makes on it never violates an assertion, and every object then has the
  class and the constructor arguments of its node, and as its children the objects of the children
  of the node, in order.
\<close>

theorem assembled_tree:
  assumes "distinct (map addr_of (nodes t))"
  shows "\<exists>h'. build_tree t h = Inr h'
    \<and> (\<forall>u \<in> set (nodes t). \<exists>x. h' (addr_of u) = Some x \<and> node_kind x = getKind u
        \<and> node_payload x = Inr (obj_payload (obj_of u))
        \<and> node_children x = Inr (map (\<lambda>c. Some (addr_of c)) (children u)))
    \<and> (\<forall>a. a \<notin> addr_of ` set (nodes t) \<longrightarrow> h' a = h a)"
  using assembled [OF assms, of h] unfolding stored_def stands_for_def ptr_def .

theorem assembled_tree_witness:
  "\<exists>h' x. build_tree (IfStmt 0 (DeclRefExpr 1 (named ''b'') (Some 9)) (ReturnStmt 2 None) (Some (ReturnStmt 3 None))) Map.empty
      = Inr h' \<and> h' 0 = Some x \<and> node_children x = Inr [Some 1, Some 2, Some 3] \<and> h' 9 = None"
proof -
  let ?t = "IfStmt 0 (DeclRefExpr 1 (named ''b'') (Some 9)) (ReturnStmt 2 None) (Some (ReturnStmt 3 None))"
  have n: "nodes ?t = [?t, DeclRefExpr 1 (named ''b'') (Some 9), ReturnStmt 2 None, ReturnStmt 3 None]"
    by (simp add: nodes_eq)
  have "distinct (map addr_of (nodes ?t))" unfolding n by (simp add: addr_of_simps)
  from assembled_tree [OF this, of Map.empty] obtain h' where a: "build_tree ?t Map.empty = Inr h'"
    and b: "\<forall>u \<in> set (nodes ?t). \<exists>x. h' (addr_of u) = Some x \<and> node_kind x = getKind u
        \<and> node_payload x = Inr (obj_payload (obj_of u)) \<and> node_children x = Inr (map (\<lambda>c. Some (addr_of c)) (children u))"
    and c: "\<forall>a. a \<notin> addr_of ` set (nodes ?t) \<longrightarrow> h' a = Map.empty a" by (elim exE conjE)
  have "?t \<in> set (nodes ?t)" unfolding n by simp
  from bspec [OF b this] have "\<exists>x. h' 0 = Some x \<and> node_children x = Inr [Some 1, Some 2, Some 3]"
    by (auto simp: addr_of_simps)
  moreover from c [rule_format, of 9] have "h' 9 = None" unfolding n by (simp add: addr_of_simps)
  ultimately show ?thesis using a by blast
qed

section \<open>Generating code\<close>

text \<open>
  C19. An instantiation is done once: what a successful instantiation returns is kept, and
  instantiating the same expression again, also where it has to be completed, returns the same
  unit and changes nothing.
\<close>

theorem instantiation_cached:
  assumes "instantiate X n a False s = Inr (Some u, s')"
  shows "cp_instances s' a = Some u \<and> instantiate X (Suc k) a requiresCompleted s' = Inr (Some u, s')"
  using instantiate_caches [OF assms] by (simp add: instantiate.simps instantiateWith_def)

theorem instantiation_cached_witness:
  "cp_instances template_compiler 80 = None \<and> (\<exists>s. instantiate running_external 1 80 False template_compiler = Inr (Some 200, s)
     \<and> cp_instances s 80 = Some 200 \<and> instantiate running_external 2 80 True s = Inr (Some 200, s))"
proof -
  obtain s where s: "instantiate running_external (Suc 0) 80 False template_compiler = Inr (Some 200, s)"
    using template_instantiated by blast
  from instantiation_cached [OF s, of "Suc 0" True] s show ?thesis by (simp add: numeral_2_eq_2)
qed

text \<open>
  C20. A variable as the condition of a branch is not loaded. The function f(int x) int -> { if x
  { return 1; } else { return 0; } } returns whether x is not zero; its code tests the address of
  the stack slot of x and always returns 1.
\<close>

theorem plain_condition_taken:
  "exec_function branch_linkage sample_branch [k] w = Some (Some (if k = 0 then 0 else 1), w)
    \<and> (\<exists>t. codegenFunction [42 \<mapsto> sample_argument] cx sample_branch (fc_new 1 c) = Inr t
        \<and> steps 5 (ir_code (fc_builder t)) call [k] (entry_config w) = Returned (Some 1) w)"
  using branch_meaning [of k w] branch_generated [of cx c] branch_runs [of call k w] by auto

text \<open>
  C21. A statement that follows one that ends the control flow breaks the generator: if a block
  always returns, the block with any further statement makes it dereference a null pointer.
\<close>

theorem dead_code_crashes:
  assumes "codegenStmt h cx (CompoundStmt a cs) b s = Inr (None, s')"
  shows "codegenStmt h cx (CompoundStmt a' (cs @ d # ds)) b s = Inl NullDeref"
  using assms by (auto simp: foldE_append bindE_eq_Inr)

theorem dead_code_crashes_witness:
  "\<forall>h cx c. codegenStmt h cx (CompoundStmt 0 [ReturnStmt 1 None, ReturnStmt 2 None]) 0 (fc_new 0 c) = Inl NullDeref"
proof (intro allI)
  fix h cx c
  have "codegenStmt h cx (CompoundStmt 0 [ReturnStmt 1 None]) 0 (fc_new 0 c)
      = Inr (None, leaveValueScope (buildVoid RetVoid (enterValueScope (fc_new 0 c))))"
    by simp
  from dead_code_crashes [OF this, of 0 "ReturnStmt 2 None" "[]"]
  show "codegenStmt h cx (CompoundStmt 0 [ReturnStmt 1 None, ReturnStmt 2 None]) 0 (fc_new 0 c) = Inl NullDeref"
    by simp
qed

text \<open>
  C22. A function that is needed under two keys is pulled into the execution engine twice, which
  fails. Take any state in which everything a shipment needs is generated, and let the declaration
  of f be one of the keys that are left. If the hash set gives another function g first, and the
  code of g refers to f, then f becomes a key again, as a function of the module, and resolving
  the dependencies fails, whatever order the set has from then on. With fuel for every function of
  the module that is not resolved it is not the fuel that ends it.
\<close>

theorem function_pulled_twice:
  assumes "all_generated X s"
    and "UDecl k \<in> set (cp_unresolved s)" and "symbol_at X s k = Some f" and "f \<notin> set (cp_symbols s)"
    and "required_name X s (first_of (x_hash_unresolved X) (cp_unresolved s)) = Some g" and "g \<noteq> f"
    and "cp_module s g = Some d" and "gl_body d = Some code" and "f \<in> set (referenced code)"
  shows "\<exists>e. resolveDependencies X inst n s = Inl e
    \<and> (card (dom (cp_module s) - set (cp_symbols s)) < n \<longrightarrow> e \<noteq> OutOfFuel)"
  using pulled_twice [OF assms] unfolding fails_within_def .

theorem function_pulled_twice_witness:
  "\<exists>s. bindE (executor_lookup sample_external 60 sample_generated) (\<lambda>(v, s). executor_lookup sample_external 70 s)
      = Inr (VFunction ''g'', s)
    \<and> (\<forall>inst. \<exists>e. resolveDependencies sample_external inst 3 s = Inl e \<and> e \<noteq> OutOfFuel)"
proof -
  let ?m = "[''f'' \<mapsto> prototype (FunctionType VoidTy []), ''g'' \<mapsto> prototype (FunctionType VoidTy [])]"
  let ?s = "pulling [UDecl 70, UDecl 60] [] ?m"
  obtain code where code: "gl_body generated_calling = Some code" "referenced code = [''f'']"
    using pulling_code by blast
  have first: "first_of (x_hash_unresolved sample_external) [UDecl 70, UDecl 60] = UDecl 70"
    by (simp add: first_of_def sample_external_def)
  have "\<exists>e. resolveDependencies sample_external inst 3 ?s = Inl e
      \<and> (card (dom (cp_module ?s) - set (cp_symbols ?s)) < 3 \<longrightarrow> e \<noteq> OutOfFuel)" for inst
    by (rule function_pulled_twice [OF pulling_generated _ pulling_symbols(1) _ _ _ _ code(1), where g = "''g''"])
      (simp_all add: first code(2) required_name_def pulling_symbols del: resolveDependencies.simps)
  moreover have "card (dom (cp_module ?s) - set (cp_symbols ?s)) < 3"
    by (simp add: card_insert_if)
  ultimately have "\<forall>inst. \<exists>e. resolveDependencies sample_external inst 3 ?s = Inl e \<and> e \<noteq> OutOfFuel" by blast
  with pair_required [of sample_external] show ?thesis by (intro exI [of _ ?s] conjI)
qed

text \<open>
  C23. A meta declaration that is used as a value breaks the generator. The checks accept such a
  reference; but no function whose statements refer to one, outside the arguments of an
  instantiation, is generated, whatever has been generated before.
\<close>

theorem meta_value_crashes:
  assumes "h k = Some (MetaDecl m dn ps c)" and "DeclRefExpr r i (Some k) \<in> set (referred t)"
  shows "checkAST h (DeclRefExpr r i (Some k)) e = Inr e
    \<and> codegenFunction h (instance_context X (instantiate X j)) (FunctionDecl a n args ret t) s \<noteq> Inr s'"
  using meta_value_refused [where h = h and k = k and t = t, OF assms] by (simp add: checkAST_safe sema_safe_eq tree_complaints.simps)

theorem meta_value_crashes_witness:
  "\<forall>X j s s'. codegenFunction template_heap (instance_context X (instantiate X j))
     (FunctionDecl 1 (named ''f'') (ArgumentDeclList 2 []) (Some (AnonymousArgumentDecl 3))
       (ReturnStmt 4 (Some (DeclRefExpr 5 (named ''g'') (Some 90))))) s \<noteq> Inr s'"
proof (intro allI)
  fix X j and s :: "compiler fcodegen" and s'
  let ?r = "DeclRefExpr 5 (named ''g'') (Some 90)"
  have "template_heap 90 = Some sample_template" by (simp add: template_heap_def)
  moreover have "?r \<in> set (referred (ReturnStmt 4 (Some ?r)))"
    by (simp add: referred.simps refers_def is_instantiation_def)
  ultimately show "codegenFunction template_heap (instance_context X (instantiate X j))
     (FunctionDecl 1 (named ''f'') (ArgumentDeclList 2 []) (Some (AnonymousArgumentDecl 3))
       (ReturnStmt 4 (Some ?r))) s \<noteq> Inr s'"
    using meta_value_crashes [of template_heap 90] unfolding sample_template_def by blast
qed

section \<open>Semantic analysis\<close>





text \<open>
  C26. A meta instantiation whose reference is unknown, or denotes something else than a meta
  declaration, makes the semantic analysis dereference a null pointer instead of reporting the
  error.
\<close>

theorem sema_instantiation_crash:
  assumes "\<not> instantiates_meta h (DeclRefExpr r n d)"
  shows "accept h (MetaInstantiationExpr a rg (DeclRefExpr r n d) es) s = Inl NullDeref"
  by (rule instantiation_unresolved [OF assms])

theorem sema_instantiation_crash_witness:
  "accept sample_heap (MetaInstantiationExpr 40 \<lparr>getStart = 0, getEnd = 3\<rparr>
     (DeclRefExpr 41 (named ''f'') (Some 1)) []) (sema_new engine_new) = Inl NullDeref"
  using sema_instantiation_crash [of sample_heap 41 "named ''f''" "Some 1" 40
      "\<lparr>getStart = 0, getEnd = 3\<rparr>" "[]" "sema_new engine_new"]
  by (simp add: instantiates_meta_def sample_heap_def resolved_function_def)

section \<open>Dependencies of functions and meta declarations\<close>

text \<open>
  C27. The instantiations a function depends on are consumed in preorder, each once, until the
  consumer refuses one; nested arguments of instantiations are consumed after the instantiation
  they are in.
\<close>

theorem function_dependencies:
  "consumeInstantiationsOfFunction consumer t s
     = bindE (untilE consumer (filter is_instantiation (nodes t)) s) (\<lambda>(ok, s). Inr s)"
  by (simp add: consumeInstantiationsOfFunction_def consumeAll_eq instantiations_def)

text \<open>
  C28. If no meta condition or calculation is nested in a branch of a meta condition, the
  instantiations of a meta declaration that are consumed are those of all conditions and
  calculations that are evaluated when it is instantiated.
\<close>

theorem meta_dependencies:
  assumes "flat_meta t" and "getKind t \<noteq> KindMetaIfStmt" and "getKind t \<noteq> KindMetaCalculationStmt"
  shows "consumeInstantiationsOfMeta consumer t s
     = bindE (untilE consumer (concat (map instantiations (evaluated_roots t))) s) (\<lambda>(ok, s). Inr s)"
  using evaluated_consumed [OF assms(1)] assms(2,3)
  by (simp add: consumeInstantiationsOfMeta_def consumeAllMeta_eq meta_part_eq)

theorem meta_dependencies_witness:
  "consumeInstantiationsOfMeta recorder (sample_meta_if []) [] = Inr [32]"
  using meta_dependencies [of "sample_meta_if []" recorder "[]"]
  by (simp add: sample_dependency_defs flat_meta_eq evaluated_roots.simps instantiations_def
      is_instantiation_def nodes_eq addr_of_def)

text \<open>
  C29. What the dependency analysis leaves out. Take a condition or calculation r below a branch
  of a meta condition of a meta declaration whose nodes have addresses of their own, and an
  instantiation i that r refers to. Then i is not among the instantiations the analysis hands
  over; yet the code of r is generated with the declaration, so that the code of the declaration
  cannot be generated unless i happens to be instantiated already.
\<close>

theorem nested_meta_skipped:
  assumes "node = MetaDecl a m args c" and "distinct (map addr_of (nodes node))"
    and "r \<in> set (nested_roots c)" and "i \<in> set (referred r)" and "is_instantiation i"
  shows "consumeInstantiationsOfMeta consumer node s
      = bindE (untilE consumer (meta_instantiations node) s) (\<lambda>(ok, s). Inr s)
    \<and> i \<notin> set (meta_instantiations node)
    \<and> (cp_instances S (addr_of i) = None \<longrightarrow>
      codegenMetaFunction h (executor_context X (instantiate X n)) node (mg_new k S) \<noteq> Inr g)"
proof -
  have "r \<in> set (nested_roots node)" using assms(1,3) by (simp add: nested_roots.simps [of "MetaDecl a m args c"])
  then have "i \<notin> set (meta_instantiations node)"
    using nested_not_consumed [OF assms(2)] referred_node [OF assms(4)] assms(1) by (simp add: meta_part_eq)
  moreover have "r \<in> set (evaluated_roots c)" using nested_evaluated assms(3) by blast
  ultimately show ?thesis
    using executor_refused [OF assms(4) _ assms(5)] assms(1)
    by (simp add: consumeInstantiationsOfMeta_def consumeAllMeta_eq)
qed

theorem nested_meta_skipped_witness:
  "consumeInstantiationsOfMeta recorder sample_nested [] = Inr [32]
    \<and> (\<forall>h X n k g. codegenMetaFunction h (executor_context X (instantiate X n)) sample_nested (mg_new k sample_compiler) \<noteq> Inr g)"
proof (intro conjI allI)
  note skipped = nested_meta_skipped [OF sample_nested_def sample_nested_facts(1-3) sample_nested_facts(4)]
  have "meta_instantiations sample_nested = [sample_instantiation 32 ''f'']"
    unfolding sample_nested_def sample_dependency_defs
    by (simp add: meta_instantiations_def meta_roots.simps meta_part_def instantiations_def is_instantiation_def nodes_eq)
  then show "consumeInstantiationsOfMeta recorder sample_nested [] = Inr [32]"
    using skipped [THEN conjunct1, of recorder "[]"] by (simp add: recorder_def sample_instantiation_def addr_of_simps)
  fix h X n k g
  have "cp_instances sample_compiler (addr_of (sample_instantiation 37 ''h'')) = None"
    by (simp add: sample_compiler_def sample_pair_def)
  then show "codegenMetaFunction h (executor_context X (instantiate X n)) sample_nested (mg_new k sample_compiler) \<noteq> Inr g"
    by (rule skipped [THEN conjunct2, THEN conjunct2, THEN mp])
qed

section \<open>Symbols\<close>

text \<open>
  C30. Two functions or meta declarations have the same mangled name only if they have the same
  name and are in the source file, or in the unit of the same instantiation.
\<close>

theorem mangled_names_distinct:
  assumes "inj fmt" and "\<And>i. separator \<notin> set (fmt i)"
    and "separator \<notin> set (getType n)" and "separator \<notin> set (getType m)"
    and "mangleNameOf fmt up u n = mangleNameOf fmt up v m"
  shows "unit_key u = unit_key v \<and> getType n = getType m"
  by (rule mangleNameOf_inject [OF assms])

theorem mangled_names_distinct_witness:
  "mangleNameOf (\<lambda>i. replicate i (CHR ''1'')) (\<lambda>a. Obj 0 PCompilationUnit) (Obj 3 (PMetaUnit 1)) (named ''f'')
     \<noteq> mangleNameOf (\<lambda>i. replicate i (CHR ''1'')) (\<lambda>a. Obj 0 PCompilationUnit) (Obj 4 (PMetaUnit 2)) (named ''f'')"
proof -
  have "inj (\<lambda>i. replicate i (CHR ''1''))" by (rule injI) (metis length_replicate)
  then show ?thesis
    using mangled_names_distinct [of "\<lambda>i. replicate i (CHR ''1'')" "named ''f''" "named ''f''"
        "\<lambda>a. Obj 0 PCompilationUnit" "Obj 3 (PMetaUnit 1)" "Obj 4 (PMetaUnit 2)"]
    by (auto simp: separator_def named_def unit_key_def)
qed

text \<open>
  C31. No function or meta declaration has the symbol of a callback or another symbol of the
  compiler.
\<close>

theorem symbols_reserved:
  assumes "\<And>i. separator \<notin> set (fmt i)" and "separator \<notin> set symbol"
    and "separator \<notin> set (getType n)" and "getType n \<noteq> []"
  shows "mangleNameOf fmt up u n \<noteq> mangleSymbolOf symbol"
  by (rule mangleNameOf_not_symbol [OF assms])

theorem symbols_reserved_witness:
  "mangleNameOf (\<lambda>i. []) (\<lambda>a. Obj 0 PCompilationUnit) (Obj 3 (PMetaUnit 1)) (named ''f'') \<noteq> callback_contribute"
  using symbols_reserved [of "\<lambda>i. []" "''callback_contribute''" "named ''f''"
      "\<lambda>a. Obj 0 PCompilationUnit" "Obj 3 (PMetaUnit 1)"]
  by (simp add: callback_contribute_def separator_def named_def)

section \<open>Instantiation\<close>

text \<open>
  C32. Contributing the nodes and reduce markers of a tree clones it: the layout that is written
  is the layout of a copy of the tree at the next free addresses, and reading it gives that copy,
  resolved.
\<close>

theorem contributed_tree_read_back:
  fixes a cs
  defines "t \<equiv> CompilationUnit a cs"
  assumes "unit_ok t"
  shows "\<exists>c s. foldE (run_callback ci inst) (replay (flatten t)) \<lparr>c_layout = [], c_next = n, c_engine = e\<rparr> = Inr c
    \<and> c_layout c = flatten (copy_at n t) \<and> c_next c = n + node_count t
    \<and> readCompilationUnit p e (c_layout c) = Inr (unit_tree shadows_nothing Map.empty (copy_at n t), s)"
  using unit_ok_copy [OF assms(2), of n] addrs_copy [of n t]
    readCompilationUnit_unit [of n "copies_at (Suc n) cs" p e "[]"]
  by (auto simp: run_replay number_flatten t_def copy_units)

theorem contributed_tree_read_back_witness:
  "\<exists>c s. foldE (run_callback sample_invocation ''f<>'') (replay (flatten (CompilationUnit 0 sample_children)))
      \<lparr>c_layout = [], c_next = 50, c_engine = engine_new\<rparr> = Inr c
    \<and> readCompilationUnit sample_params engine_new (c_layout c)
      = Inr (unit_tree shadows_nothing Map.empty (copy_at 50 (CompilationUnit 0 sample_children)), s)"
  using contributed_tree_read_back [OF sample_unit_ok, of sample_invocation "''f<>''" 50 engine_new
      sample_params] by blast

text \<open>
  C33. An introduced declaration is written as a local variable inside a function and as a global
  constant outside, initialised with its value. Nothing is printed, except, if the invocation asks
  for verbose exports, the one note on the exported name and value.
\<close>

theorem introduced_constant:
  assumes "isNamedDeclContext (obj_kind node)"
  shows "\<exists>c'. run_callback ci inst (IntroduceNode node val depth) c = Inr c'
    \<and> c_layout c' = c_layout c @ flatten (copy_at (c_next c) (constant_tree node val depth))
    \<and> c_next c' = c_next c + 2
    \<and> c_engine c' = (if hasVerboseFlag ci VInstantiatedExports
        then diagnoseAt NoteInstantiationExported (getName node)
          [ArgStr inst, ArgStr (name_str node), ArgInt (sint val)] (c_engine c)
        else c_engine c)"
proof -
  have "node_count (constant_tree node val depth) = 2"
    by (simp add: constant_tree_def Let_def node_count_children)
  then show ?thesis using run_introduce [OF assms, of ci inst val depth c] by (simp add: number_flatten export_note_def)
qed

theorem introduced_constant_witness:
  "\<exists>c'. run_callback sample_invocation ''f<>'' (IntroduceNode (Obj 2 (PNamedArgumentDecl (named ''x''))) 7 TopLevel)
      \<lparr>c_layout = [], c_next = 50, c_engine = engine_new\<rparr> = Inr c' \<and> length (c_layout c') = 2
    \<and> c_engine c' = engine_new"
  using introduced_constant [of "Obj 2 (PNamedArgumentDecl (named ''x''))" sample_invocation "''f<>''" 7
      TopLevel "\<lparr>c_layout = [], c_next = 50, c_engine = engine_new\<rparr>"]
  by (auto simp: constant_tree_def flatten_eq kind_pred_defs sample_invocation_def hasVerboseFlag_def)

section \<open>Diagnostics\<close>

text \<open>
  C34. The engine counts what it prints: after any number of diagnostics the counter of each
  severity is the number of printed messages of that severity, and each message is printed with
  the kind of its own severity.
\<close>

theorem engine_counts_messages:
  "engine_ok (fold (\<lambda>(d, r, args). diagnoseRange d r args) reports engine_new)"
proof -
  have "engine_ok (fold (\<lambda>(d, r, args). diagnoseRange d r args) reports e)" if "engine_ok e" for e
    using that by (induction reports arbitrary: e) (auto simp: engine_ok_diagnoseRange)
  then show ?thesis using engine_ok_new by blast
qed

text \<open>
  C35. A token position of the lexer is translated to the offset of that character: for a line
  that starts after a prefix holding all earlier line ends, the offset is the length of the prefix
  plus the column, cut off at the end of the buffer.
\<close>

theorem fromSource_exact:
  assumes "length (filter (\<lambda>c. c = CHR 0x0A) pre) = n" and "pre = [] \<or> last pre = CHR 0x0A"
  shows "fromSource (pre @ rest) (Suc n) col = min (length pre + col) (length (pre @ rest))"
  using from_source_lines_skip [OF assms, of "[]" rest]
  by (simp add: fromSource_def from_source_chars_eq)

theorem fromSource_exact_witness: "fromSource [CHR ''a'', CHR 0x0A, CHR ''b'', CHR ''c''] 2 1 = 3"
  using fromSource_exact [of "[CHR ''a'', CHR 0x0A]" 1 "''bc''" 1] by (simp add: eval_nat_numeral)

text \<open>
  C36. Every syntax error of the lexer or the parser counts as exactly one error, whoever reports
  it and wherever it is, and as nothing else.
\<close>

theorem syntax_errors_counted:
  "getOccurrenceCount (syntaxErrors buf errs e) s
     = getOccurrenceCount e s + (if s = Error then length errs else 0)"
  by (rule getOccurrenceCount_syntaxErrors)

section \<open>Cursors and tools\<close>

text \<open>
  C37. The cursor of the code generator is balanced: ascending from a node undoes exactly the
  descent into it, and nothing but such an ascent is undone by a descent.
\<close>

theorem cursor_inverse: "cursor_descend k c = Inr c' \<longleftrightarrow> cursor_ascend k c' = Inr c"
  using cursor_ascend_descend cursor_descend_ascend by blast

text \<open>
  C38. The structured dump of a written tree has the shape of the tree: one entry per node, in
  order, each closed by the reduce marker its class has; the dump consumes the layout exactly.
\<close>

theorem dump_written_tree: "dumpLayout (flatten t) = Inr (structure_of t)"
  by (rule dumpLayout_flatten)

text \<open>
  C39. Dumping terminates on every layout, malformed ones included.
\<close>

theorem dump_terminates: "dumpLayout l \<noteq> Inl OutOfFuel"
  by (rule dumpLayout_total)

text \<open>
  C40. The crawl over a production visits, in order, the roots of its trees and the nodes below
  roots without a reduce marker, and stops before the marker of the production.
\<close>

theorem crawl_visits:
  assumes "remaining s = flattens ts @ None # rest"
  shows "crawlCurrentScope consumer s = foldE consumer (map obj_of (concat (map crawl_nodes ts))) s"
proof -
  have "length (flattens ts) < crawl_fuel s"
    using arg_cong [OF assms, of length] by (simp add: remaining_def crawl_fuel_def)
  with crawl_loop_flattens [OF assms] show ?thesis by (simp add: crawlCurrentScope_def)
qed

theorem crawl_visits_witness:
  "crawlCurrentScope (\<lambda>n s. Inr (s\<lparr>exportedNode := (exportedNode s)(0 \<mapsto> obj_addr n)\<rparr>))
      (reader_new engine_new (flattens sample_children @ [None]))
    = Inr ((reader_new engine_new (flattens sample_children @ [None]))\<lparr>exportedNode := [0 \<mapsto> 1]\<rparr>)"
proof -
  have rem: "remaining (reader_new engine_new (flattens sample_children @ [None]))
      = flattens sample_children @ None # []"
    by (simp add: remaining_def reader_new_def builder_state.defs)
  show ?thesis
    unfolding crawl_visits [OF rem]
    by (simp add: sample_defs crawl_nodes.simps kind_pred_defs reader_new_def builder_new_def
        builder_state.defs)
qed

end
